(* ===== verification/Prelude.thy ===== *)
theory Prelude
  imports Main "HOL-Library.Word" "HOL-Library.Monad_Syntax"
begin

text \<open>
  The prelude: what every component shares.  C strings and the decimal and
  hexadecimal renderings of \<^verbatim>\<open>printf\<close>, the bounded message buffers of
  \<^verbatim>\<open>snprintf\<close>, the arrays that grow by doubling (every list of the program is
  one), the string hash of both symbol tables, and the named collections the
  component proofs use.
\<close>

unbundle bit_operations_syntax

named_theorems parser_simps \<open>equations of the parser's primitive operations\<close>
named_theorems sem_simps \<open>equations of the semantic analyser's primitive operations\<close>
named_theorems ir_simps \<open>equations of the IR builder's primitive operations\<close>

section \<open>C strings\<close>

text \<open>A C string ends at its first NUL byte; everything the program copies with
  \<^verbatim>\<open>strlen\<close>, \<^verbatim>\<open>strcpy\<close> and \<^verbatim>\<open>strcmp\<close> stops there.\<close>

definition NUL :: char where
  "NUL = CHR 0x00"

definition newline :: char where
  "newline = CHR 0x0A"

definition c_string :: "string \<Rightarrow> string" where
  "c_string s = takeWhile (\<lambda>c. c \<noteq> NUL) s"

lemma c_string_idem [simp]: "c_string (c_string s) = c_string s"
  unfolding c_string_def takeWhile_eq_all_conv using set_takeWhileD by fastforce

lemma c_string_no_NUL: "NUL \<notin> set (c_string s)"
  unfolding c_string_def using set_takeWhileD by fastforce

lemma c_string_id: "NUL \<notin> set s \<Longrightarrow> c_string s = s"
  by (auto simp: c_string_def takeWhile_eq_all_conv)

section \<open>Numbers as text\<close>

definition digit_char :: "nat \<Rightarrow> char" where
  "digit_char n = char_of (48 + n)"

text \<open>\<^verbatim>\<open>%u\<close> and \<^verbatim>\<open>%zu\<close>.\<close>

fun show_nat :: "nat \<Rightarrow> string" where
  "show_nat n = (if n < 10 then [digit_char n] else show_nat (n div 10) @ [digit_char (n mod 10)])"

declare show_nat.simps [simp del]

text \<open>\<^verbatim>\<open>%ld\<close> and \<^verbatim>\<open>%d\<close>.\<close>

definition show_int :: "int \<Rightarrow> string" where
  "show_int i = (if i < 0 then CHR ''-'' # show_nat (nat (- i)) else show_nat (nat i))"

text \<open>\<^verbatim>\<open>%02X\<close> of a byte.\<close>

definition hex_digit :: "nat \<Rightarrow> char" where
  "hex_digit n = (if n < 10 then char_of (48 + n) else char_of (55 + n))"

definition show_hex2 :: "char \<Rightarrow> string" where
  "show_hex2 c = [hex_digit (of_char c div 16), hex_digit (of_char c mod 16)]"

definition is_digit :: "char \<Rightarrow> bool" where
  "is_digit c \<longleftrightarrow> 48 \<le> (of_char c :: nat) \<and> (of_char c :: nat) \<le> 57"

definition digit_value :: "char \<Rightarrow> nat" where
  "digit_value c = of_char c - 48"

text \<open>The value of a run of decimal digits, most significant first.\<close>

definition digits_value :: "string \<Rightarrow> nat" where
  "digits_value s = foldl (\<lambda>acc c. 10 * acc + digit_value c) 0 s"

lemma of_char_digit_char [simp]: "n < 10 \<Longrightarrow> (of_char (digit_char n) :: nat) = 48 + n"
  by (simp add: digit_char_def)

lemma is_digit_digit_char [simp]: "n < 10 \<Longrightarrow> is_digit (digit_char n)"
  by (simp add: is_digit_def)

lemma digit_value_digit_char [simp]: "n < 10 \<Longrightarrow> digit_value (digit_char n) = n"
  by (simp add: digit_value_def)

lemma show_nat_digits: "\<forall>c \<in> set (show_nat n). is_digit c"
proof (induction n rule: show_nat.induct)
  case (1 n)
  then show ?case by (subst show_nat.simps) auto
qed

lemma show_nat_not_Nil [simp]: "show_nat n \<noteq> []"
  by (subst show_nat.simps) simp

lemma digits_value_snoc: "digits_value (s @ [c]) = 10 * digits_value s + digit_value c"
  by (simp add: digits_value_def)

lemma digits_value_show_nat [simp]: "digits_value (show_nat n) = n"
proof (induction n rule: show_nat.induct)
  case (1 n)
  show ?case
  proof (cases "n < 10")
    case True
    then show ?thesis by (subst show_nat.simps) (simp add: digits_value_def)
  next
    case False
    with 1 have "digits_value (show_nat (n div 10)) = n div 10" by simp
    with False show ?thesis by (subst show_nat.simps) (simp add: digits_value_snoc)
  qed
qed

lemma show_nat_inject [simp]: "show_nat m = show_nat n \<longleftrightarrow> m = n"
  by (metis digits_value_show_nat)

section \<open>Message buffers\<close>

text \<open>\<^verbatim>\<open>snprintf(message, sizeof(message), ...)\<close> keeps at most \<open>n - 1\<close> bytes.\<close>

definition snprintf :: "nat \<Rightarrow> string \<Rightarrow> string" where
  "snprintf n s = take (n - 1) s"

lemma length_snprintf: "0 < n \<Longrightarrow> length (snprintf n s) < n"
  by (simp add: snprintf_def)

lemma snprintf_fits [simp]: "length s < n \<Longrightarrow> snprintf n s = s"
  by (simp add: snprintf_def)

section \<open>Arrays that grow by doubling\<close>

text \<open>The fields \<^verbatim>\<open>items\<close>, \<^verbatim>\<open>count\<close>, \<^verbatim>\<open>capacity\<close> of the
  program's lists: the count is the length of the list.  Allocation is taken to
  succeed, here and everywhere in the development.\<close>

record 'a growable =
  items :: "'a list"
  capacity :: nat

definition growable_init :: "'a growable" where
  "growable_init = \<lparr>items = [], capacity = 0\<rparr>"

definition grown_capacity :: "nat \<Rightarrow> nat" where
  "grown_capacity c = (if c = 0 then 4 else c * 2)"

definition growable_append :: "'a growable \<Rightarrow> 'a \<Rightarrow> 'a growable" where
  "growable_append l x =
     \<lparr>items = items l @ [x],
      capacity = (if length (items l) = capacity l then grown_capacity (capacity l)
                  else capacity l)\<rparr>"

definition growable_ok :: "'a growable \<Rightarrow> bool" where
  "growable_ok l \<longleftrightarrow> length (items l) \<le> capacity l"

lemma items_growable_init [simp]: "items growable_init = []"
  by (simp add: growable_init_def)

lemma items_growable_append [simp]: "items (growable_append l x) = items l @ [x]"
  by (simp add: growable_append_def)

lemma growable_ok_init [simp]: "growable_ok growable_init"
  by (simp add: growable_ok_def growable_init_def)

lemma growable_ok_append: "growable_ok l \<Longrightarrow> growable_ok (growable_append l x)"
  by (auto simp: growable_ok_def growable_append_def grown_capacity_def)

section \<open>The string hash\<close>

text \<open>Both symbol tables hash a name with Bernstein's function on
  \<^verbatim>\<open>size_t\<close>, which wraps at 64 bits.\<close>

type_synonym size_t = "64 word"

definition hash_step :: "size_t \<Rightarrow> char \<Rightarrow> size_t" where
  "hash_step h c = (push_bit 5 h + h) + of_char c"

definition djb2 :: "string \<Rightarrow> size_t" where
  "djb2 name = foldl hash_step 5381 name"

lemma hash_step_times_33: "hash_step h c = 33 * h + of_char c"
  by (simp add: hash_step_def push_bit_eq_mult)

section \<open>Results of fallible computations\<close>

text \<open>The computation has a result, and the result satisfies the postcondition.\<close>

definition returns :: "'a option \<Rightarrow> ('a \<Rightarrow> bool) \<Rightarrow> bool" where
  "returns m Q = (case m of None \<Rightarrow> False | Some x \<Rightarrow> Q x)"

lemma returns_simps [simp]:
  "\<not> returns None Q"
  "returns (Some x) Q = Q x"
  by (simp_all add: returns_def)

lemma returns_bind [simp]: "returns (m \<bind> f) Q = returns m (\<lambda>x. returns (f x) Q)"
  by (cases m) simp_all

lemma returns_mono: "returns m P \<Longrightarrow> (\<And>x. P x \<Longrightarrow> Q x) \<Longrightarrow> returns m Q"
  by (cases m) simp_all

lemma returns_pair_mono:
  "returns m (\<lambda>(a, p). P a p) \<Longrightarrow> (\<And>a p. P a p \<Longrightarrow> Q (a, p)) \<Longrightarrow> returns m Q"
  by (cases m) auto

lemma returns_pair_bind:
  "returns m (\<lambda>(a, p). P a p) \<Longrightarrow> (\<And>a p. P a p \<Longrightarrow> returns (k a p) Q) \<Longrightarrow>
   returns (m \<bind> (\<lambda>(a, p). k a p)) Q"
  by (cases m) auto

lemma returns_Ex: "returns m Q \<longleftrightarrow> (\<exists>x. m = Some x \<and> Q x)"
  by (cases m) simp_all

section \<open>Lists\<close>

lemma prefix_take_drop: "n \<le> length s \<Longrightarrow> take n s @ drop n s = s"
  by simp

lemma take_past: "length w < n \<Longrightarrow> take n (w @ c # cs) = w @ c # take (n - Suc (length w)) cs"
  by (auto dest!: less_imp_Suc_add simp: Suc_diff_le)

lemma foldl_append_items:
  "foldl (\<lambda>acc x. acc @ f x) a xs = a @ concat (map f xs)"
  by (induction xs arbitrary: a) auto

end
