(* ===== verification/Regex.thy ===== *)
theory Regex
  imports Prelude
begin

text \<open>
  The POSIX extended regular expressions of the lexer's token table and the
  matching that \<^verbatim>\<open>regexec\<close> does with them: leftmost, hence here (every
  pattern starts with the anchor) a prefix of the subject, and the longest one.  A
  pattern may end with the word-boundary assertion of glibc.  The matcher works with
  derivatives; \<open>regexec_Some_iff\<close> and \<open>regexec_None_iff\<close> say
  that it finds exactly the longest prefix in the pattern's language.
\<close>

section \<open>Syntax and language\<close>

text \<open>\<open>Bracket neg rs\<close> is a bracket expression: the ranges \<open>rs\<close>,
  complemented if \<open>neg\<close>.\<close>

datatype rexp =
    Zero
  | One
  | Chr char
  | AnyChar
  | Bracket bool "(char \<times> char) list"
  | Seq rexp rexp
  | Alt rexp rexp
  | Star rexp

definition Plus :: "rexp \<Rightarrow> rexp" where
  "Plus r = Seq r (Star r)"

fun Str :: "string \<Rightarrow> rexp" where
  "Str [] = One"
| "Str [c] = Chr c"
| "Str (c # cs) = Seq (Chr c) (Str cs)"

definition in_range :: "char \<Rightarrow> char \<times> char \<Rightarrow> bool" where
  "in_range c r \<longleftrightarrow> (of_char (fst r) :: nat) \<le> of_char c \<and> (of_char c :: nat) \<le> of_char (snd r)"

definition in_bracket :: "char \<Rightarrow> bool \<Rightarrow> (char \<times> char) list \<Rightarrow> bool" where
  "in_bracket c neg rs \<longleftrightarrow> (if neg then \<not> list_ex (in_range c) rs else list_ex (in_range c) rs)"

inductive matches :: "rexp \<Rightarrow> string \<Rightarrow> bool" where
  One: "matches One []"
| Chr: "matches (Chr c) [c]"
| AnyChar: "matches AnyChar [c]"
| Bracket: "in_bracket c neg rs \<Longrightarrow> matches (Bracket neg rs) [c]"
| Seq: "matches r s \<Longrightarrow> matches q t \<Longrightarrow> matches (Seq r q) (s @ t)"
| AltL: "matches r s \<Longrightarrow> matches (Alt r q) s"
| AltR: "matches q s \<Longrightarrow> matches (Alt r q) s"
| StarNil: "matches (Star r) []"
| StarCons: "matches r s \<Longrightarrow> matches (Star r) t \<Longrightarrow> matches (Star r) (s @ t)"

inductive_cases matches_ZeroE [elim!]: "matches Zero s"
inductive_cases matches_OneE [elim!]: "matches One s"
inductive_cases matches_ChrE [elim!]: "matches (Chr c) s"
inductive_cases matches_AnyE [elim!]: "matches AnyChar s"
inductive_cases matches_BracketE [elim!]: "matches (Bracket n rs) s"
inductive_cases matches_SeqE [elim!]: "matches (Seq r q) s"
inductive_cases matches_AltE [elim!]: "matches (Alt r q) s"

text \<open>The language, equation by equation.\<close>

lemma matches_Seq_iff: "matches (Seq r q) s \<longleftrightarrow> (\<exists>u v. s = u @ v \<and> matches r u \<and> matches q v)"
  by (auto intro: matches.Seq)

lemma matches_simps [simp]:
  "matches Zero s \<longleftrightarrow> False"
  "matches One s \<longleftrightarrow> s = []"
  "matches (Chr c) s \<longleftrightarrow> s = [c]"
  "matches AnyChar s \<longleftrightarrow> (\<exists>c. s = [c])"
  "matches (Bracket n rs) s \<longleftrightarrow> (\<exists>c. s = [c] \<and> in_bracket c n rs)"
  "matches (Alt r q) s \<longleftrightarrow> matches r s \<or> matches q s"
  by (auto intro: matches.intros)

section \<open>Derivatives\<close>

fun nullable :: "rexp \<Rightarrow> bool" where
  "nullable Zero = False"
| "nullable One = True"
| "nullable (Chr c) = False"
| "nullable AnyChar = False"
| "nullable (Bracket n rs) = False"
| "nullable (Seq r q) = (nullable r \<and> nullable q)"
| "nullable (Alt r q) = (nullable r \<or> nullable q)"
| "nullable (Star r) = True"

definition mk_seq :: "rexp \<Rightarrow> rexp \<Rightarrow> rexp" where
  "mk_seq r q = (if r = Zero then Zero else if r = One then q else Seq r q)"

definition mk_alt :: "rexp \<Rightarrow> rexp \<Rightarrow> rexp" where
  "mk_alt r q = (if r = Zero then q else if q = Zero then r else Alt r q)"

fun deriv :: "char \<Rightarrow> rexp \<Rightarrow> rexp" where
  "deriv c Zero = Zero"
| "deriv c One = Zero"
| "deriv c (Chr d) = (if c = d then One else Zero)"
| "deriv c AnyChar = One"
| "deriv c (Bracket n rs) = (if in_bracket c n rs then One else Zero)"
| "deriv c (Seq r q) =
     (if nullable r then mk_alt (mk_seq (deriv c r) q) (deriv c q) else mk_seq (deriv c r) q)"
| "deriv c (Alt r q) = mk_alt (deriv c r) (deriv c q)"
| "deriv c (Star r) = mk_seq (deriv c r) (Star r)"

lemma nullable_matches: "nullable r \<longleftrightarrow> matches r []"
proof
  show "nullable r \<Longrightarrow> matches r []"
    by (induction r) (auto intro: matches.intros dest: matches.Seq [of _ "[]" _ "[]", simplified])
next
  have "matches r s \<Longrightarrow> s = [] \<Longrightarrow> nullable r" for s
    by (induction rule: matches.induct) auto
  then show "matches r [] \<Longrightarrow> nullable r" by simp
qed

lemma matches_mk_seq [simp]: "matches (mk_seq r q) s \<longleftrightarrow> matches (Seq r q) s"
  by (simp add: mk_seq_def matches_Seq_iff)

lemma matches_mk_alt [simp]: "matches (mk_alt r q) s \<longleftrightarrow> matches (Alt r q) s"
  by (simp add: mk_alt_def)

lemma matches_Star_Cons:
  "matches (Star r) s \<Longrightarrow> s = c # t \<Longrightarrow> \<exists>u v. t = u @ v \<and> matches r (c # u) \<and> matches (Star r) v"
proof (induction "Star r" s arbitrary: t rule: matches.induct)
  case (StarCons s u)
  then show ?case by (cases s) auto
qed simp

lemma matches_deriv: "matches (deriv c r) s \<longleftrightarrow> matches r (c # s)"
proof (induction r arbitrary: s)
  case (Seq r q)
  have "matches (Seq r q) (c # s) \<longleftrightarrow>
      (\<exists>u v. s = u @ v \<and> matches r (c # u) \<and> matches q v) \<or> (matches r [] \<and> matches q (c # s))"
    by (auto simp: matches_Seq_iff Cons_eq_append_conv)
  then show ?case
    by (simp add: Seq.IH nullable_matches matches_Seq_iff)
next
  case (Star r)
  then show ?case
    using matches.StarCons [of r "c # _"] by (auto simp: matches_Seq_iff dest: matches_Star_Cons)
qed (auto intro: matches.intros)

section \<open>Patterns and the longest match\<close>

text \<open>A pattern of the token table: anchored at the start, with or without the
  final word boundary.\<close>

datatype pattern = Pattern (body: rexp) (bounded: bool)

definition word_char :: "char \<Rightarrow> bool" where
  "word_char c \<longleftrightarrow> in_bracket c False [(CHR ''_'', CHR ''_''), (CHR ''a'', CHR ''z''),
     (CHR ''A'', CHR ''Z''), (CHR ''0'', CHR ''9'')]"

definition is_word :: "char option \<Rightarrow> bool" where
  "is_word co = (case co of None \<Rightarrow> False | Some c \<Rightarrow> word_char c)"

definition head_opt :: "string \<Rightarrow> char option" where
  "head_opt s = (case s of [] \<Rightarrow> None | c # _ \<Rightarrow> Some c)"

definition boundary_ok :: "bool \<Rightarrow> char option \<Rightarrow> string \<Rightarrow> bool" where
  "boundary_ok b prev rest \<longleftrightarrow> (b \<longrightarrow> is_word prev \<noteq> is_word (head_opt rest))"

fun longest :: "bool \<Rightarrow> rexp \<Rightarrow> char option \<Rightarrow> string \<Rightarrow> nat option" where
  "longest b r prev [] = (if nullable r \<and> boundary_ok b prev [] then Some 0 else None)"
| "longest b r prev (c # s) =
     (if r = Zero then None
      else case longest b (deriv c r) (Some c) s of
             Some n \<Rightarrow> Some (Suc n)
           | None \<Rightarrow> if nullable r \<and> boundary_ok b prev (c # s) then Some 0 else None)"

lemma longest_Zero [simp]: "longest b Zero prev s = None"
  by (cases s) simp_all

definition regexec :: "pattern \<Rightarrow> string \<Rightarrow> nat option" where
  "regexec p s = longest (bounded p) (body p) None s"

definition last_opt :: "char option \<Rightarrow> string \<Rightarrow> char option" where
  "last_opt prev s = (if s = [] then prev else Some (last s))"

text \<open>The declarative reading: the first \<open>n\<close> characters of \<open>s\<close>
  match, up to the boundary assertion.\<close>

definition matches_at :: "pattern \<Rightarrow> string \<Rightarrow> nat \<Rightarrow> bool" where
  "matches_at p s n \<longleftrightarrow> n \<le> length s \<and> matches (body p) (take n s)
     \<and> boundary_ok (bounded p) (last_opt None (take n s)) (drop n s)"

definition match_from :: "bool \<Rightarrow> rexp \<Rightarrow> char option \<Rightarrow> string \<Rightarrow> nat \<Rightarrow> bool" where
  "match_from b r prev s n \<longleftrightarrow> n \<le> length s \<and> matches r (take n s)
     \<and> boundary_ok b (last_opt prev (take n s)) (drop n s)"

lemma match_from_0: "match_from b r prev s 0 \<longleftrightarrow> nullable r \<and> boundary_ok b prev s"
  by (simp add: match_from_def nullable_matches last_opt_def)

lemma match_from_Suc:
  "match_from b r prev (c # s) (Suc n) \<longleftrightarrow> match_from b (deriv c r) (Some c) s n"
  by (auto simp: match_from_def matches_deriv last_opt_def)

lemma match_from_Zero [simp]: "\<not> match_from b Zero prev s n"
  by (auto simp: match_from_def)

lemma match_from_Nil: "match_from b r prev [] n \<longleftrightarrow> n = 0 \<and> nullable r \<and> boundary_ok b prev []"
  by (auto simp: match_from_def nullable_matches last_opt_def)

lemma longest_None: "longest b r prev s = None \<Longrightarrow> \<not> match_from b r prev s n"
proof (induction b r prev s arbitrary: n rule: longest.induct)
  case (2 b r prev c s)
  then show ?case
    by (cases n) (auto simp: match_from_0 match_from_Suc split: if_splits option.splits)
qed (auto simp: match_from_Nil split: if_splits)

lemma longest_Some:
  "longest b r prev s = Some n \<Longrightarrow>
     match_from b r prev s n \<and> (\<forall>m. match_from b r prev s m \<longrightarrow> m \<le> n)"
proof (induction b r prev s arbitrary: n rule: longest.induct)
  case (2 b r prev c s)
  show ?case
  proof (cases "longest b (deriv c r) (Some c) s")
    case None
    with "2.prems" have n: "n = 0" and nb: "nullable r \<and> boundary_ok b prev (c # s)"
      by (auto split: if_splits)
    have "m = 0" if "match_from b r prev (c # s) m" for m
      using that longest_None [OF None] by (cases m) (auto simp: match_from_Suc)
    with n nb show ?thesis by (auto simp: match_from_0)
  next
    case (Some k)
    with "2.prems" have n: "n = Suc k" and r: "r \<noteq> Zero" by (auto split: if_splits)
    from "2.IH" [OF r Some]
    have IH: "match_from b (deriv c r) (Some c) s k"
      "\<And>m. match_from b (deriv c r) (Some c) s m \<Longrightarrow> m \<le> k" by auto
    have "m \<le> n" if "match_from b r prev (c # s) m" for m
      using that IH(2) n by (cases m) (auto simp: match_from_Suc)
    with IH(1) n show ?thesis by (auto simp: match_from_Suc)
  qed
qed (auto simp: match_from_Nil split: if_splits)

lemma matches_at_from: "matches_at p s n \<longleftrightarrow> match_from (bounded p) (body p) None s n"
  by (simp add: matches_at_def match_from_def)

lemma regexec_None_iff: "regexec p s = None \<longleftrightarrow> (\<forall>n. \<not> matches_at p s n)"
proof
  show "regexec p s = None \<Longrightarrow> \<forall>n. \<not> matches_at p s n"
    by (auto simp: regexec_def matches_at_from dest: longest_None)
next
  assume none: "\<forall>n. \<not> matches_at p s n"
  show "regexec p s = None"
  proof (cases "regexec p s")
    case (Some n)
    then have "matches_at p s n"
      by (auto simp: regexec_def matches_at_from dest: longest_Some)
    with none show ?thesis by blast
  qed
qed

lemma regexec_Some_iff:
  "regexec p s = Some n \<longleftrightarrow> matches_at p s n \<and> (\<forall>m. matches_at p s m \<longrightarrow> m \<le> n)"
proof
  show "regexec p s = Some n \<Longrightarrow> matches_at p s n \<and> (\<forall>m. matches_at p s m \<longrightarrow> m \<le> n)"
    by (auto simp: regexec_def matches_at_from dest: longest_Some)
next
  assume best: "matches_at p s n \<and> (\<forall>m. matches_at p s m \<longrightarrow> m \<le> n)"
  show "regexec p s = Some n"
  proof (cases "regexec p s")
    case None
    with best show ?thesis by (simp add: regexec_None_iff)
  next
    case (Some k)
    then have "matches_at p s k \<and> (\<forall>m. matches_at p s m \<longrightarrow> m \<le> k)"
      by (auto simp: regexec_def matches_at_from dest: longest_Some)
    with best Some show ?thesis by (metis le_antisym)
  qed
qed

lemma regexec_le_length: "regexec p s = Some n \<Longrightarrow> n \<le> length s"
  by (simp add: regexec_Some_iff matches_at_def)

lemma regexec_pos: "regexec p s = Some n \<Longrightarrow> \<not> nullable (body p) \<Longrightarrow> 0 < n"
  by (cases n) (auto simp: regexec_Some_iff matches_at_def nullable_matches)

end
