(* ===== verification/Token.thy ===== *)
theory Token
  imports Regex
begin

text \<open>
  The tokens of \<^verbatim>\<open>include/token.h\<close>.  The linked list of
  \<^verbatim>\<open>Token\<close> nodes (\<^verbatim>\<open>next\<close>, \<^verbatim>\<open>anterior\<close>) is a HOL list
  of records; a pointer into it is the remaining list, \<^verbatim>\<open>NULL\<close> the empty
  one.  Lines and columns, \<^verbatim>\<open>int\<close> in C, are natural numbers: the overflow of a text with
  more than \<^verbatim>\<open>INT_MAX\<close> lines, or characters in a line, is left out.
\<close>

datatype TokenType =
    TOKEN_NUMBER
  | TOKEN_BOOL
  | TOKEN_COMMENT
  | TOKEN_TYPE_ARRAY
  | TOKEN_TYPE_INT
  | TOKEN_TYPE_FLOAT
  | TOKEN_TYPE_CHAR
  | TOKEN_TYPE_BOOL
  | TOKEN_TYPE_VOID
  | TOKEN_KW_IF
  | TOKEN_KW_ELSE
  | TOKEN_KW_FOR
  | TOKEN_KW_WHILE
  | TOKEN_KW_FUNC
  | TOKEN_KW_EXTERN
  | TOKEN_KW_RET
  | TOKEN_KW_BREAK
  | TOKEN_KW_CONTINUE
  | TOKEN_STRING
  | TOKEN_CHAR_LITERAL
  | TOKEN_EQ_EQ
  | TOKEN_GT_EQ
  | TOKEN_LT_EQ
  | TOKEN_NOT_EQ
  | TOKEN_GT
  | TOKEN_LT
  | TOKEN_BANG
  | TOKEN_PLUS_ASSIGN
  | TOKEN_MINUS_ASSIGN
  | TOKEN_ARROW
  | TOKEN_ASSIGN
  | TOKEN_DOUBLE_COLON
  | TOKEN_IDENTIFIER
  | TOKEN_OR_OR
  | TOKEN_AND_AND
  | TOKEN_AMPERSAND
  | TOKEN_PLUS
  | TOKEN_MINUS
  | TOKEN_STAR
  | TOKEN_SLASH
  | TOKEN_LPAREN
  | TOKEN_RPAREN
  | TOKEN_LBRACE
  | TOKEN_RBRACE
  | TOKEN_LBRACKET
  | TOKEN_RBRACKET
  | TOKEN_SEMICOLON
  | TOKEN_COMMA
  | TOKEN_EOF
  | TOKEN_WHITESPACE

record Token =
  ttype :: TokenType
  tvalue :: string
  tline :: nat
  tcolumn :: nat

fun tokenTypeName :: "TokenType \<Rightarrow> string" where
  "tokenTypeName TOKEN_NUMBER = ''NUMBER''"
| "tokenTypeName TOKEN_BOOL = ''BOOL''"
| "tokenTypeName TOKEN_COMMENT = ''COMMENT''"
| "tokenTypeName TOKEN_TYPE_ARRAY = ''TYPE_ARRAY''"
| "tokenTypeName TOKEN_TYPE_INT = ''TYPE_INT''"
| "tokenTypeName TOKEN_TYPE_FLOAT = ''TYPE_FLOAT''"
| "tokenTypeName TOKEN_TYPE_CHAR = ''TYPE_CHAR''"
| "tokenTypeName TOKEN_TYPE_BOOL = ''TYPE_BOOL''"
| "tokenTypeName TOKEN_TYPE_VOID = ''TYPE_VOID''"
| "tokenTypeName TOKEN_KW_IF = ''KW_IF''"
| "tokenTypeName TOKEN_KW_ELSE = ''KW_ELSE''"
| "tokenTypeName TOKEN_KW_FOR = ''KW_FOR''"
| "tokenTypeName TOKEN_KW_WHILE = ''KW_WHILE''"
| "tokenTypeName TOKEN_KW_FUNC = ''KW_FUNC''"
| "tokenTypeName TOKEN_KW_EXTERN = ''KW_EXTERN''"
| "tokenTypeName TOKEN_KW_RET = ''KW_RET''"
| "tokenTypeName TOKEN_KW_BREAK = ''KW_BREAK''"
| "tokenTypeName TOKEN_KW_CONTINUE = ''KW_CONTINUE''"
| "tokenTypeName TOKEN_STRING = ''STRING''"
| "tokenTypeName TOKEN_CHAR_LITERAL = ''CHAR_LITERAL''"
| "tokenTypeName TOKEN_EQ_EQ = ''EQ_EQ''"
| "tokenTypeName TOKEN_GT_EQ = ''GT_EQ''"
| "tokenTypeName TOKEN_LT_EQ = ''LT_EQ''"
| "tokenTypeName TOKEN_NOT_EQ = ''NOT_EQ''"
| "tokenTypeName TOKEN_GT = ''GT''"
| "tokenTypeName TOKEN_LT = ''LT''"
| "tokenTypeName TOKEN_BANG = ''BANG''"
| "tokenTypeName TOKEN_PLUS_ASSIGN = ''PLUS_ASSIGN''"
| "tokenTypeName TOKEN_MINUS_ASSIGN = ''MINUS_ASSIGN''"
| "tokenTypeName TOKEN_ARROW = ''ARROW''"
| "tokenTypeName TOKEN_ASSIGN = ''ASSIGN''"
| "tokenTypeName TOKEN_DOUBLE_COLON = ''DOUBLE_COLON''"
| "tokenTypeName TOKEN_IDENTIFIER = ''IDENTIFIER''"
| "tokenTypeName TOKEN_OR_OR = ''OR_OR''"
| "tokenTypeName TOKEN_AND_AND = ''AND_AND''"
| "tokenTypeName TOKEN_AMPERSAND = ''AMPERSAND''"
| "tokenTypeName TOKEN_PLUS = ''PLUS''"
| "tokenTypeName TOKEN_MINUS = ''MINUS''"
| "tokenTypeName TOKEN_STAR = ''STAR''"
| "tokenTypeName TOKEN_SLASH = ''SLASH''"
| "tokenTypeName TOKEN_LPAREN = ''LPAREN''"
| "tokenTypeName TOKEN_RPAREN = ''RPAREN''"
| "tokenTypeName TOKEN_LBRACE = ''LBRACE''"
| "tokenTypeName TOKEN_RBRACE = ''RBRACE''"
| "tokenTypeName TOKEN_LBRACKET = ''LBRACKET''"
| "tokenTypeName TOKEN_RBRACKET = ''RBRACKET''"
| "tokenTypeName TOKEN_SEMICOLON = ''SEMICOLON''"
| "tokenTypeName TOKEN_COMMA = ''COMMA''"
| "tokenTypeName TOKEN_EOF = ''EOF''"
| "tokenTypeName TOKEN_WHITESPACE = ''WHITESPACE''"

text \<open>\<^verbatim>\<open>tokensToString\<close>: one line per token, the end marker skipped.\<close>

fun tokensToString :: "Token list \<Rightarrow> string" where
  "tokensToString [] = []"
| "tokensToString (t # ts) =
     (if ttype t = TOKEN_EOF then tokensToString ts
      else tokenTypeName (ttype t) @ '' '' @ tvalue t @ [newline] @ tokensToString ts)"

end
