(* ===== verification/Lexer.thy ===== *)
theory Lexer
  imports Token
begin

text \<open>
  The lexer of \<^verbatim>\<open>src/lexer/lexer.c\<close>: the token table as data, the scanning loop,
  and its correctness against a declarative reading of the table (\<open>lexed\<close>: at
  every point the first entry of the table that matches takes its longest match).
\<close>

section \<open>The token table\<close>

definition digit :: rexp where
  "digit = Bracket False [(CHR ''0'', CHR ''9'')]"

definition letter_class :: "(char \<times> char) list" where
  "letter_class = [(CHR ''_'', CHR ''_''), (CHR ''a'', CHR ''z''), (CHR ''A'', CHR ''Z'')]"

abbreviation quote2 :: char where
  "quote2 \<equiv> CHR 0x22"

abbreviation quote1 :: char where
  "quote1 \<equiv> CHR 0x27"

abbreviation backslash :: char where
  "backslash \<equiv> CHR 0x5C"

abbreviation keyword :: "string \<Rightarrow> pattern" where
  "keyword w \<equiv> Pattern (Str w) True"

abbreviation symbol :: "string \<Rightarrow> pattern" where
  "symbol w \<equiv> Pattern (Str w) False"

text \<open>A quoted body: anything but the quote and the backslash, or a backslash and
  any character.\<close>

definition quoted_char :: "char \<Rightarrow> rexp" where
  "quoted_char q = Alt (Bracket True [(q, q), (backslash, backslash)]) (Seq (Chr backslash) AnyChar)"

definition types :: "(TokenType \<times> pattern) list" where
  "types =
    [(TOKEN_NUMBER, Pattern (Alt (Seq (Star digit) (Seq (Chr (CHR ''.'')) (Plus digit))) (Plus digit)) False),
     (TOKEN_BOOL, Pattern (Alt (Str ''true'') (Str ''false'')) True),
     (TOKEN_COMMENT, Pattern (Seq (Str ''//'') (Star (Bracket True [(newline, newline)]))) False),
     (TOKEN_TYPE_ARRAY, keyword ''Array''),
     (TOKEN_TYPE_INT, keyword ''int''),
     (TOKEN_TYPE_FLOAT, keyword ''float''),
     (TOKEN_TYPE_CHAR, keyword ''char''),
     (TOKEN_TYPE_BOOL, keyword ''bool''),
     (TOKEN_TYPE_VOID, keyword ''void''),
     (TOKEN_KW_IF, keyword ''if''),
     (TOKEN_KW_ELSE, keyword ''else''),
     (TOKEN_KW_FOR, keyword ''for''),
     (TOKEN_KW_WHILE, keyword ''while''),
     (TOKEN_KW_FUNC, keyword ''func''),
     (TOKEN_KW_EXTERN, keyword ''extern''),
     (TOKEN_KW_RET, keyword ''ret''),
     (TOKEN_KW_BREAK, keyword ''break''),
     (TOKEN_KW_CONTINUE, keyword ''continue''),
     (TOKEN_STRING, Pattern (Seq (Chr quote2) (Seq (Star (quoted_char quote2)) (Chr quote2))) False),
     (TOKEN_CHAR_LITERAL, Pattern (Seq (Chr quote1) (Seq (quoted_char quote1) (Chr quote1))) False),
     (TOKEN_EQ_EQ, symbol ''==''),
     (TOKEN_GT_EQ, symbol ''>=''),
     (TOKEN_LT_EQ, symbol ''<=''),
     (TOKEN_NOT_EQ, symbol ''!=''),
     (TOKEN_GT, symbol ''>''),
     (TOKEN_LT, symbol ''<''),
     (TOKEN_BANG, symbol ''!''),
     (TOKEN_PLUS_ASSIGN, symbol ''+=''),
     (TOKEN_MINUS_ASSIGN, symbol ''-=''),
     (TOKEN_ARROW, symbol ''->''),
     (TOKEN_ASSIGN, symbol ''=''),
     (TOKEN_DOUBLE_COLON, symbol ''::''),
     (TOKEN_IDENTIFIER, Pattern (Seq (Bracket False letter_class)
        (Star (Bracket False (letter_class @ [(CHR ''0'', CHR ''9'')])))) False),
     (TOKEN_OR_OR, symbol ''||''),
     (TOKEN_AND_AND, symbol ''&&''),
     (TOKEN_AMPERSAND, symbol ''&''),
     (TOKEN_PLUS, symbol ''+''),
     (TOKEN_MINUS, symbol ''-''),
     (TOKEN_STAR, symbol ''*''),
     (TOKEN_SLASH, symbol ''/''),
     (TOKEN_LPAREN, symbol ''(''),
     (TOKEN_RPAREN, symbol '')''),
     (TOKEN_LBRACE, symbol ''{''),
     (TOKEN_RBRACE, symbol ''}''),
     (TOKEN_LBRACKET, symbol ''[''),
     (TOKEN_RBRACKET, symbol '']''),
     (TOKEN_SEMICOLON, symbol '';''),
     (TOKEN_COMMA, symbol '',''),
     (TOKEN_WHITESPACE, Pattern (Plus (Bracket False
        [(CHR '' '', CHR '' ''), (CHR 0x09, CHR 0x09), (newline, newline)])) False)]"

lemma length_types: "length types = 49"
  by (simp add: types_def)

section \<open>The scanner\<close>

record Lexer =
  linput :: string
  lcursor :: string
  ltokens :: "Token list"
  lline :: nat
  lcolumn :: nat

datatype LexError = UnrecognizedToken string

definition appendToken :: "Token list \<Rightarrow> TokenType \<Rightarrow> string \<Rightarrow> nat \<Rightarrow> nat \<Rightarrow> Token list" where
  "appendToken head ty value line column =
     head @ [\<lparr>ttype = ty, tvalue = value, tline = line, tcolumn = column\<rparr>]"

definition lexerAppendToken :: "Lexer \<Rightarrow> TokenType \<Rightarrow> string \<Rightarrow> Lexer" where
  "lexerAppendToken l ty value =
     l\<lparr>ltokens := appendToken (ltokens l) ty value (lline l) (lcolumn l)\<rparr>"

definition lexerInit :: "string \<Rightarrow> Lexer" where
  "lexerInit input = \<lparr>linput = input, lcursor = input, ltokens = [], lline = 1, lcolumn = 1\<rparr>"

text \<open>The loop over the table: the first entry that matches, with its length.\<close>

fun firstMatch :: "(TokenType \<times> pattern) list \<Rightarrow> string \<Rightarrow> (TokenType \<times> nat) option" where
  "firstMatch [] s = None"
| "firstMatch ((ty, p) # rest) s =
     (case regexec p s of Some n \<Rightarrow> Some (ty, n) | None \<Rightarrow> firstMatch rest s)"

text \<open>The loop over the matched characters that maintains line and column.\<close>

definition advancePosition :: "nat \<times> nat \<Rightarrow> char \<Rightarrow> nat \<times> nat" where
  "advancePosition pos c = (if c = newline then (fst pos + 1, 1) else (fst pos, snd pos + 1))"

definition positionAfter :: "nat \<times> nat \<Rightarrow> string \<Rightarrow> nat \<times> nat" where
  "positionAfter pos s = foldl advancePosition pos s"

definition skipped :: "TokenType \<Rightarrow> bool" where
  "skipped ty \<longleftrightarrow> ty = TOKEN_WHITESPACE \<or> ty = TOKEN_COMMENT"

definition lexerAccept :: "Lexer \<Rightarrow> TokenType \<Rightarrow> nat \<Rightarrow> Lexer" where
  "lexerAccept l ty n =
     (let value = take n (lcursor l);
          l1 = (if skipped ty then l else lexerAppendToken l ty value);
          pos = positionAfter (lline l1, lcolumn l1) value
      in l1\<lparr>lline := fst pos, lcolumn := snd pos, lcursor := drop n (lcursor l1)\<rparr>)"

lemma types_not_nullable: "(ty, p) \<in> set types \<Longrightarrow> \<not> nullable (body p)"
  by (auto simp: types_def Plus_def digit_def)

lemma firstMatch_in: "firstMatch ts s = Some (ty, n) \<Longrightarrow> \<exists>p. (ty, p) \<in> set ts \<and> regexec p s = Some n"
  by (induction ts s rule: firstMatch.induct) (auto split: option.splits)

lemma firstMatch_bounds: "firstMatch types s = Some (ty, n) \<Longrightarrow> 0 < n \<and> n \<le> length s"
  using firstMatch_in regexec_pos regexec_le_length types_not_nullable by meson

lemma lexerAccept_cursor [simp]: "lcursor (lexerAccept l ty n) = drop n (lcursor l)"
  by (simp add: lexerAccept_def Let_def lexerAppendToken_def)

function lexerLoop :: "Lexer \<Rightarrow> LexError + Lexer" where
  "lexerLoop l =
     (if lcursor l = [] then Inr l
      else case firstMatch types (lcursor l) of
             None \<Rightarrow> Inl (UnrecognizedToken (take 10 (lcursor l)))
           | Some (ty, n) \<Rightarrow> lexerLoop (lexerAccept l ty n))"
  by pat_completeness auto
termination
  by (relation "measure (\<lambda>l. length (lcursor l))") (auto dest: firstMatch_bounds)

declare lexerLoop.simps [simp del]

definition lexerScan :: "Lexer \<Rightarrow> LexError + Lexer" where
  "lexerScan l =
     (case lexerLoop l of
        Inl e \<Rightarrow> Inl e
      | Inr l' \<Rightarrow> Inr (l'\<lparr>ltokens := appendToken (ltokens l') TOKEN_EOF [] (lline l') (lcolumn l')\<rparr>))"

definition lexerTakeTokens :: "Lexer \<Rightarrow> Token list \<times> Lexer" where
  "lexerTakeTokens l = (ltokens l, l\<lparr>ltokens := []\<rparr>)"

definition tokenizeString :: "string \<Rightarrow> LexError + Token list" where
  "tokenizeString input =
     (case lexerScan (lexerInit (c_string input)) of
        Inl e \<Rightarrow> Inl e
      | Inr l \<Rightarrow> Inr (fst (lexerTakeTokens l)))"

text \<open>The file system is the argument: the bytes at the path, \<open>None\<close> where the
  file cannot be read.\<close>

definition tokenizeFile :: "(string \<Rightarrow> string option) \<Rightarrow> string \<Rightarrow> (LexError + Token list) option" where
  "tokenizeFile readFileToString path =
     (case readFileToString path of
        None \<Rightarrow> None
      | Some input \<Rightarrow> Some (tokenizeString input))"

definition tokenizeFileToString :: "(string \<Rightarrow> string option) \<Rightarrow> string \<Rightarrow> (LexError + string) option" where
  "tokenizeFileToString readFileToString path =
     (case readFileToString path of
        None \<Rightarrow> None
      | Some input \<Rightarrow>
          Some (case tokenizeString input of Inl e \<Rightarrow> Inl e | Inr tokens \<Rightarrow> Inr (tokensToString tokens)))"

section \<open>What a lexeme sequence is\<close>

text \<open>\<open>takes s ty v\<close>: some table entry of type \<open>ty\<close> matches at the start
  of \<open>s\<close>, no earlier entry does, and \<open>v\<close> is that entry's longest match.\<close>

definition takes :: "string \<Rightarrow> TokenType \<Rightarrow> string \<Rightarrow> bool" where
  "takes s ty v \<longleftrightarrow>
     (\<exists>i < length types. fst (types ! i) = ty \<and> matches_at (snd (types ! i)) s (length v)
        \<and> v = take (length v) s
        \<and> (\<forall>m. matches_at (snd (types ! i)) s m \<longrightarrow> m \<le> length v)
        \<and> (\<forall>j < i. \<forall>m. \<not> matches_at (snd (types ! j)) s m))"

inductive lexed :: "string \<Rightarrow> (TokenType \<times> string) list \<Rightarrow> bool" where
  lexed_end: "lexed [] []"
| lexed_step: "s \<noteq> [] \<Longrightarrow> takes s ty v \<Longrightarrow> s = v @ rest \<Longrightarrow> lexed rest ls \<Longrightarrow> lexed s ((ty, v) # ls)"

text \<open>The tokens of a lexeme sequence that starts at a position: each token sits where
  its lexeme starts; whitespace and comments leave none.\<close>

fun located :: "nat \<times> nat \<Rightarrow> (TokenType \<times> string) list \<Rightarrow> Token list" where
  "located pos [] = [\<lparr>ttype = TOKEN_EOF, tvalue = [], tline = fst pos, tcolumn = snd pos\<rparr>]"
| "located pos ((ty, v) # ls) =
     (if skipped ty then [] else [\<lparr>ttype = ty, tvalue = v, tline = fst pos, tcolumn = snd pos\<rparr>])
       @ located (positionAfter pos v) ls"

lemma firstMatch_Some_iff:
  "firstMatch ts s = Some (ty, n) \<longleftrightarrow>
     (\<exists>i < length ts. fst (ts ! i) = ty \<and> regexec (snd (ts ! i)) s = Some n
        \<and> (\<forall>j < i. regexec (snd (ts ! j)) s = None))"
proof (induction ts s rule: firstMatch.induct)
  case (2 ty' p rest s)
  show ?case
  proof (cases "regexec p s")
    case None
    then have "firstMatch ((ty', p) # rest) s = firstMatch rest s" by simp
    then show ?thesis using 2 [OF None] None
      by (simp add: Ex_less_Suc2 All_less_Suc2)
  next
    case (Some k)
    then show ?thesis by (auto simp: Ex_less_Suc2 All_less_Suc2)
  qed
qed simp

lemma takes_firstMatch:
  "takes s ty v \<longleftrightarrow> firstMatch types s = Some (ty, length v) \<and> v = take (length v) s"
  by (auto simp: takes_def firstMatch_Some_iff regexec_Some_iff regexec_None_iff)


lemma takes_alt: "takes s ty v \<longleftrightarrow> (\<exists>n. firstMatch types s = Some (ty, n) \<and> v = take n s)"
proof
  assume "\<exists>n. firstMatch types s = Some (ty, n) \<and> v = take n s"
  then obtain n where n: "firstMatch types s = Some (ty, n)" "v = take n s" by blast
  from firstMatch_bounds [OF n(1)] n(2) have "length v = n" by simp
  with n show "takes s ty v" by (simp add: takes_firstMatch)
qed (auto simp: takes_firstMatch)

section \<open>The scanner follows the table\<close>

lemma firstMatch_takes:
  assumes "firstMatch types s = Some (ty, n)"
  shows "takes s ty (take n s)" "s = take n s @ drop n s" "drop n s \<noteq> s"
proof -
  from firstMatch_bounds [OF assms] have n: "0 < n" "n \<le> length s" by auto
  with assms show "takes s ty (take n s)" by (simp add: takes_firstMatch min_def)
  from n have "length (drop n s) < length s" by simp
  then show "drop n s \<noteq> s" by force
qed simp

lemma takes_unique: "takes s ty v \<Longrightarrow> takes s ty' v' \<Longrightarrow> ty = ty' \<and> v = v'"
  by (metis Pair_inject option.inject takes_firstMatch)

lemma lexed_ConsE:
  assumes "lexed s ls" "s \<noteq> []"
  obtains ty v rest ls' where "ls = (ty, v) # ls'" "takes s ty v" "s = v @ rest" "lexed rest ls'"
  using assms(1)
proof cases
  case lexed_end
  with assms(2) show ?thesis by simp
next
  case lexed_step
  with that show ?thesis by blast
qed

lemma lexed_Nil [simp]: "lexed [] ls \<longleftrightarrow> ls = []"
  by (auto elim: lexed.cases intro: lexed_end)

text \<open>What the loop appends to the tokens it has.\<close>

definition emits :: "Lexer \<Rightarrow> (TokenType \<times> string) list \<Rightarrow> Lexer \<Rightarrow> bool" where
  "emits l ls l' \<longleftrightarrow>
     appendToken (ltokens l') TOKEN_EOF [] (lline l') (lcolumn l')
       = ltokens l @ located (lline l, lcolumn l) ls"

lemma emits_Nil: "emits l [] l"
  by (simp add: emits_def appendToken_def)

lemma emits_Cons:
  assumes "emits (lexerAccept l ty n) ls l'"
  shows "emits l ((ty, take n (lcursor l)) # ls) l'"
  using assms
  by (simp add: emits_def lexerAccept_def Let_def lexerAppendToken_def appendToken_def
      split: if_splits)

lemma lexerLoop_sound: "lexerLoop l = Inr l' \<Longrightarrow> \<exists>ls. lexed (lcursor l) ls \<and> emits l ls l'"
proof (induction l rule: lexerLoop.induct)
  case (1 l)
  show ?case
  proof (cases "lcursor l = []")
    case True
    with 1 have "l' = l" by (subst (asm) (2) lexerLoop.simps) simp
    with True show ?thesis by (auto intro: lexed_end emits_Nil)
  next
    case False
    with "1.prems" obtain ty n where f: "firstMatch types (lcursor l) = Some (ty, n)"
      and r: "lexerLoop (lexerAccept l ty n) = Inr l'"
      by (subst (asm) lexerLoop.simps) (auto split: option.splits)
    from "1.IH" [OF False f refl r] obtain ls where
      ls: "lexed (drop n (lcursor l)) ls" "emits (lexerAccept l ty n) ls l'" by auto
    have "lexed (lcursor l) ((ty, take n (lcursor l)) # ls)"
      by (rule lexed_step [OF False firstMatch_takes(1,2) [OF f] ls(1)])
    with emits_Cons [OF ls(2)] show ?thesis by blast
  qed
qed

lemma lexerLoop_complete:
  "lexed (lcursor l) ls \<Longrightarrow> \<exists>l'. lexerLoop l = Inr l' \<and> emits l ls l'"
proof (induction l arbitrary: ls rule: lexerLoop.induct)
  case (1 l)
  show ?case
  proof (cases "lcursor l = []")
    case True
    with "1.prems" show ?thesis by (subst lexerLoop.simps) (simp add: emits_Nil)
  next
    case False
    with "1.prems" obtain ty v rest ls' where
      ls: "ls = (ty, v) # ls'" "takes (lcursor l) ty v" "lcursor l = v @ rest" "lexed rest ls'"
      by (rule lexed_ConsE)
    then have f: "firstMatch types (lcursor l) = Some (ty, length v)"
      by (simp add: takes_firstMatch)
    have "lexed (lcursor (lexerAccept l ty (length v))) ls'"
      using ls(3,4) by simp
    from "1.IH" [OF False f refl this] obtain l' where
      "lexerLoop (lexerAccept l ty (length v)) = Inr l'" "emits (lexerAccept l ty (length v)) ls' l'"
      by blast
    moreover from this(1) have "lexerLoop l = Inr l'"
      using False f by (subst lexerLoop.simps) simp
    ultimately show ?thesis using emits_Cons ls(1,3) by fastforce
  qed
qed

text \<open>The same for a run that stops: the text up to the point where nothing matches.\<close>

inductive stuck :: "string \<Rightarrow> string \<Rightarrow> bool" where
  stuck_here: "s \<noteq> [] \<Longrightarrow> \<forall>e \<in> set types. \<forall>n. \<not> matches_at (snd e) s n \<Longrightarrow> stuck s s"
| stuck_later: "s \<noteq> [] \<Longrightarrow> takes s ty v \<Longrightarrow> s = v @ rest \<Longrightarrow> stuck rest u \<Longrightarrow> stuck s u"

lemma firstMatch_None_iff:
  "firstMatch ts s = None \<longleftrightarrow> (\<forall>e \<in> set ts. \<forall>n. \<not> matches_at (snd e) s n)"
  by (induction ts s rule: firstMatch.induct) (auto simp: regexec_None_iff regexec_Some_iff split: option.splits)

lemma stuck_not_lexed: "stuck s u \<Longrightarrow> \<not> lexed s ls"
proof (induction arbitrary: ls rule: stuck.induct)
  case (stuck_here s)
  then have "firstMatch types s = None" by (simp add: firstMatch_None_iff)
  with stuck_here(1) show ?case by (auto simp: takes_firstMatch elim: lexed_ConsE)
next
  case (stuck_later s ty v rest u)
  show ?case
  proof
    assume "lexed s ls"
    then obtain ty' v' rest' ls' where "takes s ty' v'" "s = v' @ rest'" "lexed rest' ls'"
      using stuck_later(1) by (rule lexed_ConsE)
    with stuck_later takes_unique [of s ty v ty' v'] show False by auto
  qed
qed

lemma stuck_unique: "stuck s u \<Longrightarrow> stuck s u' \<Longrightarrow> u = u'"
proof (induction arbitrary: u' rule: stuck.induct)
  case (stuck_here s)
  then have "firstMatch types s = None" by (simp add: firstMatch_None_iff)
  with stuck_here(3) show ?case by cases (auto simp: takes_firstMatch)
next
  case (stuck_later s ty v rest u)
  from stuck_later.prems show ?case
  proof cases
    case stuck_here
    then have "firstMatch types s = None" by (simp add: firstMatch_None_iff)
    with stuck_later(2) show ?thesis by (simp add: takes_firstMatch)
  next
    case (stuck_later ty' v' rest')
    with stuck_later.hyps takes_unique [of s ty v ty' v'] stuck_later.IH show ?thesis by auto
  qed
qed

lemma lexerLoop_stuck:
  "lexerLoop l = Inl e \<Longrightarrow> \<exists>u. stuck (lcursor l) u \<and> e = UnrecognizedToken (take 10 u)"
proof (induction l rule: lexerLoop.induct)
  case (1 l)
  from "1.prems" have ne: "lcursor l \<noteq> []"
    by (subst (asm) lexerLoop.simps) (auto split: if_splits)
  show ?case
  proof (cases "firstMatch types (lcursor l)")
    case None
    with "1.prems" ne have "e = UnrecognizedToken (take 10 (lcursor l))"
      by (subst (asm) lexerLoop.simps) simp
    with ne None show ?thesis by (auto simp: firstMatch_None_iff intro: stuck_here)
  next
    case (Some m)
    then obtain ty n where f: "firstMatch types (lcursor l) = Some (ty, n)" by (cases m) auto
    with "1.prems" ne have "lexerLoop (lexerAccept l ty n) = Inl e"
      by (subst (asm) lexerLoop.simps) simp
    from "1.IH" [OF ne f refl this] obtain u where
      "stuck (drop n (lcursor l)) u" "e = UnrecognizedToken (take 10 u)" by auto
    with stuck_later [OF ne firstMatch_takes(1,2) [OF f]] show ?thesis by blast
  qed
qed


section \<open>Positions in closed form\<close>

definition line_of :: "string \<Rightarrow> nat" where
  "line_of pre = Suc (count_list pre newline)"

definition column_of :: "string \<Rightarrow> nat" where
  "column_of pre = Suc (length (takeWhile (\<lambda>c. c \<noteq> newline) (rev pre)))"

lemma positionAfter_start: "positionAfter (1, 1) s = (line_of s, column_of s)"
proof (induction s rule: rev_induct)
  case Nil
  show ?case by (simp add: positionAfter_def line_of_def column_of_def)
next
  case (snoc c s)
  then show ?case
    by (simp add: positionAfter_def line_of_def column_of_def advancePosition_def)
qed

lemma positionAfter_start_Suc: "positionAfter (Suc 0, Suc 0) s = (line_of s, column_of s)"
  using positionAfter_start by simp

lemma positionAfter_append: "positionAfter (positionAfter pos s) t = positionAfter pos (s @ t)"
  by (simp add: positionAfter_def)

lemma lexed_concat: "lexed s ls \<Longrightarrow> concat (map snd ls) = s"
  by (induction rule: lexed.induct) auto

text \<open>Whitespace and comments: texts that match a table entry of such a type.\<close>

definition blank :: "string \<Rightarrow> bool" where
  "blank v \<longleftrightarrow> (\<exists>e \<in> set types. skipped (fst e) \<and> matches (body (snd e)) v)"

text \<open>\<open>placed pre ts post\<close>: the text \<open>post\<close>, which stands after \<open>pre\<close>, is the values of the tokens
  in their order with blank texts before each, and each token has the line and column of the
  place where its value stands.\<close>

primrec placed :: "string \<Rightarrow> Token list \<Rightarrow> string \<Rightarrow> bool" where
  "placed pre [] post \<longleftrightarrow> post = []"
| "placed pre (t # ts) post \<longleftrightarrow>
     (\<exists>gaps after. list_all blank gaps \<and> post = concat gaps @ tvalue t @ after
        \<and> tline t = line_of (pre @ concat gaps) \<and> tcolumn t = column_of (pre @ concat gaps)
        \<and> placed (pre @ concat gaps @ tvalue t) ts after)"

lemma placed_blank: "ts \<noteq> [] \<Longrightarrow> blank v \<Longrightarrow> placed (pre @ v) ts post \<Longrightarrow> placed pre ts (v @ post)"
proof (cases ts)
  case (Cons t us)
  assume "blank v" "placed (pre @ v) ts post"
  then obtain gaps after where "list_all blank gaps" "post = concat gaps @ tvalue t @ after"
    "tline t = line_of ((pre @ v) @ concat gaps)" "tcolumn t = column_of ((pre @ v) @ concat gaps)"
    "placed ((pre @ v) @ concat gaps @ tvalue t) us after"
    unfolding Cons placed.simps by blast
  then show ?thesis using \<open>blank v\<close> unfolding Cons placed.simps
    by (intro exI [of _ "v # gaps"] exI [of _ after]) simp
qed simp

lemma placed_here:
  "tline t = line_of pre \<Longrightarrow> tcolumn t = column_of pre \<Longrightarrow> placed (pre @ tvalue t) ts post \<Longrightarrow>
   placed pre (t # ts) (tvalue t @ post)"
  by (auto intro!: exI [of _ "[] :: string list"])

lemma positionAfter_here: "positionAfter (line_of pre, column_of pre) v = (line_of (pre @ v), column_of (pre @ v))"
  using positionAfter_append [of "(1, 1)" pre v] unfolding positionAfter_start .

lemma takes_blank: "takes s ty v \<Longrightarrow> skipped ty \<Longrightarrow> blank v"
  unfolding takes_def blank_def matches_at_def by (metis nth_mem)

lemma located_not_Nil: "located pos ls \<noteq> []"
  by (induction pos ls rule: located.induct) simp_all

lemma lexed_placed: "lexed post ls \<Longrightarrow> placed pre (located (line_of pre, column_of pre) ls) post"
proof (induction arbitrary: pre rule: lexed.induct)
  case lexed_end
  show ?case
    using placed_here [of "\<lparr>ttype = TOKEN_EOF, tvalue = [], tline = line_of pre, tcolumn = column_of pre\<rparr>" pre "[]" "[]"]
    by (simp del: placed.simps(2))
next
  case (lexed_step s ty v rest ls)
  note IH = lexed_step.IH [of "pre @ v", folded positionAfter_here]
  show ?case
  proof (cases "skipped ty")
    case True
    then show ?thesis
      using placed_blank [OF located_not_Nil takes_blank [OF lexed_step.hyps(2) True] IH] lexed_step.hyps(3) by simp
  next
    case False
    let ?t = "\<lparr>ttype = ty, tvalue = v, tline = line_of pre, tcolumn = column_of pre\<rparr>"
    have "placed pre (?t # located (positionAfter (line_of pre, column_of pre) v) ls) (tvalue ?t @ rest)"
      by (rule placed_here) (simp_all add: IH)
    then show ?thesis using False lexed_step.hyps(3) by simp
  qed
qed

lemma no_EOF_in_table: "TOKEN_EOF \<notin> fst ` set types"
  by (simp add: types_def)

lemma takes_shape: "takes s ty v \<Longrightarrow> ty \<noteq> TOKEN_EOF \<and> v \<noteq> []"
proof -
  assume t: "takes s ty v"
  then have f: "firstMatch types s = Some (ty, length v)" by (simp add: takes_firstMatch)
  from firstMatch_in [OF f] have "ty \<in> fst ` set types" by force
  then have "ty \<noteq> TOKEN_EOF" using no_EOF_in_table by blast
  with firstMatch_bounds [OF f] show ?thesis by auto
qed

lemma located_shape:
  "lexed s ls \<Longrightarrow> \<exists>body eof. located pos ls = body @ [eof] \<and> ttype eof = TOKEN_EOF \<and> tvalue eof = []
     \<and> (\<forall>t \<in> set body. ttype t \<noteq> TOKEN_EOF \<and> \<not> skipped (ttype t) \<and> tvalue t \<noteq> [])"
proof (induction arbitrary: pos rule: lexed.induct)
  case lexed_end
  show ?case by simp
next
  case (lexed_step s ty v rest ls)
  from lexed_step.IH [of "positionAfter pos v"] obtain body eof where
    IH: "located (positionAfter pos v) ls = body @ [eof]" "ttype eof = TOKEN_EOF" "tvalue eof = []"
      "\<forall>t \<in> set body. ttype t \<noteq> TOKEN_EOF \<and> \<not> skipped (ttype t) \<and> tvalue t \<noteq> []" by blast
  let ?first = "if skipped ty then []
    else [\<lparr>ttype = ty, tvalue = v, tline = fst pos, tcolumn = snd pos\<rparr>]"
  have "located pos ((ty, v) # ls) = (?first @ body) @ [eof]" by (simp add: IH(1))
  moreover have "\<forall>t \<in> set (?first @ body). ttype t \<noteq> TOKEN_EOF \<and> \<not> skipped (ttype t) \<and> tvalue t \<noteq> []"
    using IH(4) takes_shape [OF lexed_step.hyps(2)] by auto
  ultimately show ?case using IH(2,3) by blast
qed

section \<open>Words: key words and identifiers\<close>

definition letter :: "char \<Rightarrow> bool" where
  "letter c \<longleftrightarrow> in_bracket c False letter_class"

text \<open>\<open>word_at w rest\<close>: \<open>w\<close> has the shape of an identifier and the text
  \<open>rest\<close> after it does not continue it.\<close>

definition word_at :: "string \<Rightarrow> string \<Rightarrow> bool" where
  "word_at w rest \<longleftrightarrow> w \<noteq> [] \<and> letter (hd w) \<and> list_all word_char w \<and> \<not> is_word (head_opt rest)"

definition keywordTable :: "(string \<times> TokenType) list" where
  "keywordTable =
    [(''true'', TOKEN_BOOL), (''false'', TOKEN_BOOL), (''Array'', TOKEN_TYPE_ARRAY),
     (''int'', TOKEN_TYPE_INT), (''float'', TOKEN_TYPE_FLOAT), (''char'', TOKEN_TYPE_CHAR),
     (''bool'', TOKEN_TYPE_BOOL), (''void'', TOKEN_TYPE_VOID), (''if'', TOKEN_KW_IF),
     (''else'', TOKEN_KW_ELSE), (''for'', TOKEN_KW_FOR), (''while'', TOKEN_KW_WHILE),
     (''func'', TOKEN_KW_FUNC), (''extern'', TOKEN_KW_EXTERN), (''ret'', TOKEN_KW_RET),
     (''break'', TOKEN_KW_BREAK), (''continue'', TOKEN_KW_CONTINUE)]"

definition word_type :: "string \<Rightarrow> TokenType" where
  "word_type w = (case map_of keywordTable w of Some ty \<Rightarrow> ty | None \<Rightarrow> TOKEN_IDENTIFIER)"

lemma letter_eq: "letter c \<longleftrightarrow> c = CHR ''_'' \<or>
    97 \<le> (of_char c :: nat) \<and> (of_char c :: nat) \<le> 122 \<or> 65 \<le> (of_char c :: nat) \<and> (of_char c :: nat) \<le> 90"
proof -
  have "(of_char c :: nat) = of_char (CHR ''_'') \<longleftrightarrow> c = CHR ''_''"
    by (simp only: of_char_eq_iff)
  then have "c = CHR ''_'' \<longleftrightarrow> (of_char c :: nat) = 95" by simp
  then show ?thesis by (auto simp: letter_def letter_class_def in_bracket_def in_range_def)
qed

lemma matches_Str [simp]: "matches (Str k) s \<longleftrightarrow> s = k"
  by (induction k arbitrary: s rule: Str.induct) (auto simp: matches_Seq_iff)

lemma boundary_at_word:
  assumes w: "word_at w rest" and n: "0 < n" "n \<le> length (w @ rest)"
    and k: "list_all word_char (take n (w @ rest))"
    and b: "boundary_ok True (last_opt None (take n (w @ rest))) (drop n (w @ rest))"
  shows "n = length w"
proof (rule ccontr)
  assume ne: "n \<noteq> length w"
  show False
  proof (cases "n < length w")
    case True
    then have "head_opt (drop n (w @ rest)) = Some (w ! n)"
      by (simp add: head_opt_def Cons_nth_drop_Suc [symmetric])
    moreover from w True have "word_char (w ! n)" by (simp add: word_at_def list_all_length)
    moreover have "is_word (last_opt None (take n (w @ rest)))"
    proof -
      from n have "take n (w @ rest) \<noteq> []" by auto
      with k have "word_char (last (take n (w @ rest)))" by (metis last_in_set list_all_iff)
      with \<open>take n (w @ rest) \<noteq> []\<close> show ?thesis by (simp add: last_opt_def is_word_def)
    qed
    ultimately show False using b by (simp add: boundary_ok_def is_word_def)
  next
    case False
    with ne n have "rest \<noteq> []" "length w < n" by auto
    then obtain c cs where rest: "rest = c # cs" by (cases rest) auto
    with \<open>length w < n\<close> have "c \<in> set (take n (w @ rest))"
      by (simp only: take_past set_append list.set) simp
    with k have "word_char c" by (simp add: list_all_iff)
    with w rest show False by (simp add: word_at_def head_opt_def is_word_def)
  qed
qed

lemma boundary_end_word: "word_at w rest \<Longrightarrow> boundary_ok True (last_opt None w) rest"
  by (auto simp: boundary_ok_def word_at_def last_opt_def is_word_def list_all_iff)

lemma regexec_words:
  assumes w: "word_at w rest"
    and ks: "\<And>s. matches r s \<longleftrightarrow> s \<in> set ks" "list_all (\<lambda>k. k \<noteq> [] \<and> list_all word_char k) ks"
  shows "regexec (Pattern r True) (w @ rest) = (if w \<in> set ks then Some (length w) else None)"
proof -
  have at: "n = length w \<and> w \<in> set ks" if m: "matches_at (Pattern r True) (w @ rest) n" for n
  proof -
    from m have t: "take n (w @ rest) \<in> set ks" and n: "n \<le> length (w @ rest)"
      and b: "boundary_ok True (last_opt None (take n (w @ rest))) (drop n (w @ rest))"
      by (auto simp: matches_at_def ks(1))
    from t ks(2) have k: "take n (w @ rest) \<noteq> []" "list_all word_char (take n (w @ rest))"
      by (auto simp: list_all_iff)
    from k(1) have "0 < n" by (cases n) auto
    from boundary_at_word [OF w this n k(2) b] t show ?thesis by simp
  qed
  show ?thesis
  proof (cases "w \<in> set ks")
    case True
    then have "matches_at (Pattern r True) (w @ rest) (length w)"
      by (simp add: matches_at_def ks(1) boundary_end_word [OF w])
    then show ?thesis unfolding if_P [OF True] regexec_Some_iff by (metis at order_refl)
  next
    case False
    show ?thesis unfolding if_not_P [OF False] regexec_None_iff using at False by blast
  qed
qed

lemma regexec_keyword:
  assumes "word_at w rest" "k \<noteq> []" "list_all word_char k"
  shows "regexec (keyword k) (w @ rest) = (if w = k then Some (length w) else None)"
proof -
  have "regexec (keyword k) (w @ rest) = (if w \<in> set [k] then Some (length w) else None)"
    by (rule regexec_words [OF assms(1)]) (use assms(2,3) in simp_all)
  then show ?thesis by (cases "w = k") simp_all
qed

lemma regexec_first_Zero:
  assumes "deriv (hd w) (body p) = Zero" "\<not> nullable (body p)" "w \<noteq> []"
  shows "regexec p (w @ rest) = None"
  using assms by (cases w; cases "w @ rest") (auto simp: regexec_def split: option.splits)

lemma word_char_bracket: "word_char c \<longleftrightarrow> in_bracket c False (letter_class @ [(CHR ''0'', CHR ''9'')])"
  by (simp add: word_char_def letter_class_def)

lemma matches_Star_Bracket:
  "matches (Star (Bracket n rs)) s \<longleftrightarrow> list_all (\<lambda>c. in_bracket c n rs) s"
proof
  have "matches r s \<Longrightarrow> r = Star (Bracket n rs) \<Longrightarrow> list_all (\<lambda>c. in_bracket c n rs) s" for r
    by (induction rule: matches.induct) auto
  then show "matches (Star (Bracket n rs)) s \<Longrightarrow> list_all (\<lambda>c. in_bracket c n rs) s" by simp
next
  show "list_all (\<lambda>c. in_bracket c n rs) s \<Longrightarrow> matches (Star (Bracket n rs)) s"
  proof (induction s)
    case (Cons c s)
    then show ?case
      using matches.StarCons [of "Bracket n rs" "[c]" s] by simp
  qed (rule matches.StarNil)
qed

definition identifier_pattern :: pattern where
  "identifier_pattern = Pattern (Seq (Bracket False letter_class)
        (Star (Bracket False (letter_class @ [(CHR ''0'', CHR ''9'')])))) False"

lemma matches_identifier:
  "matches (body identifier_pattern) s \<longleftrightarrow> s \<noteq> [] \<and> letter (hd s) \<and> list_all word_char (tl s)"
  by (cases s)
    (auto simp: identifier_pattern_def matches_deriv [symmetric] nullable_matches [symmetric]
      mk_seq_def matches_Star_Bracket letter_def word_char_bracket [abs_def])

lemma regexec_identifier:
  assumes w: "word_at w rest"
  shows "regexec identifier_pattern (w @ rest) = Some (length w)"
proof -
  have nb: "boundary_ok (bounded identifier_pattern) prev post" for prev post
    by (simp add: identifier_pattern_def boundary_ok_def)
  have "n \<le> length w" if m: "matches_at identifier_pattern (w @ rest) n" for n
  proof (rule ccontr)
    assume "\<not> n \<le> length w"
    with m have "rest \<noteq> []" by (auto simp: matches_at_def)
    then obtain c cs where rest: "rest = c # cs" by (cases rest) auto
    from w have "w \<noteq> []" by (simp add: word_at_def)
    then obtain a as where wc: "w = a # as" by (cases w) auto
    from m have "list_all word_char (tl (take n (w @ rest)))"
      by (simp add: matches_at_def matches_identifier)
    moreover have "c \<in> set (tl (take n (w @ rest)))"
      using \<open>\<not> n \<le> length w\<close> rest wc take_past [of w n c cs] by simp
    ultimately have "word_char c" by (simp add: list_all_iff)
    with w rest show False by (simp add: word_at_def head_opt_def is_word_def)
  qed
  moreover have "matches_at identifier_pattern (w @ rest) (length w)"
    using w by (cases w) (auto simp: matches_at_def matches_identifier nb word_at_def)
  ultimately show ?thesis by (auto simp: regexec_Some_iff)
qed

lemma letter_deriv_Zero:
  assumes "letter c"
  shows "deriv c (Alt (Seq (Star digit) (Seq (Chr (CHR ''.'')) (Plus digit))) (Plus digit)) = Zero"
    and "deriv c (Seq (Str ''//'') q) = Zero" and "deriv c (Seq (Seq (Chr (CHR ''/'')) r) q) = Zero"
    and "deriv c (Seq (Chr quote2) q) = Zero" and "deriv c (Seq (Chr quote1) q) = Zero"
    and "deriv c (Alt (Seq (Star (Bracket False [(CHR ''0'', CHR ''9'')])) (Seq (Chr (CHR ''.''))
        (Seq (Bracket False [(CHR ''0'', CHR ''9'')]) (Star (Bracket False [(CHR ''0'', CHR ''9'')])))))
        (Seq (Bracket False [(CHR ''0'', CHR ''9'')]) (Star (Bracket False [(CHR ''0'', CHR ''9'')])))) = Zero"
  using assms
  by (auto simp: letter_def letter_class_def digit_def Plus_def in_bracket_def in_range_def
      mk_seq_def mk_alt_def)

lemma regexec_no_word:
  assumes "word_at w rest"
  shows "regexec (Pattern (Alt (Seq (Star digit) (Seq (Chr (CHR ''.'')) (Plus digit))) (Plus digit)) b)
           (w @ rest) = None"
    and "regexec (Pattern (Seq (Str ''//'') q) b) (w @ rest) = None"
    and "regexec (Pattern (Seq (Chr quote2) q) b) (w @ rest) = None"
    and "regexec (Pattern (Seq (Chr quote1) q) b) (w @ rest) = None"
proof -
  from assms have "letter (hd w)" "w \<noteq> []" by (auto simp: word_at_def)
  then show "regexec (Pattern (Alt (Seq (Star digit) (Seq (Chr (CHR ''.'')) (Plus digit))) (Plus digit)) b)
           (w @ rest) = None"
    "regexec (Pattern (Seq (Str ''//'') q) b) (w @ rest) = None"
    "regexec (Pattern (Seq (Chr quote2) q) b) (w @ rest) = None"
    "regexec (Pattern (Seq (Chr quote1) q) b) (w @ rest) = None"
    by (auto intro!: regexec_first_Zero simp: letter_deriv_Zero Plus_def digit_def simp del: deriv.simps)
qed

lemma regexec_symbol_word:
  assumes "word_at w rest" "k \<noteq> []" "\<not> letter (hd k)"
  shows "regexec (symbol k) (w @ rest) = None"
proof -
  have "\<not> matches_at (symbol k) (w @ rest) n" for n
  proof
    assume m: "matches_at (symbol k) (w @ rest) n"
    then have "take n (w @ rest) = k" by (simp add: matches_at_def)
    with assms show False by (cases n; cases w) (auto simp: word_at_def)
  qed
  then show ?thesis by (simp add: regexec_None_iff)
qed

lemma regexec_bool_word:
  assumes "word_at w rest"
  shows "regexec (Pattern (Alt (Str ''true'') (Str ''false'')) True) (w @ rest)
           = (if w = ''true'' \<or> w = ''false'' then Some (length w) else None)"
proof -
  have "regexec (Pattern (Alt (Str ''true'') (Str ''false'')) True) (w @ rest)
          = (if w \<in> set [''true'', ''false''] then Some (length w) else None)"
    by (rule regexec_words [OF assms])
      (auto simp: word_char_def in_bracket_def in_range_def simp del: Str.simps)
  then show ?thesis by simp
qed

lemmas word_table = regexec_no_word regexec_keyword regexec_bool_word regexec_symbol_word
  regexec_identifier [unfolded identifier_pattern_def]

lemma firstMatch_word:
  assumes w: "word_at w rest"
  shows "firstMatch types (w @ rest) = Some (word_type w, length w)"
  using w
  by (simp add: types_def word_table word_type_def keywordTable_def letter_eq
      in_bracket_def in_range_def word_char_def del: Str.simps)

section \<open>Properties\<close>

lemma tokenizeString_Inr:
  "tokenizeString s = Inr ts \<longleftrightarrow> (\<exists>l. lexerLoop (lexerInit (c_string s)) = Inr l
     \<and> ts = appendToken (ltokens l) TOKEN_EOF [] (lline l) (lcolumn l))"
  by (auto simp: tokenizeString_def lexerScan_def lexerTakeTokens_def split: sum.splits)

lemma lexerInit_simps [simp]:
  "lcursor (lexerInit s) = s" "ltokens (lexerInit s) = []"
  "lline (lexerInit s) = 1" "lcolumn (lexerInit s) = 1"
  by (simp_all add: lexerInit_def)

lemma tokenizeString_iff:
  "tokenizeString s = Inr ts \<longleftrightarrow> (\<exists>ls. lexed (c_string s) ls \<and> ts = located (1, 1) ls)"
proof
  assume "tokenizeString s = Inr ts"
  then show "\<exists>ls. lexed (c_string s) ls \<and> ts = located (1, 1) ls"
    by (auto simp: tokenizeString_Inr emits_def dest!: lexerLoop_sound)
next
  assume "\<exists>ls. lexed (c_string s) ls \<and> ts = located (1, 1) ls"
  then obtain ls where ls: "lexed (c_string s) ls" "ts = located (1, 1) ls" by blast
  then show "tokenizeString s = Inr ts"
    using lexerLoop_complete [of "lexerInit (c_string s)" ls]
    by (auto simp: tokenizeString_Inr emits_def)
qed

text \<open>C9: the lexer returns tokens exactly when the input (up to its first NUL) splits
  into lexemes of the token table, each the longest match of the first table entry that matches
  there, and the tokens are those lexemes at their positions, without whitespace and comments,
  closed by the end marker.\<close>

theorem tokenizeString_follows_table:
  "tokenizeString s = Inr ts \<longleftrightarrow> (\<exists>ls. lexed (c_string s) ls \<and> ts = located (1, 1) ls)"
  by (rule tokenizeString_iff)

text \<open>C20: the text is the tokens in their order with whitespace and comments between them, and nothing
  else; and the line and column of each token, the end marker included, are those of the place
  where it stands: one more than the newlines in the whole text before it, and one more than the
  characters since the last of them.\<close>

theorem token_positions:
  assumes "tokenizeString s = Inr ts"
  shows "placed [] ts (c_string s)"
proof -
  obtain ls where ls: "lexed (c_string s) ls" "ts = located (1, 1) ls"
    using assms by (auto simp: tokenizeString_iff)
  have "located (1, 1) ls = located (line_of [], column_of []) ls" by (simp add: line_of_def column_of_def)
  then show ?thesis using lexed_placed [OF ls(1), of "[]"] ls(2) by simp
qed

text \<open>C22: the token list ends with one end marker and holds no other; no token is
  whitespace, a comment or empty.\<close>

theorem token_list_shape:
  assumes "tokenizeString s = Inr ts"
  shows "\<exists>body eof. ts = body @ [eof] \<and> ttype eof = TOKEN_EOF
           \<and> (\<forall>t \<in> set body. ttype t \<noteq> TOKEN_EOF \<and> ttype t \<noteq> TOKEN_WHITESPACE
                \<and> ttype t \<noteq> TOKEN_COMMENT \<and> tvalue t \<noteq> [])"
proof -
  from assms obtain ls where ls: "lexed (c_string s) ls" and ts: "ts = located (1, 1) ls"
    by (auto simp: tokenizeString_iff)
  from located_shape [OF ls, of "(1, 1)"] show ?thesis
    unfolding ts skipped_def by blast
qed

text \<open>C18: the lexer stops with an error exactly when, after some lexemes, it stands at
  non-empty text that no table entry matches; the error shows the first ten characters of that
  text.\<close>

theorem tokenizeString_error:
  "tokenizeString s = Inl e \<longleftrightarrow> (\<exists>u. stuck (c_string s) u \<and> e = UnrecognizedToken (take 10 u))"
proof -
  let ?l = "lexerInit (c_string s)"
  have inl: "tokenizeString s = Inl e \<longleftrightarrow> lexerLoop ?l = Inl e"
    by (simp add: tokenizeString_def lexerScan_def split: sum.splits)
  show ?thesis
  proof
    show "tokenizeString s = Inl e \<Longrightarrow> \<exists>u. stuck (c_string s) u \<and> e = UnrecognizedToken (take 10 u)"
      using lexerLoop_stuck [of ?l e] inl by simp
  next
    assume "\<exists>u. stuck (c_string s) u \<and> e = UnrecognizedToken (take 10 u)"
    then obtain u where u: "stuck (c_string s) u" "e = UnrecognizedToken (take 10 u)" by blast
    show "tokenizeString s = Inl e"
    proof (cases "lexerLoop ?l")
      case (Inl e')
      with lexerLoop_stuck [of ?l e'] u stuck_unique inl show ?thesis by force
    next
      case (Inr l')
      with lexerLoop_sound [of ?l l'] stuck_not_lexed [OF u(1)] show ?thesis by auto
    qed
  qed
qed


text \<open>C21: text that starts with a word (a letter or underscore, then letters, digits
  and underscores, not continued by what follows) is lexed as that whole word: the keyword of the
  table if it is one, else an identifier.  So \<^verbatim>\<open>iffy\<close> is never
  \<^verbatim>\<open>if\<close> and \<^verbatim>\<open>fy\<close>.\<close>

theorem word_lexeme:
  assumes "word_at w rest"
  shows "takes (w @ rest) ty v \<longleftrightarrow> ty = word_type w \<and> v = w"
  using firstMatch_word [OF assms] by (auto simp: takes_alt)

theorem word_lexeme_witness:
  "takes (''iffy'' @ '' (x)'') TOKEN_IDENTIFIER ''iffy'' \<and> takes (''if'' @ ''(x)'') TOKEN_KW_IF ''if''"
proof -
  have a: "word_at ''iffy'' '' (x)''" and b: "word_at ''if'' ''(x)''" by code_simp+
  have "word_type ''iffy'' = TOKEN_IDENTIFIER" "word_type ''if'' = TOKEN_KW_IF" by code_simp+
  then show ?thesis unfolding word_lexeme [OF a] word_lexeme [OF b] by (intro conjI) simp_all
qed

theorem token_positions_witness:
  "\<exists>ts. tokenizeString [CHR ''a'', newline, CHR '' '', CHR ''a''] = Inr ts \<and> map tcolumn ts = [1, 2, 3]
     \<and> placed [] ts (c_string [CHR ''a'', newline, CHR '' '', CHR ''a''])"
proof -
  let ?ts = "[\<lparr>ttype = TOKEN_IDENTIFIER, tvalue = ''a'', tline = 1, tcolumn = 1\<rparr>,
     \<lparr>ttype = TOKEN_IDENTIFIER, tvalue = ''a'', tline = 2, tcolumn = 2\<rparr>,
     \<lparr>ttype = TOKEN_EOF, tvalue = [], tline = 2, tcolumn = 3\<rparr>]"
  have ts: "tokenizeString [CHR ''a'', newline, CHR '' '', CHR ''a''] = Inr ?ts" by code_simp
  have "map tcolumn ?ts = [1, 2, 3]" by simp
  then show ?thesis using token_positions [OF ts] ts by (intro exI [of _ ?ts] conjI)
qed

theorem token_list_shape_witness:
  "\<exists>ts. tokenizeString ''ret;'' = Inr ts \<and> length ts = 3
     \<and> (\<exists>body eof. ts = body @ [eof] \<and> ttype eof = TOKEN_EOF
           \<and> (\<forall>t \<in> set body. ttype t \<noteq> TOKEN_EOF \<and> ttype t \<noteq> TOKEN_WHITESPACE
                \<and> ttype t \<noteq> TOKEN_COMMENT \<and> tvalue t \<noteq> []))"
proof -
  let ?ts = "[\<lparr>ttype = TOKEN_KW_RET, tvalue = ''ret'', tline = 1, tcolumn = 1\<rparr>,
     \<lparr>ttype = TOKEN_SEMICOLON, tvalue = '';'', tline = 1, tcolumn = 4\<rparr>,
     \<lparr>ttype = TOKEN_EOF, tvalue = [], tline = 1, tcolumn = 5\<rparr>]"
  have ts: "tokenizeString ''ret;'' = Inr ?ts" by code_simp
  have "length ?ts = 3" by simp
  with token_list_shape [OF ts] ts show ?thesis by blast
qed

end
