(* ===== verification/Numbers.thy ===== *)
theory Numbers
  imports Prelude
begin

text \<open>
  The numbers a literal denotes: \<^verbatim>\<open>strtol\<close> (base 10, saturating at
  \<^verbatim>\<open>LONG_MAX\<close>) and \<^verbatim>\<open>strtod\<close> (the binary64 value nearest to the decimal
  text, ties to even), and \<^verbatim>\<open>printf\<close>'s \<^verbatim>\<open>%f\<close>.  The lexer passes
  unsigned decimal text only, so every value here is non-negative.
\<close>

definition LONG_MAX :: int where
  "LONG_MAX = 2 ^ 63 - 1"

definition strtol :: "string \<Rightarrow> int" where
  "strtol s = min LONG_MAX (int (digits_value (takeWhile is_digit s)))"

lemma strtol_bounds: "0 \<le> strtol s \<and> strtol s \<le> LONG_MAX"
  by (simp add: strtol_def LONG_MAX_def)

lemma strtol_show_nat: "int n \<le> LONG_MAX \<Longrightarrow> strtol (show_nat n) = int n"
proof -
  assume "int n \<le> LONG_MAX"
  moreover have "takeWhile is_digit (show_nat n) = show_nat n"
    using show_nat_digits by (simp add: takeWhile_eq_all_conv)
  ultimately show ?thesis by (metis digits_value_show_nat min.absorb2 strtol_def)
qed

section \<open>Binary64\<close>

text \<open>\<open>Double m e\<close> is the value \<open>m * 2 ^ e\<close>.\<close>

datatype double = Double nat int | Infinity

fun bit_length :: "nat \<Rightarrow> nat" where
  "bit_length n = (if n = 0 then 0 else Suc (bit_length (n div 2)))"

declare bit_length.simps [simp del]

text \<open>The integer nearest to \<open>a / b\<close>, ties to even.\<close>

definition round_div :: "nat \<Rightarrow> nat \<Rightarrow> nat" where
  "round_div a b =
     (let q = a div b; r = a mod b
      in if 2 * r < b \<or> (2 * r = b \<and> even q) then q else q + 1)"

text \<open>The nearest integer to \<open>a / (b * 2 ^ e)\<close>.\<close>

definition scaled_div :: "nat \<Rightarrow> nat \<Rightarrow> int \<Rightarrow> nat" where
  "scaled_div a b e = (if 0 \<le> e then round_div a (b * 2 ^ nat e) else round_div (a * 2 ^ nat (- e)) b)"

definition floor_log2 :: "nat \<Rightarrow> nat \<Rightarrow> int" where
  "floor_log2 a b =
     (let g = int (bit_length a) - int (bit_length b)
      in if 0 \<le> g then (if b * 2 ^ nat g \<le> a then g else g - 1)
         else (if b \<le> a * 2 ^ nat (- g) then g else g - 1))"

definition to_double :: "nat \<Rightarrow> nat \<Rightarrow> double" where
  "to_double a b =
     (if a = 0 then Double 0 0
      else let e = max (-1074) (floor_log2 a b - 52); m = scaled_div a b e
           in if 971 < e \<or> (e = 971 \<and> m = 2 ^ 53) then Infinity
              else if m = 2 ^ 53 then Double (2 ^ 52) (e + 1) else Double m e)"

definition strtod :: "string \<Rightarrow> double" where
  "strtod s =
     (let whole = takeWhile is_digit s;
          rest = dropWhile is_digit s;
          frac = (case rest of [] \<Rightarrow> [] | c # cs \<Rightarrow> if c = CHR ''.'' then takeWhile is_digit cs else [])
      in to_double (digits_value (whole @ frac)) (10 ^ length frac))"

definition pad_left :: "nat \<Rightarrow> string \<Rightarrow> string" where
  "pad_left n s = replicate (n - length s) (CHR ''0'') @ s"

text \<open>\<^verbatim>\<open>%f\<close>: six decimals.\<close>

definition show_double :: "double \<Rightarrow> string" where
  "show_double d = (case d of
     Infinity \<Rightarrow> ''inf''
   | Double m e \<Rightarrow>
       (let q = scaled_div (m * 10 ^ 6) 1 (- e)
        in show_nat (q div 10 ^ 6) @ ''.'' @ pad_left 6 (show_nat (q mod 10 ^ 6))))"

end
