(* ===== verification/Ast.thy ===== *)
theory Ast
  imports Numbers
begin

text \<open>
  The syntax tree of \<^verbatim>\<open>include/ast.h\<close>.  A value of type \<open>ast\<close> is an
  \<^verbatim>\<open>AstNode *\<close>: \<open>AST_NULL\<close> is the null pointer, every other constructor
  a node with its line and column and the member of the union its tag selects.  Arrays with a
  count are lists.  A name that was never set (null) is the empty string; a name taken from an
  identifier token never is.
\<close>

type_synonym loc = "nat \<times> nat"

datatype AstTypeKind =
    AST_TYPE_INT_KIND
  | AST_TYPE_FLOAT_KIND
  | AST_TYPE_CHAR_KIND
  | AST_TYPE_BOOL_KIND
  | AST_TYPE_VOID_KIND
  | AST_TYPE_ARRAY_KIND
  | AST_TYPE_CUSTOM_KIND

datatype AstBinaryOp =
    AST_BINARY_ADD
  | AST_BINARY_SUB
  | AST_BINARY_MUL
  | AST_BINARY_DIV
  | AST_BINARY_GT
  | AST_BINARY_LT
  | AST_BINARY_GTE
  | AST_BINARY_LTE
  | AST_BINARY_EQ
  | AST_BINARY_NEQ
  | AST_BINARY_AND
  | AST_BINARY_OR

datatype AstUnaryOp =
    AST_UNARY_NEGATE
  | AST_UNARY_NOT
  | AST_UNARY_ADDRESS_OF
  | AST_UNARY_DEREF

datatype AstAssignOp =
    AST_ASSIGN_SET
  | AST_ASSIGN_ADD
  | AST_ASSIGN_SUB

datatype ast =
    AST_NULL
  | AST_PROGRAM loc "ast list"
  | AST_BLOCK loc "ast list"
  | AST_VAR_DECL loc string ast ast \<comment> \<open>name, declared type, initializer\<close>
  | AST_FUNC_DECL loc string "ast list" ast ast bool \<comment> \<open>name, params, body, return type, is_extern\<close>
  | AST_PARAM loc string ast
  | AST_IF loc ast ast ast
  | AST_WHILE loc ast ast
  | AST_FOR loc ast ast ast ast \<comment> \<open>init, condition, update, body\<close>
  | AST_RETURN loc ast
  | AST_BREAK loc
  | AST_CONTINUE loc
  | AST_EXPR_STMT loc ast
  | AST_ASSIGN loc AstAssignOp ast ast \<comment> \<open>target, value\<close>
  | AST_BINARY loc AstBinaryOp ast ast
  | AST_UNARY loc AstUnaryOp ast
  | AST_CALL loc ast "ast list"
  | AST_ARRAY_ACCESS loc ast "ast list"
  | AST_ARRAY_LITERAL loc "ast list"
  | AST_IDENTIFIER loc string
  | AST_INT_LITERAL loc int
  | AST_FLOAT_LITERAL loc double
  | AST_CHAR_LITERAL loc char
  | AST_STRING_LITERAL loc string
  | AST_BOOL_LITERAL loc bool
  | AST_TYPE_NAME loc AstTypeKind string
  | AST_TYPE_ARRAY loc ast ast \<comment> \<open>element type, size expression\<close>
  | AST_TYPE_POINTER loc ast

text \<open>\<^verbatim>\<open>node->line\<close> and \<^verbatim>\<open>node->column\<close>; \<open>(0, 0)\<close>, the
  position errors without a node get, for the null pointer.\<close>

fun ast_loc :: "ast \<Rightarrow> loc" where
  "ast_loc AST_NULL = (0, 0)"
| "ast_loc (AST_PROGRAM l _) = l"
| "ast_loc (AST_BLOCK l _) = l"
| "ast_loc (AST_VAR_DECL l _ _ _) = l"
| "ast_loc (AST_FUNC_DECL l _ _ _ _ _) = l"
| "ast_loc (AST_PARAM l _ _) = l"
| "ast_loc (AST_IF l _ _ _) = l"
| "ast_loc (AST_WHILE l _ _) = l"
| "ast_loc (AST_FOR l _ _ _ _) = l"
| "ast_loc (AST_RETURN l _) = l"
| "ast_loc (AST_BREAK l) = l"
| "ast_loc (AST_CONTINUE l) = l"
| "ast_loc (AST_EXPR_STMT l _) = l"
| "ast_loc (AST_ASSIGN l _ _ _) = l"
| "ast_loc (AST_BINARY l _ _ _) = l"
| "ast_loc (AST_UNARY l _ _) = l"
| "ast_loc (AST_CALL l _ _) = l"
| "ast_loc (AST_ARRAY_ACCESS l _ _) = l"
| "ast_loc (AST_ARRAY_LITERAL l _) = l"
| "ast_loc (AST_IDENTIFIER l _) = l"
| "ast_loc (AST_INT_LITERAL l _) = l"
| "ast_loc (AST_FLOAT_LITERAL l _) = l"
| "ast_loc (AST_CHAR_LITERAL l _) = l"
| "ast_loc (AST_STRING_LITERAL l _) = l"
| "ast_loc (AST_BOOL_LITERAL l _) = l"
| "ast_loc (AST_TYPE_NAME l _ _) = l"
| "ast_loc (AST_TYPE_ARRAY l _ _) = l"
| "ast_loc (AST_TYPE_POINTER l _) = l"

text \<open>\<^verbatim>\<open>astAppendNode\<close>, guarded as its callers guard it: a null item is not
  appended.\<close>

definition append_node :: "ast list \<Rightarrow> ast \<Rightarrow> ast list" where
  "append_node xs item = (if item \<noteq> AST_NULL then xs @ [item] else xs)"

section \<open>Well-formed trees\<close>

text \<open>
  The trees the parser promises to later phases when it reports no error: no null child where
  the later phases dereference without a check, array accesses with exactly one index, bodies
  that are blocks, assignments to assignable targets only.
\<close>

fun isAssignableTarget :: "ast \<Rightarrow> bool" where
  "isAssignableTarget AST_NULL = False"
| "isAssignableTarget (AST_IDENTIFIER l name) = True"
| "isAssignableTarget (AST_ARRAY_ACCESS l base indices) = isAssignableTarget base"
| "isAssignableTarget (AST_UNARY l op operand) = (op = AST_UNARY_DEREF)"
| "isAssignableTarget _ = False"

fun is_postfix :: "ast \<Rightarrow> bool" where
  "is_postfix (AST_IDENTIFIER l name) = True"
| "is_postfix (AST_CALL l callee args) = True"
| "is_postfix (AST_ARRAY_ACCESS l base indices) = True"
| "is_postfix _ = False"

fun wf_expr :: "ast \<Rightarrow> bool" where
  "wf_expr (AST_BINARY l op a b) = (wf_expr a \<and> wf_expr b)"
| "wf_expr (AST_UNARY l op a) = wf_expr a"
| "wf_expr (AST_CALL l callee args) = (is_postfix callee \<and> wf_expr callee \<and> (\<forall>a \<in> set args. wf_expr a))"
| "wf_expr (AST_ARRAY_ACCESS l base indices) =
     (is_postfix base \<and> wf_expr base \<and> length indices = 1 \<and> (\<forall>a \<in> set indices. wf_expr a))"
| "wf_expr (AST_ARRAY_LITERAL l elements) = (\<forall>a \<in> set elements. wf_expr a)"
| "wf_expr (AST_IDENTIFIER l name) = True"
| "wf_expr (AST_INT_LITERAL l v) = (0 \<le> v \<and> v \<le> LONG_MAX)"
| "wf_expr (AST_FLOAT_LITERAL l v) = True"
| "wf_expr (AST_CHAR_LITERAL l v) = True"
| "wf_expr (AST_STRING_LITERAL l v) = True"
| "wf_expr (AST_BOOL_LITERAL l v) = True"
| "wf_expr _ = False"

fun wf_type :: "ast \<Rightarrow> bool" where
  "wf_type (AST_TYPE_NAME l k name) = (k \<noteq> AST_TYPE_ARRAY_KIND)"
| "wf_type (AST_TYPE_POINTER l t) = wf_type t"
| "wf_type (AST_TYPE_ARRAY l t e) =
     ((t = AST_NULL \<and> e = AST_NULL) \<or> (wf_type t \<and> (e = AST_NULL \<or> wf_expr e)))"
| "wf_type _ = False"

definition wf_param :: "ast \<Rightarrow> bool" where
  "wf_param p = (case p of AST_PARAM l name t \<Rightarrow> wf_type t | _ \<Rightarrow> False)"

definition wf_var_decl :: "ast \<Rightarrow> bool" where
  "wf_var_decl d = (case d of
     AST_VAR_DECL l name t i \<Rightarrow> wf_type t \<and> (i = AST_NULL \<or> wf_expr i) | _ \<Rightarrow> False)"

definition wf_assign :: "ast \<Rightarrow> bool" where
  "wf_assign a = (case a of
     AST_ASSIGN l op t v \<Rightarrow> isAssignableTarget t \<and> wf_expr t \<and> wf_expr v | _ \<Rightarrow> False)"

text \<open>What \<^verbatim>\<open>parseAssign\<close> returns: a declaration, an assignment or an expression.\<close>

definition wf_loose :: "ast \<Rightarrow> bool" where
  "wf_loose a \<longleftrightarrow> wf_var_decl a \<or> wf_assign a \<or> wf_expr a"

fun is_block :: "ast \<Rightarrow> bool" where
  "is_block (AST_BLOCK l ss) = True"
| "is_block _ = False"

fun is_if :: "ast \<Rightarrow> bool" where
  "is_if (AST_IF l c t e) = True"
| "is_if _ = False"

fun wf_stmt :: "ast \<Rightarrow> bool" where
  "wf_stmt (AST_BLOCK l ss) = (\<forall>s \<in> set ss. \<not> is_block s \<and> wf_stmt s)"
| "wf_stmt (AST_IF l c t e) =
     (wf_expr c \<and> is_block t \<and> wf_stmt t \<and> (e = AST_NULL \<or> ((is_block e \<or> is_if e) \<and> wf_stmt e)))"
| "wf_stmt (AST_WHILE l c b) = (wf_expr c \<and> is_block b \<and> wf_stmt b)"
| "wf_stmt (AST_FOR l i c u b) =
     ((i = AST_NULL \<or> wf_loose i) \<and> (c = AST_NULL \<or> wf_expr c) \<and> (u = AST_NULL \<or> wf_loose u)
        \<and> is_block b \<and> wf_stmt b)"
| "wf_stmt (AST_FUNC_DECL l name params b r ext) =
     ((\<forall>p \<in> set params. wf_param p) \<and> wf_type r \<and> \<not> ext \<and> is_block b \<and> wf_stmt b)"
| "wf_stmt (AST_RETURN l v) = (v = AST_NULL \<or> wf_expr v)"
| "wf_stmt (AST_BREAK l) = True"
| "wf_stmt (AST_CONTINUE l) = True"
| "wf_stmt (AST_EXPR_STMT l e) = wf_expr e"
| "wf_stmt (AST_VAR_DECL l name t i) = (wf_type t \<and> (i = AST_NULL \<or> wf_expr i))"
| "wf_stmt (AST_ASSIGN l op t v) = (isAssignableTarget t \<and> wf_expr t \<and> wf_expr v)"
| "wf_stmt _ = False"

definition wf_extern :: "ast \<Rightarrow> bool" where
  "wf_extern d = (case d of AST_FUNC_DECL l name params b r ext \<Rightarrow>
     (\<forall>p \<in> set params. wf_param p) \<and> wf_type r \<and> ext \<and> b = AST_NULL | _ \<Rightarrow> False)"

definition is_func_decl :: "ast \<Rightarrow> bool" where
  "is_func_decl d = (case d of AST_FUNC_DECL l name params b r ext \<Rightarrow> True | _ \<Rightarrow> False)"

text \<open>The parser's promise about file scope: declarations of variables and functions only.\<close>

definition wf_top :: "ast \<Rightarrow> bool" where
  "wf_top d \<longleftrightarrow> wf_var_decl d \<or> (is_func_decl d \<and> wf_stmt d) \<or> wf_extern d"

definition wf_program :: "ast \<Rightarrow> bool" where
  "wf_program p = (case p of AST_PROGRAM l ds \<Rightarrow> \<forall>d \<in> set ds. wf_top d | _ \<Rightarrow> False)"

lemma wf_expr_not_NULL [simp]: "\<not> wf_expr AST_NULL"
  by simp

lemma wf_type_not_NULL [simp]: "\<not> wf_type AST_NULL"
  by simp

end
