(* ===== verification/Parser.thy ===== *)
theory Parser
  imports Ast Token
begin

text \<open>
  The recursive descent parser of \<^verbatim>\<open>src/parser/parser.c\<close>: its state, the
  primitive operations on it, and the expression, type, statement and declaration parsers.
  \<^verbatim>\<open>parser->current\<close> is the list of tokens from the current one on.

  A function that calls itself after it has consumed tokens is bounded by the number of tokens
  left: the loops and the knots between the mutually recursive functions count down from
  \<open>Suc (length (current p))\<close>, and \<open>None\<close> is that bound running out.  Theory
  \<open>Parser_Props\<close> shows it never does.
\<close>

section \<open>State and primitive operations\<close>

record ParserError =
  eline :: nat
  ecolumn :: nat
  emessage :: string

record Parser =
  ptokens :: "Token list"
  current :: "Token list"
  perrors :: "ParserError growable"
  is_panic :: bool

type_synonym parse = "Parser \<Rightarrow> (ast \<times> Parser) option"

definition parserInit :: "Token list \<Rightarrow> Parser" where
  "parserInit ts = \<lparr>ptokens = ts, current = ts, perrors = growable_init, is_panic = False\<rparr>"

definition parserErrorListAppend ::
  "ParserError growable \<Rightarrow> nat \<Rightarrow> nat \<Rightarrow> string \<Rightarrow> ParserError growable" where
  "parserErrorListAppend es line column message =
     growable_append es \<lparr>eline = line, ecolumn = column, emessage = message\<rparr>"

text \<open>\<^verbatim>\<open>astNewNodeFromToken\<close>: the position a node gets from a token; without one
  it is \<open>(0, 0)\<close>.\<close>

fun token_loc :: "Token list \<Rightarrow> loc" where
  "token_loc [] = (0, 0)"
| "token_loc (t # ts) = (tline t, tcolumn t)"

text \<open>\<^verbatim>\<open>astNewNodeFromCurrent\<close>, \<^verbatim>\<open>copyTokenValue\<close> and the type of the
  current token, which the code reads only where there is one.\<close>

definition current_loc :: "Parser \<Rightarrow> loc" where
  "current_loc p = token_loc (current p)"

definition currentValue :: "Parser \<Rightarrow> string" where
  "currentValue p = (case current p of [] \<Rightarrow> [] | t # ts \<Rightarrow> tvalue t)"

definition currentType :: "Parser \<Rightarrow> TokenType" where
  "currentType p = (case current p of [] \<Rightarrow> TOKEN_EOF | t # ts \<Rightarrow> ttype t)"

definition parserIs :: "Parser \<Rightarrow> TokenType \<Rightarrow> bool" where
  "parserIs p ty = (case current p of [] \<Rightarrow> False | t # ts \<Rightarrow> ttype t = ty)"

definition parserIsAny :: "Parser \<Rightarrow> TokenType list \<Rightarrow> bool" where
  "parserIsAny p tys = list_ex (parserIs p) tys"

definition parserAtEnd :: "Parser \<Rightarrow> bool" where
  "parserAtEnd p = (case current p of [] \<Rightarrow> True | t # ts \<Rightarrow> ttype t = TOKEN_EOF)"

definition parserSyntaxError :: "Parser \<Rightarrow> Token option \<Rightarrow> string \<Rightarrow> Parser" where
  "parserSyntaxError p token message =
     (if is_panic p then p
      else let (line, column) =
             (case token of Some t \<Rightarrow> (tline t, tcolumn t) | None \<Rightarrow> token_loc (current p))
           in p\<lparr>perrors := parserErrorListAppend (perrors p) line column message,
                is_panic := True\<rparr>)"

definition current_token :: "Parser \<Rightarrow> Token option" where
  "current_token p = (case current p of [] \<Rightarrow> None | t # ts \<Rightarrow> Some t)"

definition parserAdvance :: "Parser \<Rightarrow> Parser" where
  "parserAdvance p = p\<lparr>current := tl (current p)\<rparr>"

definition parserExpect :: "Parser \<Rightarrow> TokenType \<Rightarrow> string \<Rightarrow> bool \<times> Parser" where
  "parserExpect p ty message =
     (if \<not> parserIs p ty then (False, parserSyntaxError p (current_token p) message)
      else (True, parserAdvance p))"

definition isTypeToken :: "Parser \<Rightarrow> bool" where
  "isTypeToken p = parserIsAny p
     [TOKEN_STAR, TOKEN_TYPE_ARRAY, TOKEN_TYPE_INT, TOKEN_TYPE_FLOAT, TOKEN_TYPE_CHAR,
      TOKEN_TYPE_BOOL, TOKEN_TYPE_VOID, TOKEN_IDENTIFIER]"

definition isDeclarationStart :: "Parser \<Rightarrow> bool" where
  "isDeclarationStart p = (case current p of
     t # u # ts \<Rightarrow> ttype t = TOKEN_IDENTIFIER \<and> ttype u = TOKEN_DOUBLE_COLON
   | _ \<Rightarrow> False)"

definition parserIsTopLevelRestart :: "Parser \<Rightarrow> bool" where
  "parserIsTopLevelRestart p \<longleftrightarrow>
     parserIs p TOKEN_KW_FUNC \<or> parserIs p TOKEN_KW_EXTERN \<or> isDeclarationStart p"

text \<open>The two recovery loops.  \<open>parserSkipTo\<close> is the loop they share: it
  skips tokens up to the end or a restart, and consumes a semicolon.\<close>

function parserSkipTo :: "(Parser \<Rightarrow> bool) \<Rightarrow> Parser \<Rightarrow> Parser" where
  "parserSkipTo restart p =
     (if parserAtEnd p then p
      else if parserIs p TOKEN_SEMICOLON then parserAdvance p
      else if restart p then p
      else parserSkipTo restart (parserAdvance p))"
  by pat_completeness auto
termination
  by (relation "measure (\<lambda>(r, p). length (current p))")
     (auto simp: parserAtEnd_def parserAdvance_def split: list.splits)

declare parserSkipTo.simps [simp del]

definition parserSynchronizeStatement :: "Parser \<Rightarrow> Parser" where
  "parserSynchronizeStatement p =
     (parserSkipTo (\<lambda>p. parserIs p TOKEN_RBRACE) p)\<lparr>is_panic := False\<rparr>"

definition parserSynchronizeTopLevel :: "Parser \<Rightarrow> Parser" where
  "parserSynchronizeTopLevel p = (parserSkipTo parserIsTopLevelRestart p)\<lparr>is_panic := False\<rparr>"

fun binaryOpFromToken :: "TokenType \<Rightarrow> AstBinaryOp" where
  "binaryOpFromToken TOKEN_PLUS = AST_BINARY_ADD"
| "binaryOpFromToken TOKEN_MINUS = AST_BINARY_SUB"
| "binaryOpFromToken TOKEN_STAR = AST_BINARY_MUL"
| "binaryOpFromToken TOKEN_SLASH = AST_BINARY_DIV"
| "binaryOpFromToken TOKEN_GT = AST_BINARY_GT"
| "binaryOpFromToken TOKEN_LT = AST_BINARY_LT"
| "binaryOpFromToken TOKEN_GT_EQ = AST_BINARY_GTE"
| "binaryOpFromToken TOKEN_LT_EQ = AST_BINARY_LTE"
| "binaryOpFromToken TOKEN_EQ_EQ = AST_BINARY_EQ"
| "binaryOpFromToken TOKEN_NOT_EQ = AST_BINARY_NEQ"
| "binaryOpFromToken TOKEN_AND_AND = AST_BINARY_AND"
| "binaryOpFromToken TOKEN_OR_OR = AST_BINARY_OR"
| "binaryOpFromToken _ = AST_BINARY_ADD"

fun assignOpFromToken :: "TokenType \<Rightarrow> AstAssignOp" where
  "assignOpFromToken TOKEN_PLUS_ASSIGN = AST_ASSIGN_ADD"
| "assignOpFromToken TOKEN_MINUS_ASSIGN = AST_ASSIGN_SUB"
| "assignOpFromToken _ = AST_ASSIGN_SET"

fun typeKindFromToken :: "TokenType \<Rightarrow> AstTypeKind" where
  "typeKindFromToken TOKEN_TYPE_INT = AST_TYPE_INT_KIND"
| "typeKindFromToken TOKEN_TYPE_FLOAT = AST_TYPE_FLOAT_KIND"
| "typeKindFromToken TOKEN_TYPE_CHAR = AST_TYPE_CHAR_KIND"
| "typeKindFromToken TOKEN_TYPE_BOOL = AST_TYPE_BOOL_KIND"
| "typeKindFromToken TOKEN_TYPE_VOID = AST_TYPE_VOID_KIND"
| "typeKindFromToken TOKEN_TYPE_ARRAY = AST_TYPE_ARRAY_KIND"
| "typeKindFromToken _ = AST_TYPE_CUSTOM_KIND"

text \<open>\<^verbatim>\<open>text[i]\<close> of a C string, which ends in a NUL byte.\<close>

definition char_at :: "string \<Rightarrow> nat \<Rightarrow> char" where
  "char_at s i = (if i < length s then s ! i else NUL)"

definition parseCharLiteralValue :: "string \<Rightarrow> char" where
  "parseCharLiteralValue s =
     (if char_at s 1 \<noteq> CHR 0x5C then char_at s 1
      else if char_at s 2 = CHR ''0'' then NUL
      else if char_at s 2 = CHR ''n'' then newline
      else if char_at s 2 = CHR ''t'' then CHR 0x09
      else char_at s 2)"

section \<open>Expressions\<close>

text \<open>The loop of the five left-associative levels.\<close>

fun parseBinaryLoop :: "nat \<Rightarrow> TokenType list \<Rightarrow> parse \<Rightarrow> ast \<Rightarrow> parse" where
  "parseBinaryLoop 0 ops operand node p = None"
| "parseBinaryLoop (Suc n) ops operand node p =
     (if \<not> parserAtEnd p \<and> parserIsAny p ops then
        do { (right, p') \<leftarrow> operand (parserAdvance p);
             parseBinaryLoop n ops operand
               (AST_BINARY (current_loc p) (binaryOpFromToken (currentType p)) node right) p' }
      else Some (node, p))"

definition parseBinary :: "TokenType list \<Rightarrow> parse \<Rightarrow> parse" where
  "parseBinary ops operand p =
     do { (node, p) \<leftarrow> operand p;
          parseBinaryLoop (Suc (length (current p))) ops operand node p }"

text \<open>The elements of a call's argument list or of an array literal after the first: while
  the current token is a separator, consume it and parse one more.  \<open>stop\<close> is the
  array literal's test for a trailing separator.  The code returns from the whole function when
  an element leaves the parser in panic; so do the callers below.\<close>

fun parseListLoop ::
  "nat \<Rightarrow> TokenType list \<Rightarrow> (Parser \<Rightarrow> bool) \<Rightarrow> parse \<Rightarrow> ast list \<Rightarrow> Parser \<Rightarrow> (ast list \<times> Parser) option"
  where
  "parseListLoop 0 seps stop pl xs p = None"
| "parseListLoop (Suc n) seps stop pl xs p =
     (if parserIsAny p seps then
        (let p = parserAdvance p
         in if stop p then Some (xs, p)
            else do { (x, p) \<leftarrow> pl p;
                      (let xs = append_node xs x
                       in if is_panic p then Some (xs, p) else parseListLoop n seps stop pl xs p) })
      else Some (xs, p))"

text \<open>A first element and the loop; the flag says that the function has to return.\<close>

definition parseList ::
  "TokenType list \<Rightarrow> (Parser \<Rightarrow> bool) \<Rightarrow> parse \<Rightarrow> Parser \<Rightarrow> (ast list \<times> bool \<times> Parser) option" where
  "parseList seps stop pl p =
     do { (x, p) \<leftarrow> pl p;
          (let xs = append_node [] x
           in if is_panic p then Some (xs, True, p)
              else do { (xs, p) \<leftarrow> parseListLoop (Suc (length (current p))) seps stop pl xs p;
                        Some (xs, is_panic p, p) }) }"

definition parseCallArgs :: "parse \<Rightarrow> Parser \<Rightarrow> (ast list \<times> bool \<times> Parser) option" where
  "parseCallArgs pl p =
     (if \<not> parserIs p TOKEN_RPAREN then parseList [TOKEN_COMMA] (\<lambda>p. False) pl p
      else Some ([], False, p))"

text \<open>The loop of \<^verbatim>\<open>parseFactor\<close> over the calls and array accesses after an
  identifier.\<close>

fun parsePostfix :: "nat \<Rightarrow> parse \<Rightarrow> ast \<Rightarrow> parse" where
  "parsePostfix 0 pl base p = None"
| "parsePostfix (Suc n) pl base p =
     (if parserAtEnd p then Some (base, p)
      else if parserIs p TOKEN_LPAREN then
        do { (args, ret, p) \<leftarrow> parseCallArgs pl (parserAdvance p);
             (let call = AST_CALL (ast_loc base) base args
              in if ret then Some (call, p)
                 else parsePostfix n pl call
                   (snd (parserExpect p TOKEN_RPAREN ''expected ')' after call arguments''))) }
      else if parserIs p TOKEN_LBRACKET then
        do { (index, p) \<leftarrow> pl (parserAdvance p);
             (let access = AST_ARRAY_ACCESS (ast_loc base) base (append_node [] index)
              in if is_panic p then Some (access, p)
                 else parsePostfix n pl access
                   (snd (parserExpect p TOKEN_RBRACKET ''expected ']' after array index''))) }
      else Some (base, p))"

definition parseArrayLiteral :: "parse \<Rightarrow> parse" where
  "parseArrayLiteral pl p =
     (let l = current_loc p;
          (ok, p) = parserExpect p TOKEN_LBRACE ''expected '{' to start array literal''
      in if \<not> ok then Some (AST_ARRAY_LITERAL l [], p)
         else do { (xs, ret, p) \<leftarrow>
                     (if \<not> parserIs p TOKEN_RBRACE then
                        parseList [TOKEN_COMMA, TOKEN_SEMICOLON]
                          (\<lambda>p. parserIs p TOKEN_RBRACE \<or> parserAtEnd p) pl p
                      else Some ([], False, p));
                   if ret then Some (AST_ARRAY_LITERAL l xs, p)
                   else Some (AST_ARRAY_LITERAL l xs,
                              snd (parserExpect p TOKEN_RBRACE ''expected '}' after array literal'')) })"

definition parseFactor :: "parse \<Rightarrow> parse" where
  "parseFactor pl p =
     (if parserAtEnd p then
        Some (AST_NULL, parserSyntaxError p (current_token p) ''unexpected end of input in expression'')
      else if parserIs p TOKEN_NUMBER then
        Some (if CHR ''.'' \<in> set (currentValue p)
              then AST_FLOAT_LITERAL (current_loc p) (strtod (currentValue p))
              else AST_INT_LITERAL (current_loc p) (strtol (currentValue p)), parserAdvance p)
      else if parserIs p TOKEN_STRING then
        Some (AST_STRING_LITERAL (current_loc p) (currentValue p), parserAdvance p)
      else if parserIs p TOKEN_CHAR_LITERAL then
        Some (AST_CHAR_LITERAL (current_loc p) (parseCharLiteralValue (currentValue p)), parserAdvance p)
      else if parserIs p TOKEN_BOOL then
        Some (AST_BOOL_LITERAL (current_loc p) (currentValue p = ''true''), parserAdvance p)
      else if parserIs p TOKEN_LBRACE then parseArrayLiteral pl p
      else if parserIs p TOKEN_IDENTIFIER then
        (let base = AST_IDENTIFIER (current_loc p) (currentValue p); p = parserAdvance p
         in parsePostfix (Suc (length (current p))) pl base p)
      else if parserIs p TOKEN_LPAREN then
        do { (node, p) \<leftarrow> pl (parserAdvance p);
             if is_panic p then Some (node, p)
             else Some (node, snd (parserExpect p TOKEN_RPAREN ''expected ')' after grouped expression'')) }
      else Some (AST_NULL, parserSyntaxError p (current_token p) ''unexpected token in expression''))"

fun unaryOpFromToken :: "TokenType \<Rightarrow> AstUnaryOp option" where
  "unaryOpFromToken TOKEN_AMPERSAND = Some AST_UNARY_ADDRESS_OF"
| "unaryOpFromToken TOKEN_STAR = Some AST_UNARY_DEREF"
| "unaryOpFromToken TOKEN_BANG = Some AST_UNARY_NOT"
| "unaryOpFromToken TOKEN_MINUS = Some AST_UNARY_NEGATE"
| "unaryOpFromToken _ = None"

lemma unaryOp_not_EOF: "unaryOpFromToken (currentType p) = Some u \<Longrightarrow> \<exists>t ts. current p = t # ts"
  by (cases "current p") (auto simp: currentType_def)

function parseNegation :: "parse \<Rightarrow> parse" where
  "parseNegation pl p =
     (case unaryOpFromToken (currentType p) of
        Some u \<Rightarrow>
          do { (operand, p') \<leftarrow> parseNegation pl (parserAdvance p);
               Some (AST_UNARY (current_loc p) u operand, p') }
      | None \<Rightarrow> parseFactor pl p)"
  by pat_completeness auto
termination
  by (relation "measure (\<lambda>(pl, p). length (current p))")
     (auto simp: parserAdvance_def dest!: unaryOp_not_EOF)

declare parseNegation.simps [simp del]

definition parseTerm :: "parse \<Rightarrow> parse" where
  "parseTerm pl = parseBinary [TOKEN_STAR, TOKEN_SLASH] (parseNegation pl)"

definition parseExpression :: "parse \<Rightarrow> parse" where
  "parseExpression pl = parseBinary [TOKEN_PLUS, TOKEN_MINUS] (parseTerm pl)"

definition parseComparison :: "parse \<Rightarrow> parse" where
  "parseComparison pl =
     parseBinary [TOKEN_GT, TOKEN_LT, TOKEN_GT_EQ, TOKEN_LT_EQ, TOKEN_EQ_EQ, TOKEN_NOT_EQ]
       (parseExpression pl)"

definition parseLogicalAnd :: "parse \<Rightarrow> parse" where
  "parseLogicalAnd pl = parseBinary [TOKEN_AND_AND] (parseComparison pl)"

text \<open>\<^verbatim>\<open>parseLogical\<close>, the entry to the levels: its body with the recursive calls
  as a parameter, and the knot, tied by the nesting depth.\<close>

definition parseLogicalLevel :: "parse \<Rightarrow> parse" where
  "parseLogicalLevel pl = parseBinary [TOKEN_OR_OR] (parseLogicalAnd pl)"

fun parseLogicalFuel :: "nat \<Rightarrow> parse" where
  "parseLogicalFuel 0 p = None"
| "parseLogicalFuel (Suc n) p = parseLogicalLevel (parseLogicalFuel n) p"

definition parseLogical :: parse where
  "parseLogical p = parseLogicalFuel (Suc (length (current p))) p"

end
