(* ===== verification/ParserStmt.thy ===== *)
theory ParserStmt
  imports Parser
begin

text \<open>
  Types, statements and declarations of \<^verbatim>\<open>src/parser/parser.c\<close>.  The functions
  that reach \<^verbatim>\<open>parseBlock\<close> take it as the parameter \<open>pb\<close>;
  \<open>parseBlockFuel\<close> ties the knot by nesting depth.
\<close>

section \<open>Types\<close>

fun wrapArrayTypes :: "nat \<Rightarrow> ast \<Rightarrow> parse" where
  "wrapArrayTypes 0 base p = None"
| "wrapArrayTypes (Suc n) base p =
     (if parserIs p TOKEN_LBRACKET then
        do { (size, p') \<leftarrow>
               (let p = parserAdvance p
                in if \<not> parserIs p TOKEN_RBRACKET then parseLogical p else Some (AST_NULL, p));
             wrapArrayTypes n (AST_TYPE_ARRAY (current_loc p) base size)
               (snd (parserExpect p' TOKEN_RBRACKET ''expected ']' after array type size'')) }
      else Some (base, p))"

abbreviation wrapArrays :: "ast \<Rightarrow> parse" where
  "wrapArrays base p \<equiv> wrapArrayTypes (Suc (length (current p))) base p"

lemma parserIs_Cons: "parserIs p ty \<Longrightarrow> \<exists>t ts. current p = t # ts \<and> ttype t = ty"
  by (auto simp: parserIs_def split: list.splits)

lemma parserExpect_progress:
  "\<not> is_panic (snd (parserExpect p ty m)) \<Longrightarrow>
   length (current (snd (parserExpect p ty m))) < length (current p)"
  by (auto simp: parserExpect_def parserSyntaxError_def parserAdvance_def
      split: if_splits option.splits prod.splits dest: parserIs_Cons)

lemma parserExpect_less:
  "\<not> is_panic (snd (parserExpect p ty m)) \<Longrightarrow>
   Suc (2 * length (current (snd (parserExpect p ty m)))) < 2 * length (current p)"
  using parserExpect_progress [of p ty m] by simp

function (sequential) parseType :: parse and parsePointerType :: parse where
  "parseType p =
     (if \<not> isTypeToken p then
        Some (AST_NULL, parserSyntaxError p (current_token p) ''expected type'')
      else if parserIs p TOKEN_STAR then parsePointerType p
      else if parserIs p TOKEN_TYPE_ARRAY then
        (let l = current_loc p; q = parserAdvance p
         in if parserIs q TOKEN_LT then
              do { (elem, p) \<leftarrow> parseType (parserAdvance q);
                   if is_panic p then Some (AST_TYPE_ARRAY l elem AST_NULL, p)
                   else wrapArrays (AST_TYPE_ARRAY l elem AST_NULL)
                          (snd (parserExpect p TOKEN_GT ''expected '>' after array element type'')) }
            else wrapArrays (AST_TYPE_ARRAY l AST_NULL AST_NULL) q)
      else wrapArrays (AST_TYPE_NAME (current_loc p) (typeKindFromToken (currentType p)) (currentValue p))
             (parserAdvance p))"
| "parsePointerType p =
     (let q = snd (parserExpect p TOKEN_STAR ''expected '*' in pointer type'')
      in if is_panic q then Some (AST_TYPE_POINTER (current_loc p) AST_NULL, q)
         else do { (target, q) \<leftarrow> parseType q; Some (AST_TYPE_POINTER (current_loc p) target, q) })"
  by pat_completeness auto
termination
  by (relation "measure (case_sum (\<lambda>p. 2 * length (current p) + 1) (\<lambda>p. 2 * length (current p)))")
    (auto simp: parserAdvance_def dest!: parserIs_Cons parserExpect_less)

declare parseType.simps [simp del] parsePointerType.simps [simp del]

section \<open>Simple statements\<close>

definition parseDeclaration :: parse where
  "parseDeclaration p =
     (let l = current_loc p; name = currentValue p;
          p = snd (parserExpect (parserAdvance p) TOKEN_DOUBLE_COLON ''expected '::' after declaration name'')
      in if is_panic p then Some (AST_VAR_DECL l name AST_NULL AST_NULL, p)
         else do { (t, p) \<leftarrow> parseType p;
                   if is_panic p then Some (AST_VAR_DECL l name t AST_NULL, p)
                   else if parserIs p TOKEN_ASSIGN then
                     do { (i, p) \<leftarrow> parseLogical (parserAdvance p);
                          Some (AST_VAR_DECL l name t i, p) }
                   else Some (AST_VAR_DECL l name t AST_NULL, p) })"

definition parseAssign :: parse where
  "parseAssign p =
     (if isDeclarationStart p then parseDeclaration p
      else do { (node, p) \<leftarrow> parseLogical p;
                if is_panic p \<or> node = AST_NULL then Some (node, p)
                else if \<not> parserAtEnd p \<and> parserIsAny p [TOKEN_ASSIGN, TOKEN_PLUS_ASSIGN, TOKEN_MINUS_ASSIGN] then
                  (if \<not> isAssignableTarget node then
                     Some (AST_NULL, parserSyntaxError p (current_token p) ''invalid assignment target'')
                   else do { (val, p') \<leftarrow> parseLogical (parserAdvance p);
                             Some (AST_ASSIGN (current_loc p) (assignOpFromToken (currentType p)) node val, p') })
                else Some (node, p) })"

definition parseReturn :: parse where
  "parseReturn p =
     (if parserIs p TOKEN_KW_RET then
        (let l = current_loc p; p = parserAdvance p
         in if \<not> parserIs p TOKEN_SEMICOLON then
              do { (v, p) \<leftarrow> parseLogical p; Some (AST_RETURN l v, p) }
            else Some (AST_RETURN l AST_NULL, p))
      else parseAssign p)"

definition parseLoopControl :: parse where
  "parseLoopControl p =
     (if parserIs p TOKEN_KW_BREAK then Some (AST_BREAK (current_loc p), parserAdvance p)
      else if parserIs p TOKEN_KW_CONTINUE then Some (AST_CONTINUE (current_loc p), parserAdvance p)
      else parseReturn p)"

fun stands_alone :: "ast \<Rightarrow> bool" where
  "stands_alone (AST_ASSIGN l op t v) = True"
| "stands_alone (AST_VAR_DECL l name t i) = True"
| "stands_alone (AST_RETURN l v) = True"
| "stands_alone (AST_BREAK l) = True"
| "stands_alone (AST_CONTINUE l) = True"
| "stands_alone _ = False"

definition parseSimpleStatement :: parse where
  "parseSimpleStatement p =
     do { (node, p) \<leftarrow> parseLoopControl p;
          if is_panic p \<or> node = AST_NULL then Some (AST_NULL, p)
          else let (ok, p) = parserExpect p TOKEN_SEMICOLON ''expected ';' after statement''
               in if \<not> ok then Some (AST_NULL, p)
                  else if stands_alone node then Some (node, p)
                  else Some (AST_EXPR_STMT (ast_loc node) node, p) }"

section \<open>Compound statements\<close>

text \<open>Expect a token and go on unless the parser is in panic, as most of the code's
  sequences do; otherwise return the node built so far.\<close>

definition expect_or :: "Parser \<Rightarrow> TokenType \<Rightarrow> string \<Rightarrow> ast \<Rightarrow> parse \<Rightarrow> (ast \<times> Parser) option" where
  "expect_or p ty message node k =
     (let p = snd (parserExpect p ty message) in if is_panic p then Some (node, p) else k p)"

fun parseIf :: "nat \<Rightarrow> parse \<Rightarrow> parse" where
  "parseIf 0 pb p = None"
| "parseIf (Suc n) pb p =
     (let l = current_loc p
      in expect_or (parserAdvance p) TOKEN_LPAREN ''expected '(' after if''
           (AST_IF l AST_NULL AST_NULL AST_NULL) (\<lambda>p.
         do { (c, p) \<leftarrow> parseLogical p;
              if is_panic p then Some (AST_IF l c AST_NULL AST_NULL, p)
              else expect_or p TOKEN_RPAREN ''expected ')' after if condition''
                     (AST_IF l c AST_NULL AST_NULL) (\<lambda>p.
                   do { (t, p) \<leftarrow> pb p;
                        if parserIs p TOKEN_KW_ELSE then
                          (let p = parserAdvance p
                           in do { (e, p) \<leftarrow>
                                     (if parserIs p TOKEN_KW_IF then parseIf n pb p else pb p);
                                   Some (AST_IF l c t e, p) })
                        else Some (AST_IF l c t AST_NULL, p) }) }))"

definition parseWhile :: "parse \<Rightarrow> parse" where
  "parseWhile pb p =
     (let l = current_loc p
      in expect_or (parserAdvance p) TOKEN_LPAREN ''expected '(' after while''
           (AST_WHILE l AST_NULL AST_NULL) (\<lambda>p.
         do { (c, p) \<leftarrow> parseLogical p;
              if is_panic p then Some (AST_WHILE l c AST_NULL, p)
              else expect_or p TOKEN_RPAREN ''expected ')' after while condition''
                     (AST_WHILE l c AST_NULL) (\<lambda>p.
                   do { (b, p) \<leftarrow> pb p; Some (AST_WHILE l c b, p) }) }))"

text \<open>The three clauses of a \<^verbatim>\<open>for\<close> header: absent when the current token
  is the one that ends the clause.\<close>

definition parseClause :: "TokenType \<Rightarrow> parse \<Rightarrow> parse" where
  "parseClause stop f p = (if \<not> parserIs p stop then f p else Some (AST_NULL, p))"

definition parseFor :: "parse \<Rightarrow> parse" where
  "parseFor pb p =
     (let l = current_loc p
      in expect_or (parserAdvance p) TOKEN_LPAREN ''expected '(' after for''
           (AST_FOR l AST_NULL AST_NULL AST_NULL AST_NULL) (\<lambda>p.
         do { (i, p) \<leftarrow> parseClause TOKEN_SEMICOLON parseAssign p;
              if is_panic p then Some (AST_FOR l i AST_NULL AST_NULL AST_NULL, p)
              else expect_or p TOKEN_SEMICOLON ''expected ';' after for init''
                (AST_FOR l i AST_NULL AST_NULL AST_NULL) (\<lambda>p.
              do { (c, p) \<leftarrow> parseClause TOKEN_SEMICOLON parseLogical p;
                   if is_panic p then Some (AST_FOR l i c AST_NULL AST_NULL, p)
                   else expect_or p TOKEN_SEMICOLON ''expected ';' after for condition''
                          (AST_FOR l i c AST_NULL AST_NULL) (\<lambda>p.
                        do { (u, p) \<leftarrow> parseClause TOKEN_RPAREN parseAssign p;
                             if is_panic p then Some (AST_FOR l i c u AST_NULL, p)
                             else expect_or p TOKEN_RPAREN ''expected ')' after for update''
                                    (AST_FOR l i c u AST_NULL) (\<lambda>p.
                                  do { (b, p) \<leftarrow> pb p; Some (AST_FOR l i c u b, p) }) }) }) }))"

section \<open>Functions\<close>

definition parseParameter :: parse where
  "parseParameter p =
     (let l = current_loc p
      in if \<not> parserIs p TOKEN_IDENTIFIER then
           Some (AST_PARAM l [] AST_NULL,
                 parserSyntaxError p (current_token p) ''expected parameter name'')
         else (let name = currentValue p
               in expect_or (parserAdvance p) TOKEN_DOUBLE_COLON ''expected '::' after parameter name''
                    (AST_PARAM l name AST_NULL) (\<lambda>p.
                  do { (t, p) \<leftarrow> parseType p; Some (AST_PARAM l name t, p) })))"

definition parseParams :: "Parser \<Rightarrow> (ast list \<times> bool \<times> Parser) option" where
  "parseParams p =
     (if \<not> parserIs p TOKEN_RPAREN then parseList [TOKEN_COMMA] (\<lambda>p. False) parseParameter p
      else Some ([], False, p))"

text \<open>From the name to the return type, shared by the two declarations; \<open>k\<close> is
  what follows, given the node without a body.\<close>

definition parseSignature :: "loc \<Rightarrow> bool \<Rightarrow> (string \<Rightarrow> ast list \<Rightarrow> ast \<Rightarrow> parse) \<Rightarrow> parse" where
  "parseSignature l ext k p =
     (let node = (\<lambda>name params r ext. AST_FUNC_DECL l name params AST_NULL r ext)
      in if \<not> parserIs p TOKEN_IDENTIFIER then
           Some (node [] [] AST_NULL False,
                 parserSyntaxError p (current_token p) ''expected function name after func'')
         else (let name = currentValue p
               in expect_or (parserAdvance p) TOKEN_LPAREN ''expected '(' after function name''
                    (node name [] AST_NULL ext) (\<lambda>p.
                  do { (params, ret, p) \<leftarrow> parseParams p;
                       if ret then Some (node name params AST_NULL ext, p)
                       else expect_or p TOKEN_RPAREN ''expected ')' after function parameters''
                              (node name params AST_NULL ext) (\<lambda>p.
                            expect_or p TOKEN_ARROW ''expected '->' after function parameters''
                              (node name params AST_NULL ext) (\<lambda>p.
                            do { (r, p) \<leftarrow> parseType p;
                                 if is_panic p then Some (node name params r ext, p)
                                 else k name params r p })) })))"

definition parseFunction :: "parse \<Rightarrow> parse" where
  "parseFunction pb p =
     (let l = current_loc p
      in parseSignature l False (\<lambda>name params r p.
           do { (b, p) \<leftarrow> pb p; Some (AST_FUNC_DECL l name params b r False, p) })
         (parserAdvance p))"

definition parseExternFunction :: parse where
  "parseExternFunction p =
     (let l = current_loc p
      in expect_or (parserAdvance p) TOKEN_KW_FUNC ''expected 'func' after extern''
           (AST_FUNC_DECL l [] [] AST_NULL AST_NULL False)
         (parseSignature l True (\<lambda>name params r p.
            Some (AST_FUNC_DECL l name params AST_NULL r True,
                  snd (parserExpect p TOKEN_SEMICOLON ''expected ';' after extern function declaration'')))))"

section \<open>Blocks\<close>

definition parseStatement :: "parse \<Rightarrow> parse" where
  "parseStatement pb p =
     (if parserAtEnd p then Some (AST_NULL, p)
      else if parserIs p TOKEN_KW_IF then parseIf (Suc (length (current p))) pb p
      else if parserIs p TOKEN_KW_WHILE then parseWhile pb p
      else if parserIs p TOKEN_KW_FOR then parseFor pb p
      else if parserIs p TOKEN_KW_FUNC then parseFunction pb p
      else parseSimpleStatement p)"

fun parseStatements :: "nat \<Rightarrow> parse \<Rightarrow> ast list \<Rightarrow> Parser \<Rightarrow> (ast list \<times> Parser) option" where
  "parseStatements 0 ps ss p = None"
| "parseStatements (Suc n) ps ss p =
     (if \<not> parserAtEnd p \<and> \<not> parserIs p TOKEN_RBRACE then
        do { (item, p) \<leftarrow> ps p;
             if is_panic p then parseStatements n ps ss (parserSynchronizeStatement p)
             else parseStatements n ps (append_node ss item) p }
      else Some (ss, p))"

definition parseBlockLevel :: "parse \<Rightarrow> parse" where
  "parseBlockLevel pb p =
     (let l = current_loc p;
          (ok, p) = parserExpect p TOKEN_LBRACE ''expected '{' to start block''
      in if \<not> ok then Some (AST_BLOCK l [], p)
         else do { (ss, p) \<leftarrow> parseStatements (Suc (length (current p))) (parseStatement pb) [] p;
                   (let (ok, p) = parserExpect p TOKEN_RBRACE ''expected '}' to close block''
                    in Some (AST_BLOCK l ss, if ok then p else p\<lparr>is_panic := False\<rparr>)) })"

fun parseBlockFuel :: "nat \<Rightarrow> parse" where
  "parseBlockFuel 0 p = None"
| "parseBlockFuel (Suc n) p = parseBlockLevel (parseBlockFuel n) p"

definition parseBlock :: parse where
  "parseBlock p = parseBlockFuel (Suc (length (current p))) p"

section \<open>Programs\<close>

definition parseTopLevel :: parse where
  "parseTopLevel p =
     (if parserAtEnd p then Some (AST_NULL, p)
      else do { (node, p) \<leftarrow>
                  (if parserIs p TOKEN_KW_FUNC then parseFunction parseBlock p
                   else if parserIs p TOKEN_KW_EXTERN then parseExternFunction p
                   else if isDeclarationStart p then
                     do { (node, p) \<leftarrow> parseAssign p;
                          if is_panic p then Some (node, p)
                          else let (ok, p) = parserExpect p TOKEN_SEMICOLON ''expected ';' after global declaration''
                               in Some (if ok then node else AST_NULL, p) }
                   else Some (AST_NULL, parserSyntaxError p (current_token p) ''expected top-level declaration''));
                if is_panic p then Some (AST_NULL, parserSynchronizeTopLevel p)
                else Some (node, p) })"

fun parseProgramLoop :: "nat \<Rightarrow> ast list \<Rightarrow> Parser \<Rightarrow> (ast list \<times> Parser) option" where
  "parseProgramLoop 0 ds p = None"
| "parseProgramLoop (Suc n) ds p =
     (if \<not> parserAtEnd p then
        do { (item, p) \<leftarrow> parseTopLevel p; parseProgramLoop n (append_node ds item) p }
      else Some (ds, p))"

definition parserParseProgram :: parse where
  "parserParseProgram p =
     do { (ds, q) \<leftarrow> parseProgramLoop (Suc (length (current p))) [] p;
          Some (AST_PROGRAM (current_loc p) ds, q) }"

end
