(* ===== verification/ParserContract.thy ===== *)
theory ParserContract
  imports ParserStmt "HOL-Library.Sublist"
begin

text \<open>
  What the parser promises.  \<open>calm p p'\<close> relates the states before and after an
  operation that never leaves panic mode: it consumes tokens from the front, only appends errors,
  and reports an error exactly when it enters panic.
\<close>

definition progress :: "Parser \<Rightarrow> Parser \<Rightarrow> bool" where
  "progress p p' \<longleftrightarrow> ptokens p' = ptokens p \<and> suffix (current p') (current p)
     \<and> prefix (items (perrors p)) (items (perrors p'))
     \<and> (growable_ok (perrors p) \<longrightarrow> growable_ok (perrors p'))"

definition calm :: "Parser \<Rightarrow> Parser \<Rightarrow> bool" where
  "calm p p' \<longleftrightarrow> progress p p' \<and> (is_panic p \<longrightarrow> is_panic p')
     \<and> (\<not> is_panic p' \<longrightarrow> perrors p' = perrors p)
     \<and> (is_panic p' \<and> \<not> is_panic p \<longrightarrow> items (perrors p') \<noteq> items (perrors p))"

lemma progress_refl [simp]: "progress p p"
  by (simp add: progress_def)

lemma progress_trans: "progress p q \<Longrightarrow> progress q r \<Longrightarrow> progress p r"
  unfolding progress_def
  by (elim conjE, intro conjI)
    (simp, erule (1) suffix_order.trans, erule (1) prefix_order.trans, simp)

lemma progress_length: "progress p q \<Longrightarrow> length (current q) \<le> length (current p)"
  by (simp add: progress_def suffix_length_le)

lemma progress_errors:
  "progress p q \<Longrightarrow> progress q r \<Longrightarrow> items (perrors r) = items (perrors p) \<Longrightarrow>
   items (perrors q) = items (perrors p)"
  unfolding progress_def by (elim conjE, rule prefix_order.antisym) simp_all

lemma calm_refl [simp]: "calm p p"
  by (simp add: calm_def)

lemma calm_progress: "calm p q \<Longrightarrow> progress p q"
  by (simp add: calm_def)

lemma calm_trans:
  assumes "calm p q" and "calm q r"
  shows "calm p r"
proof -
  have pr: "progress p r" by (rule progress_trans [OF calm_progress calm_progress]) (rule assms)+
  have "items (perrors r) \<noteq> items (perrors p)" if "is_panic r" "\<not> is_panic p"
  proof (cases "is_panic q")
    case True
    then have "items (perrors q) \<noteq> items (perrors p)" using assms(1) that by (simp add: calm_def)
    then show ?thesis using progress_errors assms calm_progress by metis
  next
    case False
    then have "perrors q = perrors p" using assms(1) by (simp add: calm_def)
    moreover have "items (perrors r) \<noteq> items (perrors q)" using assms(2) that False by (simp add: calm_def)
    ultimately show ?thesis by simp
  qed
  moreover have "perrors r = perrors p" if "\<not> is_panic r"
    using assms that unfolding calm_def by metis
  moreover have "is_panic p \<longrightarrow> is_panic r" using assms by (simp add: calm_def)
  ultimately show ?thesis using pr by (simp add: calm_def)
qed

lemma calm_length: "calm p q \<Longrightarrow> length (current q) \<le> length (current p)"
  by (simp add: calm_def progress_length)

lemma calm_panic: "calm p q \<Longrightarrow> is_panic p \<Longrightarrow> is_panic q"
  by (simp add: calm_def)

section \<open>The primitive operations\<close>

lemma calm_advance [simp]: "calm p (parserAdvance p)"
  by (simp add: calm_def progress_def parserAdvance_def suffix_tl)

lemma is_panic_advance [parser_simps]: "is_panic (parserAdvance p) = is_panic p"
  by (simp add: parserAdvance_def)

lemma length_advance [parser_simps]:
  "length (current (parserAdvance p)) = length (current p) - 1"
  by (simp add: parserAdvance_def)

lemma calm_error [simp]: "calm p (parserSyntaxError p tok m)"
  by (auto simp: calm_def progress_def parserSyntaxError_def parserErrorListAppend_def
      intro: growable_ok_append split: option.splits prod.splits)

lemma is_panic_error [parser_simps]: "is_panic (parserSyntaxError p tok m)"
  by (auto simp: parserSyntaxError_def split: option.splits prod.splits)

lemma current_error [parser_simps]: "current (parserSyntaxError p tok m) = current p"
  by (auto simp: parserSyntaxError_def split: option.splits prod.splits)

lemma calm_expect [simp]: "calm p (snd (parserExpect p ty m))"
  by (simp add: parserExpect_def)

lemma fst_expect [parser_simps]: "fst (parserExpect p ty m) = parserIs p ty"
  by (simp add: parserExpect_def)

lemma expect_ok [parser_simps]: "parserIs p ty \<Longrightarrow> parserExpect p ty m = (True, parserAdvance p)"
  by (simp add: parserExpect_def)

lemma expect_bad [parser_simps]:
  "\<not> parserIs p ty \<Longrightarrow> parserExpect p ty m = (False, parserSyntaxError p (current_token p) m)"
  by (simp add: parserExpect_def)

lemma parserIs_nonempty: "parserIs p ty \<Longrightarrow> current p \<noteq> []"
  by (auto simp: parserIs_def split: list.splits)

lemma parserIsAny_nonempty: "parserIsAny p tys \<Longrightarrow> current p \<noteq> []"
  by (auto simp: parserIsAny_def list_ex_iff parserIs_nonempty)

lemma not_at_end_nonempty: "\<not> parserAtEnd p \<Longrightarrow> current p \<noteq> []"
  by (auto simp: parserAtEnd_def)

lemma isDeclarationStart_nonempty: "isDeclarationStart p \<Longrightarrow> current p \<noteq> []"
  by (auto simp: isDeclarationStart_def)

lemmas token_left = parserIs_nonempty parserIsAny_nonempty not_at_end_nonempty
  isDeclarationStart_nonempty

lemma consumed_advance: "current p \<noteq> [] \<Longrightarrow> length (current (parserAdvance p)) < length (current p)"
  by (simp add: parserAdvance_def)

section \<open>The contract of a parsing function\<close>

text \<open>Outside panic the tree is complete, of the shape \<open>W\<close>, and at least one token
  is gone.\<close>

definition node_post :: "(ast \<Rightarrow> bool) \<Rightarrow> Parser \<Rightarrow> ast \<Rightarrow> Parser \<Rightarrow> bool" where
  "node_post W p a p' \<longleftrightarrow> calm p p'
     \<and> (\<not> is_panic p' \<longrightarrow> W a \<and> length (current p') < length (current p))"

definition parses :: "(ast \<Rightarrow> bool) \<Rightarrow> parse \<Rightarrow> nat \<Rightarrow> bool" where
  "parses W f n \<longleftrightarrow>
     (\<forall>p. length (current p) \<le> n \<longrightarrow> returns (f p) (\<lambda>(a, p'). node_post W p a p'))"

abbreviation expr_post :: "Parser \<Rightarrow> ast \<Rightarrow> Parser \<Rightarrow> bool" where
  "expr_post \<equiv> node_post wf_expr"

abbreviation parses_expr :: "parse \<Rightarrow> nat \<Rightarrow> bool" where
  "parses_expr \<equiv> parses wf_expr"

lemma parsesI:
  "(\<And>p. length (current p) \<le> n \<Longrightarrow> returns (f p) (\<lambda>(a, p'). node_post W p a p')) \<Longrightarrow> parses W f n"
  by (simp add: parses_def)

lemma parsesD:
  "parses W f n \<Longrightarrow> length (current p) \<le> n \<Longrightarrow> returns (f p) (\<lambda>(a, p'). node_post W p a p')"
  by (simp add: parses_def)

lemma parses_less: "parses W f n \<Longrightarrow> m \<le> n \<Longrightarrow> parses W f m"
  by (simp add: parses_def)

lemma node_post_calm: "node_post W p a p' \<Longrightarrow> calm p p'"
  by (simp add: node_post_def)

lemma node_post_length: "node_post W p a p' \<Longrightarrow> length (current p') \<le> length (current p)"
  by (simp add: node_post_def calm_length)

lemma node_post_advance: "node_post W (parserAdvance p) a p' \<Longrightarrow> calm p p'"
  by (rule calm_trans [OF calm_advance node_post_calm])

lemma node_post_calm_trans: "calm p q \<Longrightarrow> node_post W q a r \<Longrightarrow> node_post W p a r"
  using calm_length [of p q] by (auto simp: node_post_def intro: calm_trans)

lemma node_post_then: "node_post W p a q \<Longrightarrow> calm q r \<Longrightarrow> node_post W p a r"
  using calm_length [of q r] calm_panic [of q r] by (auto simp: node_post_def intro: calm_trans)

lemma node_post_map: "node_post W p a q \<Longrightarrow> (W a \<Longrightarrow> W' b) \<Longrightarrow> node_post W' p b q"
  by (simp add: node_post_def)

text \<open>In panic the contract asks for no tree; it is what every early return of the code
  satisfies.\<close>

lemma node_post_panic: "calm p q \<Longrightarrow> is_panic q \<Longrightarrow> node_post W p a q"
  by (simp add: node_post_def)

lemma node_post_consumed:
  "calm p q \<Longrightarrow> (\<not> is_panic q \<Longrightarrow> W a) \<Longrightarrow> length (current q) < length (current p) \<Longrightarrow>
   node_post W p a q"
  by (simp add: node_post_def)

section \<open>The left-associative levels\<close>

lemma parseBinaryLoop_ok:
  assumes "parses_expr operand b"
  shows "length (current p) < n \<Longrightarrow> length (current p) \<le> b \<Longrightarrow> (\<not> is_panic p \<longrightarrow> wf_expr node) \<Longrightarrow>
    returns (parseBinaryLoop n ops operand node p)
      (\<lambda>(a, p'). calm p p' \<and> (\<not> is_panic p' \<longrightarrow> wf_expr a))"
proof (induction n arbitrary: node p)
  case (Suc n)
  show ?case
  proof (cases "\<not> parserAtEnd p \<and> parserIsAny p ops")
    case True
    then have adv: "length (current (parserAdvance p)) < length (current p)"
      by (simp add: consumed_advance token_left)
    show ?thesis
      unfolding parseBinaryLoop.simps if_P [OF True]
    proof (rule returns_pair_bind [OF parsesD [OF assms]])
      show "length (current (parserAdvance p)) \<le> b" using adv Suc.prems by simp
      fix right p' assume post: "expr_post (parserAdvance p) right p'"
      then have c: "calm p p'" by (rule calm_trans [OF calm_advance node_post_calm])
      let ?node = "AST_BINARY (current_loc p) (binaryOpFromToken (currentType p)) node right"
      have wf: "\<not> is_panic p' \<longrightarrow> wf_expr ?node"
        using post c Suc.prems(3) by (auto simp: node_post_def calm_panic)
      have l: "length (current p') < length (current p)"
        using calm_length [OF node_post_calm [OF post]] adv by linarith
      have "returns (parseBinaryLoop n ops operand ?node p')
              (\<lambda>(a, p''). calm p' p'' \<and> (\<not> is_panic p'' \<longrightarrow> wf_expr a))"
        using Suc.IH [OF _ _ wf] l Suc.prems by simp
      then show "returns (parseBinaryLoop n ops operand ?node p')
              (\<lambda>(a, p'). calm p p' \<and> (\<not> is_panic p' \<longrightarrow> wf_expr a))"
        by (simp add: returns_Ex) (auto dest: calm_trans [OF c])
    qed
  next
    case False
    then show ?thesis using Suc.prems by auto
  qed
qed simp

lemma parseBinary_ok:
  assumes "parses_expr operand b"
  shows "parses_expr (parseBinary ops operand) b"
  unfolding parses_def
proof (intro allI impI)
  fix p :: Parser
  assume l: "length (current p) \<le> b"
  show "returns (parseBinary ops operand p) (\<lambda>(a, p'). expr_post p a p')"
    unfolding parseBinary_def
  proof (rule returns_pair_bind [OF parsesD [OF assms l]])
    fix node q assume post: "expr_post p node q"
    then have lq: "length (current q) \<le> b"
      using calm_length [OF node_post_calm] l by (meson order_trans)
    have "returns (parseBinaryLoop (Suc (length (current q))) ops operand node q)
        (\<lambda>(a, p'). calm q p' \<and> (\<not> is_panic p' \<longrightarrow> wf_expr a))"
      using post lq by (intro parseBinaryLoop_ok [OF assms]) (auto simp: node_post_def)
    then show "returns (parseBinaryLoop (Suc (length (current q))) ops operand node q)
        (\<lambda>(a, p'). expr_post p a p')"
    proof (rule returns_pair_mono)
      fix a r assume r: "calm q r \<and> (\<not> is_panic r \<longrightarrow> wf_expr a)"
      then have "calm p r" by (intro calm_trans [OF node_post_calm [OF post]]) simp
      moreover have "length (current r) < length (current p)" if "\<not> is_panic r"
        using r that post calm_length [of q r] calm_panic [of q r] by (auto simp: node_post_def)
      ultimately show "case (a, r) of (a, p') \<Rightarrow> expr_post p a p'"
        using r by (simp add: node_post_def)
    qed
  qed
qed

end
