(* ===== verification/ParserProps.thy ===== *)
theory ParserProps
  imports ParserContract
begin

text \<open>
  The contract of \<open>ParserContract\<close>, function by function, on every list of
  tokens.
\<close>

section \<open>Lists, calls and array accesses\<close>

lemma append_node_in: "x \<in> set (append_node xs a) \<Longrightarrow> x \<in> set xs \<or> x = a"
  by (auto simp: append_node_def split: if_splits)

lemma all_append_node: "(\<forall>x \<in> set xs. W x) \<Longrightarrow> W a \<Longrightarrow> \<forall>x \<in> set (append_node xs a). W x"
  by (auto dest: append_node_in)

definition list_post :: "(ast \<Rightarrow> bool) \<Rightarrow> Parser \<Rightarrow> ast list \<Rightarrow> Parser \<Rightarrow> bool" where
  "list_post W p xs p' \<longleftrightarrow> calm p p' \<and> (\<not> is_panic p' \<longrightarrow> (\<forall>x \<in> set xs. W x))"

lemma list_post_calm_trans: "calm p q \<Longrightarrow> list_post W q xs r \<Longrightarrow> list_post W p xs r"
  by (auto simp: list_post_def intro: calm_trans)

lemma parseListLoop_ok:
  assumes "parses W pl b"
  shows "length (current p) < n \<Longrightarrow> length (current p) \<le> Suc b \<Longrightarrow>
    (\<not> is_panic p \<longrightarrow> (\<forall>x \<in> set xs. W x)) \<Longrightarrow>
    returns (parseListLoop n seps stop pl xs p) (\<lambda>(xs, p'). list_post W p xs p')"
proof (induction n arbitrary: xs p)
  case (Suc n)
  show ?case
  proof (cases "parserIsAny p seps")
    case True
    then have adv: "length (current (parserAdvance p)) < length (current p)"
      by (simp add: consumed_advance token_left)
    show ?thesis
    proof (cases "stop (parserAdvance p)")
      case True
      then show ?thesis using \<open>parserIsAny p seps\<close> Suc.prems(3)
        by (simp add: list_post_def Let_def is_panic_advance)
    next
      case False
      show ?thesis
        unfolding parseListLoop.simps if_P [OF True] if_not_P [OF False] Let_def
      proof (rule returns_pair_bind [OF parsesD [OF assms]])
        show "length (current (parserAdvance p)) \<le> b" using adv Suc.prems by simp
        fix x q assume post: "node_post W (parserAdvance p) x q"
        then have c: "calm p q" by (rule node_post_advance)
        have wf: "\<not> is_panic q \<longrightarrow> (\<forall>y \<in> set (append_node xs x). W y)"
          using post c Suc.prems(3) all_append_node [of xs W x] calm_panic [of p q] by (auto simp: node_post_def)
        show "returns (if is_panic q then Some (append_node xs x, q)
              else parseListLoop n seps stop pl (append_node xs x) q) (\<lambda>(xs, p'). list_post W p xs p')"
        proof (cases "is_panic q")
          case False
          have "returns (parseListLoop n seps stop pl (append_node xs x) q) (\<lambda>(xs, p'). list_post W q xs p')"
            using Suc.IH [OF _ _ wf] node_post_length [OF post] adv Suc.prems by simp
          then show ?thesis using False
            by (simp add: returns_Ex) (auto dest: list_post_calm_trans [OF c])
        qed (simp add: list_post_def c)
      qed
    qed
  next
    case False
    then show ?thesis using Suc.prems by (simp add: list_post_def)
  qed
qed simp

lemma parseList_ok:
  assumes "parses W pl b" and "length (current p) \<le> b"
  shows "returns (parseList seps stop pl p)
    (\<lambda>(xs, ret, p'). list_post W p xs p' \<and> (ret \<longrightarrow> is_panic p'))"
  unfolding parseList_def Let_def
proof (rule returns_pair_bind [OF parsesD [OF assms]])
  fix x q assume post: "node_post W p x q"
  have c: "calm p q" using post by (rule node_post_calm)
  show "returns (if is_panic q then Some (append_node [] x, True, q)
      else parseListLoop (Suc (length (current q))) seps stop pl (append_node [] x) q \<bind>
             (\<lambda>(xs, p). Some (xs, is_panic p, p)))
     (\<lambda>(xs, ret, p'). list_post W p xs p' \<and> (ret \<longrightarrow> is_panic p'))"
  proof (cases "is_panic q")
    case False
    have "returns (parseListLoop (Suc (length (current q))) seps stop pl (append_node [] x) q)
        (\<lambda>(xs, p'). list_post W q xs p')"
    proof (rule parseListLoop_ok [OF assms(1)])
      show "length (current q) \<le> Suc b" using node_post_length [OF post] assms(2) by simp
      show "\<not> is_panic q \<longrightarrow> (\<forall>x \<in> set (append_node [] x). W x)"
        using post by (simp add: node_post_def append_node_def)
    qed simp
    then obtain ys r where "parseListLoop (Suc (length (current q))) seps stop pl (append_node [] x) q = Some (ys, r)"
      "list_post W q ys r" by (auto simp: returns_Ex)
    then show ?thesis using False list_post_calm_trans [OF c] by simp
  qed (simp add: list_post_def c)
qed

text \<open>A parsing function given the recursive entry \<open>pl\<close>, which keeps the contract on
  up to \<open>bound\<close> tokens, keeps it on one token more.\<close>

locale expression_parser =
  fixes pl :: parse and bound :: nat
  assumes pl_ok: "parses_expr pl bound"
begin

lemma parseCallArgs_ok:
  "length (current p) \<le> bound \<Longrightarrow>
   returns (parseCallArgs pl p) (\<lambda>(xs, ret, p'). list_post wf_expr p xs p' \<and> (ret \<longrightarrow> is_panic p'))"
  unfolding parseCallArgs_def using parseList_ok [OF pl_ok] by (simp add: list_post_def)

lemma parsePostfix_ok:
  "length (current p) < n \<Longrightarrow> length (current p) \<le> Suc bound \<Longrightarrow>
   (\<not> is_panic p \<longrightarrow> wf_expr base \<and> is_postfix base) \<Longrightarrow>
   returns (parsePostfix n pl base p)
     (\<lambda>(a, p'). calm p p' \<and> (\<not> is_panic p' \<longrightarrow> wf_expr a \<and> is_postfix a))"
proof (induction n arbitrary: base p)
  case (Suc n)
  have next_ok: "returns (parsePostfix n pl node (snd (parserExpect q ty m)))
      (\<lambda>(a, p'). calm p p' \<and> (\<not> is_panic p' \<longrightarrow> wf_expr a \<and> is_postfix a))"
    if "calm (parserAdvance p) q" "current p \<noteq> []" "\<not> is_panic q \<longrightarrow> wf_expr node \<and> is_postfix node"
    for node q ty m
  proof -
    let ?r = "snd (parserExpect q ty m)"
    have l: "length (current ?r) < length (current p)"
      using calm_length [OF that(1)] calm_length [OF calm_expect, of q ty m] consumed_advance [OF that(2)]
      by linarith
    have c: "calm p ?r" by (rule calm_trans [OF calm_advance calm_trans [OF that(1) calm_expect]])
    have "\<not> is_panic ?r \<longrightarrow> wf_expr node \<and> is_postfix node"
      using that(3) calm_panic [OF calm_expect] by blast
    then have "returns (parsePostfix n pl node ?r)
        (\<lambda>(a, p'). calm ?r p' \<and> (\<not> is_panic p' \<longrightarrow> wf_expr a \<and> is_postfix a))"
      using Suc.IH l Suc.prems by simp
    then show ?thesis by (simp add: returns_Ex) (auto dest: calm_trans [OF c])
  qed
  consider "parserAtEnd p" | (call) "\<not> parserAtEnd p" "parserIs p TOKEN_LPAREN"
    | (access) "\<not> parserAtEnd p" "\<not> parserIs p TOKEN_LPAREN" "parserIs p TOKEN_LBRACKET"
    | (other) "\<not> parserAtEnd p" "\<not> parserIs p TOKEN_LPAREN" "\<not> parserIs p TOKEN_LBRACKET"
    by blast
  then show ?case
  proof cases
    case call
    then have ne: "current p \<noteq> []" by (simp add: token_left)
    then have "length (current (parserAdvance p)) \<le> bound" using Suc.prems consumed_advance [of p] by simp
    from parseCallArgs_ok [OF this] obtain xs ret q where
      r: "parseCallArgs pl (parserAdvance p) = Some (xs, ret, q)" and
      post: "list_post wf_expr (parserAdvance p) xs q" "ret \<longrightarrow> is_panic q"
      by (auto simp: returns_Ex)
    have c: "calm (parserAdvance p) q" using post by (simp add: list_post_def)
    have wf: "\<not> is_panic q \<longrightarrow> wf_expr (AST_CALL (ast_loc base) base xs)"
      using post Suc.prems(3) calm_panic [OF c] by (auto simp: list_post_def is_panic_advance)
    show ?thesis
      using call r post(2) next_ok [OF c ne] wf calm_trans [OF calm_advance c] by (simp add: Let_def)
  next
    case access
    then have ne: "current p \<noteq> []" by (simp add: token_left)
    then have "length (current (parserAdvance p)) \<le> bound" using Suc.prems consumed_advance [of p] by simp
    from parsesD [OF pl_ok this] obtain x q where
      r: "pl (parserAdvance p) = Some (x, q)" and post: "expr_post (parserAdvance p) x q"
      by (auto simp: returns_Ex)
    have c: "calm (parserAdvance p) q" using post by (rule node_post_calm)
    have wf: "\<not> is_panic q \<longrightarrow> wf_expr (AST_ARRAY_ACCESS (ast_loc base) base (append_node [] x))"
      using post Suc.prems(3) calm_panic [OF c]
      by (auto simp: node_post_def is_panic_advance append_node_def)
    show ?thesis
      using access r next_ok [OF c ne] wf calm_trans [OF calm_advance c] by (simp add: Let_def)
  qed (use Suc.prems in simp_all)
qed simp

lemma parseArrayLiteral_ok: "parses_expr (parseArrayLiteral pl) (Suc bound)"
proof (rule parsesI)
  fix p :: Parser assume l: "length (current p) \<le> Suc bound"
  let ?Q = "\<lambda>(a, p'). expr_post p a p'"
  show "returns (parseArrayLiteral pl p) ?Q"
  proof (cases "parserIs p TOKEN_LBRACE")
    case False
    then show ?thesis
      by (simp add: parseArrayLiteral_def parser_simps node_post_panic)
  next
    case True
    let ?p = "parserAdvance p"
    have adv: "length (current ?p) < length (current p)" using True by (simp add: consumed_advance token_left)
    have "returns (if \<not> parserIs ?p TOKEN_RBRACE
          then parseList [TOKEN_COMMA, TOKEN_SEMICOLON] (\<lambda>p. parserIs p TOKEN_RBRACE \<or> parserAtEnd p) pl ?p
          else Some ([], False, ?p))
        (\<lambda>(xs, ret, p'). list_post wf_expr ?p xs p' \<and> (ret \<longrightarrow> is_panic p'))" (is "returns ?m _")
      using parseList_ok [OF pl_ok, of ?p] adv l by (simp add: list_post_def)
    then obtain xs ret q where
      r: "?m = Some (xs, ret, q)" and post: "list_post wf_expr ?p xs q" "ret \<longrightarrow> is_panic q"
      by (auto simp: returns_Ex)
    have c: "calm p q" using post calm_trans [OF calm_advance] by (auto simp: list_post_def)
    let ?node = "AST_ARRAY_LITERAL (current_loc p) xs"
    have lq: "length (current q) < length (current p)"
      using post(1) adv calm_length [of ?p q] by (simp add: list_post_def)
    have "expr_post p ?node q"
      by (rule node_post_consumed [OF c _ lq]) (use post(1) in \<open>simp add: list_post_def\<close>)
    then show ?thesis
      using True r node_post_then [OF _ calm_expect]
      by (simp add: parseArrayLiteral_def parser_simps Let_def del: returns_bind)
  qed
qed

lemma parseFactor_ok: "parses_expr (parseFactor pl) (Suc bound)"
proof (rule parsesI)
  fix p :: Parser assume l: "length (current p) \<le> Suc bound"
  let ?Q = "\<lambda>(a, p'). expr_post p a p'"
  show "returns (parseFactor pl p) ?Q"
  proof (cases "parserAtEnd p")
    case True
    then show ?thesis by (simp add: parseFactor_def node_post_panic is_panic_error)
  next
    case False
    then have adv: "length (current (parserAdvance p)) < length (current p)"
      by (simp add: consumed_advance token_left)
    have literal: "wf_expr a \<Longrightarrow> expr_post p a (parserAdvance p)" for a
      by (rule node_post_consumed [OF calm_advance _ adv])
    have ident: "returns (parsePostfix (Suc (length (current (parserAdvance p)))) pl
        (AST_IDENTIFIER l name) (parserAdvance p)) ?Q" for l name
    proof (rule returns_pair_mono [OF parsePostfix_ok])
      show "length (current (parserAdvance p)) \<le> Suc bound" using adv l by simp
      fix a q assume q: "calm (parserAdvance p) q \<and> (\<not> is_panic q \<longrightarrow> wf_expr a \<and> is_postfix a)"
      then show "case (a, q) of (a, p') \<Rightarrow> expr_post p a p'"
        using calm_trans [OF calm_advance] calm_length [of "parserAdvance p" q] adv
        by (simp add: node_post_def)
    qed simp_all
    have group: "returns (pl (parserAdvance p) \<bind> (\<lambda>(node, p). if is_panic p then Some (node, p)
        else Some (node, snd (parserExpect p TOKEN_RPAREN m)))) ?Q" for m
    proof (rule returns_pair_bind [OF parsesD [OF pl_ok]])
      show "length (current (parserAdvance p)) \<le> bound" using adv l by simp
      fix a q assume "expr_post (parserAdvance p) a q"
      then have "expr_post p a q" by (rule node_post_calm_trans [OF calm_advance])
      then show "returns (if is_panic q then Some (a, q)
          else Some (a, snd (parserExpect q TOKEN_RPAREN m))) ?Q"
        by (simp add: node_post_then [OF _ calm_expect])
    qed
    show ?thesis
      unfolding parseFactor_def Let_def
      using False literal ident group parsesD [OF parseArrayLiteral_ok l] strtol_bounds [of "currentValue p"]
      by (simp add: node_post_panic is_panic_error)
  qed
qed

lemma parseNegation_ok: "parses_expr (parseNegation pl) (Suc bound)"
proof (rule parsesI)
  show "returns (parseNegation pl p) (\<lambda>(a, p'). expr_post p a p')"
    if "length (current p) \<le> Suc bound" for p
    using that
  proof (induction "length (current p)" arbitrary: p rule: less_induct)
    case less
    show ?case
    proof (cases "unaryOpFromToken (currentType p)")
      case None
      then show ?thesis using parsesD [OF parseFactor_ok less.prems] by (simp add: parseNegation.simps)
    next
      case (Some u)
      then have adv: "length (current (parserAdvance p)) < length (current p)"
        using unaryOp_not_EOF by (intro consumed_advance) fastforce
      have "returns (parseNegation pl (parserAdvance p)) (\<lambda>(a, p'). expr_post (parserAdvance p) a p')"
        using less.hyps [OF adv] adv less.prems by simp
      then obtain a q where r: "parseNegation pl (parserAdvance p) = Some (a, q)"
        and post: "expr_post (parserAdvance p) a q" by (auto simp: returns_Ex)
      have "expr_post p a q" by (rule node_post_calm_trans [OF calm_advance post])
      then have "expr_post p (AST_UNARY (current_loc p) u a) q" by (rule node_post_map) simp
      then show ?thesis using Some r by (simp add: parseNegation.simps [of pl p])
    qed
  qed
qed

lemma parseLogicalLevel_ok: "parses_expr (parseLogicalLevel pl) (Suc bound)"
  unfolding parseLogicalLevel_def parseLogicalAnd_def parseComparison_def parseExpression_def
    parseTerm_def
  by (intro parseBinary_ok parseNegation_ok)

end

lemma parses_expr_fuel: "parses_expr (parseLogicalFuel (Suc n)) n"
proof (induction n)
  case 0
  have "parses_expr (parseLogicalFuel (Suc 0)) 0"
  proof (rule parsesI)
    fix p :: Parser assume "length (current p) \<le> 0"
    then have "current p = []" by simp
    then show "returns (parseLogicalFuel (Suc 0) p) (\<lambda>(a, p'). expr_post p a p')"
      by (simp add: parseLogicalLevel_def parseLogicalAnd_def parseComparison_def
          parseExpression_def parseTerm_def parseBinary_def parseNegation.simps currentType_def
          parseFactor_def parserAtEnd_def current_error node_post_panic is_panic_error)
  qed
  then show ?case .
next
  case (Suc n)
  then have "expression_parser (parseLogicalFuel (Suc n)) n"
    by unfold_locales
  from expression_parser.parseLogicalLevel_ok [OF this]
  have "parses_expr (parseLogicalLevel (parseLogicalFuel (Suc n))) (Suc n)" .
  then show ?case by (simp add: parses_def)
qed

interpretation logical_fuel: expression_parser "parseLogicalFuel (Suc n)" n for n
  by unfold_locales (rule parses_expr_fuel)

lemma parseLogical_returns: "returns (parseLogical p) (\<lambda>(a, p'). expr_post p a p')"
  unfolding parseLogical_def by (rule parsesD [OF parses_expr_fuel]) simp

interpretation logical: expression_parser parseLogical n for n
  by unfold_locales (simp add: parsesI parseLogical_returns)

section \<open>Types\<close>

lemma wrapArrayTypes_ok:
  "length (current p) < n \<Longrightarrow> (\<not> is_panic p \<longrightarrow> wf_type base) \<Longrightarrow>
   returns (wrapArrayTypes n base p) (\<lambda>(a, p'). calm p p' \<and> (\<not> is_panic p' \<longrightarrow> wf_type a))"
proof (induction n arbitrary: base p)
  case (Suc n)
  show ?case
  proof (cases "parserIs p TOKEN_LBRACKET")
    case True
    let ?p = "parserAdvance p"
    have adv: "length (current ?p) < length (current p)" using True by (simp add: consumed_advance token_left)
    have "returns (if \<not> parserIs ?p TOKEN_RBRACKET then parseLogical ?p else Some (AST_NULL, ?p))
      (\<lambda>(a, q). calm ?p q \<and> (\<not> is_panic q \<longrightarrow> a = AST_NULL \<or> wf_expr a))" (is "returns ?m _")
      using parseLogical_returns [of ?p] by (auto elim!: returns_pair_mono simp: node_post_def)
    then obtain a q where m: "?m = Some (a, q)" and c: "calm ?p q"
      and wf: "\<not> is_panic q \<longrightarrow> a = AST_NULL \<or> wf_expr a" by (auto simp: returns_Ex)
    let ?r = "snd (parserExpect q TOKEN_RBRACKET ''expected ']' after array type size'')"
    let ?base = "AST_TYPE_ARRAY (current_loc p) base a"
    have cr: "calm ?p ?r" by (rule calm_trans [OF c calm_expect])
    have l: "length (current ?r) < n" using calm_length [OF cr] adv Suc.prems(1) by simp
    have "\<not> is_panic ?r \<longrightarrow> wf_type ?base"
      using wf Suc.prems(2) calm_panic [OF c] calm_panic [OF calm_expect, of q]
      by (auto simp: is_panic_advance)
    from Suc.IH [OF l this] obtain b s where
      "wrapArrayTypes n ?base ?r = Some (b, s)" "calm ?r s" "\<not> is_panic s \<longrightarrow> wf_type b"
      by (auto simp: returns_Ex)
    then show ?thesis
      using True m calm_trans [OF calm_advance calm_trans [OF cr]] by (simp add: Let_def del: returns_bind)
  qed (use Suc.prems in simp)
qed simp

lemma wrapArrays_post:
  assumes "calm p q" "\<not> is_panic q \<longrightarrow> wf_type base" "length (current q) < length (current p)"
  shows "returns (wrapArrays base q) (\<lambda>(a, r). node_post wf_type p a r)"
proof (rule returns_pair_mono [OF wrapArrayTypes_ok])
  fix a r assume r: "calm q r \<and> (\<not> is_panic r \<longrightarrow> wf_type a)"
  then show "case (a, r) of (a, r) \<Rightarrow> node_post wf_type p a r"
    using assms calm_trans [of p q r] calm_length [of q r] by (simp add: node_post_def)
qed (use assms in simp_all)

lemma typeKind_not_array:
  "isTypeToken p \<Longrightarrow> \<not> parserIs p TOKEN_TYPE_ARRAY \<Longrightarrow> typeKindFromToken (currentType p) \<noteq> AST_TYPE_ARRAY_KIND"
  by (auto simp: isTypeToken_def parserIsAny_def parserIs_def currentType_def split: list.splits)

lemma isTypeToken_left: "isTypeToken p \<Longrightarrow> current p \<noteq> []"
  by (simp add: isTypeToken_def parserIsAny_nonempty)

lemma parseType_ok:
  shows "returns (parseType p) (\<lambda>(a, q). node_post wf_type p a q)"
    and "returns (parsePointerType p) (\<lambda>(a, q). node_post wf_type p a q)"
proof (induction p and p rule: parseType_parsePointerType.induct)
  case (1 p)
  show ?case
  proof (cases "isTypeToken p \<and> \<not> parserIs p TOKEN_STAR")
    case False
    then show ?thesis
      using "1.IH" by (cases "isTypeToken p") (simp_all add: parseType.simps node_post_panic is_panic_error)
  next
    case True
    let ?q = "parserAdvance p"
    have adv: "length (current ?q) < length (current p)"
      using True by (simp add: consumed_advance isTypeToken_left)
    show ?thesis
    proof (cases "parserIs p TOKEN_TYPE_ARRAY")
      case False
      then show ?thesis
        using True typeKind_not_array [of p] wrapArrays_post [OF calm_advance _ adv]
        by (simp add: parseType.simps)
    next
      case arr: True
      show ?thesis
      proof (cases "parserIs ?q TOKEN_LT")
        case False
        then show ?thesis
          using True arr wrapArrays_post [OF calm_advance _ adv] by (simp add: parseType.simps Let_def)
      next
        case lt: True
        let ?r = "parserAdvance ?q"
        have "returns (parseType ?r) (\<lambda>(a, q). node_post wf_type ?r a q)"
          using "1.IH"(2) True arr lt by simp
        then obtain t s where t: "parseType ?r = Some (t, s)" and post: "node_post wf_type ?r t s"
          by (auto simp: returns_Ex)
        have c: "calm p s" by (rule calm_trans [OF calm_advance calm_trans [OF calm_advance node_post_calm [OF post]]])
        let ?u = "\<lambda>m. snd (parserExpect s TOKEN_GT m)"
        have ls: "length (current s) < length (current p)"
          using node_post_length [OF post] adv by (simp add: length_advance)
        have l: "length (current (?u m)) < length (current p)" for m
          using calm_length [OF calm_expect] ls by (rule le_less_trans)
        have wf: "\<not> is_panic s \<longrightarrow> wf_type (AST_TYPE_ARRAY x t AST_NULL)" for x
          using post by (auto simp: node_post_def)
        have "\<not> is_panic (?u m) \<longrightarrow> wf_type (AST_TYPE_ARRAY x t AST_NULL)" for x m
          using wf calm_panic [OF calm_expect] by blast
        from wrapArrays_post [OF calm_trans [OF c calm_expect] this l] show ?thesis
          using True arr lt t c by (simp add: parseType.simps Let_def node_post_panic)
      qed
    qed
  qed
next
  case (2 p)
  let ?q = "\<lambda>m. snd (parserExpect p TOKEN_STAR m)"
  show ?case
  proof (cases "is_panic (?q ''expected '*' in pointer type'')")
    case True
    then show ?thesis by (simp add: parsePointerType.simps Let_def node_post_panic)
  next
    case False
    from "2.IH" [OF refl False] obtain t r where
      "parseType (?q ''expected '*' in pointer type'') = Some (t, r)"
      "node_post wf_type (?q ''expected '*' in pointer type'') t r" by (auto simp: returns_Ex)
    moreover from this(2) have "node_post wf_type p (AST_TYPE_POINTER (current_loc p) t) r"
      by (rule node_post_map [OF node_post_calm_trans [OF calm_expect]]) simp
    ultimately show ?thesis using False by (simp add: parsePointerType.simps [of p] Let_def)
  qed
qed

end
