(* ===== verification/ParserStmtProps.thy ===== *)
theory ParserStmtProps
  imports ParserProps
begin

text \<open>
  The contract of statements, blocks and programs.  These functions recover from errors, so
  they may leave panic mode; what they promise is about runs without a new error.
\<close>

section \<open>Runs without a new error\<close>

text \<open>\<open>F\<close> is what is known of the tree so far when the run from \<open>p\<close> to \<open>q\<close>
  reported nothing.\<close>

definition so_far :: "Parser \<Rightarrow> bool \<Rightarrow> Parser \<Rightarrow> bool" where
  "so_far p F q \<longleftrightarrow> progress p q
     \<and> (\<not> is_panic p \<and> items (perrors q) = items (perrors p) \<longrightarrow> \<not> is_panic q \<and> F)"

definition begun :: "Parser \<Rightarrow> bool \<Rightarrow> Parser \<Rightarrow> bool" where
  "begun p F q \<longleftrightarrow> so_far p F q \<and> length (current q) < length (current p)"

definition stmt_post :: "(ast \<Rightarrow> bool) \<Rightarrow> Parser \<Rightarrow> ast \<Rightarrow> Parser \<Rightarrow> bool" where
  "stmt_post W p a q \<longleftrightarrow> so_far p (W a) q
     \<and> (\<not> is_panic q \<longrightarrow> length (current q) < length (current p))"

lemma so_far_trans:
  assumes "so_far p F q" and "so_far q G r"
  shows "so_far p (F \<and> G) r"
proof -
  have "progress p q" "progress q r" using assms by (simp_all add: so_far_def)
  then have "progress p r" and "items (perrors r) = items (perrors p) \<Longrightarrow> items (perrors q) = items (perrors p)"
    by (auto intro: progress_trans dest: progress_errors)
  then show ?thesis using assms by (simp add: so_far_def)
qed

lemma so_far_calm: "calm p q \<Longrightarrow> so_far p True q"
  by (auto simp: so_far_def calm_def)

lemma so_far_node: "node_post W p a q \<Longrightarrow> so_far p (W a) q"
  by (auto simp: so_far_def calm_def node_post_def)

lemma so_far_stmt: "stmt_post W p a q \<Longrightarrow> so_far p (W a) q"
  by (simp add: stmt_post_def)

lemma so_far_weaken: "so_far p F q \<Longrightarrow> (F \<Longrightarrow> G) \<Longrightarrow> so_far p G q"
  by (simp add: so_far_def)

lemma so_far_length: "so_far p F q \<Longrightarrow> length (current q) \<le> length (current p)"
  by (simp add: so_far_def progress_length)

lemma stmt_post_node: "node_post W p a q \<Longrightarrow> stmt_post W p a q"
  by (simp add: stmt_post_def so_far_node) (simp add: node_post_def)

lemma stmt_post_map: "stmt_post W p a q \<Longrightarrow> (W a \<Longrightarrow> W' b) \<Longrightarrow> stmt_post W' p b q"
  by (auto simp: stmt_post_def so_far_def)

lemma begun_step: "begun p F q \<Longrightarrow> so_far q G r \<Longrightarrow> begun p (F \<and> G) r"
  using so_far_length [of q G r] so_far_trans [of p F q G r] by (simp add: begun_def)

lemma begun_calm: "begun p F q \<Longrightarrow> calm q r \<Longrightarrow> begun p F r"
  using begun_step [OF _ so_far_calm, of p F q r] by simp

lemma begun_advance: "current p \<noteq> [] \<Longrightarrow> begun p True (parserAdvance p)"
  by (simp add: begun_def so_far_calm consumed_advance)

lemma begun_post: "begun p F q \<Longrightarrow> (F \<Longrightarrow> W a) \<Longrightarrow> stmt_post W p a q"
  by (auto simp: stmt_post_def begun_def intro: so_far_weaken)

lemma begun_fail: "begun p F q \<Longrightarrow> is_panic q \<Longrightarrow> begun p G q"
  by (auto simp: begun_def so_far_def)

lemma begun_panic: "begun p F q \<Longrightarrow> is_panic q \<Longrightarrow> stmt_post W p a q"
  by (auto simp: stmt_post_def begun_def so_far_def)

lemma begun_weaken: "begun p F q \<Longrightarrow> (F \<Longrightarrow> G) \<Longrightarrow> begun p G q"
  by (auto simp: begun_def intro: so_far_weaken)

lemma stmt_post_begun:
  "returns m (\<lambda>(a, q). begun p (W a) q) \<Longrightarrow> returns m (\<lambda>(a, q). stmt_post W p a q)"
  by (erule returns_pair_mono) (simp add: begun_post)

text \<open>The steps of the code's sequences: expect a token, parse a part, return early.\<close>

lemma step_return:
  "begun p F q \<Longrightarrow> (F \<Longrightarrow> W a) \<Longrightarrow> returns (Some (a, q)) (\<lambda>(a, q). begun p (W a) q)"
  by (simp add: begun_weaken)

lemma step_check:
  assumes "begun p F q"
    and "returns k (\<lambda>(a, q). begun p (W a) q)"
  shows "returns (if is_panic q then Some (node, q) else k) (\<lambda>(a, q). begun p (W a) q)"
  using assms by (simp add: begun_fail)

lemma step_expect:
  assumes "begun p F q"
    and "\<And>r. begun p F r \<Longrightarrow> returns (k r) (\<lambda>(a, q). begun p (W a) q)"
  shows "returns (expect_or q ty m node k) (\<lambda>(a, q). begun p (W a) q)"
  unfolding expect_or_def Let_def
  by (rule step_check) (rule begun_calm [OF assms(1) calm_expect], rule assms(2), rule begun_calm [OF assms(1) calm_expect])

lemma step_parse:
  assumes "begun p F q"
    and "returns m (\<lambda>(a, r). so_far q (W' a) r)"
    and "\<And>a r. begun p (F \<and> W' a) r \<Longrightarrow> returns (k a r) Q"
  shows "returns (m \<bind> (\<lambda>(a, r). k a r)) Q"
  by (rule returns_pair_bind [OF assms(2)]) (rule assms(3) [OF begun_step [OF assms(1)]])

lemma so_far_returns:
  "returns m (\<lambda>(a, r). node_post W q a r) \<Longrightarrow> returns m (\<lambda>(a, r). so_far q (W a) r)"
  by (erule returns_pair_mono) (simp add: so_far_node)

lemma so_far_returns_stmt:
  "returns m (\<lambda>(a, r). stmt_post W q a r) \<Longrightarrow> returns m (\<lambda>(a, r). so_far q (W a) r)"
  by (erule returns_pair_mono) (simp add: so_far_stmt)

lemmas step_expr = step_parse [OF _ so_far_returns [OF parseLogical_returns]]
lemmas step_type = step_parse [OF _ so_far_returns [OF parseType_ok(1)]]

section \<open>Simple statements\<close>

lemma parseDeclaration_ok:
  assumes "current p \<noteq> []"
  shows "returns (parseDeclaration p) (\<lambda>(a, q). begun p (wf_var_decl a) q)"
  unfolding parseDeclaration_def Let_def
proof (rule step_check [OF begun_calm [OF begun_advance [OF assms] calm_expect]],
       rule step_type [OF begun_calm [OF begun_advance [OF assms] calm_expect]], rule step_check)
  fix t q assume b: "begun p (True \<and> wf_type t) q"
  then show "begun p (True \<and> wf_type t) q" .
  have decl: "returns (parseLogical (parserAdvance q) \<bind> (\<lambda>(i, q). Some (AST_VAR_DECL l name t i, q)))
      (\<lambda>(a, q). begun p (wf_var_decl a) q)" for l name
    by (rule step_expr [OF begun_calm [OF b calm_advance]]) (erule step_return, simp add: wf_var_decl_def)
  have "returns (Some (AST_VAR_DECL l name t AST_NULL, q)) (\<lambda>(a, q). begun p (wf_var_decl a) q)" for l name
    by (rule step_return [OF b]) (simp add: wf_var_decl_def)
  with decl show "returns (if parserIs q TOKEN_ASSIGN
      then parseLogical (parserAdvance q) \<bind> (\<lambda>(i, q). Some (AST_VAR_DECL (current_loc p) (currentValue p) t i, q))
      else Some (AST_VAR_DECL (current_loc p) (currentValue p) t AST_NULL, q))
      (\<lambda>(a, q). begun p (wf_var_decl a) q)" by simp
qed

lemma begun_node: "node_post W p a q \<Longrightarrow> \<not> is_panic q \<Longrightarrow> begun p (W a) q"
  using so_far_node [of W p a q] by (simp add: begun_def) (simp add: node_post_def)

lemma parseAssign_ok: "returns (parseAssign p) (\<lambda>(a, q). stmt_post wf_loose p a q)"
proof (cases "isDeclarationStart p")
  case True
  then have "returns (parseDeclaration p) (\<lambda>(a, q). stmt_post wf_var_decl p a q)"
    by (intro stmt_post_begun parseDeclaration_ok isDeclarationStart_nonempty)
  then show ?thesis unfolding parseAssign_def if_P [OF True]
    by (rule returns_pair_mono) (auto simp: wf_loose_def elim: stmt_post_map)
next
  case False
  show ?thesis
    unfolding parseAssign_def if_not_P [OF False]
  proof (rule returns_pair_bind [OF parseLogical_returns])
    fix a q assume a: "expr_post p a q"
    then have loose: "stmt_post wf_loose p a q"
      by (rule stmt_post_map [OF stmt_post_node]) (simp add: wf_loose_def)
    show "returns (if is_panic q \<or> a = AST_NULL then Some (a, q)
       else if \<not> parserAtEnd q \<and> parserIsAny q [TOKEN_ASSIGN, TOKEN_PLUS_ASSIGN, TOKEN_MINUS_ASSIGN]
       then if \<not> isAssignableTarget a
            then Some (AST_NULL, parserSyntaxError q (current_token q) ''invalid assignment target'')
            else parseLogical (parserAdvance q) \<bind> (\<lambda>(val, p').
              Some (AST_ASSIGN (current_loc q) (assignOpFromToken (currentType q)) a val, p'))
       else Some (a, q)) (\<lambda>(a, q). stmt_post wf_loose p a q)"
    proof (cases "is_panic q")
      case False
      then have b: "begun p (wf_expr a) q" by (rule begun_node [OF a])
      have "returns (Some (AST_NULL, parserSyntaxError q tok m)) (\<lambda>(a, q). stmt_post wf_loose p a q)" for tok m
        using begun_panic [OF begun_calm [OF b calm_error] is_panic_error] by simp
      moreover have "returns (parseLogical (parserAdvance q) \<bind> (\<lambda>(val, p').
          Some (AST_ASSIGN l op a val, p'))) (\<lambda>(a, q). stmt_post wf_loose p a q)"
        if "isAssignableTarget a" for l op
        by (rule stmt_post_begun, rule step_expr [OF begun_calm [OF b calm_advance]], erule step_return)
          (use that in \<open>simp add: wf_loose_def wf_assign_def\<close>)
      ultimately show ?thesis using loose by simp
    qed (use loose in simp)
  qed
qed

text \<open>What a statement may be before its semicolon, and after.\<close>

definition wf_clause :: "ast \<Rightarrow> bool" where
  "wf_clause a \<longleftrightarrow> a \<noteq> AST_NULL \<and> (if stands_alone a then wf_stmt a else wf_expr a)"

lemma wf_clause_loose: "wf_loose a \<Longrightarrow> wf_clause a"
  by (cases a) (auto simp: wf_clause_def wf_loose_def wf_var_decl_def wf_assign_def)

lemma parseReturn_ok: "returns (parseReturn p) (\<lambda>(a, q). stmt_post wf_clause p a q)"
proof (cases "parserIs p TOKEN_KW_RET")
  case True
  then have b: "begun p True (parserAdvance p)" by (intro begun_advance parserIs_nonempty)
  have "returns (parseLogical (parserAdvance p) \<bind> (\<lambda>(v, p). Some (AST_RETURN l v, p)))
      (\<lambda>(a, q). stmt_post wf_clause p a q)" for l
    by (rule stmt_post_begun, rule step_expr [OF b], erule step_return) (simp add: wf_clause_def)
  then show ?thesis using True begun_post [OF b]
    by (simp add: parseReturn_def Let_def wf_clause_def del: returns_bind)
next
  case False
  then show ?thesis using parseAssign_ok [of p]
    by (auto simp: parseReturn_def elim!: returns_pair_mono stmt_post_map wf_clause_loose)
qed

lemma parseLoopControl_ok: "returns (parseLoopControl p) (\<lambda>(a, q). stmt_post wf_clause p a q)"
  unfolding parseLoopControl_def
  using parseReturn_ok [of p] begun_post [OF begun_advance [of p]]
  by (simp add: parserIs_nonempty wf_clause_def)

definition wf_item :: "ast \<Rightarrow> bool" where
  "wf_item a \<longleftrightarrow> \<not> is_block a \<and> wf_stmt a"

lemma wf_item_clause: "wf_clause a \<Longrightarrow> stands_alone a \<Longrightarrow> wf_item a"
  by (cases a) (auto simp: wf_clause_def wf_item_def)

lemma begun_stmt: "stmt_post W p a q \<Longrightarrow> \<not> is_panic q \<Longrightarrow> begun p (W a) q"
  by (simp add: begun_def stmt_post_def)

lemma parseSimpleStatement_ok: "returns (parseSimpleStatement p) (\<lambda>(a, q). stmt_post wf_item p a q)"
  unfolding parseSimpleStatement_def
proof (rule returns_pair_bind [OF parseLoopControl_ok])
  fix a q assume a: "stmt_post wf_clause p a q"
  show "returns (if is_panic q \<or> a = AST_NULL then Some (AST_NULL, q)
      else let (ok, p) = parserExpect q TOKEN_SEMICOLON ''expected ';' after statement''
           in if \<not> ok then Some (AST_NULL, p)
              else if stands_alone a then Some (a, p) else Some (AST_EXPR_STMT (ast_loc a) a, p))
     (\<lambda>(a, q). stmt_post wf_item p a q)"
  proof (cases "is_panic q \<or> a = AST_NULL")
    case True
    then have "stmt_post wf_item p AST_NULL q"
      using a by (auto simp: stmt_post_def so_far_def wf_clause_def)
    with True show ?thesis by simp
  next
    case False
    then have b: "begun p (wf_clause a) q" using begun_stmt [OF a] by simp
    show ?thesis
    proof (cases "parserIs q TOKEN_SEMICOLON")
      case ok: True
      have "stmt_post wf_item p (AST_EXPR_STMT l a) (parserAdvance q)" if "\<not> stands_alone a" for l
        by (rule begun_post [OF begun_calm [OF b calm_advance]])
          (use that in \<open>simp add: wf_clause_def wf_item_def\<close>)
      then show ?thesis
        using False ok begun_post [OF begun_calm [OF b calm_advance]] wf_item_clause
        by (simp add: expect_ok)
    next
      case bad: False
      then show ?thesis
        using False begun_panic [OF begun_calm [OF b calm_error] is_panic_error] by (simp add: expect_bad)
    qed
  qed
qed

section \<open>Compound statements\<close>

definition wf_body :: "ast \<Rightarrow> bool" where
  "wf_body b \<longleftrightarrow> is_block b \<and> wf_stmt b"

definition parses_stmt :: "(ast \<Rightarrow> bool) \<Rightarrow> parse \<Rightarrow> nat \<Rightarrow> bool" where
  "parses_stmt W f n \<longleftrightarrow>
     (\<forall>p. length (current p) \<le> n \<longrightarrow> returns (f p) (\<lambda>(a, q). stmt_post W p a q))"

lemma parses_stmtI:
  "(\<And>p. length (current p) \<le> n \<Longrightarrow> returns (f p) (\<lambda>(a, q). stmt_post W p a q)) \<Longrightarrow> parses_stmt W f n"
  by (simp add: parses_stmt_def)

lemma parses_stmtD:
  "parses_stmt W f n \<Longrightarrow> length (current p) \<le> n \<Longrightarrow> returns (f p) (\<lambda>(a, q). stmt_post W p a q)"
  by (simp add: parses_stmt_def)

lemma begun_length: "begun p F q \<Longrightarrow> length (current p) \<le> Suc n \<Longrightarrow> length (current q) \<le> n"
  by (simp add: begun_def)

lemma parseClause_ok:
  assumes "returns (f q) (\<lambda>(a, r). so_far q (W a) r)"
  shows "returns (parseClause stop f q) (\<lambda>(a, r). so_far q (a = AST_NULL \<or> W a) r)"
  using assms by (auto simp: parseClause_def so_far_calm elim!: returns_pair_mono so_far_weaken)

text \<open>A parameter is parsed without recovery, as the lists require.\<close>

lemma parseParameter_ok: "parses wf_param parseParameter n"
proof (rule parsesI)
  fix p :: Parser
  show "returns (parseParameter p) (\<lambda>(a, q). node_post wf_param p a q)"
  proof (cases "parserIs p TOKEN_IDENTIFIER")
    case False
    then show ?thesis by (simp add: parseParameter_def Let_def node_post_panic is_panic_error)
  next
    case True
    let ?q = "snd (parserExpect (parserAdvance p) TOKEN_DOUBLE_COLON ''expected '::' after parameter name'')"
    have c: "calm p ?q" by (rule calm_trans [OF calm_advance calm_expect])
    obtain t r where t: "parseType ?q = Some (t, r)" "node_post wf_type ?q t r"
      using parseType_ok(1) [of ?q] by (auto simp: returns_Ex)
    have "node_post wf_param p (AST_PARAM l name t) r" for l name
      by (rule node_post_map [OF node_post_calm_trans [OF c t(2)]]) (simp add: wf_param_def)
    then show ?thesis using True c t(1)
      by (simp add: parseParameter_def Let_def expect_or_def node_post_panic)
  qed
qed

definition wf_params :: "ast list \<Rightarrow> bool" where
  "wf_params ps \<longleftrightarrow> (\<forall>x \<in> set ps. wf_param x)"

lemma parseParams_ok:
  "returns (parseParams p) (\<lambda>(xs, ret, q). so_far p (wf_params xs) q \<and> (ret \<longrightarrow> is_panic q))"
proof -
  have weaken: "list_post wf_param p xs q \<Longrightarrow> so_far p (wf_params xs) q" for xs q
    by (auto simp: list_post_def so_far_def calm_def wf_params_def)
  show ?thesis
  proof (cases "parserIs p TOKEN_RPAREN")
    case True
    then show ?thesis using so_far_calm [OF calm_refl, of p]
      by (simp add: parseParams_def wf_params_def)
  next
    case False
    obtain xs ret q where "parseList [TOKEN_COMMA] (\<lambda>p. False) parseParameter p = Some (xs, ret, q)"
      "list_post wf_param p xs q" "ret \<longrightarrow> is_panic q"
      using parseList_ok [OF parseParameter_ok order_refl, of "[TOKEN_COMMA]" "\<lambda>p. False" p]
      by (auto simp: returns_Ex)
    then show ?thesis using False weaken by (simp add: parseParams_def)
  qed
qed

lemma step_signature:
  assumes b: "begun p F q"
    and k: "\<And>name params t r. begun p (F \<and> wf_params params \<and> wf_type t) r \<Longrightarrow>
              returns (k name params t r) (\<lambda>(a, q). begun p (W a) q)"
  shows "returns (parseSignature l ext k q) (\<lambda>(a, q). begun p (W a) q)"
proof (cases "parserIs q TOKEN_IDENTIFIER")
  case False
  then show ?thesis
    using begun_fail [OF begun_calm [OF b calm_error] is_panic_error] by (simp add: parseSignature_def)
next
  case True
  show ?thesis
  proof (simp only: parseSignature_def Let_def True not_True_eq_False if_False, rule step_expect [OF begun_calm [OF b calm_advance]])
    fix r assume r: "begun p F r"
    obtain xs ret s where s: "parseParams r = Some (xs, ret, s)" "so_far r (wf_params xs) s" "ret \<longrightarrow> is_panic s"
      using parseParams_ok [of r] by (auto simp: returns_Ex)
    have bs: "begun p (F \<and> wf_params xs) s" by (rule begun_step [OF r s(2)])
    have rest: "returns (expect_or s TOKEN_RPAREN m1 n1 (\<lambda>p. expect_or p TOKEN_ARROW m2 n2
        (\<lambda>p. parseType p \<bind> (\<lambda>(t, p). if is_panic p then Some (n3 t, p) else k name xs t p))))
        (\<lambda>(a, q). begun p (W a) q)" for name m1 m2 n1 n2 n3
      by (rule step_expect [OF bs], erule step_expect, erule step_type, rule step_check, assumption,
          rule k) simp
    show "returns (parseParams r \<bind> (\<lambda>(params, ret, p).
        if ret then Some (AST_FUNC_DECL l (currentValue q) params AST_NULL AST_NULL ext, p)
        else expect_or p TOKEN_RPAREN ''expected ')' after function parameters''
               (AST_FUNC_DECL l (currentValue q) params AST_NULL AST_NULL ext)
               (\<lambda>p. expect_or p TOKEN_ARROW ''expected '->' after function parameters''
                  (AST_FUNC_DECL l (currentValue q) params AST_NULL AST_NULL ext)
                  (\<lambda>p. parseType p \<bind> (\<lambda>(r, p).
                    if is_panic p then Some (AST_FUNC_DECL l (currentValue q) params AST_NULL r ext, p)
                    else k (currentValue q) params r p)))))
      (\<lambda>(a, q). begun p (W a) q)"
      using s(1,3) rest begun_fail [OF bs] by simp
  qed
qed

text \<open>Statements over a parser \<open>pb\<close> of blocks that keeps the contract on up to
  \<open>bound\<close> tokens.\<close>

locale block_parser =
  fixes pb :: parse and bound :: nat
  assumes pb_ok: "parses_stmt wf_body pb bound"
begin

lemma pb_so_far:
  "begun p F q \<Longrightarrow> length (current p) \<le> Suc bound \<Longrightarrow>
   returns (pb q) (\<lambda>(a, r). so_far q (wf_body a) r)"
  by (rule so_far_returns_stmt [OF parses_stmtD [OF pb_ok begun_length]])

lemma step_body:
  assumes "begun p F q" and "length (current p) \<le> Suc bound" and "\<And>b. F \<Longrightarrow> wf_body b \<Longrightarrow> W (node b)"
  shows "returns (pb q \<bind> (\<lambda>(b, r). Some (node b, r))) (\<lambda>(a, r). begun p (W a) r)"
  by (rule step_parse [OF assms(1) pb_so_far [OF assms(1,2)]], erule step_return) (simp add: assms(3))

lemma parseWhile_ok:
  assumes "length (current p) \<le> Suc bound" "current p \<noteq> []"
  shows "returns (parseWhile pb p) (\<lambda>(a, q). begun p (wf_item a) q)"
  unfolding parseWhile_def Let_def
  by (rule step_expect [OF begun_advance [OF assms(2)]], erule step_expr, rule step_check, assumption,
      erule step_expect, erule step_body [OF _ assms(1)]) (simp add: wf_item_def wf_body_def)

lemma parseFor_ok:
  assumes "length (current p) \<le> Suc bound" "current p \<noteq> []"
  shows "returns (parseFor pb p) (\<lambda>(a, q). begun p (wf_item a) q)"
  unfolding parseFor_def Let_def
  apply (rule step_expect [OF begun_advance [OF assms(2)]])
  apply (erule step_parse [OF _ parseClause_ok [OF so_far_returns_stmt [OF parseAssign_ok]]])
  apply (rule step_check, assumption, erule step_expect)
  apply (erule step_parse [OF _ parseClause_ok [OF so_far_returns [OF parseLogical_returns]]])
  apply (rule step_check, assumption, erule step_expect)
  apply (erule step_parse [OF _ parseClause_ok [OF so_far_returns_stmt [OF parseAssign_ok]]])
  apply (rule step_check, assumption, erule step_expect, erule step_body [OF _ assms(1)])
  apply (auto simp add: wf_item_def wf_body_def)
  done

lemma parseFunction_ok:
  assumes "length (current p) \<le> Suc bound" "current p \<noteq> []"
  shows "returns (parseFunction pb p) (\<lambda>(a, q). begun p (wf_item a \<and> is_func_decl a) q)"
  unfolding parseFunction_def Let_def
  by (rule step_signature [OF begun_advance [OF assms(2)]], erule step_body [OF _ assms(1), where W = "\<lambda>a. wf_item a \<and> is_func_decl a"])
    (simp add: wf_item_def wf_body_def wf_params_def is_func_decl_def)

lemma parseIf_ok:
  "length (current p) \<le> Suc bound \<Longrightarrow> length (current p) < n \<Longrightarrow> current p \<noteq> [] \<Longrightarrow>
   returns (parseIf n pb p) (\<lambda>(a, q). begun p (is_if a \<and> wf_stmt a) q)"
proof (induction n arbitrary: p)
  case (Suc n)
  let ?W = "\<lambda>a. is_if a \<and> wf_stmt a"
  have branches: "returns (pb q \<bind> (\<lambda>(t, p). if parserIs p TOKEN_KW_ELSE
        then let p = parserAdvance p
             in (if parserIs p TOKEN_KW_IF then parseIf n pb p else pb p) \<bind>
                  (\<lambda>(e, p). Some (AST_IF l c t e, p))
        else Some (AST_IF l c t AST_NULL, p)))
      (\<lambda>(a, q). begun p (?W a) q)" if b: "begun p F q" and wf: "F \<Longrightarrow> wf_expr c" for F q l c
  proof (rule step_parse [OF b pb_so_far [OF b Suc.prems(1)]])
    fix t r assume r: "begun p (F \<and> wf_body t) r"
    let ?r = "parserAdvance r"
    have br: "begun p (F \<and> wf_body t) ?r" by (rule begun_calm [OF r calm_advance])
    have "returns (if parserIs ?r TOKEN_KW_IF then parseIf n pb ?r else pb ?r)
        (\<lambda>(a, q). so_far ?r (wf_body a \<or> ?W a) q)"
    proof (cases "parserIs ?r TOKEN_KW_IF")
      case True
      have "length (current ?r) \<le> Suc bound" "length (current ?r) < n"
        using br Suc.prems by (auto simp: begun_def)
      from Suc.IH [OF this parserIs_nonempty [OF True]] show ?thesis
        using True by (auto elim!: returns_pair_mono simp: begun_def intro: so_far_weaken)
    next
      case False
      then show ?thesis using pb_so_far [OF br Suc.prems(1)]
        by (auto elim!: returns_pair_mono intro: so_far_weaken)
    qed
    then have "returns ((if parserIs ?r TOKEN_KW_IF then parseIf n pb ?r else pb ?r) \<bind>
        (\<lambda>(e, p). Some (AST_IF l c t e, p))) (\<lambda>(a, q). begun p (?W a) q)"
      by (rule step_parse [OF br], elim step_return) (auto simp: wf wf_body_def)
    moreover have "begun p (?W (AST_IF l c t AST_NULL)) r"
      by (rule begun_weaken [OF r]) (auto simp: wf wf_body_def)
    ultimately show "returns (if parserIs r TOKEN_KW_ELSE
        then let p = parserAdvance r
             in (if parserIs p TOKEN_KW_IF then parseIf n pb p else pb p) \<bind>
                  (\<lambda>(e, p). Some (AST_IF l c t e, p))
        else Some (AST_IF l c t AST_NULL, r))
      (\<lambda>(a, q). begun p (?W a) q)"
      by (simp add: Let_def del: returns_bind)
  qed
  show ?case
    unfolding parseIf.simps Let_def [of "current_loc p"]
    by (rule step_expect [OF begun_advance [OF Suc.prems(3)]], erule step_expr, rule step_check,
        assumption, erule step_expect, erule branches) simp
qed simp

lemma parseStatement_ok:
  assumes "length (current p) \<le> Suc bound" "\<not> parserAtEnd p"
  shows "returns (parseStatement pb p) (\<lambda>(a, q). stmt_post wf_item p a q)"
proof -
  have ne: "current p \<noteq> []" using assms(2) by (rule not_at_end_nonempty)
  have iff: "returns (parseIf (Suc (length (current p))) pb p) (\<lambda>(a, q). stmt_post wf_item p a q)"
  proof (rule returns_pair_mono [OF parseIf_ok [OF assms(1) _ ne]])
    fix a q assume "begun p (is_if a \<and> wf_stmt a) q"
    then show "case (a, q) of (a, q) \<Rightarrow> stmt_post wf_item p a q"
      by (cases a) (auto simp: wf_item_def intro: begun_post)
  qed simp
  have func: "returns (parseFunction pb p) (\<lambda>(a, q). stmt_post wf_item p a q)"
    by (rule returns_pair_mono [OF parseFunction_ok [OF assms(1) ne]]) (simp add: begun_post)
  show ?thesis
    unfolding parseStatement_def
    using assms(2) iff func stmt_post_begun [OF parseWhile_ok [OF assms(1) ne]]
      stmt_post_begun [OF parseFor_ok [OF assms(1) ne]] parseSimpleStatement_ok by simp
qed

end

section \<open>Recovery\<close>

lemma parserAdvance_fields:
  "suffix (current (parserAdvance p)) (current p)" "ptokens (parserAdvance p) = ptokens p"
  "perrors (parserAdvance p) = perrors p"
  by (simp_all add: parserAdvance_def suffix_tl)

lemma parserSkipTo_step:
  "\<not> parserAtEnd p \<Longrightarrow> \<not> r p \<Longrightarrow>
   parserSkipTo r p =
     (if parserIs p TOKEN_SEMICOLON then parserAdvance p else parserSkipTo r (parserAdvance p))"
  by (subst parserSkipTo.simps) simp

lemma parserSkipTo_stop: "parserAtEnd p \<or> r p \<Longrightarrow> parserSkipTo r p = p \<or> parserSkipTo r p = parserAdvance p"
  by (subst (1 2) parserSkipTo.simps) auto

lemma parserSkipTo_fields:
  "suffix (current (parserSkipTo r p)) (current p)"
  "ptokens (parserSkipTo r p) = ptokens p"
  "perrors (parserSkipTo r p) = perrors p"
proof (induction r p rule: parserSkipTo.induct)
  case (1 r p)
  {
    case 1
    show ?case
      using "1.IH"(1) parserSkipTo_step [of p r] parserSkipTo_stop [of p r]
        suffix_order.trans [OF _ parserAdvance_fields(1), of _ p]
      by (cases "parserAtEnd p \<or> r p") (auto simp: parserAdvance_fields)
  next
    case 2
    show ?case using "1.IH"(2) parserSkipTo_step [of p r] parserSkipTo_stop [of p r]
      by (cases "parserAtEnd p \<or> r p") (auto simp: parserAdvance_fields)
  next
    case 3
    show ?case using "1.IH"(3) parserSkipTo_step [of p r] parserSkipTo_stop [of p r]
      by (cases "parserAtEnd p \<or> r p") (auto simp: parserAdvance_fields)
  }
qed

lemma parserSkipTo_length: "length (current (parserSkipTo r p)) \<le> length (current p)"
  by (rule suffix_length_le [OF parserSkipTo_fields(1)])

lemma parserSkipTo_less:
  assumes "\<not> parserAtEnd p" "\<not> r p"
  shows "length (current (parserSkipTo r p)) < length (current p)"
proof -
  have "length (current (parserAdvance p)) < length (current p)"
    using assms(1) by (intro consumed_advance not_at_end_nonempty)
  with parserSkipTo_length [of r "parserAdvance p"] show ?thesis
    using parserSkipTo_step [of p r] assms by simp
qed

lemma so_far_panic: "so_far p F q \<Longrightarrow> is_panic q \<Longrightarrow> so_far p False q"
  by (simp add: so_far_def)

text \<open>Leaving panic mode is only possible after an error was reported.\<close>

lemma so_far_leave:
  assumes "so_far p False q" "suffix (current r) (current q)" "ptokens r = ptokens q" "perrors r = perrors q"
  shows "so_far p False r"
  using assms by (auto simp: so_far_def progress_def intro: suffix_order.trans)

lemma so_far_synchronize:
  "so_far p F q \<Longrightarrow> is_panic q \<Longrightarrow> so_far p G ((parserSkipTo r q)\<lparr>is_panic := False\<rparr>)"
  by (rule so_far_weaken [OF so_far_leave [OF so_far_panic]]) (simp_all add: parserSkipTo_fields)

lemma parserAtEnd_cong: "current p = current q \<Longrightarrow> parserAtEnd p = parserAtEnd q"
  by (simp add: parserAtEnd_def)

lemma parserIs_cong: "current p = current q \<Longrightarrow> parserIs p ty = parserIs q ty"
  by (simp add: parserIs_def)

lemma so_far_same_tokens:
  "so_far p F q \<Longrightarrow> length (current q) < length (current p) \<or> current q = current p"
  unfolding so_far_def progress_def suffix_def by (elim conjE exE) (case_tac zs, simp_all)

lemma synchronize_less:
  assumes "so_far p F q" "\<not> parserAtEnd p" "\<not> restart p" "\<And>q. current p = current q \<Longrightarrow> restart p = restart q"
  shows "length (current (parserSkipTo restart q)) < length (current p)"
  using so_far_same_tokens [OF assms(1)]
proof
  assume "length (current q) < length (current p)"
  then show ?thesis using parserSkipTo_length [of restart q] by linarith
next
  assume eq: "current q = current p"
  then show ?thesis
    using parserSkipTo_less [of q restart] parserAtEnd_cong [OF eq] assms(2,3) assms(4) [OF eq [symmetric]]
    by simp
qed

section \<open>Blocks\<close>

lemma parseStatements_ok:
  assumes ps: "\<And>p. length (current p) \<le> b \<Longrightarrow> \<not> parserAtEnd p \<Longrightarrow>
    returns (ps p) (\<lambda>(a, q). stmt_post wf_item p a q)"
  shows "length (current p) < n \<Longrightarrow> length (current p) \<le> b \<Longrightarrow>
    returns (parseStatements n ps ss p)
      (\<lambda>(xs, q). so_far p ((\<forall>x \<in> set ss. wf_item x) \<longrightarrow> (\<forall>x \<in> set xs. wf_item x)) q)"
proof (induction n arbitrary: ss p)
  case (Suc n)
  let ?G = "\<lambda>ss xs. (\<forall>x \<in> set ss. wf_item x) \<longrightarrow> (\<forall>x \<in> set xs. wf_item x)"
  show ?case
  proof (cases "\<not> parserAtEnd p \<and> \<not> parserIs p TOKEN_RBRACE")
    case False
    then show ?thesis using so_far_calm [OF calm_refl, of p] by auto
  next
    case True
    then have "returns (ps p) (\<lambda>(a, q). stmt_post wf_item p a q)" using ps Suc.prems(2) by simp
    then obtain a q where a: "ps p = Some (a, q)" "stmt_post wf_item p a q"
      by (auto simp: returns_Ex)
    have aq: "so_far p (wf_item a) q" by (rule so_far_stmt [OF a(2)])
    have step: "returns (parseStatements n ps ts r) (\<lambda>(xs, q). so_far p (?G ss xs) q)"
      if "so_far p H r" "length (current r) < length (current p)" "H \<Longrightarrow> (\<forall>x \<in> set ss. wf_item x) \<Longrightarrow> \<forall>x \<in> set ts. wf_item x"
      for H r ts
    proof -
      have "returns (parseStatements n ps ts r) (\<lambda>(xs, q). so_far r (?G ts xs) q)"
        using Suc.IH [of r ts] that(2) Suc.prems by simp
      then show ?thesis
      proof (rule returns_pair_mono)
        fix xs s assume "so_far r (?G ts xs) s"
        then have "so_far p (H \<and> ?G ts xs) s" by (rule so_far_trans [OF that(1)])
        then show "case (xs, s) of (xs, q) \<Rightarrow> so_far p (?G ss xs) q"
          using that(3) by (auto elim: so_far_weaken)
      qed
    qed
    show ?thesis
    proof (cases "is_panic q")
      case panic: True
      let ?r = "parserSynchronizeStatement q"
      have "length (current (parserSkipTo (\<lambda>p. parserIs p TOKEN_RBRACE) q)) < length (current p)"
        by (rule synchronize_less [OF aq]) (use True in \<open>simp_all add: parserIs_def\<close>)
      then have "length (current ?r) < length (current p)" by (simp add: parserSynchronizeStatement_def)
      moreover have "so_far p False ?r"
        unfolding parserSynchronizeStatement_def by (rule so_far_synchronize [OF aq panic])
      ultimately have "returns (parseStatements n ps ss ?r) (\<lambda>(xs, q). so_far p (?G ss xs) q)"
        by (intro step) simp_all
      with True a(1) panic show ?thesis by simp
    next
      case False
      then have "length (current q) < length (current p)" using a(2) by (simp add: stmt_post_def)
      then have "returns (parseStatements n ps (append_node ss a) q) (\<lambda>(xs, q). so_far p (?G ss xs) q)"
        by (rule step [OF aq]) (rule all_append_node)
      with True a(1) False show ?thesis by simp
    qed
  qed
qed simp

lemma unclosed_block:
  assumes "begun p F q"
  shows "begun p False ((parserSyntaxError q tok m)\<lparr>is_panic := False\<rparr>)"
proof -
  have "begun p F (parserSyntaxError q tok m)" by (rule begun_calm [OF assms calm_error])
  then have "so_far p False (parserSyntaxError q tok m)" and l: "length (current q) < length (current p)"
    using assms by (auto simp: begun_def intro: so_far_panic is_panic_error)
  then show ?thesis
    by (simp add: begun_def current_error so_far_leave)
qed

context block_parser
begin

lemma parseBlockLevel_ok: "parses_stmt wf_body (parseBlockLevel pb) (Suc bound)"
proof (rule parses_stmtI)
  fix p :: Parser assume l: "length (current p) \<le> Suc bound"
  show "returns (parseBlockLevel pb p) (\<lambda>(a, q). stmt_post wf_body p a q)"
  proof (cases "parserIs p TOKEN_LBRACE")
    case False
    then show ?thesis
      by (simp add: parseBlockLevel_def expect_bad stmt_post_node node_post_panic is_panic_error)
  next
    case True
    let ?p = "parserAdvance p"
    have b: "begun p True ?p" by (rule begun_advance [OF parserIs_nonempty [OF True]])
    have "returns (parseStatements (Suc (length (current ?p))) (parseStatement pb) [] ?p)
        (\<lambda>(xs, q). so_far ?p ((\<forall>x \<in> set []. wf_item x) \<longrightarrow> (\<forall>x \<in> set xs. wf_item x)) q)"
      by (rule parseStatements_ok [of bound]) (use parseStatement_ok begun_length [OF b l] in auto)
    then obtain xs q where xs: "parseStatements (Suc (length (current ?p))) (parseStatement pb) [] ?p = Some (xs, q)"
      and q: "so_far ?p (\<forall>x \<in> set xs. wf_item x) q" by (auto simp: returns_Ex)
    have bq: "begun p (True \<and> (\<forall>x \<in> set xs. wf_item x)) q" by (rule begun_step [OF b q])
    have "stmt_post wf_body p (AST_BLOCK x xs) (parserAdvance q)" for x
      by (rule begun_post [OF begun_calm [OF bq calm_advance]]) (simp add: wf_body_def wf_item_def)
    moreover have "stmt_post wf_body p (AST_BLOCK x xs) ((parserSyntaxError q tok m)\<lparr>is_panic := False\<rparr>)" for x tok m
      by (rule begun_post [OF unclosed_block [OF bq]]) simp
    ultimately show ?thesis
      using True xs
      by (cases "parserIs q TOKEN_RBRACE") (simp_all add: parseBlockLevel_def expect_ok expect_bad)
  qed
qed

end

lemma parses_block_fuel: "parses_stmt wf_body (parseBlockFuel (Suc n)) n"
proof (induction n)
  case 0
  show ?case
  proof (rule parses_stmtI)
    fix p :: Parser assume "length (current p) \<le> 0"
    then have "\<not> parserIs p TOKEN_LBRACE" by (auto dest: parserIs_nonempty)
    then show "returns (parseBlockFuel (Suc 0) p) (\<lambda>(a, q). stmt_post wf_body p a q)"
      by (simp add: parseBlockLevel_def expect_bad stmt_post_node node_post_panic is_panic_error)
  qed
next
  case (Suc n)
  then have "block_parser (parseBlockFuel (Suc n)) n" by unfold_locales
  from block_parser.parseBlockLevel_ok [OF this] show ?case by (simp add: parses_stmt_def)
qed

lemma parseBlock_returns: "returns (parseBlock p) (\<lambda>(a, q). stmt_post wf_body p a q)"
  unfolding parseBlock_def by (rule parses_stmtD [OF parses_block_fuel]) simp

interpretation block_fuel: block_parser "parseBlockFuel (Suc n)" n for n
  by unfold_locales (rule parses_block_fuel)

interpretation block: block_parser parseBlock n for n
  by unfold_locales (simp add: parses_stmtI parseBlock_returns)

section \<open>Programs\<close>

definition top_post :: "Parser \<Rightarrow> ast \<Rightarrow> Parser \<Rightarrow> bool" where
  "top_post p a q \<longleftrightarrow> so_far p (wf_top a) q \<and> \<not> is_panic q \<and> length (current q) < length (current p)"

lemma parseExternFunction_ok:
  assumes "current p \<noteq> []"
  shows "returns (parseExternFunction p) (\<lambda>(a, q). begun p (wf_top a) q)"
proof -
  let ?k = "\<lambda>m l name params r p.
    Some (AST_FUNC_DECL l name params AST_NULL r True, snd (parserExpect p TOKEN_SEMICOLON m))"
  have k: "returns (?k m l name params t r) (\<lambda>(a, q). begun p (wf_top a) q)"
    if "begun p (F \<and> wf_params params \<and> wf_type t) r" for m l name params t r F
    by (rule step_return [OF begun_calm [OF that calm_expect]])
      (simp add: wf_top_def wf_extern_def wf_params_def)
  show ?thesis
    unfolding parseExternFunction_def Let_def
    by (rule step_expect [OF begun_advance [OF assms]], erule step_signature, erule k)
qed

lemma parseGlobal_ok:
  assumes "isDeclarationStart p"
  shows "returns (parseAssign p \<bind> (\<lambda>(node, p).
      if is_panic p then Some (node, p)
      else let (ok, p) = parserExpect p TOKEN_SEMICOLON m in Some (if ok then node else AST_NULL, p)))
    (\<lambda>(a, q). begun p (wf_top a) q)"
proof -
  have "returns (parseAssign p) (\<lambda>(a, q). begun p (wf_var_decl a) q)"
    using parseDeclaration_ok [OF isDeclarationStart_nonempty [OF assms]] assms by (simp add: parseAssign_def)
  then obtain a q where a: "parseAssign p = Some (a, q)" and b: "begun p (wf_var_decl a) q"
    by (auto simp: returns_Ex)
  have ok: "begun p (wf_top a) (parserAdvance q)"
    by (rule begun_weaken [OF begun_calm [OF b calm_advance]]) (simp add: wf_top_def)
  have bad: "begun p (wf_top AST_NULL) (parserSyntaxError q tok m)" for tok m
    by (rule begun_fail [OF begun_calm [OF b calm_error] is_panic_error])
  show ?thesis
    using a ok bad begun_fail [OF b]
    by (cases "parserIs q TOKEN_SEMICOLON") (simp_all add: expect_ok expect_bad)
qed

lemma parseTopLevel_ok:
  assumes "\<not> parserAtEnd p"
  shows "returns (parseTopLevel p) (\<lambda>(a, q). top_post p a q)"
proof -
  have ne: "current p \<noteq> []" using assms by (rule not_at_end_nonempty)
  let ?finish = "\<lambda>(a, q). if is_panic q then Some (AST_NULL, parserSynchronizeTopLevel q) else Some (a, q)"
  have finish: "returns (?finish (a, q)) (\<lambda>(a, q). top_post p a q)"
    if a: "so_far p (wf_top a) q" and less: "\<not> is_panic q \<longrightarrow> length (current q) < length (current p)"
      and skips: "length (current (parserSkipTo parserIsTopLevelRestart q)) < length (current p)"
    for a q
    using a less skips so_far_synchronize [OF a]
    by (simp add: top_post_def parserSynchronizeTopLevel_def)
  have begun: "returns m (\<lambda>(a, q). begun p (wf_top a) q) \<Longrightarrow>
      returns (m \<bind> ?finish) (\<lambda>(a, q). top_post p a q)" for m
    unfolding returns_bind
    by (erule returns_pair_mono, rule finish)
      (auto simp: begun_def intro: le_less_trans [OF parserSkipTo_length])
  have func: "returns (parseFunction parseBlock p) (\<lambda>(a, q). begun p (wf_top a) q)"
    by (rule returns_pair_mono [OF block.parseFunction_ok [of p "length (current p)", OF _ ne]])
      (auto simp: wf_top_def wf_item_def intro: begun_weaken)
  have bad: "returns (?finish (AST_NULL, parserSyntaxError p tok m)) (\<lambda>(a, q). top_post p a q)"
    if "\<not> parserIsTopLevelRestart p" for tok m
  proof (rule finish)
    show s: "so_far p (wf_top AST_NULL) (parserSyntaxError p tok m)"
      by (rule so_far_node [OF node_post_panic [OF calm_error is_panic_error]])
    show "length (current (parserSkipTo parserIsTopLevelRestart (parserSyntaxError p tok m))) < length (current p)"
      by (rule synchronize_less [where restart = parserIsTopLevelRestart, OF s assms that])
        (simp add: parserIsTopLevelRestart_def parserIs_def isDeclarationStart_def)
  qed (simp add: is_panic_error)
  consider "parserIs p TOKEN_KW_FUNC" | "\<not> parserIs p TOKEN_KW_FUNC" "parserIs p TOKEN_KW_EXTERN"
    | "\<not> parserIs p TOKEN_KW_FUNC" "\<not> parserIs p TOKEN_KW_EXTERN" "isDeclarationStart p"
    | "\<not> parserIs p TOKEN_KW_FUNC" "\<not> parserIs p TOKEN_KW_EXTERN" "\<not> isDeclarationStart p"
    by blast
  then show ?thesis
  proof cases
    case 1
    then show ?thesis using begun [OF func] assms by (simp add: parseTopLevel_def del: returns_bind)
  next
    case 2
    then show ?thesis using begun [OF parseExternFunction_ok [OF ne]] assms
      by (simp add: parseTopLevel_def del: returns_bind)
  next
    case 3
    then show ?thesis using begun [OF parseGlobal_ok] assms
      by (simp add: parseTopLevel_def del: returns_bind)
  next
    case 4
    then show ?thesis using bad assms
      by (simp add: parseTopLevel_def parserIsTopLevelRestart_def)
  qed
qed

lemma parseProgramLoop_ok:
  "length (current p) < n \<Longrightarrow> \<not> is_panic p \<Longrightarrow>
   returns (parseProgramLoop n ds p)
     (\<lambda>(xs, q). so_far p ((\<forall>d \<in> set ds. wf_top d) \<longrightarrow> (\<forall>d \<in> set xs. wf_top d)) q
        \<and> parserAtEnd q \<and> \<not> is_panic q)"
proof (induction n arbitrary: ds p)
  case (Suc n)
  show ?case
  proof (cases "parserAtEnd p")
    case True
    then show ?thesis using Suc.prems so_far_calm [OF calm_refl, of p] by (simp add: so_far_def)
  next
    case False
    obtain a q where a: "parseTopLevel p = Some (a, q)" and post: "top_post p a q"
      using parseTopLevel_ok [OF False] by (auto simp: returns_Ex)
    have "length (current q) < n" "\<not> is_panic q" using post Suc.prems by (simp_all add: top_post_def)
    from Suc.IH [OF this, of "append_node ds a"] obtain xs r where
      r: "parseProgramLoop n (append_node ds a) q = Some (xs, r)" "parserAtEnd r" "\<not> is_panic r"
         "so_far q ((\<forall>d \<in> set (append_node ds a). wf_top d) \<longrightarrow> (\<forall>d \<in> set xs. wf_top d)) r"
      by (auto simp: returns_Ex)
    have "so_far p (wf_top a) q" using post by (simp add: top_post_def)
    from so_far_trans [OF this r(4)]
    have "so_far p ((\<forall>d \<in> set ds. wf_top d) \<longrightarrow> (\<forall>d \<in> set xs. wf_top d)) r"
    proof (rule so_far_weaken)
      assume h: "wf_top a \<and> ((\<forall>d \<in> set (append_node ds a). wf_top d) \<longrightarrow> (\<forall>d \<in> set xs. wf_top d))"
      show "(\<forall>d \<in> set ds. wf_top d) \<longrightarrow> (\<forall>d \<in> set xs. wf_top d)"
        using h all_append_node [of ds wf_top a] by blast
    qed
    moreover have "parseProgramLoop (Suc n) ds p = Some (xs, r)"
      using False a r(1) by simp
    ultimately show ?thesis using r(2,3) by (simp only: returns_simps prod.case simp_thms)
  qed
qed simp

lemma parserParseProgram_ok:
  "returns (parserParseProgram (parserInit ts))
     (\<lambda>(a, q). so_far (parserInit ts) (wf_program a) q \<and> parserAtEnd q \<and> \<not> is_panic q)"
proof -
  have "returns (parseProgramLoop (Suc (length (current (parserInit ts)))) [] (parserInit ts))
     (\<lambda>(xs, q). so_far (parserInit ts) ((\<forall>d \<in> set []. wf_top d) \<longrightarrow> (\<forall>d \<in> set xs. wf_top d)) q
        \<and> parserAtEnd q \<and> \<not> is_panic q)"
    by (rule parseProgramLoop_ok) (simp_all add: parserInit_def)
  then show ?thesis
    unfolding parserParseProgram_def
    by (rule returns_pair_bind) (auto simp: wf_program_def elim: so_far_weaken)
qed

section \<open>The parser's promises\<close>

text \<open>C11: the parser is total.  On every token list, well formed or not, it returns a
  tree; it has then read up to the end marker, it is out of panic mode, and the error array is
  within its capacity.  In particular no bound of the model ever runs out and the recovery
  loops always make progress.\<close>

theorem parser_total:
  "\<exists>tree p. parserParseProgram (parserInit ts) = Some (tree, p)
      \<and> parserAtEnd p \<and> \<not> is_panic p \<and> suffix (current p) ts \<and> growable_ok (perrors p)"
proof -
  obtain a q where r: "parserParseProgram (parserInit ts) = Some (a, q)" "parserAtEnd q" "\<not> is_panic q"
    "so_far (parserInit ts) (wf_program a) q"
    using parserParseProgram_ok [of ts] by (auto simp: returns_Ex)
  then have "suffix (current q) ts \<and> growable_ok (perrors q)"
    by (simp add: so_far_def progress_def) (simp add: parserInit_def)
  with r show ?thesis by blast
qed

text \<open>C5: a tree parsed without an error is well formed: no null pointer where the later phases
  dereference one, declarations only at file scope, blocks as bodies, one index per array
  access, assignable targets, call and index bases that start with an identifier, literals in
  range.\<close>

theorem parser_well_formed:
  assumes "parserParseProgram (parserInit ts) = Some (tree, p)" and "items (perrors p) = []"
  shows "wf_program tree"
  using parserParseProgram_ok [of ts] assms by (simp add: so_far_def) (simp add: parserInit_def)

text \<open>C19: an expression parsed outside panic mode either enters it, and then exactly the
  error array has grown, or it reports nothing, consumes at least one token and yields a
  complete expression tree.\<close>

theorem expression_outcome:
  assumes "\<not> is_panic p"
  shows "\<exists>a q. parseLogical p = Some (a, q) \<and> suffix (current q) (current p)
     \<and> (if is_panic q then strict_prefix (items (perrors p)) (items (perrors q))
        else perrors q = perrors p \<and> wf_expr a \<and> length (current q) < length (current p))"
proof -
  obtain a q where r: "parseLogical p = Some (a, q)" and post: "expr_post p a q"
    using parseLogical_returns [of p] by (auto simp: returns_Ex)
  then have "calm p q" "\<not> is_panic q \<longrightarrow> wf_expr a \<and> length (current q) < length (current p)"
    by (simp_all add: node_post_def)
  then show ?thesis
    using r assms unfolding calm_def progress_def strict_prefix_def
    by (intro exI [of _ a] exI [of _ q]) metis
qed

definition sample_token :: "TokenType \<Rightarrow> string \<Rightarrow> nat \<Rightarrow> Token" where
  "sample_token ty v c = \<lparr>ttype = ty, tvalue = v, tline = 1, tcolumn = c\<rparr>"

text \<open>\<^verbatim>\<open>x :: int = 1 + 2 * 3;\<close>\<close>

definition sample_tokens :: "Token list" where
  "sample_tokens =
     [sample_token TOKEN_IDENTIFIER ''x'' 1, sample_token TOKEN_DOUBLE_COLON ''::'' 3,
      sample_token TOKEN_TYPE_INT ''int'' 6, sample_token TOKEN_ASSIGN ''='' 10,
      sample_token TOKEN_NUMBER ''1'' 12, sample_token TOKEN_PLUS ''+'' 14,
      sample_token TOKEN_NUMBER ''2'' 16, sample_token TOKEN_STAR ''*'' 18,
      sample_token TOKEN_NUMBER ''3'' 20, sample_token TOKEN_SEMICOLON '';'' 21,
      sample_token TOKEN_EOF [] 22]"

definition sample_tree :: ast where
  "sample_tree = AST_PROGRAM (1, 1)
     [AST_VAR_DECL (1, 1) ''x'' (AST_TYPE_NAME (1, 6) AST_TYPE_INT_KIND ''int'')
        (AST_BINARY (1, 14) AST_BINARY_ADD (AST_INT_LITERAL (1, 12) 1)
           (AST_BINARY (1, 18) AST_BINARY_MUL (AST_INT_LITERAL (1, 16) 2)
              (AST_INT_LITERAL (1, 20) 3)))]"

lemma sample_parse:
  "map_option (\<lambda>(a, p). (a, items (perrors p))) (parserParseProgram (parserInit sample_tokens))
   = Some (sample_tree, [])"
  by code_simp

lemma sample_parse_state:
  "\<exists>p. parserParseProgram (parserInit sample_tokens) = Some (sample_tree, p) \<and> items (perrors p) = []"
  using sample_parse by auto

theorem parser_well_formed_witness: "wf_program sample_tree"
proof -
  obtain p where "parserParseProgram (parserInit sample_tokens) = Some (sample_tree, p)"
    "items (perrors p) = []" using sample_parse_state by blast
  then show ?thesis by (rule parser_well_formed)
qed

theorem expression_outcome_witness:
  "\<exists>a q. parseLogical (parserInit (drop 4 sample_tokens)) = Some (a, q) \<and> q \<noteq> parserInit sample_tokens"
proof -
  have "\<not> is_panic (parserInit (drop 4 sample_tokens))" by (simp add: parserInit_def)
  from expression_outcome [OF this] obtain a q where
    q: "parseLogical (parserInit (drop 4 sample_tokens)) = Some (a, q)"
       "suffix (current q) (current (parserInit (drop 4 sample_tokens)))" by blast
  then have "length (current q) \<le> 7"
    using suffix_length_le by (fastforce simp: parserInit_def sample_tokens_def)
  then have "q \<noteq> parserInit sample_tokens" by (auto simp: parserInit_def sample_tokens_def)
  with q(1) show ?thesis by blast
qed

end
