(* ===== verification/AstPrint.thy ===== *)
theory AstPrint
  imports Ast
begin

text \<open>
  The textual tree of \<^verbatim>\<open>src/parser/ast.c\<close>.  The array \<^verbatim>\<open>isLast\<close> of 128
  flags is shared by all calls and keeps what earlier siblings left in it, so it is passed
  through; an access past its end makes the result \<open>None\<close>.
\<close>

section \<open>The general format of numbers\<close>

text \<open>The largest \<open>k\<close> with \<open>10 ^ k \<le> a / b\<close>.\<close>

definition floor_log10 :: "nat \<Rightarrow> nat \<Rightarrow> int" where
  "floor_log10 a b =
     (if b \<le> a then int (length (show_nat (a div b))) - 1
      else - int (length (show_nat ((b + a - 1) div a - 1))))"

definition scaled_decimal :: "nat \<Rightarrow> nat \<Rightarrow> int \<Rightarrow> nat" where
  "scaled_decimal a b k = (if 0 \<le> k then round_div a (b * 10 ^ nat k) else round_div (a * 10 ^ nat (- k)) b)"

text \<open>The decimal exponent and the six significant digits.\<close>

definition six_digits :: "nat \<Rightarrow> nat \<Rightarrow> int \<times> nat" where
  "six_digits a b =
     (let x = floor_log10 a b; d = scaled_decimal a b (x - 5)
      in if d = 10 ^ 6 then (x + 1, 10 ^ 5) else (x, d))"

definition strip_zeros :: "string \<Rightarrow> string" where
  "strip_zeros s = rev (dropWhile (\<lambda>c. c = CHR ''0'') (rev s))"

definition with_fraction :: "string \<Rightarrow> string \<Rightarrow> string" where
  "with_fraction whole frac = (let f = strip_zeros frac in if f = [] then whole else whole @ ''.'' @ f)"

text \<open>\<^verbatim>\<open>%g\<close> of a value that is not negative.\<close>

definition show_general :: "double \<Rightarrow> string" where
  "show_general d = (case d of
     Infinity \<Rightarrow> ''inf''
   | Double m e \<Rightarrow>
       if m = 0 then ''0''
       else
         (let (x, n) = (if 0 \<le> e then six_digits (m * 2 ^ nat e) 1 else six_digits m (2 ^ nat (- e)));
              s = show_nat n
          in if x < -4 \<or> 6 \<le> x then
               with_fraction (take 1 s) (drop 1 s) @ ''e'' @ (if x < 0 then ''-'' else ''+'')
                 @ pad_left 2 (show_nat (nat \<bar>x\<bar>))
             else if 0 \<le> x then with_fraction (take (nat x + 1) s) (drop (nat x + 1) s)
             else with_fraction ''0'' (replicate (nat (- x) - 1) (CHR ''0'') @ s)))"

section \<open>Labels\<close>

fun binaryOpName :: "AstBinaryOp \<Rightarrow> string" where
  "binaryOpName AST_BINARY_ADD = ''+''"
| "binaryOpName AST_BINARY_SUB = ''-''"
| "binaryOpName AST_BINARY_MUL = ''*''"
| "binaryOpName AST_BINARY_DIV = ''/''"
| "binaryOpName AST_BINARY_GT = ''>''"
| "binaryOpName AST_BINARY_LT = ''<''"
| "binaryOpName AST_BINARY_GTE = ''>=''"
| "binaryOpName AST_BINARY_LTE = ''<=''"
| "binaryOpName AST_BINARY_EQ = ''==''"
| "binaryOpName AST_BINARY_NEQ = ''!=''"
| "binaryOpName AST_BINARY_AND = ''&&''"
| "binaryOpName AST_BINARY_OR = ''||''"

fun assignOpName :: "AstAssignOp \<Rightarrow> string" where
  "assignOpName AST_ASSIGN_SET = ''=''"
| "assignOpName AST_ASSIGN_ADD = ''+=''"
| "assignOpName AST_ASSIGN_SUB = ''-=''"

fun unaryOpName :: "AstUnaryOp \<Rightarrow> string" where
  "unaryOpName AST_UNARY_NEGATE = ''NEGATE''"
| "unaryOpName AST_UNARY_NOT = ''NOT''"
| "unaryOpName AST_UNARY_ADDRESS_OF = ''ADDRESS_OF''"
| "unaryOpName AST_UNARY_DEREF = ''DEREF''"

definition label :: "string \<Rightarrow> string" where
  "label s = '' ('' @ s @ '')'' @ [newline]"

definition char_code :: "char \<Rightarrow> int" where
  "char_code c = (if of_char c < (128 :: int) then of_char c else of_char c - 256)"

definition writeLabel :: "ast \<Rightarrow> string" where
  "writeLabel node = (case node of
     AST_NULL \<Rightarrow> []
   | AST_PROGRAM l ds \<Rightarrow> label ''PROGRAM''
   | AST_BLOCK l ss \<Rightarrow> label ''BLOCK''
   | AST_VAR_DECL l x t i \<Rightarrow> label (''VAR_DECL '' @ x)
   | AST_FUNC_DECL l x ps b r ext \<Rightarrow> label (''FUNC_DECL '' @ (if ext then ''extern '' else []) @ x)
   | AST_PARAM l x t \<Rightarrow> label (''PARAM '' @ x)
   | AST_IF l c t e \<Rightarrow> label ''IF''
   | AST_WHILE l c b \<Rightarrow> label ''WHILE''
   | AST_FOR l i c u b \<Rightarrow> label ''FOR''
   | AST_RETURN l v \<Rightarrow> label ''RETURN''
   | AST_BREAK l \<Rightarrow> label ''BREAK''
   | AST_CONTINUE l \<Rightarrow> label ''CONTINUE''
   | AST_EXPR_STMT l e \<Rightarrow> label ''EXPR_STMT''
   | AST_ASSIGN l op t v \<Rightarrow> label (assignOpName op)
   | AST_BINARY l op x y \<Rightarrow> label (binaryOpName op)
   | AST_UNARY l op x \<Rightarrow>
       '' (UNARY)'' @ (if op = AST_UNARY_ADDRESS_OF \<or> op = AST_UNARY_DEREF then '' '' @ unaryOpName op else [])
         @ [newline]
   | AST_CALL l f args \<Rightarrow> label ''CALL''
   | AST_ARRAY_ACCESS l b js \<Rightarrow> label ''ARRAY_ACCESS''
   | AST_ARRAY_LITERAL l xs \<Rightarrow> label ''ARRAY_LITERAL''
   | AST_IDENTIFIER l x \<Rightarrow> label x
   | AST_INT_LITERAL l v \<Rightarrow> snprintf 64 (label (show_int v))
   | AST_FLOAT_LITERAL l v \<Rightarrow> snprintf 64 (label (show_general v))
   | AST_CHAR_LITERAL l v \<Rightarrow> snprintf 64 (label (''CHAR_LITERAL '' @ show_int (char_code v)))
   | AST_STRING_LITERAL l v \<Rightarrow> label v
   | AST_BOOL_LITERAL l v \<Rightarrow> label (if v then ''true'' else ''false'')
   | AST_TYPE_NAME l k x \<Rightarrow> label (''TYPE '' @ x)
   | AST_TYPE_ARRAY l t e \<Rightarrow> label ''TYPE_ARRAY''
   | AST_TYPE_POINTER l t \<Rightarrow> label ''TYPE_POINTER'')"

section \<open>Nodes\<close>

text \<open>The children in the order they are written; an item of a list comes with the flag whether it
  is the last.\<close>

fun list_items :: "ast list \<Rightarrow> (ast \<times> bool option) list" where
  "list_items [] = []"
| "list_items (x # xs) = (x, Some (xs = [])) # list_items xs"

definition single :: "ast \<Rightarrow> ast \<times> bool option" where
  "single x = (x, None)"

definition node_children :: "ast \<Rightarrow> (ast \<times> bool option) list" where
  "node_children node = (case node of
     AST_PROGRAM l ds \<Rightarrow> list_items ds
   | AST_BLOCK l ss \<Rightarrow> list_items ss
   | AST_VAR_DECL l x t i \<Rightarrow> [single t, single i]
   | AST_FUNC_DECL l x ps b r ext \<Rightarrow> single r # list_items ps @ [single b]
   | AST_PARAM l x t \<Rightarrow> [single t]
   | AST_IF l c t e \<Rightarrow> [single c, single t, single e]
   | AST_WHILE l c b \<Rightarrow> [single c, single b]
   | AST_FOR l i c u b \<Rightarrow> [single i, single c, single u, single b]
   | AST_RETURN l v \<Rightarrow> [single v]
   | AST_EXPR_STMT l e \<Rightarrow> [single e]
   | AST_ASSIGN l op t v \<Rightarrow> [single t, single v]
   | AST_BINARY l op x y \<Rightarrow> [single x, single y]
   | AST_UNARY l op x \<Rightarrow> [single x]
   | AST_CALL l f args \<Rightarrow> single f # list_items args
   | AST_ARRAY_ACCESS l b js \<Rightarrow> single b # list_items js
   | AST_ARRAY_LITERAL l xs \<Rightarrow> list_items xs
   | AST_TYPE_ARRAY l t e \<Rightarrow> [single t, single e]
   | AST_TYPE_POINTER l t \<Rightarrow> [single t]
   | _ \<Rightarrow> [])"

definition branch_mark :: string where
  "branch_mark = ''  '' @ [CHR 0xE2, CHR 0x94, CHR 0x9C, CHR 0xE2, CHR 0x94, CHR 0x80]"

definition writeIndent :: "nat \<Rightarrow> bool list \<Rightarrow> string option" where
  "writeIndent depth isLast =
     (if length isLast < depth - 1 then None
      else Some (concat (map (\<lambda>b. if b then ''   '' else ''  |'') (take (depth - 1) isLast))
                 @ (if depth > 0 then branch_mark else [])))"

definition set_last :: "nat \<Rightarrow> bool \<Rightarrow> bool list \<Rightarrow> bool list option" where
  "set_last depth b isLast = (if depth < length isLast then Some (isLast[depth := b]) else None)"

definition children_size :: "(ast \<times> bool option) list \<Rightarrow> nat" where
  "children_size cs = sum_list (map (\<lambda>c. 10 * size (fst c) + 2) cs)"

lemma children_size_simps [simp]:
  "children_size [] = 0" "children_size (c # cs) = 10 * size (fst c) + 2 + children_size cs"
  "children_size (cs @ ds) = children_size cs + children_size ds"
  by (simp_all add: children_size_def)

lemma children_size_items: "children_size (list_items xs) \<le> 10 * size_list size xs"
  by (induction xs) simp_all

lemma children_smaller: "children_size (node_children node) < 10 * size node + 1"
proof -
  show ?thesis
  proof (cases node)
    case (AST_FUNC_DECL l x ps b r ext)
    then show ?thesis using children_size_items [of ps] by (simp add: node_children_def single_def)
  next
    case (AST_CALL l f args)
    then show ?thesis using children_size_items [of args] by (simp add: node_children_def single_def)
  next
    case (AST_ARRAY_ACCESS l b js)
    then show ?thesis using children_size_items [of js] by (simp add: node_children_def single_def)
  next
    case (AST_PROGRAM l ds)
    then show ?thesis using children_size_items [of ds] by (simp add: node_children_def)
  next
    case (AST_BLOCK l ds)
    then show ?thesis using children_size_items [of ds] by (simp add: node_children_def)
  next
    case (AST_ARRAY_LITERAL l ds)
    then show ?thesis using children_size_items [of ds] by (simp add: node_children_def)
  qed (simp_all add: node_children_def single_def)
qed

function writeNode :: "nat \<Rightarrow> ast \<Rightarrow> bool list \<Rightarrow> (string \<times> bool list) option"
and write_children :: "nat \<Rightarrow> (ast \<times> bool option) list \<Rightarrow> bool list \<Rightarrow> (string \<times> bool list) option"
where
  "writeNode depth node isLast =
     (if node = AST_NULL then Some ([], isLast)
      else case writeIndent depth isLast of
             None \<Rightarrow> None
           | Some t \<Rightarrow>
               (case write_children depth (node_children node) isLast of
                  None \<Rightarrow> None
                | Some (u, isLast) \<Rightarrow> Some (t @ writeLabel node @ u, isLast)))"
| "write_children depth [] isLast = Some ([], isLast)"
| "write_children depth ((c, l) # cs) isLast =
     (case (case l of None \<Rightarrow> Some isLast | Some b \<Rightarrow> set_last depth b isLast) of
        None \<Rightarrow> None
      | Some isLast \<Rightarrow>
          (case writeNode (depth + 1) c isLast of
             None \<Rightarrow> None
           | Some (t, isLast) \<Rightarrow>
               (case write_children depth cs isLast of
                  None \<Rightarrow> None
                | Some (u, isLast) \<Rightarrow> Some (t @ u, isLast))))"
  by pat_completeness auto
termination
  by (relation "measure (\<lambda>x. case x of Inl (d, n, l) \<Rightarrow> 10 * size n + 1 | Inr (d, cs, l) \<Rightarrow> children_size cs)")
     (auto simp: children_smaller [simplified])

declare writeNode.simps [simp del]

definition astToString :: "ast \<Rightarrow> string option" where
  "astToString root = map_option fst (writeNode 0 root (replicate 128 False))"

text \<open>\<^verbatim>\<open>astPrintPretty\<close>: what it writes to \<^verbatim>\<open>stdout\<close>.\<close>

definition astPrintPretty :: "ast \<Rightarrow> string option" where
  "astPrintPretty root = astToString root"

section \<open>When the tree can be written\<close>

text \<open>The nodes the writer visits, with their depth and the flag of their list item.\<close>

inductive visits :: "nat \<Rightarrow> ast \<Rightarrow> nat \<Rightarrow> ast \<Rightarrow> bool option \<Rightarrow> bool" where
  visits_child: "(c, l) \<in> set (node_children node) \<Longrightarrow> visits d node (d + 1) c l"
| visits_below: "(c, l) \<in> set (node_children node) \<Longrightarrow> visits (d + 1) c e n k \<Longrightarrow> visits d node e n k"

text \<open>A visit that goes past a flag array of \<open>n\<close> entries: an item of a list sets the flag of the
  depth above it, and the indentation of a node reads the flags of all depths but the last two.\<close>

definition past_end :: "nat \<Rightarrow> nat \<Rightarrow> ast \<Rightarrow> bool option \<Rightarrow> bool" where
  "past_end n d node l = ((l \<noteq> None \<and> n < d) \<or> (node \<noteq> AST_NULL \<and> n < d - 1))"

lemma set_last_length: "set_last d b fs = Some gs \<Longrightarrow> length gs = length fs"
  by (auto simp: set_last_def split: if_splits)

lemma writeIndent_None: "writeIndent d fs = None \<longleftrightarrow> length fs < d - 1"
  by (simp add: writeIndent_def)

lemma set_last_None: "set_last d b fs = None \<longleftrightarrow> length fs \<le> d"
  by (auto simp: set_last_def)

lemma writeNode_SomeE:
  assumes "writeNode d node fs = Some (t, gs)"
  obtains "node = AST_NULL" "t = []" "gs = fs"
  | i u where "node \<noteq> AST_NULL" "writeIndent d fs = Some i"
      "write_children d (node_children node) fs = Some (u, gs)"
proof (cases "node = AST_NULL")
  case True
  then show ?thesis using assms that(1) by (simp add: writeNode.simps)
next
  case False
  then obtain i where i: "writeIndent d fs = Some i"
    using assms by (cases "writeIndent d fs") (simp_all add: writeNode.simps [of d node])
  then obtain u hs where u: "write_children d (node_children node) fs = Some (u, hs)"
    using assms False by (cases "write_children d (node_children node) fs") (auto simp: writeNode.simps [of d node])
  then have "hs = gs" using assms False i by (simp add: writeNode.simps [of d node])
  then show ?thesis using that(2) [OF False i] u by simp
qed

lemma write_children_ConsE:
  assumes "write_children d ((c, l) # cs) fs = Some (t, ks)"
  obtains gs a hs b where "(case l of None \<Rightarrow> Some fs | Some f \<Rightarrow> set_last d f fs) = Some gs"
    "writeNode (d + 1) c gs = Some (a, hs)" "write_children d cs hs = Some (b, ks)"
proof -
  let ?g = "case l of None \<Rightarrow> Some fs | Some f \<Rightarrow> set_last d f fs"
  obtain gs where g: "?g = Some gs" using assms by (cases ?g) simp_all
  obtain a hs where a: "writeNode (d + 1) c gs = Some (a, hs)"
    using assms g by (cases "writeNode (d + 1) c gs") auto
  obtain b ms where b: "write_children d cs hs = Some (b, ms)"
    using assms g a by (cases "write_children d cs hs") auto
  have "ms = ks" using assms g a b by simp
  then show ?thesis using that g a b by simp
qed

lemma flags_length: "(case l of None \<Rightarrow> Some fs | Some f \<Rightarrow> set_last d f fs) = Some gs \<Longrightarrow> length gs = length fs"
  by (cases l) (auto dest: set_last_length)

lemma write_keeps_length:
  "writeNode d node fs = Some (t, gs) \<Longrightarrow> length gs = length fs"
  "write_children d cs fs = Some (t, gs) \<Longrightarrow> length gs = length fs"
proof (induction d node fs and d cs fs arbitrary: t gs and t gs rule: writeNode_write_children.induct)
  case (1 depth node fs)
  from "1.prems" show ?case
  proof (cases rule: writeNode_SomeE)
    case 1
    then show ?thesis by simp
  next
    case (2 i u)
    then show ?thesis by (rule "1.IH")
  qed
next
  case (2 depth fs)
  then show ?case by simp
next
  case (3 depth c l cs fs)
  obtain hs a ks b where x: "(case l of None \<Rightarrow> Some fs | Some f \<Rightarrow> set_last depth f fs) = Some hs"
    "writeNode (depth + 1) c hs = Some (a, ks)" "write_children depth cs ks = Some (b, gs)"
    using "3.prems" by (rule write_children_ConsE)
  show ?case using "3.IH"(1) [OF x(1,2)] "3.IH"(2) [OF x(1,2) refl x(3)] flags_length [OF x(1)] by simp
qed

text \<open>The visits below a list of children.\<close>

definition below :: "nat \<Rightarrow> (ast \<times> bool option) list \<Rightarrow> nat \<Rightarrow> ast \<Rightarrow> bool option \<Rightarrow> bool" where
  "below d cs e n k = (\<exists>(c, l)\<in>set cs. (e = d + 1 \<and> n = c \<and> k = l) \<or> visits (d + 1) c e n k)"

lemma visits_iff_below: "visits d node e n k \<longleftrightarrow> below d (node_children node) e n k"
  by (subst visits.simps) (auto simp: below_def)

lemma below_Nil [simp]: "\<not> below d [] e n k"
  by (simp add: below_def)

lemma below_Cons: "below d ((c, l) # cs) e n k \<longleftrightarrow>
    (e = d + 1 \<and> n = c \<and> k = l) \<or> visits (d + 1) c e n k \<or> below d cs e n k"
  by (auto simp: below_def)

lemma visits_NULL [simp]: "\<not> visits d AST_NULL e n k"
  by (simp add: visits_iff_below node_children_def)

lemma writeNode_None_iff: "writeNode d node fs = None \<longleftrightarrow> node \<noteq> AST_NULL \<and>
    (length fs < d - 1 \<or> write_children d (node_children node) fs = None)"
proof (cases "node = AST_NULL")
  case True
  then show ?thesis by (simp add: writeNode.simps)
next
  case False
  then show ?thesis unfolding writeNode.simps [of d node] writeIndent_None [symmetric]
    by (auto split: option.splits)
qed

lemma write_children_None_iff: "write_children d ((c, l) # cs) fs = None \<longleftrightarrow>
    (l \<noteq> None \<and> length fs \<le> d) \<or>
    (\<exists>gs. (case l of None \<Rightarrow> Some fs | Some f \<Rightarrow> set_last d f fs) = Some gs \<and>
      (writeNode (d + 1) c gs = None \<or> (\<exists>a hs. writeNode (d + 1) c gs = Some (a, hs) \<and> write_children d cs hs = None)))"
proof (cases "case l of None \<Rightarrow> Some fs | Some f \<Rightarrow> set_last d f fs")
  case None
  then show ?thesis by (cases l) (simp_all, simp add: set_last_None)
next
  case (Some gs)
  then have "\<not> (l \<noteq> None \<and> length fs \<le> d)" by (cases l) (auto simp: set_last_def split: if_splits)
  then show ?thesis using Some
    by (cases "writeNode (d + 1) c gs") (auto split: option.splits)
qed

lemma write_None_iff:
  "writeNode d node fs = None \<longleftrightarrow>
     (node \<noteq> AST_NULL \<and> length fs < d - 1) \<or> (\<exists>e n k. visits d node e n k \<and> past_end (length fs) e n k)"
  "write_children d cs fs = None \<longleftrightarrow> (\<exists>e n k. below d cs e n k \<and> past_end (length fs) e n k)"
proof (induction d node fs and d cs fs rule: writeNode_write_children.induct)
  case (1 d node fs)
  show ?case
  proof (cases "node = AST_NULL \<or> length fs < d - 1")
    case True
    then show ?thesis by (auto simp: writeNode_None_iff [of d node])
  next
    case False
    then have "writeIndent d fs = Some (the (writeIndent d fs))"
      using writeIndent_None [of d fs] by (cases "writeIndent d fs") simp_all
    then show ?thesis using "1.IH" [of "the (writeIndent d fs)"] False
      by (simp add: writeNode_None_iff [of d node] visits_iff_below [of d node])
  qed
next
  case (2 d fs)
  then show ?case by simp
next
  case (3 d c l cs fs)
  let ?g = "case l of None \<Rightarrow> Some fs | Some f \<Rightarrow> set_last d f fs"
  show ?case
  proof (cases ?g)
    case None
    then have "l \<noteq> None \<and> length fs \<le> d" by (cases l) (simp_all add: set_last_None)
    then have "past_end (length fs) (d + 1) c l" by (simp add: past_end_def)
    then have "\<exists>e n k. below d ((c, l) # cs) e n k \<and> past_end (length fs) e n k" by (auto simp: below_Cons)
    then show ?thesis using None by simp
  next
    case (Some gs)
    then have l: "past_end (length fs) (d + 1) c l \<longleftrightarrow> c \<noteq> AST_NULL \<and> length fs < d"
      by (cases l) (auto simp: past_end_def set_last_def split: if_splits)
    have n: "length gs = length fs" using Some by (rule flags_length)
    have c: "writeNode (d + 1) c gs = None \<longleftrightarrow>
        past_end (length fs) (d + 1) c l \<or> (\<exists>e m k. visits (d + 1) c e m k \<and> past_end (length fs) e m k)"
      using "3.IH"(1) [OF Some] n l by simp
    show ?thesis
    proof (cases "writeNode (d + 1) c gs")
      case None
      then have "\<exists>e n k. below d ((c, l) # cs) e n k \<and> past_end (length fs) e n k"
        using c by (auto simp: below_Cons)
      then show ?thesis using None Some by simp
    next
      case s: (Some r)
      obtain a hs where r: "r = (a, hs)" by (cases r)
      have h: "length hs = length fs" using write_keeps_length(1) [OF s [unfolded r]] n by simp
      have "write_children d ((c, l) # cs) fs = None \<longleftrightarrow> write_children d cs hs = None"
        using Some s r by (simp split: option.splits)
      also have "\<dots> \<longleftrightarrow> (\<exists>e n k. below d cs e n k \<and> past_end (length fs) e n k)"
        using "3.IH"(2) [OF Some s r [symmetric]] h by simp
      also have "\<dots> \<longleftrightarrow> (\<exists>e n k. below d ((c, l) # cs) e n k \<and> past_end (length fs) e n k)"
        using c s by (auto simp: below_Cons)
      finally show ?thesis .
    qed
  qed
qed

text \<open>C26: the textual tree of a syntax tree is defined exactly when no visited node lies so deep
  that its indentation reads, or its list item sets, a flag past the array of 128 entries.\<close>

theorem astToString_defined_iff:
  "astToString root = None \<longleftrightarrow> (\<exists>d node l. visits 0 root d node l \<and> past_end 128 d node l)"
  by (simp add: astToString_def write_None_iff(1))

end
