(* ===== verification/SemTypes.thy ===== *)
theory SemTypes
  imports Ast
begin

text \<open>
  The semantic types of \<^verbatim>\<open>src/semantic/types.c\<close> and the error list of
  \<^verbatim>\<open>src/semantic/errors.c\<close>.  A \<^verbatim>\<open>SemanticType *\<close> is a
  value: the code clones types wherever it shares them.  An array's
  \<^verbatim>\<open>has_array_size\<close> and \<^verbatim>\<open>array_size\<close> are an option; every
  array and pointer the code builds has an element type.
\<close>

datatype SemanticType =
    SEM_TYPE_INT
  | SEM_TYPE_FLOAT
  | SEM_TYPE_CHAR
  | SEM_TYPE_BOOL
  | SEM_TYPE_VOID
  | SEM_TYPE_ARRAY SemanticType "nat option"
  | SEM_TYPE_POINTER SemanticType
  | SEM_TYPE_ERROR

fun semanticTypeEquals :: "SemanticType \<Rightarrow> SemanticType \<Rightarrow> bool" where
  "semanticTypeEquals SEM_TYPE_INT SEM_TYPE_INT = True"
| "semanticTypeEquals SEM_TYPE_FLOAT SEM_TYPE_FLOAT = True"
| "semanticTypeEquals SEM_TYPE_CHAR SEM_TYPE_CHAR = True"
| "semanticTypeEquals SEM_TYPE_BOOL SEM_TYPE_BOOL = True"
| "semanticTypeEquals SEM_TYPE_VOID SEM_TYPE_VOID = True"
| "semanticTypeEquals SEM_TYPE_ERROR SEM_TYPE_ERROR = True"
| "semanticTypeEquals (SEM_TYPE_ARRAY t m) (SEM_TYPE_ARRAY u n) =
     (if (m = None) \<noteq> (n = None) then False
      else if m \<noteq> None \<and> the m \<noteq> the n then False
      else semanticTypeEquals t u)"
| "semanticTypeEquals (SEM_TYPE_POINTER t) (SEM_TYPE_POINTER u) = semanticTypeEquals t u"
| "semanticTypeEquals _ _ = False"

fun semanticTypeName :: "SemanticType \<Rightarrow> string" where
  "semanticTypeName SEM_TYPE_INT = ''int''"
| "semanticTypeName SEM_TYPE_FLOAT = ''float''"
| "semanticTypeName SEM_TYPE_CHAR = ''char''"
| "semanticTypeName SEM_TYPE_BOOL = ''bool''"
| "semanticTypeName SEM_TYPE_VOID = ''void''"
| "semanticTypeName (SEM_TYPE_ARRAY t n) = ''array''"
| "semanticTypeName (SEM_TYPE_POINTER t) = ''pointer''"
| "semanticTypeName SEM_TYPE_ERROR = ''error''"

fun semanticTypeIsArray :: "SemanticType \<Rightarrow> bool" where
  "semanticTypeIsArray (SEM_TYPE_ARRAY t n) = True"
| "semanticTypeIsArray _ = False"

fun semanticTypeIsPointer :: "SemanticType \<Rightarrow> bool" where
  "semanticTypeIsPointer (SEM_TYPE_POINTER t) = True"
| "semanticTypeIsPointer _ = False"

fun semanticTypeCanDecayToPointer :: "SemanticType \<Rightarrow> SemanticType \<Rightarrow> bool" where
  "semanticTypeCanDecayToPointer (SEM_TYPE_ARRAY t n) (SEM_TYPE_POINTER u) = semanticTypeEquals t u"
| "semanticTypeCanDecayToPointer _ _ = False"

fun semanticTypeIsCompatibleWithDecay :: "SemanticType \<Rightarrow> SemanticType \<Rightarrow> bool" where
  "semanticTypeIsCompatibleWithDecay expected actual =
     (if semanticTypeEquals expected actual then True
      else if expected = SEM_TYPE_CHAR \<and> actual = SEM_TYPE_INT then True
      else if semanticTypeCanDecayToPointer actual expected then True
      else (case (expected, actual) of
              (SEM_TYPE_ARRAY t m, SEM_TYPE_ARRAY u n) \<Rightarrow>
                if m \<noteq> None \<and> n \<noteq> None \<and> the m \<noteq> the n then False
                else semanticTypeIsCompatibleWithDecay t u
            | _ \<Rightarrow> False))"

declare semanticTypeIsCompatibleWithDecay.simps [simp del]

text \<open>The size of an array type is that of an integer literal, converted to
  \<^verbatim>\<open>size_t\<close>.  An outer dimension that follows a size-less
  \<^verbatim>\<open>Array<T>\<close> replaces it.\<close>

definition array_size_of :: "ast \<Rightarrow> nat option" where
  "array_size_of e = (case e of AST_INT_LITERAL l v \<Rightarrow> Some (nat (v mod 2 ^ 64)) | _ \<Rightarrow> None)"

definition skip_sizeless :: "ast \<Rightarrow> ast \<Rightarrow> ast" where
  "skip_sizeless e t =
     (case t of AST_TYPE_ARRAY l u f \<Rightarrow> if e \<noteq> AST_NULL \<and> f = AST_NULL then u else t | _ \<Rightarrow> t)"

lemma size_skip_sizeless: "size (skip_sizeless e t) \<le> size t"
  by (cases t) (simp_all add: skip_sizeless_def)

function semanticTypeFromAst :: "ast \<Rightarrow> SemanticType" where
  "semanticTypeFromAst t =
     (case t of
        AST_TYPE_POINTER l u \<Rightarrow> SEM_TYPE_POINTER (semanticTypeFromAst u)
      | AST_TYPE_ARRAY l u e \<Rightarrow> SEM_TYPE_ARRAY (semanticTypeFromAst (skip_sizeless e u)) (array_size_of e)
      | AST_TYPE_NAME l k name \<Rightarrow>
          (case k of
             AST_TYPE_INT_KIND \<Rightarrow> SEM_TYPE_INT
           | AST_TYPE_FLOAT_KIND \<Rightarrow> SEM_TYPE_FLOAT
           | AST_TYPE_CHAR_KIND \<Rightarrow> SEM_TYPE_CHAR
           | AST_TYPE_BOOL_KIND \<Rightarrow> SEM_TYPE_BOOL
           | AST_TYPE_VOID_KIND \<Rightarrow> SEM_TYPE_VOID
           | AST_TYPE_ARRAY_KIND \<Rightarrow> SEM_TYPE_ARRAY SEM_TYPE_ERROR None
           | AST_TYPE_CUSTOM_KIND \<Rightarrow> SEM_TYPE_ERROR)
      | _ \<Rightarrow> SEM_TYPE_ERROR)"
  by pat_completeness auto
termination
  by (relation "measure size") (auto simp: le_imp_less_Suc trans_le_add1 size_skip_sizeless)

declare semanticTypeFromAst.simps [simp del]

section \<open>Errors\<close>

datatype SemanticErrorKind =
    SEMANTIC_ERROR_TYPE
  | SEMANTIC_ERROR_NAME
  | SEMANTIC_ERROR_DECLARATION
  | SEMANTIC_ERROR_DEVELOPER

fun semanticErrorKindName :: "SemanticErrorKind \<Rightarrow> string" where
  "semanticErrorKindName SEMANTIC_ERROR_TYPE = ''TypeError''"
| "semanticErrorKindName SEMANTIC_ERROR_NAME = ''NameError''"
| "semanticErrorKindName SEMANTIC_ERROR_DECLARATION = ''DeclarationError''"
| "semanticErrorKindName SEMANTIC_ERROR_DEVELOPER = ''DeveloperError''"

record SemanticError =
  kind :: SemanticErrorKind
  seline :: nat
  secolumn :: nat
  semessage :: string

type_synonym SemanticErrorList = "SemanticError growable"

definition semanticErrorListAppend ::
  "SemanticErrorList \<Rightarrow> SemanticErrorKind \<Rightarrow> loc \<Rightarrow> string \<Rightarrow> SemanticErrorList" where
  "semanticErrorListAppend es k l message =
     growable_append es \<lparr>kind = k, seline = fst l, secolumn = snd l, semessage = message\<rparr>"

section \<open>Equality and compatibility\<close>

lemma semanticTypeEquals_iff [simp]: "semanticTypeEquals t u \<longleftrightarrow> t = u"
proof (induction t u rule: semanticTypeEquals.induct)
  case (7 t m u n)
  then show ?case by (cases m; cases n) auto
qed auto

text \<open>What may be assigned to a variable of a type, declaratively: the same type, an
  integer to a character, an array to a pointer to its elements, an array to an array with
  assignable elements where the sizes agree or one is open.  The rule \<open>arrays\<close> follows
  \<^verbatim>\<open>types.c\<close>: with \<open>narrow\<close> and \<open>decay\<close> it lets the elements of an array differ from the declared
  ones, where \<^verbatim>\<open>semantic/README.md\<close> has \<^verbatim>\<open>array element types must match\<close>; and the
  README names no conversion of integers to characters at all.\<close>

inductive assignable :: "SemanticType \<Rightarrow> SemanticType \<Rightarrow> bool" where
  same: "assignable t t"
| narrow: "assignable SEM_TYPE_CHAR SEM_TYPE_INT"
| decay: "assignable (SEM_TYPE_POINTER t) (SEM_TYPE_ARRAY t n)"
| arrays: "assignable t u \<Longrightarrow> m = None \<or> n = None \<or> m = n \<Longrightarrow>
           assignable (SEM_TYPE_ARRAY t m) (SEM_TYPE_ARRAY u n)"

inductive_cases assignable_arrayE: "assignable (SEM_TYPE_ARRAY t m) (SEM_TYPE_ARRAY u n)"
inductive_simps assignable_simps:
  "assignable SEM_TYPE_INT u" "assignable SEM_TYPE_FLOAT u" "assignable SEM_TYPE_CHAR u"
  "assignable SEM_TYPE_BOOL u" "assignable SEM_TYPE_VOID u" "assignable SEM_TYPE_ERROR u"
  "assignable (SEM_TYPE_POINTER t) u"

lemma decays_iff: "semanticTypeCanDecayToPointer a p \<longleftrightarrow> (\<exists>t n. a = SEM_TYPE_ARRAY t n \<and> p = SEM_TYPE_POINTER t)"
  by (induction a p rule: semanticTypeCanDecayToPointer.induct) auto

lemma compatible_iff_assignable: "semanticTypeIsCompatibleWithDecay e a \<longleftrightarrow> assignable e a"
proof (induction e a rule: semanticTypeIsCompatibleWithDecay.induct)
  case (1 e a)
  show ?case
  proof (cases "e = a \<or> (e = SEM_TYPE_CHAR \<and> a = SEM_TYPE_INT) \<or> semanticTypeCanDecayToPointer a e")
    case True
    then show ?thesis
      by (auto simp: semanticTypeIsCompatibleWithDecay.simps [of e a] decays_iff intro: assignable.intros)
  next
    case False
    show ?thesis
    proof (cases "\<exists>t m u n. e = SEM_TYPE_ARRAY t m \<and> a = SEM_TYPE_ARRAY u n")
      case True
      then obtain t m u n where e: "e = SEM_TYPE_ARRAY t m" and a: "a = SEM_TYPE_ARRAY u n" by blast
      have IH: "\<not> (m \<noteq> None \<and> n \<noteq> None \<and> the m \<noteq> the n) \<Longrightarrow> semanticTypeIsCompatibleWithDecay t u = assignable t u"
        using 1 False e a by auto
      have "semanticTypeIsCompatibleWithDecay e a \<longleftrightarrow>
          (if m \<noteq> None \<and> n \<noteq> None \<and> the m \<noteq> the n then False
           else semanticTypeIsCompatibleWithDecay t u)"
        unfolding semanticTypeIsCompatibleWithDecay.simps [of e a] using False by (auto simp: e a)
      also have "\<dots> \<longleftrightarrow> (m = None \<or> n = None \<or> m = n) \<and> assignable t u"
        using IH by (cases m; cases n) auto
      also have "\<dots> \<longleftrightarrow> assignable e a"
        using False by (auto simp: e a intro: assignable.arrays elim: assignable_arrayE)
      finally show ?thesis .
    next
      case nonarr: False
      have "\<not> semanticTypeIsCompatibleWithDecay e a"
        using False nonarr
        by (auto simp: semanticTypeIsCompatibleWithDecay.simps [of e a] split: SemanticType.splits)
      moreover have "\<not> assignable e a"
        using False nonarr by (auto simp: decays_iff elim: assignable.cases)
      ultimately show ?thesis by simp
    qed
  qed
qed

end
