(* ===== verification/Scope.thy ===== *)
theory Scope
  imports SemTypes
begin

text \<open>
  The symbol tables of \<^verbatim>\<open>src/semantic/scope.c\<close>: 64 buckets of chained symbols,
  and the interface both symbol tables of the compiler share, with what nested scopes mean over
  it.  A \<^verbatim>\<open>Scope *\<close> is the list of tables from the innermost scope outwards; the
  empty list is the null pointer.
\<close>

section \<open>The interface\<close>

text \<open>A table of symbols, and the map from names it stands for.\<close>

locale symbol_table =
  fixes empty :: 't
    and lookup :: "'t \<Rightarrow> string \<Rightarrow> 's option"
    and declare_symbol :: "'t \<Rightarrow> 's \<Rightarrow> bool \<times> 't"
    and name_of :: "'s \<Rightarrow> string"
    and inv :: "'t \<Rightarrow> bool"
  assumes inv_empty: "inv empty"
    and lookup_empty: "lookup empty n = None"
    and declare_ok: "inv t \<Longrightarrow> fst (declare_symbol t s) \<longleftrightarrow> lookup t (name_of s) = None"
    and declare_fails: "inv t \<Longrightarrow> \<not> fst (declare_symbol t s) \<Longrightarrow> snd (declare_symbol t s) = t"
    and declare_inv: "inv t \<Longrightarrow> inv (snd (declare_symbol t s))"
    and declare_lookup: "inv t \<Longrightarrow> fst (declare_symbol t s) \<Longrightarrow>
          lookup (snd (declare_symbol t s)) n = (if n = name_of s then Some s else lookup t n)"
    and lookup_name: "inv t \<Longrightarrow> lookup t n = Some s \<Longrightarrow> name_of s = n"
begin

text \<open>The table as a map: declaring is extending it at a fresh name.\<close>

lemma declare_refines:
  "inv t \<Longrightarrow> lookup (snd (declare_symbol t s)) =
     (if lookup t (name_of s) = None then (lookup t)(name_of s \<mapsto> s) else lookup t)"
  using declare_ok [of t s] declare_fails [of t s] declare_lookup [of t s] by auto

text \<open>Lookup through nested scopes, from the inside out.\<close>

fun chain_lookup :: "'t list \<Rightarrow> string \<Rightarrow> 's option" where
  "chain_lookup [] n = None"
| "chain_lookup (t # ts) n = (case lookup t n of Some s \<Rightarrow> Some s | None \<Rightarrow> chain_lookup ts n)"

lemma chain_lookup_fold: "chain_lookup ts = foldr (\<lambda>t m. m ++ lookup t) ts Map.empty"
  by (induction ts) (auto simp: fun_eq_iff map_add_def split: option.splits)

lemma chain_lookup_new_scope: "chain_lookup (empty # ts) = chain_lookup ts"
  by (simp add: fun_eq_iff lookup_empty)

text \<open>A new declaration shadows the outer ones and touches no other name.\<close>

lemma chain_declare:
  assumes "inv t" "lookup t (name_of s) = None"
  shows "chain_lookup (snd (declare_symbol t s) # ts) = (chain_lookup (t # ts))(name_of s \<mapsto> s)"
  using assms declare_refines [of t s] by (auto simp: fun_eq_iff)

lemma chain_declare_again:
  assumes "inv t" "lookup t (name_of s) \<noteq> None"
  shows "snd (declare_symbol t s) # ts = t # ts"
  using assms declare_ok [of t s] declare_fails [of t s] by simp

lemma chain_lookup_name:
  "(\<forall>t \<in> set ts. inv t) \<Longrightarrow> chain_lookup ts n = Some s \<Longrightarrow> name_of s = n"
  by (induction ts) (auto simp: lookup_name split: option.splits)

end

section \<open>Symbols and scopes\<close>

datatype SymbolKind = SYMBOL_VARIABLE | SYMBOL_FUNCTION

record Symbol =
  sname :: string
  skind :: SymbolKind
  stype :: SemanticType
  sparams :: "SemanticType list"

definition symbolCreateVariable :: "string \<Rightarrow> SemanticType \<Rightarrow> Symbol" where
  "symbolCreateVariable name t = \<lparr>sname = name, skind = SYMBOL_VARIABLE, stype = t, sparams = []\<rparr>"

definition symbolCreateFunction :: "string \<Rightarrow> SemanticType \<Rightarrow> SemanticType list \<Rightarrow> Symbol" where
  "symbolCreateFunction name t params =
     \<lparr>sname = name, skind = SYMBOL_FUNCTION, stype = t, sparams = params\<rparr>"

text \<open>One scope: its buckets.\<close>

type_synonym 's buckets = "'s list list"

definition bucket_count :: nat where
  "bucket_count = 64"

definition hashName :: "string \<Rightarrow> nat \<Rightarrow> nat" where
  "hashName name n = unat (djb2 name mod of_nat n)"

definition new_buckets :: "'s buckets" where
  "new_buckets = replicate bucket_count []"

text \<open>\<^verbatim>\<open>scopeCreate(parent)\<close>.\<close>

definition scopeCreate :: "'s buckets list \<Rightarrow> 's buckets list" where
  "scopeCreate parent = new_buckets # parent"

definition bucketLookup :: "('s \<Rightarrow> string) \<Rightarrow> 's buckets \<Rightarrow> string \<Rightarrow> 's option" where
  "bucketLookup nm b name = find (\<lambda>s. nm s = name) (b ! hashName name (length b))"

definition bucketDeclare :: "('s \<Rightarrow> string) \<Rightarrow> 's buckets \<Rightarrow> 's \<Rightarrow> bool \<times> 's buckets" where
  "bucketDeclare nm b s =
     (if bucketLookup nm b (nm s) \<noteq> None then (False, b)
      else let i = hashName (nm s) (length b) in (True, b[i := s # b ! i]))"

definition buckets_ok :: "('s \<Rightarrow> string) \<Rightarrow> 's buckets \<Rightarrow> bool" where
  "buckets_ok nm b \<longleftrightarrow> length b = bucket_count
     \<and> (\<forall>i < bucket_count. distinct (map nm (b ! i)) \<and> (\<forall>s \<in> set (b ! i). hashName (nm s) bucket_count = i))"

lemma hashName_less: "hashName name bucket_count < bucket_count"
proof -
  have "djb2 name mod (64 :: size_t) < 64" by (rule word_mod_less_divisor) simp
  then show ?thesis by (simp add: hashName_def bucket_count_def word_less_nat_alt)
qed

lemma bucketLookup_new [simp]: "bucketLookup nm new_buckets name = None"
  using hashName_less [of name] by (simp add: bucketLookup_def new_buckets_def)

lemma buckets_ok_new [simp]: "buckets_ok nm new_buckets"
  by (simp add: buckets_ok_def new_buckets_def)

lemma find_name: "find (\<lambda>s. nm s = name) xs = Some s \<Longrightarrow> nm s = name"
  by (induction xs) (auto split: if_splits)

lemma buckets_ok_declare:
  assumes "buckets_ok nm b"
  shows "buckets_ok nm (snd (bucketDeclare nm b s))"
proof (cases "bucketLookup nm b (nm s)")
  case None
  let ?i = "hashName (nm s) bucket_count"
  have fresh: "nm s \<notin> nm ` set (b ! ?i)"
    using None assms by (auto simp: bucketLookup_def buckets_ok_def find_None_iff)
  have l: "length b = bucket_count" using assms by (simp add: buckets_ok_def)
  then show ?thesis
    using assms fresh hashName_less [of "nm s"] None
    by (auto simp: buckets_ok_def bucketDeclare_def Let_def nth_list_update)
next
  case (Some x)
  then show ?thesis using assms by (simp add: bucketDeclare_def)
qed

interpretation scope_table:
  symbol_table new_buckets "bucketLookup nm" "bucketDeclare nm" nm "buckets_ok nm" for nm :: "'s \<Rightarrow> string"
proof unfold_locales
  fix b :: "'s buckets" and s :: 's and n
  assume ok: "buckets_ok nm b"
  then have l: "length b = bucket_count" by (simp add: buckets_ok_def)
  show "fst (bucketDeclare nm b s) \<longleftrightarrow> bucketLookup nm b (nm s) = None"
    by (simp add: bucketDeclare_def Let_def)
  show "\<not> fst (bucketDeclare nm b s) \<Longrightarrow> snd (bucketDeclare nm b s) = b"
    by (simp add: bucketDeclare_def Let_def split: if_splits)
  show "bucketLookup nm b n = Some s \<Longrightarrow> nm s = n"
    by (auto simp: bucketLookup_def dest: find_name)
  show "buckets_ok nm (snd (bucketDeclare nm b s))" using ok by (rule buckets_ok_declare)
  let ?i = "hashName (nm s) (length b)"
  assume "fst (bucketDeclare nm b s)"
  then have "bucketLookup nm b (nm s) = None" by (simp add: bucketDeclare_def Let_def split: if_splits)
  then have new: "snd (bucketDeclare nm b s) = b[?i := s # b ! ?i]"
    by (simp add: bucketDeclare_def Let_def)
  have "b[?i := s # b ! ?i] ! hashName n (length b) =
      (if hashName n (length b) = ?i then s # b ! ?i else b ! hashName n (length b))"
    using hashName_less [of n] l by (simp add: nth_list_update)
  then show "bucketLookup nm (snd (bucketDeclare nm b s)) n = (if n = nm s then Some s else bucketLookup nm b n)"
    unfolding new bucketLookup_def length_list_update by (cases "n = nm s") simp_all
qed simp_all

section \<open>The operations of the semantic scopes\<close>

type_synonym Scope = "Symbol buckets"

definition scopeLookupCurrent :: "Scope list \<Rightarrow> string \<Rightarrow> Symbol option" where
  "scopeLookupCurrent sc name = (case sc of [] \<Rightarrow> None | b # bs \<Rightarrow> bucketLookup sname b name)"

fun scopeLookup :: "Scope list \<Rightarrow> string \<Rightarrow> Symbol option" where
  "scopeLookup [] name = None"
| "scopeLookup (b # bs) name =
     (case scopeLookupCurrent (b # bs) name of
        Some s \<Rightarrow> Some s
      | None \<Rightarrow> scopeLookup bs name)"

definition scopeDeclare :: "Scope list \<Rightarrow> Symbol \<Rightarrow> bool \<times> Scope list" where
  "scopeDeclare sc s =
     (case sc of
        [] \<Rightarrow> (False, [])
      | b # bs \<Rightarrow> (let (ok, b) = bucketDeclare sname b s in (ok, b # bs)))"

definition scopes_ok :: "Scope list \<Rightarrow> bool" where
  "scopes_ok sc \<longleftrightarrow> (\<forall>b \<in> set sc. buckets_ok sname b)"

lemma scopeLookup_chain: "scopeLookup sc n = scope_table.chain_lookup sname sc n"
  by (induction sc) (auto simp: scopeLookupCurrent_def split: option.splits)

lemma scopeCreate_lookup [simp]: "scopeLookup (scopeCreate sc) n = scopeLookup sc n"
  by (simp add: scopeCreate_def scopeLookupCurrent_def)

lemma scopes_ok_create [simp]: "scopes_ok (scopeCreate sc) = scopes_ok sc"
  by (simp add: scopes_ok_def scopeCreate_def)

lemma scopes_ok_declare: "scopes_ok sc \<Longrightarrow> scopes_ok (snd (scopeDeclare sc s))"
  using buckets_ok_declare [of sname "hd sc" s]
  by (cases sc; cases "bucketDeclare sname (hd sc) s") (auto simp: scopes_ok_def scopeDeclare_def)

lemma scopeDeclare_fresh:
  assumes "scopes_ok (b # bs)" "scopeLookupCurrent (b # bs) (sname s) = None"
  shows "fst (scopeDeclare (b # bs) s)"
    and "scopeLookup (snd (scopeDeclare (b # bs) s)) = (scopeLookup (b # bs))(sname s \<mapsto> s)"
proof -
  have ok: "buckets_ok sname b" and fresh: "bucketLookup sname b (sname s) = None"
    using assms by (simp_all add: scopes_ok_def scopeLookupCurrent_def)
  show "fst (scopeDeclare (b # bs) s)"
    using scope_table.declare_ok [OF ok, of s] fresh
    by (cases "bucketDeclare sname b s") (simp add: scopeDeclare_def)
  show "scopeLookup (snd (scopeDeclare (b # bs) s)) = (scopeLookup (b # bs))(sname s \<mapsto> s)"
    using scope_table.chain_declare [OF ok fresh, of bs]
    by (cases "bucketDeclare sname b s") (simp add: scopeDeclare_def fun_eq_iff scopeLookup_chain)
qed

lemma scopeDeclare_duplicate:
  assumes "scopes_ok sc" "scopeLookupCurrent sc (sname s) \<noteq> None"
  shows "scopeDeclare sc s = (False, sc)"
  using assms by (cases sc) (auto simp: scopeDeclare_def scopeLookupCurrent_def bucketDeclare_def)

end
