(* ===== verification/Semantic.thy ===== *)
theory Semantic
  imports Scope
begin

text \<open>
  The analyser of \<^verbatim>\<open>src/semantic/semantic.c\<close>: the collection of declarations,
  the expression checker and the validation of statements.  The error list
  \<^verbatim>\<open>ctx->result->errors\<close> is threaded through; a function that only reads the
  scopes takes them as an argument, one that declares returns them.
\<close>

type_synonym errs = SemanticErrorList

section \<open>Messages\<close>

definition appendCategorizedError :: "ast \<Rightarrow> errs \<Rightarrow> SemanticErrorKind \<Rightarrow> string \<Rightarrow> errs" where
  "appendCategorizedError node es k msg = semanticErrorListAppend es k (ast_loc node) msg"

text \<open>\<^verbatim>\<open>snprintf\<close> into \<^verbatim>\<open>char message[256]\<close>.\<close>

definition message :: "string list \<Rightarrow> string" where
  "message parts = snprintf 256 (concat parts)"

definition quoted :: "string \<Rightarrow> string" where
  "quoted name = [CHR 0x27] @ name @ [CHR 0x27]"

definition appendDuplicateDeclarationError :: "ast \<Rightarrow> errs \<Rightarrow> string \<Rightarrow> errs" where
  "appendDuplicateDeclarationError node es name =
     appendCategorizedError node es SEMANTIC_ERROR_DECLARATION
       (message [''duplicate declaration of '', quoted name])"

definition appendInitializerTypeError ::
  "ast \<Rightarrow> errs \<Rightarrow> string \<Rightarrow> SemanticType \<Rightarrow> SemanticType \<Rightarrow> errs" where
  "appendInitializerTypeError node es name declared given =
     appendCategorizedError node es SEMANTIC_ERROR_TYPE
       (message [''cannot initialize variable '', quoted name, '' of type '', semanticTypeName declared,
                 '' with '', semanticTypeName given])"

definition appendUndeclaredVariableError :: "ast \<Rightarrow> errs \<Rightarrow> string \<Rightarrow> errs" where
  "appendUndeclaredVariableError node es name =
     appendCategorizedError node es SEMANTIC_ERROR_NAME
       (message [''use of undeclared variable '', quoted name])"

definition appendInvalidGlobalInitializerError :: "ast \<Rightarrow> errs \<Rightarrow> string \<Rightarrow> errs" where
  "appendInvalidGlobalInitializerError node es name =
     appendCategorizedError node es SEMANTIC_ERROR_TYPE
       (message [''global initializer for '', quoted name, '' must be a literal''])"

definition appendNumericOperandError :: "ast \<Rightarrow> errs \<Rightarrow> AstBinaryOp \<Rightarrow> errs" where
  "appendNumericOperandError node es op =
     (let operatorName = (case op of AST_BINARY_SUB \<Rightarrow> ''-'' | AST_BINARY_MUL \<Rightarrow> ''*''
                                   | AST_BINARY_DIV \<Rightarrow> ''/'' | _ \<Rightarrow> ''+'')
      in appendCategorizedError node es SEMANTIC_ERROR_TYPE
           (message [''operator '', quoted operatorName, '' requires numeric operands'']))"

definition appendConditionTypeError :: "ast \<Rightarrow> errs \<Rightarrow> errs" where
  "appendConditionTypeError node es =
     appendCategorizedError node es SEMANTIC_ERROR_TYPE ''condition must be bool''"

definition appendAssignmentTypeError :: "ast \<Rightarrow> errs \<Rightarrow> SemanticType \<Rightarrow> SemanticType \<Rightarrow> errs" where
  "appendAssignmentTypeError node es expected actual =
     appendCategorizedError node es SEMANTIC_ERROR_TYPE
       (message [''assignment expects '', semanticTypeName expected, '' but got '', semanticTypeName actual])"

definition appendUndeclaredFunctionError :: "ast \<Rightarrow> errs \<Rightarrow> string \<Rightarrow> errs" where
  "appendUndeclaredFunctionError node es name =
     appendCategorizedError node es SEMANTIC_ERROR_NAME
       (message [''call to undeclared function '', quoted name])"

definition appendWrongArgumentCountError :: "ast \<Rightarrow> errs \<Rightarrow> string \<Rightarrow> nat \<Rightarrow> nat \<Rightarrow> errs" where
  "appendWrongArgumentCountError node es name expected actual =
     appendCategorizedError node es SEMANTIC_ERROR_TYPE
       (message [''function '', quoted name, '' expects '', show_nat expected, '' arguments but got '',
                 show_nat actual])"

definition appendWrongArgumentTypeError ::
  "ast \<Rightarrow> errs \<Rightarrow> string \<Rightarrow> nat \<Rightarrow> SemanticType \<Rightarrow> SemanticType \<Rightarrow> errs" where
  "appendWrongArgumentTypeError node es name index expected actual =
     appendCategorizedError node es SEMANTIC_ERROR_TYPE
       (message [''argument '', show_nat index, '' of function '', quoted name, '' expects '',
                 semanticTypeName expected, '' but got '', semanticTypeName actual])"

definition appendMissingReturnError :: "ast \<Rightarrow> errs \<Rightarrow> string \<Rightarrow> SemanticType \<Rightarrow> errs" where
  "appendMissingReturnError node es name t =
     appendCategorizedError node es SEMANTIC_ERROR_TYPE
       (message [''function '', quoted name, '' with return type '', semanticTypeName t,
                 '' must return a value''])"

definition appendIncompatibleReturnTypeError ::
  "ast \<Rightarrow> errs \<Rightarrow> string \<Rightarrow> SemanticType \<Rightarrow> SemanticType \<Rightarrow> errs" where
  "appendIncompatibleReturnTypeError node es name expected actual =
     appendCategorizedError node es SEMANTIC_ERROR_TYPE
       (message [''return type of function '', quoted name, '' expects '', semanticTypeName expected,
                 '' but got '', semanticTypeName actual])"

definition appendVoidReturnValueError :: "ast \<Rightarrow> errs \<Rightarrow> string \<Rightarrow> errs" where
  "appendVoidReturnValueError node es name =
     appendCategorizedError node es SEMANTIC_ERROR_TYPE
       (message [''function '', quoted name, '' with return type void cannot return a value''])"

definition appendEmptyReturnError :: "ast \<Rightarrow> errs \<Rightarrow> string \<Rightarrow> SemanticType \<Rightarrow> errs" where
  "appendEmptyReturnError node es name t =
     appendCategorizedError node es SEMANTIC_ERROR_TYPE
       (message [''function '', quoted name, '' with return type '', semanticTypeName t,
                 '' cannot use empty return''])"

definition appendUnreachableCodeError :: "ast \<Rightarrow> errs \<Rightarrow> errs" where
  "appendUnreachableCodeError node es =
     appendCategorizedError node es SEMANTIC_ERROR_DEVELOPER ''unreachable code''"

definition typeError :: "ast \<Rightarrow> errs \<Rightarrow> string \<Rightarrow> errs" where
  "typeError node es msg = appendCategorizedError node es SEMANTIC_ERROR_TYPE msg"

section \<open>Collecting declarations\<close>

definition param_name :: "ast \<Rightarrow> string" where
  "param_name p = (case p of AST_PARAM l name t \<Rightarrow> name | _ \<Rightarrow> [])"

definition param_type :: "ast \<Rightarrow> ast" where
  "param_type p = (case p of AST_PARAM l name t \<Rightarrow> t | _ \<Rightarrow> AST_NULL)"

text \<open>Declare or report a duplicate.\<close>

definition declare_or_report :: "ast \<Rightarrow> Scope list \<Rightarrow> errs \<Rightarrow> Symbol \<Rightarrow> Scope list \<times> errs" where
  "declare_or_report node sc es s =
     (let (ok, sc) = scopeDeclare sc s
      in (sc, if ok then es else appendDuplicateDeclarationError node es (sname s)))"

definition collectVariable :: "ast \<Rightarrow> string \<Rightarrow> ast \<Rightarrow> Scope list \<Rightarrow> errs \<Rightarrow> Scope list \<times> errs" where
  "collectVariable node name t sc es =
     declare_or_report node sc es (symbolCreateVariable name (semanticTypeFromAst t))"

fun collectParams :: "ast list \<Rightarrow> Scope list \<Rightarrow> errs \<Rightarrow> Scope list \<times> errs" where
  "collectParams [] sc es = (sc, es)"
| "collectParams (p # ps) sc es =
     (let (sc, es) = collectVariable p (param_name p) (param_type p) sc es in collectParams ps sc es)"

fun collectSymbols :: "ast \<Rightarrow> Scope list \<Rightarrow> errs \<Rightarrow> Scope list \<times> errs"
and collectItems :: "ast list \<Rightarrow> Scope list \<Rightarrow> errs \<Rightarrow> Scope list \<times> errs"
where
  "collectSymbols (AST_PROGRAM l ds) sc es = collectItems ds sc es"
| "collectSymbols (AST_BLOCK l ss) sc es = (sc, snd (collectItems ss (scopeCreate sc) es))"
| "collectSymbols (AST_VAR_DECL l name t i) sc es =
     collectVariable (AST_VAR_DECL l name t i) name t sc es"
| "collectSymbols (AST_IF l c t e) sc es =
     (let (sc, es) = collectSymbols t sc es in collectSymbols e sc es)"
| "collectSymbols (AST_WHILE l c b) sc es = collectSymbols b sc es"
| "collectSymbols (AST_FOR l i c u b) sc es = collectSymbols b sc es"
| "collectSymbols (AST_FUNC_DECL l name params b r ext) sc es =
     (let s = symbolCreateFunction name (semanticTypeFromAst r)
                (map (\<lambda>p. semanticTypeFromAst (param_type p)) params);
          (sc, es) = declare_or_report (AST_FUNC_DECL l name params b r ext) sc es s;
          (fs, es) = collectParams params (scopeCreate sc) es
      in (sc, if ext then es else snd (collectSymbols b fs es)))"
| "collectSymbols _ sc es = (sc, es)"
| "collectItems [] sc es = (sc, es)"
| "collectItems (s # ss) sc es = (let (sc, es) = collectSymbols s sc es in collectItems ss sc es)"

text \<open>The scope validation starts in: the functions of the global scope.\<close>

definition function_copy :: "Symbol \<Rightarrow> Symbol" where
  "function_copy s = symbolCreateFunction (sname s) (stype s) (sparams s)"

definition createValidationRoot :: "Scope list \<Rightarrow> Scope list" where
  "createValidationRoot sc =
     (case sc of
        [] \<Rightarrow> scopeCreate []
      | b # bs \<Rightarrow>
          foldl (\<lambda>root s. if skind s = SYMBOL_FUNCTION then snd (scopeDeclare root (function_copy s)) else root)
            (scopeCreate []) (concat b))"

section \<open>Expressions\<close>

definition semanticTypeIsNumeric :: "SemanticType \<Rightarrow> bool" where
  "semanticTypeIsNumeric t \<longleftrightarrow> t = SEM_TYPE_INT \<or> t = SEM_TYPE_FLOAT"

definition semanticTypeIsBool :: "SemanticType \<Rightarrow> bool" where
  "semanticTypeIsBool t \<longleftrightarrow> t = SEM_TYPE_BOOL"

definition isOrderedComparableType :: "SemanticType \<Rightarrow> bool" where
  "isOrderedComparableType t \<longleftrightarrow> semanticTypeIsNumeric t \<or> t = SEM_TYPE_CHAR"

definition isNonVoidPointerType :: "SemanticType \<Rightarrow> bool" where
  "isNonVoidPointerType t = (case t of SEM_TYPE_POINTER u \<Rightarrow> u \<noteq> SEM_TYPE_VOID | _ \<Rightarrow> False)"

definition checkPointerArithmetic ::
  "AstBinaryOp \<Rightarrow> SemanticType \<Rightarrow> SemanticType \<Rightarrow> SemanticType option" where
  "checkPointerArithmetic op left right =
     (if (op \<noteq> AST_BINARY_ADD \<and> op \<noteq> AST_BINARY_SUB) \<or> \<not> isNonVoidPointerType left \<or> right \<noteq> SEM_TYPE_INT
      then None else Some left)"

fun isAddressableExpression :: "ast \<Rightarrow> bool" where
  "isAddressableExpression (AST_IDENTIFIER l name) = True"
| "isAddressableExpression (AST_ARRAY_ACCESS l base indices) = True"
| "isAddressableExpression _ = False"

text \<open>\<^verbatim>\<open>semanticStringLiteralDecodedLength\<close>: the flag is
  \<^verbatim>\<open>i == 0\<close>.\<close>

fun decodedLength :: "bool \<Rightarrow> string \<Rightarrow> nat" where
  "decodedLength first [] = 0"
| "decodedLength first [c] = (if c = CHR 0x22 then 0 else 1)"
| "decodedLength first (c # d # s) =
     (if first \<and> c = CHR 0x22 then decodedLength False (d # s)
      else if c = CHR 0x5C \<and> d \<noteq> CHR 0x22 then Suc (decodedLength False s)
      else Suc (decodedLength False (d # s)))"

definition semanticStringLiteralDecodedLength :: "string \<Rightarrow> nat" where
  "semanticStringLiteralDecodedLength v = decodedLength True v"

definition checkIdentifier :: "ast \<Rightarrow> string \<Rightarrow> Scope list \<Rightarrow> errs \<Rightarrow> SemanticType \<times> errs" where
  "checkIdentifier node name sc es =
     (case scopeLookup sc name of
        Some s \<Rightarrow> if skind s = SYMBOL_VARIABLE then (stype s, es)
                  else (SEM_TYPE_ERROR, appendUndeclaredVariableError node es name)
      | None \<Rightarrow> (SEM_TYPE_ERROR, appendUndeclaredVariableError node es name))"

text \<open>The result of a binary operator, given its operands' types.\<close>

definition binaryResult ::
  "ast \<Rightarrow> AstBinaryOp \<Rightarrow> SemanticType \<Rightarrow> SemanticType \<Rightarrow> errs \<Rightarrow> SemanticType \<times> errs" where
  "binaryResult node op left right es =
     (if op \<in> {AST_BINARY_ADD, AST_BINARY_SUB, AST_BINARY_MUL, AST_BINARY_DIV} then
        (if semanticTypeIsNumeric left \<and> semanticTypeIsNumeric right \<and> semanticTypeEquals left right
         then (left, es)
         else if op \<noteq> AST_BINARY_MUL \<and> op \<noteq> AST_BINARY_DIV then
           (case checkPointerArithmetic op left right of
              Some t \<Rightarrow> (t, es)
            | None \<Rightarrow> (SEM_TYPE_ERROR, appendNumericOperandError node es op))
         else (SEM_TYPE_ERROR, appendNumericOperandError node es op))
      else if op \<in> {AST_BINARY_GT, AST_BINARY_LT, AST_BINARY_GTE, AST_BINARY_LTE} then
        (if \<not> isOrderedComparableType left \<or> \<not> isOrderedComparableType right \<or> \<not> semanticTypeEquals left right
         then (SEM_TYPE_ERROR, typeError node es ''comparison requires compatible numeric operands'')
         else (SEM_TYPE_BOOL, es))
      else if op \<in> {AST_BINARY_EQ, AST_BINARY_NEQ} then
        (if \<not> semanticTypeEquals left right
         then (SEM_TYPE_ERROR, typeError node es ''comparison requires compatible operands'')
         else (SEM_TYPE_BOOL, es))
      else
        (if \<not> semanticTypeIsBool left \<or> \<not> semanticTypeIsBool right
         then (SEM_TYPE_ERROR, typeError node es ''logical operators require bool operands'')
         else (SEM_TYPE_BOOL, es)))"

definition derefResult :: "ast \<Rightarrow> SemanticType \<Rightarrow> errs \<Rightarrow> SemanticType \<times> errs" where
  "derefResult node t es =
     (case t of
        SEM_TYPE_POINTER u \<Rightarrow> (u, es)
      | _ \<Rightarrow> (SEM_TYPE_ERROR, typeError node es ''cannot dereference non-pointer value''))"

definition unaryResult :: "ast \<Rightarrow> AstUnaryOp \<Rightarrow> SemanticType \<Rightarrow> errs \<Rightarrow> SemanticType \<times> errs" where
  "unaryResult node op t es =
     (case op of
        AST_UNARY_DEREF \<Rightarrow> derefResult node t es
      | AST_UNARY_NOT \<Rightarrow>
          if \<not> semanticTypeIsBool t then (SEM_TYPE_ERROR, typeError node es ''operator '!' requires bool operand'')
          else (SEM_TYPE_BOOL, es)
      | _ \<Rightarrow>
          if \<not> semanticTypeIsNumeric t then (SEM_TYPE_ERROR, typeError node es ''operator '-' requires numeric operand'')
          else (t, es))"

definition is_deref :: "ast \<Rightarrow> bool" where
  "is_deref e = (case e of AST_UNARY l op x \<Rightarrow> op = AST_UNARY_DEREF | _ \<Rightarrow> False)"

definition assignResult ::
  "ast \<Rightarrow> ast \<Rightarrow> SemanticType \<Rightarrow> SemanticType \<Rightarrow> errs \<Rightarrow> SemanticType \<times> errs" where
  "assignResult node target t v es =
     (t, if t \<noteq> SEM_TYPE_ERROR \<and> v \<noteq> SEM_TYPE_ERROR \<and> \<not> semanticTypeIsCompatibleWithDecay t v
         then if is_deref target then appendAssignmentTypeError node es t v
              else typeError node es ''assignment types are incompatible''
         else es)"

text \<open>One element of an array literal, given the element type so far.\<close>

definition elementResult ::
  "ast \<Rightarrow> SemanticType option \<Rightarrow> SemanticType \<Rightarrow> errs \<Rightarrow> SemanticType \<times> errs" where
  "elementResult node acc t es =
     (case acc of
        None \<Rightarrow> (t, es)
      | Some u \<Rightarrow>
          if t \<noteq> SEM_TYPE_ERROR \<and> \<not> semanticTypeEquals u t
          then (SEM_TYPE_ERROR, typeError node es ''array literal elements must have compatible types'')
          else (u, es))"

definition argumentResult :: "ast \<Rightarrow> Symbol \<Rightarrow> nat \<Rightarrow> SemanticType \<Rightarrow> errs \<Rightarrow> errs" where
  "argumentResult arg callee i t es =
     (if t \<noteq> SEM_TYPE_ERROR \<and> \<not> semanticTypeIsCompatibleWithDecay (sparams callee ! i) t
      then appendWrongArgumentTypeError arg es (sname callee) (i + 1) (sparams callee ! i) t
      else es)"

text \<open>One index of an array access: the element type, or \<open>None\<close> when the code returns
  at once.\<close>

definition indexResult ::
  "ast \<Rightarrow> ast \<Rightarrow> SemanticType \<Rightarrow> SemanticType \<Rightarrow> errs \<Rightarrow> SemanticType option \<times> errs" where
  "indexResult node index base t es =
     (let es = (if t \<noteq> SEM_TYPE_ERROR \<and> t \<noteq> SEM_TYPE_INT
                then typeError index es ''array index must be int'' else es)
      in case base of
           SEM_TYPE_ARRAY u n \<Rightarrow> (Some u, es)
         | SEM_TYPE_POINTER u \<Rightarrow> (Some u, es)
         | _ \<Rightarrow> (None, typeError node es
                   (message [''cannot index non-array/non-pointer value of type '', semanticTypeName base])))"

function (sequential) checkExpression :: "Scope list \<Rightarrow> ast \<Rightarrow> errs \<Rightarrow> SemanticType \<times> errs"
and checkAssignmentTarget :: "Scope list \<Rightarrow> ast \<Rightarrow> errs \<Rightarrow> SemanticType \<times> errs"
and checkArrayAccess :: "Scope list \<Rightarrow> loc \<Rightarrow> ast \<Rightarrow> ast list \<Rightarrow> errs \<Rightarrow> SemanticType \<times> errs"
and checkIndices :: "Scope list \<Rightarrow> ast \<Rightarrow> SemanticType \<Rightarrow> ast list \<Rightarrow> errs \<Rightarrow> SemanticType \<times> errs"
and checkElements :: "Scope list \<Rightarrow> ast \<Rightarrow> SemanticType option \<Rightarrow> ast list \<Rightarrow> errs \<Rightarrow> SemanticType \<times> errs"
and checkArguments :: "Scope list \<Rightarrow> Symbol \<Rightarrow> nat \<Rightarrow> ast list \<Rightarrow> errs \<Rightarrow> errs"
where
  "checkExpression sc (AST_IDENTIFIER l name) es = checkIdentifier (AST_IDENTIFIER l name) name sc es"
| "checkExpression sc (AST_INT_LITERAL l v) es = (SEM_TYPE_INT, es)"
| "checkExpression sc (AST_FLOAT_LITERAL l v) es = (SEM_TYPE_FLOAT, es)"
| "checkExpression sc (AST_CHAR_LITERAL l v) es = (SEM_TYPE_CHAR, es)"
| "checkExpression sc (AST_STRING_LITERAL l v) es =
     (SEM_TYPE_ARRAY SEM_TYPE_CHAR (Some (semanticStringLiteralDecodedLength v + 1)), es)"
| "checkExpression sc (AST_BOOL_LITERAL l v) es = (SEM_TYPE_BOOL, es)"
| "checkExpression sc (AST_ARRAY_LITERAL l xs) es =
     (if xs = [] then (SEM_TYPE_ARRAY SEM_TYPE_ERROR None, es)
      else let (t, es) = checkElements sc (AST_ARRAY_LITERAL l xs) None xs es
           in (SEM_TYPE_ARRAY t None, es))"
| "checkExpression sc (AST_ARRAY_ACCESS l base indices) es = checkArrayAccess sc l base indices es"
| "checkExpression sc (AST_BINARY l op a b) es =
     (let (t, es) = checkExpression sc a es;
          (u, es) = checkExpression sc b es
      in binaryResult (AST_BINARY l op a b) op t u es)"
| "checkExpression sc (AST_UNARY l op a) es =
     (if op = AST_UNARY_ADDRESS_OF then
        (if \<not> isAddressableExpression a
         then (SEM_TYPE_ERROR, typeError (AST_UNARY l op a) es ''address-of requires an addressable expression'')
         else let (t, es) = checkAssignmentTarget sc a es
              in (if t = SEM_TYPE_ERROR then t else SEM_TYPE_POINTER t, es))
      else let (t, es) = checkExpression sc a es in unaryResult (AST_UNARY l op a) op t es)"
| "checkExpression sc (AST_CALL l callee args) es =
     (case callee of
        AST_IDENTIFIER m name \<Rightarrow>
          (case scopeLookup sc name of
             Some s \<Rightarrow>
               if skind s \<noteq> SYMBOL_FUNCTION then (SEM_TYPE_ERROR, appendUndeclaredFunctionError callee es name)
               else if length args \<noteq> length (sparams s)
               then (SEM_TYPE_ERROR, appendWrongArgumentCountError callee es (sname s) (length (sparams s)) (length args))
               else (stype s, checkArguments sc s 0 args es)
           | None \<Rightarrow> (SEM_TYPE_ERROR, appendUndeclaredFunctionError callee es name))
      | _ \<Rightarrow> (SEM_TYPE_ERROR, es))"
| "checkExpression sc (AST_ASSIGN l op target v) es =
     (let (t, es) = checkAssignmentTarget sc target es;
          (u, es) = checkExpression sc v es
      in assignResult (AST_ASSIGN l op target v) target t u es)"
| "checkExpression sc _ es = (SEM_TYPE_ERROR, es)"
| "checkAssignmentTarget sc (AST_IDENTIFIER l name) es =
     (case scopeLookup sc name of
        Some s \<Rightarrow> if skind s = SYMBOL_VARIABLE then (stype s, es) else (SEM_TYPE_ERROR, es)
      | None \<Rightarrow> (SEM_TYPE_ERROR, es))"
| "checkAssignmentTarget sc (AST_ARRAY_ACCESS l base indices) es = checkArrayAccess sc l base indices es"
| "checkAssignmentTarget sc (AST_UNARY l op a) es =
     (if op \<noteq> AST_UNARY_DEREF then (SEM_TYPE_ERROR, es)
      else let (t, es) = checkExpression sc a es
           in if t = SEM_TYPE_ERROR then (t, es) else derefResult (AST_UNARY l op a) t es)"
| "checkAssignmentTarget sc _ es = (SEM_TYPE_ERROR, es)"
| "checkArrayAccess sc l base indices es =
     (let (t, es) = checkExpression sc base es
      in checkIndices sc (AST_ARRAY_ACCESS l base indices) t indices es)"
| "checkIndices sc node base [] es = (base, es)"
| "checkIndices sc node base (i # is) es =
     (let (t, es) = checkExpression sc i es
      in case indexResult node i base t es of
           (Some u, es) \<Rightarrow> checkIndices sc node u is es
         | (None, es) \<Rightarrow> (SEM_TYPE_ERROR, es))"
| "checkElements sc node acc [] es = (case acc of Some t \<Rightarrow> t | None \<Rightarrow> SEM_TYPE_ERROR, es)"
| "checkElements sc node acc (x # xs) es =
     (let (t, es) = checkExpression sc x es;
          (u, es) = elementResult node acc t es
      in checkElements sc node (Some u) xs es)"
| "checkArguments sc callee i [] es = es"
| "checkArguments sc callee i (a # as) es =
     (let (t, es) = checkExpression sc a es
      in checkArguments sc callee (i + 1) as (argumentResult a callee i t es))"
  by pat_completeness auto
termination
  by (relation "measure (\<lambda>x. case x of
        Inl (Inl (sc, e, es)) \<Rightarrow> 2 * size e
      | Inl (Inr (Inl (sc, e, es))) \<Rightarrow> 2 * size e
      | Inl (Inr (Inr (sc, l, b, is, es))) \<Rightarrow> 2 * (size b + size_list size is) + 1
      | Inr (Inl (sc, n, t, is, es)) \<Rightarrow> 2 * size_list size is
      | Inr (Inr (Inl (sc, n, t, xs, es))) \<Rightarrow> 2 * size_list size xs
      | Inr (Inr (Inr (sc, s, i, as, es))) \<Rightarrow> 2 * size_list size as)") auto

end
