(* ===== verification/Validate.thy ===== *)
theory Validate
  imports Semantic
begin

text \<open>
  Validation of statements and the analysis of a program, the second half of
  \<^verbatim>\<open>src/semantic/semantic.c\<close>.  A function returns the scopes it was given, with the
  declarations it made in the innermost one; a scope it created itself is gone.
\<close>

datatype FlowState = FLOW_CONTINUES | FLOW_RETURNS

text \<open>Flows are ordered by what they promise; the flow of two branches is the weaker one.\<close>

instantiation FlowState :: linorder
begin

definition less_eq_FlowState :: "FlowState \<Rightarrow> FlowState \<Rightarrow> bool" where
  "less_eq_FlowState f g \<longleftrightarrow> (f = FLOW_RETURNS \<longrightarrow> g = FLOW_RETURNS)"

definition less_FlowState :: "FlowState \<Rightarrow> FlowState \<Rightarrow> bool" where
  "less_FlowState f g \<longleftrightarrow> f = FLOW_CONTINUES \<and> g = FLOW_RETURNS"

instance
proof
  fix f g h :: FlowState
  show "f < g \<longleftrightarrow> f \<le> g \<and> \<not> g \<le> f"
    by (cases f; cases g) (simp_all add: less_eq_FlowState_def less_FlowState_def)
  show "f \<le> f" by (simp add: less_eq_FlowState_def)
  show "f \<le> g \<Longrightarrow> g \<le> h \<Longrightarrow> f \<le> h" by (simp add: less_eq_FlowState_def)
  show "f \<le> g \<Longrightarrow> g \<le> f \<Longrightarrow> f = g" by (cases f; cases g) (simp_all add: less_eq_FlowState_def)
  show "f \<le> g \<or> g \<le> f" by (cases f; cases g) (simp_all add: less_eq_FlowState_def)
qed

end

lemma min_returns [simp]: "min f g = FLOW_RETURNS \<longleftrightarrow> f = FLOW_RETURNS \<and> g = FLOW_RETURNS"
  by (cases f; cases g) (simp_all add: min_def less_eq_FlowState_def)

record SemanticContext =
  cerrors :: SemanticErrorList
  current_function :: "(string \<times> SemanticType) option"
  loop_depth :: int

definition on_errors :: "(errs \<Rightarrow> errs) \<Rightarrow> SemanticContext \<Rightarrow> SemanticContext" where
  "on_errors f c = c\<lparr>cerrors := f (cerrors c)\<rparr>"

definition declareVariableInScope :: "string \<Rightarrow> ast \<Rightarrow> Scope list \<Rightarrow> Scope list" where
  "declareVariableInScope name t sc =
     (if scopeLookupCurrent sc name \<noteq> None then sc
      else snd (scopeDeclare sc (symbolCreateVariable name (semanticTypeFromAst t))))"

fun isAllowedGlobalInitializer :: "ast \<Rightarrow> bool" where
  "isAllowedGlobalInitializer AST_NULL = True"
| "isAllowedGlobalInitializer (AST_INT_LITERAL l v) = True"
| "isAllowedGlobalInitializer (AST_FLOAT_LITERAL l v) = True"
| "isAllowedGlobalInitializer (AST_CHAR_LITERAL l v) = True"
| "isAllowedGlobalInitializer (AST_STRING_LITERAL l v) = True"
| "isAllowedGlobalInitializer (AST_BOOL_LITERAL l v) = True"
| "isAllowedGlobalInitializer _ = False"

text \<open>The errors of a declaration \<^verbatim>\<open>name :: t = i\<close>.\<close>

definition initializerErrors :: "loc \<Rightarrow> string \<Rightarrow> ast \<Rightarrow> ast \<Rightarrow> bool \<Rightarrow> Scope list \<Rightarrow> errs \<Rightarrow> errs" where
  "initializerErrors l name t i requireLiteral sc es =
     (let node = AST_VAR_DECL l name t i; declared = semanticTypeFromAst t
      in if i = AST_NULL then es
         else if requireLiteral \<and> \<not> isAllowedGlobalInitializer i
         then appendInvalidGlobalInitializerError node es name
         else let (u, es) = checkExpression sc i es
              in if u \<noteq> SEM_TYPE_ERROR \<and> \<not> semanticTypeIsCompatibleWithDecay declared u
                 then appendInitializerTypeError node es name declared u else es)"

definition validateVariableDeclaration ::
  "loc \<Rightarrow> string \<Rightarrow> ast \<Rightarrow> ast \<Rightarrow> bool \<Rightarrow> Scope list \<Rightarrow> SemanticContext \<Rightarrow> Scope list \<times> SemanticContext"
  where
  "validateVariableDeclaration l name t i requireLiteral sc c =
     (declareVariableInScope name t sc, on_errors (initializerErrors l name t i requireLiteral sc) c)"

definition conditionErrors :: "ast \<Rightarrow> Scope list \<Rightarrow> errs \<Rightarrow> errs" where
  "conditionErrors e sc es =
     (let (t, es) = checkExpression sc e es
      in if t \<noteq> SEM_TYPE_ERROR \<and> \<not> semanticTypeIsBool t then appendConditionTypeError e es else es)"

definition returnErrors :: "loc \<Rightarrow> ast \<Rightarrow> (string \<times> SemanticType) option \<Rightarrow> Scope list \<Rightarrow> errs \<Rightarrow> errs" where
  "returnErrors l v f sc es =
     (let node = AST_RETURN l v
      in case f of
           None \<Rightarrow> typeError node es ''return statement outside function''
         | Some (name, r) \<Rightarrow>
             if v = AST_NULL then
               (if r \<noteq> SEM_TYPE_VOID then appendEmptyReturnError node es name r else es)
             else let (t, es) = checkExpression sc v es;
                      es = (if r = SEM_TYPE_VOID then appendVoidReturnValueError node es name else es)
                  in if r \<noteq> SEM_TYPE_VOID \<and> t \<noteq> SEM_TYPE_ERROR \<and> \<not> semanticTypeEquals r t
                     then appendIncompatibleReturnTypeError node es name r t else es)"

definition jumpErrors :: "ast \<Rightarrow> string \<Rightarrow> int \<Rightarrow> errs \<Rightarrow> errs" where
  "jumpErrors node msg depth es =
     (if depth = 0 then appendCategorizedError node es SEMANTIC_ERROR_DEVELOPER msg else es)"

definition declareParams :: "ast list \<Rightarrow> Scope list \<Rightarrow> Scope list" where
  "declareParams ps sc = foldl (\<lambda>sc p. declareVariableInScope (param_name p) (param_type p) sc) sc ps"

definition is_var_decl :: "ast \<Rightarrow> bool" where
  "is_var_decl d = (case d of AST_VAR_DECL l name t i \<Rightarrow> True | _ \<Rightarrow> False)"

text \<open>A variable of file scope: its initializer has to be a literal.\<close>

definition validateGlobal :: "ast \<Rightarrow> Scope list \<Rightarrow> SemanticContext \<Rightarrow> Scope list \<times> SemanticContext" where
  "validateGlobal d sc c =
     (case d of
        AST_VAR_DECL l name t i \<Rightarrow> validateVariableDeclaration l name t i True sc c
      | _ \<Rightarrow> (sc, c))"

fun validateNode :: "ast \<Rightarrow> Scope list \<Rightarrow> SemanticContext \<Rightarrow> FlowState \<times> Scope list \<times> SemanticContext"
and validateItems ::
  "ast list \<Rightarrow> FlowState \<Rightarrow> Scope list \<Rightarrow> SemanticContext \<Rightarrow> FlowState \<times> Scope list \<times> SemanticContext"
and validateGlobals :: "ast list \<Rightarrow> Scope list \<Rightarrow> SemanticContext \<Rightarrow> Scope list \<times> SemanticContext"
where
  "validateNode (AST_PROGRAM l ds) sc c = (FLOW_CONTINUES, validateGlobals ds sc c)"
| "validateNode (AST_BLOCK l ss) sc c =
     (let (flow, bs, c) = validateItems ss FLOW_CONTINUES (scopeCreate sc) c in (flow, tl bs, c))"
| "validateNode (AST_VAR_DECL l name t i) sc c =
     (FLOW_CONTINUES, validateVariableDeclaration l name t i False sc c)"
| "validateNode (AST_EXPR_STMT l e) sc c =
     (FLOW_CONTINUES, sc, on_errors (\<lambda>es. snd (checkExpression sc e es)) c)"
| "validateNode (AST_ASSIGN l op t v) sc c =
     (FLOW_CONTINUES, sc, on_errors (\<lambda>es. snd (checkExpression sc (AST_ASSIGN l op t v) es)) c)"
| "validateNode (AST_IF l e t f) sc c =
     (let (thenFlow, sc, c) = validateNode t sc (on_errors (conditionErrors e sc) c)
      in if f = AST_NULL then (FLOW_CONTINUES, sc, c)
         else let (elseFlow, sc, c) = validateNode f sc c in (min thenFlow elseFlow, sc, c))"
| "validateNode (AST_WHILE l e b) sc c =
     (let c = on_errors (conditionErrors e sc) c;
          (flow, sc, c) = validateNode b sc (c\<lparr>loop_depth := loop_depth c + 1\<rparr>)
      in (FLOW_CONTINUES, sc, c\<lparr>loop_depth := loop_depth c - 1\<rparr>))"
| "validateNode (AST_FOR l i e u b) sc c =
     (let (flow, fs, c) =
            (if i \<noteq> AST_NULL then validateNode i (scopeCreate sc) c
             else (FLOW_CONTINUES, scopeCreate sc, c));
          c = (if e \<noteq> AST_NULL then on_errors (conditionErrors e fs) c else c);
          c = (if u \<noteq> AST_NULL then on_errors (\<lambda>es. snd (checkExpression fs u es)) c else c);
          (flow, fs, c) = validateNode b fs (c\<lparr>loop_depth := loop_depth c + 1\<rparr>)
      in (FLOW_CONTINUES, tl fs, c\<lparr>loop_depth := loop_depth c - 1\<rparr>))"
| "validateNode (AST_FUNC_DECL l name params b r ext) sc c =
     (if ext then (FLOW_CONTINUES, sc, c)
      else let t = semanticTypeFromAst r;
               (flow, fs, c') = validateNode b (declareParams params (scopeCreate sc))
                                  (c\<lparr>current_function := Some (name, t)\<rparr>);
               c' = (if t \<noteq> SEM_TYPE_VOID \<and> flow \<noteq> FLOW_RETURNS
                     then on_errors (\<lambda>es. appendMissingReturnError
                            (AST_FUNC_DECL l name params b r ext) es name t) c'
                     else c')
           in (FLOW_CONTINUES, tl fs, c'\<lparr>current_function := current_function c\<rparr>))"
| "validateNode (AST_RETURN l v) sc c =
     (FLOW_RETURNS, sc, on_errors (returnErrors l v (current_function c) sc) c)"
| "validateNode (AST_BREAK l) sc c =
     (FLOW_CONTINUES, sc,
      on_errors (jumpErrors (AST_BREAK l) ''break statement outside loop'' (loop_depth c)) c)"
| "validateNode (AST_CONTINUE l) sc c =
     (FLOW_CONTINUES, sc,
      on_errors (jumpErrors (AST_CONTINUE l) ''continue statement outside loop'' (loop_depth c)) c)"
| "validateNode _ sc c = (FLOW_CONTINUES, sc, c)"
| "validateItems [] flow sc c = (flow, sc, c)"
| "validateItems (s # ss) flow sc c =
     (if flow = FLOW_RETURNS then
        (let (f, sc, c) = validateNode s sc (on_errors (appendUnreachableCodeError s) c)
         in validateItems ss flow sc c)
      else let (f, sc, c) = validateNode s sc c in validateItems ss f sc c)"
| "validateGlobals [] sc c = (sc, c)"
| "validateGlobals (d # ds) sc c =
     (let (sc, c) = (if is_var_decl d then validateGlobal d sc c else snd (validateNode d sc c))
      in validateGlobals ds sc c)"

record SemanticResult =
  global_scope :: "Scope list"
  errors :: SemanticErrorList

definition initial_context :: "errs \<Rightarrow> SemanticContext" where
  "initial_context es = \<lparr>cerrors = es, current_function = None, loop_depth = 0\<rparr>"

definition semanticAnalyze :: "ast \<Rightarrow> SemanticResult" where
  "semanticAnalyze program =
     (let (sc, es) = collectSymbols program (scopeCreate []) growable_init;
          (flow, root, c) = validateNode program (createValidationRoot sc) (initial_context es)
      in \<lparr>global_scope = sc, errors = cerrors c\<rparr>)"

end
