(* ===== verification/TypingProps.thy ===== *)
theory TypingProps
  imports Validate "HOL-Library.Sublist"
begin

text \<open>
  The expression checker against a declarative type system.  An environment is the map the
  scopes stand for; the rules say which expressions the analyser passes without a report, and
  at which type.  The last rules of each judgement are the cases it passes silently at the error
  type.
\<close>

section \<open>Errors only accumulate\<close>

definition errors_ok :: "errs \<Rightarrow> bool" where
  "errors_ok es \<longleftrightarrow> growable_ok es \<and> (\<forall>e \<in> set (items es). length (semessage e) < 256)"

definition grows :: "errs \<Rightarrow> errs \<Rightarrow> bool" where
  "grows es es' \<longleftrightarrow> prefix (items es) (items es') \<and> (errors_ok es \<longrightarrow> errors_ok es')"

lemma grows_refl [simp]: "grows es es"
  by (simp add: grows_def)

lemma grows_trans: "grows a b \<Longrightarrow> grows b c \<Longrightarrow> grows a c"
  unfolding grows_def using prefix_order.trans by blast

lemma grows_append:
  "length msg < 256 \<Longrightarrow> grows es (appendCategorizedError node es k msg)"
  by (auto simp: grows_def errors_ok_def appendCategorizedError_def semanticErrorListAppend_def
      intro: growable_ok_append)

lemma length_message [simp]: "length (message ps) < 256"
  by (simp add: message_def snprintf_def)

lemmas append_defs = appendDuplicateDeclarationError_def appendInitializerTypeError_def
  appendUndeclaredVariableError_def appendInvalidGlobalInitializerError_def
  appendNumericOperandError_def appendConditionTypeError_def appendAssignmentTypeError_def
  appendUndeclaredFunctionError_def appendWrongArgumentCountError_def
  appendWrongArgumentTypeError_def appendMissingReturnError_def
  appendIncompatibleReturnTypeError_def appendVoidReturnValueError_def
  appendEmptyReturnError_def appendUnreachableCodeError_def typeError_def Let_def

lemma grows_reports [simp]:
  "grows es (appendDuplicateDeclarationError n es x)"
  "grows es (appendInitializerTypeError n es x t u)"
  "grows es (appendUndeclaredVariableError n es x)"
  "grows es (appendInvalidGlobalInitializerError n es x)"
  "grows es (appendNumericOperandError n es op)"
  "grows es (appendConditionTypeError n es)"
  "grows es (appendAssignmentTypeError n es t u)"
  "grows es (appendUndeclaredFunctionError n es x)"
  "grows es (appendWrongArgumentCountError n es x i j)"
  "grows es (appendWrongArgumentTypeError n es x i t u)"
  "grows es (appendMissingReturnError n es x t)"
  "grows es (appendIncompatibleReturnTypeError n es x t u)"
  "grows es (appendVoidReturnValueError n es x)"
  "grows es (appendEmptyReturnError n es x t)"
  "grows es (appendUnreachableCodeError n es)"
  "length msg < 256 \<Longrightarrow> grows es (typeError n es msg)"
  by (simp_all add: append_defs grows_append)

lemma items_append [sem_simps]:
  "items (appendCategorizedError n es k msg) =
     items es @ [\<lparr>kind = k, seline = fst (ast_loc n), secolumn = snd (ast_loc n), semessage = msg\<rparr>]"
  by (simp add: appendCategorizedError_def semanticErrorListAppend_def)

definition clean :: "errs \<Rightarrow> errs \<Rightarrow> bool" where
  "clean es es' \<longleftrightarrow> items es' = items es"

lemma clean_refl [simp]: "clean es es"
  by (simp add: clean_def)

lemma clean_reports [simp]:
  "\<not> clean es (appendDuplicateDeclarationError n es x)"
  "\<not> clean es (appendInitializerTypeError n es x t u)"
  "\<not> clean es (appendUndeclaredVariableError n es x)"
  "\<not> clean es (appendInvalidGlobalInitializerError n es x)"
  "\<not> clean es (appendNumericOperandError n es op)"
  "\<not> clean es (appendConditionTypeError n es)"
  "\<not> clean es (appendAssignmentTypeError n es t u)"
  "\<not> clean es (appendUndeclaredFunctionError n es x)"
  "\<not> clean es (appendWrongArgumentCountError n es x i j)"
  "\<not> clean es (appendWrongArgumentTypeError n es x i t u)"
  "\<not> clean es (appendMissingReturnError n es x t)"
  "\<not> clean es (appendIncompatibleReturnTypeError n es x t u)"
  "\<not> clean es (appendVoidReturnValueError n es x)"
  "\<not> clean es (appendEmptyReturnError n es x t)"
  "\<not> clean es (appendUnreachableCodeError n es)"
  "\<not> clean es (typeError n es msg)"
  "\<not> clean es (appendCategorizedError n es k msg)"
  by (simp_all add: append_defs clean_def items_append)

lemma clean_trans: "grows a b \<Longrightarrow> grows b c \<Longrightarrow> clean a c \<longleftrightarrow> clean a b \<and> clean b c"
  unfolding grows_def clean_def by (metis prefix_order.antisym)

text \<open>The helper functions report at most one error.\<close>

lemma grows_results:
  "grows es (snd (checkIdentifier n x sc es))"
  "grows es (snd (binaryResult n op t u es))"
  "grows es (snd (derefResult n t es))"
  "grows es (snd (unaryResult n uop t es))"
  "grows es (snd (assignResult n e t u es))"
  "grows es (snd (elementResult n acc t es))"
  "grows es (argumentResult n s i t es)"
  by (auto simp: checkIdentifier_def binaryResult_def derefResult_def unaryResult_def assignResult_def
      elementResult_def argumentResult_def split: option.splits SemanticType.splits AstUnaryOp.splits)

lemma grows_typeErrors:
  "length a < 256 \<Longrightarrow> length b < 256 \<Longrightarrow> grows es (typeError n (typeError m es a) b)"
  by (rule grows_trans [of _ "typeError m es a"]) simp_all

lemma grows_index: "grows es (snd (indexResult n i t u es))"
  by (auto simp: indexResult_def Let_def grows_typeErrors split: SemanticType.splits)

text \<open>Sequencing: one check after the other.\<close>

lemma grows_bind:
  "grows es (snd m) \<Longrightarrow> (\<And>a es'. m = (a, es') \<Longrightarrow> grows es' (snd (k a es'))) \<Longrightarrow>
   grows es (snd (case m of (a, es') \<Rightarrow> k a es'))"
  by (cases m) (auto intro: grows_trans)

lemma grows_bind':
  "grows es (snd m) \<Longrightarrow> (\<And>a es'. m = (a, es') \<Longrightarrow> grows es' (k a es')) \<Longrightarrow>
   grows es (case m of (a, es') \<Rightarrow> k a es')"
  by (cases m) (auto intro: grows_trans)

lemma grows_check:
  "grows es (snd (checkExpression sc e es))"
  "grows es (snd (checkAssignmentTarget sc e es))"
  "grows es (snd (checkArrayAccess sc l e is es))"
  "grows es (snd (checkIndices sc n t is es))"
  "grows es (snd (checkElements sc n acc is es))"
  "grows es (checkArguments sc s i is es)"
proof (induction sc e es and sc e es and sc l e "is" es and sc n t "is" es and sc n acc "is" es and sc s i "is" es
    rule: checkExpression_checkAssignmentTarget_checkArrayAccess_checkIndices_checkElements_checkArguments.induct)
qed (auto simp: Let_def grows_results grows_index intro!: grows_bind grows_bind'
    split: option.splits ast.splits, rule grows_trans, rule grows_results(7), blast)

section \<open>The type system\<close>

type_synonym env = "string \<Rightarrow> Symbol option"

text \<open>The type under \<open>n\<close> indices.\<close>

fun element :: "SemanticType \<Rightarrow> nat \<Rightarrow> SemanticType option" where
  "element t 0 = Some t"
| "element (SEM_TYPE_ARRAY t m) (Suc n) = element t n"
| "element (SEM_TYPE_POINTER t) (Suc n) = element t n"
| "element _ (Suc n) = None"

definition is_expression :: "ast \<Rightarrow> bool" where
  "is_expression e = (case e of
     AST_IDENTIFIER l x \<Rightarrow> True | AST_INT_LITERAL l v \<Rightarrow> True | AST_FLOAT_LITERAL l w \<Rightarrow> True
   | AST_CHAR_LITERAL l ch \<Rightarrow> True | AST_STRING_LITERAL l str \<Rightarrow> True | AST_BOOL_LITERAL l bo \<Rightarrow> True
   | AST_ARRAY_LITERAL l xs \<Rightarrow> True | AST_ARRAY_ACCESS l bs ix \<Rightarrow> True | AST_BINARY l bop x y \<Rightarrow> True
   | AST_UNARY l uop x \<Rightarrow> True | AST_CALL l f as \<Rightarrow> True | AST_ASSIGN l aop x y \<Rightarrow> True | _ \<Rightarrow> False)"

definition is_target :: "ast \<Rightarrow> bool" where
  "is_target e = (case e of
     AST_IDENTIFIER l x \<Rightarrow> True | AST_ARRAY_ACCESS l bs ix \<Rightarrow> True
   | AST_UNARY l uop x \<Rightarrow> uop = AST_UNARY_DEREF | _ \<Rightarrow> False)"

definition is_identifier :: "ast \<Rightarrow> bool" where
  "is_identifier e = (case e of AST_IDENTIFIER l x \<Rightarrow> True | _ \<Rightarrow> False)"

text \<open>The typing rules of the checker.  The rule \<open>Assign\<close> is the same for every target, as in
  \<^verbatim>\<open>semantic.c\<close>: also through a pointer an assignable value will do.  The \<open>Silent\<close> rules give
  the error type to what the checker passes without a report.\<close>

inductive has_type :: "env \<Rightarrow> ast \<Rightarrow> SemanticType \<Rightarrow> bool"
  and target_type :: "env \<Rightarrow> ast \<Rightarrow> SemanticType \<Rightarrow> bool"
  for G :: env
where
  Var: "G x = Some s \<Longrightarrow> skind s = SYMBOL_VARIABLE \<Longrightarrow> has_type G (AST_IDENTIFIER l x) (stype s)"
| Int: "has_type G (AST_INT_LITERAL l v) SEM_TYPE_INT"
| Float: "has_type G (AST_FLOAT_LITERAL l w) SEM_TYPE_FLOAT"
| Char: "has_type G (AST_CHAR_LITERAL l c) SEM_TYPE_CHAR"
| Bool: "has_type G (AST_BOOL_LITERAL l b) SEM_TYPE_BOOL"
| String: "has_type G (AST_STRING_LITERAL l v)
     (SEM_TYPE_ARRAY SEM_TYPE_CHAR (Some (semanticStringLiteralDecodedLength v + 1)))"
| NoElements: "has_type G (AST_ARRAY_LITERAL l []) (SEM_TYPE_ARRAY SEM_TYPE_ERROR None)"
| Elements: "list_all2 (has_type G) (x # xs) (t # ts) \<Longrightarrow> \<forall>u \<in> set ts. u = SEM_TYPE_ERROR \<or> u = t \<Longrightarrow>
     has_type G (AST_ARRAY_LITERAL l (x # xs)) (SEM_TYPE_ARRAY t None)"
| Index: "has_type G base t \<Longrightarrow> list_all2 (has_type G) indices us \<Longrightarrow>
     \<forall>u \<in> set us. u = SEM_TYPE_ERROR \<or> u = SEM_TYPE_INT \<Longrightarrow> element t (length indices) = Some v \<Longrightarrow>
     has_type G (AST_ARRAY_ACCESS l base indices) v"
| Arithmetic: "op \<in> {AST_BINARY_ADD, AST_BINARY_SUB, AST_BINARY_MUL, AST_BINARY_DIV} \<Longrightarrow>
     t \<in> {SEM_TYPE_INT, SEM_TYPE_FLOAT} \<Longrightarrow> has_type G a t \<Longrightarrow> has_type G b t \<Longrightarrow>
     has_type G (AST_BINARY l op a b) t"
| PointerArithmetic: "op \<in> {AST_BINARY_ADD, AST_BINARY_SUB} \<Longrightarrow> t \<noteq> SEM_TYPE_VOID \<Longrightarrow>
     has_type G a (SEM_TYPE_POINTER t) \<Longrightarrow> has_type G b SEM_TYPE_INT \<Longrightarrow>
     has_type G (AST_BINARY l op a b) (SEM_TYPE_POINTER t)"
| Order: "op \<in> {AST_BINARY_GT, AST_BINARY_LT, AST_BINARY_GTE, AST_BINARY_LTE} \<Longrightarrow>
     t \<in> {SEM_TYPE_INT, SEM_TYPE_FLOAT, SEM_TYPE_CHAR} \<Longrightarrow> has_type G a t \<Longrightarrow> has_type G b t \<Longrightarrow>
     has_type G (AST_BINARY l op a b) SEM_TYPE_BOOL"
| Equality: "op \<in> {AST_BINARY_EQ, AST_BINARY_NEQ} \<Longrightarrow> has_type G a t \<Longrightarrow> has_type G b t \<Longrightarrow>
     has_type G (AST_BINARY l op a b) SEM_TYPE_BOOL"
| Logic: "op \<in> {AST_BINARY_AND, AST_BINARY_OR} \<Longrightarrow> has_type G a SEM_TYPE_BOOL \<Longrightarrow> has_type G b SEM_TYPE_BOOL \<Longrightarrow>
     has_type G (AST_BINARY l op a b) SEM_TYPE_BOOL"
| Address: "isAddressableExpression a \<Longrightarrow> target_type G a t \<Longrightarrow> t \<noteq> SEM_TYPE_ERROR \<Longrightarrow>
     has_type G (AST_UNARY l AST_UNARY_ADDRESS_OF a) (SEM_TYPE_POINTER t)"
| Deref: "has_type G a (SEM_TYPE_POINTER t) \<Longrightarrow> has_type G (AST_UNARY l AST_UNARY_DEREF a) t"
| Not: "has_type G a SEM_TYPE_BOOL \<Longrightarrow> has_type G (AST_UNARY l AST_UNARY_NOT a) SEM_TYPE_BOOL"
| Negate: "t \<in> {SEM_TYPE_INT, SEM_TYPE_FLOAT} \<Longrightarrow> has_type G a t \<Longrightarrow>
     has_type G (AST_UNARY l AST_UNARY_NEGATE a) t"
| Call: "G f = Some s \<Longrightarrow> skind s = SYMBOL_FUNCTION \<Longrightarrow> list_all2 (has_type G) args ts \<Longrightarrow>
     list_all2 (\<lambda>p u. u = SEM_TYPE_ERROR \<or> assignable p u) (sparams s) ts \<Longrightarrow>
     has_type G (AST_CALL l (AST_IDENTIFIER m f) args) (stype s)"
| Assign: "target_type G a t \<Longrightarrow> has_type G v u \<Longrightarrow>
     t = SEM_TYPE_ERROR \<or> u = SEM_TYPE_ERROR \<or> assignable t u \<Longrightarrow> has_type G (AST_ASSIGN l aop a v) t"
| SilentAddress: "isAddressableExpression a \<Longrightarrow> target_type G a SEM_TYPE_ERROR \<Longrightarrow>
     has_type G (AST_UNARY l AST_UNARY_ADDRESS_OF a) SEM_TYPE_ERROR"
| SilentCall: "\<not> is_identifier callee \<Longrightarrow> has_type G (AST_CALL l callee args) SEM_TYPE_ERROR"
| Silent: "\<not> is_expression e \<Longrightarrow> has_type G e SEM_TYPE_ERROR"
| TargetVar: "G x = Some s \<Longrightarrow> skind s = SYMBOL_VARIABLE \<Longrightarrow> target_type G (AST_IDENTIFIER l x) (stype s)"
| TargetIndex: "has_type G (AST_ARRAY_ACCESS l base indices) t \<Longrightarrow>
     target_type G (AST_ARRAY_ACCESS l base indices) t"
| TargetDeref: "has_type G a (SEM_TYPE_POINTER t) \<Longrightarrow> target_type G (AST_UNARY l AST_UNARY_DEREF a) t"
| SilentVar: "\<nexists>s. G x = Some s \<and> skind s = SYMBOL_VARIABLE \<Longrightarrow>
     target_type G (AST_IDENTIFIER l x) SEM_TYPE_ERROR"
| SilentDeref: "has_type G a SEM_TYPE_ERROR \<Longrightarrow> target_type G (AST_UNARY l AST_UNARY_DEREF a) SEM_TYPE_ERROR"
| SilentTarget: "\<not> is_target e \<Longrightarrow> target_type G e SEM_TYPE_ERROR"
monos list.rel_mono

section \<open>Completeness: typed expressions pass\<close>

abbreviation passes :: "Scope list \<Rightarrow> ast \<Rightarrow> SemanticType \<Rightarrow> bool" where
  "passes sc e t \<equiv> (\<forall>es. checkExpression sc e es = (t, es))"

lemma checkIndices_complete:
  "list_all2 (passes sc) is us \<Longrightarrow> \<forall>u \<in> set us. u = SEM_TYPE_ERROR \<or> u = SEM_TYPE_INT \<Longrightarrow>
   element t (length is) = Some v \<Longrightarrow> checkIndices sc n t is es = (v, es)"
proof (induction "is" us arbitrary: t rule: list_all2_induct)
  case (Cons x xs y ys)
  then show ?case by (cases t) (auto simp: indexResult_def)
qed simp

lemma checkElements_complete:
  "list_all2 (passes sc) xs us \<Longrightarrow> \<forall>u \<in> set us. u = SEM_TYPE_ERROR \<or> u = t \<Longrightarrow>
   checkElements sc n (Some t) xs es = (t, es)"
  by (induction xs us rule: list_all2_induct) (auto simp: elementResult_def)

lemma checkArguments_complete:
  "list_all2 (passes sc) as us \<Longrightarrow>
   list_all2 (\<lambda>p u. u = SEM_TYPE_ERROR \<or> assignable p u) (drop i (sparams s)) us \<Longrightarrow>
   checkArguments sc s i as es = es"
proof (induction as us arbitrary: i rule: list_all2_induct)
  case (Cons x xs y ys)
  then obtain p ps where d: "drop i (sparams s) = p # ps" by (cases "drop i (sparams s)") auto
  then have "sparams s ! i = p" "drop (Suc i) (sparams s) = ps"
    by (metis hd_drop_conv_nth drop_all linorder_not_le list.distinct(1) list.sel(1))
       (metis d drop_Suc list.sel(3) tl_drop)
  with Cons d show ?case by (auto simp: argumentResult_def compatible_iff_assignable)
qed simp

lemma passes_not_expression: "\<not> is_expression e \<Longrightarrow> checkExpression sc e es = (SEM_TYPE_ERROR, es)"
  by (cases e) (auto simp: is_expression_def)

lemma passes_not_target: "\<not> is_target e \<Longrightarrow> checkAssignmentTarget sc e es = (SEM_TYPE_ERROR, es)"
  by (cases e) (auto simp: is_target_def)

lemma typed_passes:
  "has_type G e t \<Longrightarrow> G = scopeLookup sc \<Longrightarrow> passes sc e t"
  "target_type G e t \<Longrightarrow> G = scopeLookup sc \<Longrightarrow> \<forall>es. checkAssignmentTarget sc e es = (t, es)"
proof (induction rule: has_type_target_type.inducts)
  case (Elements x xs t ts l)
  then have "list_all2 (passes sc) xs ts" "passes sc x t" by (auto elim: list_all2_mono)
  then show ?case using Elements(2) by (simp add: elementResult_def checkElements_complete)
next
  case (Index base t indices us v l)
  then have "list_all2 (passes sc) indices us" by (auto elim: list_all2_mono)
  then show ?case using Index by (simp add: checkIndices_complete)
next
  case (Call f s args ts m l)
  then have args: "list_all2 (passes sc) args ts" by (auto elim: list_all2_mono)
  moreover have "length args = length (sparams s)"
    using list_all2_lengthD [OF args]
      list_all2_lengthD [OF \<open>list_all2 (\<lambda>p u. u = SEM_TYPE_ERROR \<or> assignable p u) (sparams s) ts\<close>]
    by simp
  ultimately show ?case using Call by (simp add: checkArguments_complete)
next
  case (SilentCall callee l args)
  then show ?case by (cases callee) (auto simp: is_identifier_def)
next
  case (SilentVar x l)
  then show ?case by (auto split: option.splits)
qed (auto simp: checkIdentifier_def binaryResult_def unaryResult_def derefResult_def assignResult_def
    semanticTypeIsNumeric_def semanticTypeIsBool_def isOrderedComparableType_def
    checkPointerArithmetic_def isNonVoidPointerType_def compatible_iff_assignable
    passes_not_expression passes_not_target)

section \<open>Soundness: what passes is typed\<close>

definition types_are :: "Scope list \<Rightarrow> ast list \<Rightarrow> SemanticType list \<Rightarrow> bool" where
  "types_are sc xs ts \<longleftrightarrow> list_all2 (has_type (scopeLookup sc)) xs ts"

lemma types_are_simps [simp]:
  "types_are sc [] ts \<longleftrightarrow> ts = []"
  "types_are sc (x # xs) (t # ts) \<longleftrightarrow> has_type (scopeLookup sc) x t \<and> types_are sc xs ts"
  by (simp_all add: types_are_def)

definition elements_type :: "SemanticType option \<Rightarrow> SemanticType list \<Rightarrow> SemanticType \<Rightarrow> bool" where
  "elements_type acc ts v \<longleftrightarrow>
     (case (case acc of Some t \<Rightarrow> t # ts | None \<Rightarrow> ts) of
        [] \<Rightarrow> v = SEM_TYPE_ERROR
      | t # us \<Rightarrow> v = t \<and> (\<forall>u \<in> set us. u = SEM_TYPE_ERROR \<or> u = t))"

lemma elementResult_clean:
  "clean es (snd (elementResult n acc t es)) \<Longrightarrow>
   snd (elementResult n acc t es) = es \<and>
   (case acc of None \<Rightarrow> fst (elementResult n acc t es) = t
    | Some u \<Rightarrow> fst (elementResult n acc t es) = u \<and> (t = SEM_TYPE_ERROR \<or> t = u))"
  by (auto simp: elementResult_def split: option.splits if_splits)

lemma binaryResult_clean:
  assumes "clean es (snd (binaryResult n op t u es))" "has_type G a t" "has_type G b u"
  shows "has_type G (AST_BINARY l op a b) (fst (binaryResult n op t u es))"
proof (cases op)
  qed (use assms in \<open>auto simp: binaryResult_def checkPointerArithmetic_def isNonVoidPointerType_def
      semanticTypeIsNumeric_def semanticTypeIsBool_def isOrderedComparableType_def
      intro: has_type_target_type.intros split: if_splits SemanticType.splits option.splits\<close>)

lemma unaryResult_clean:
  assumes "clean es (snd (unaryResult n op t es))" "has_type G a t" "op \<noteq> AST_UNARY_ADDRESS_OF"
  shows "has_type G (AST_UNARY l op a) (fst (unaryResult n op t es))"
  using assms
  by (cases op) (auto simp: unaryResult_def derefResult_def semanticTypeIsNumeric_def semanticTypeIsBool_def
      intro: has_type_target_type.intros split: if_splits SemanticType.splits)

lemma derefResult_clean:
  assumes "clean es (snd (derefResult n t es))" "has_type G a t"
  shows "target_type G (AST_UNARY l AST_UNARY_DEREF a) (fst (derefResult n t es))"
  using assms by (auto simp: derefResult_def intro: has_type_target_type.intros split: SemanticType.splits)

lemma assignResult_clean:
  assumes "clean es (snd (assignResult n a t u es))" "target_type G a t" "has_type G v u"
  shows "has_type G (AST_ASSIGN l op a v) (fst (assignResult n a t u es))"
  using assms by (auto simp: assignResult_def compatible_iff_assignable
      intro: has_type_target_type.Assign split: if_splits)

lemma indexResult_clean:
  "clean es (snd (indexResult n i t u es)) \<Longrightarrow>
   \<exists>v. fst (indexResult n i t u es) = Some v \<and> element t 1 = Some v \<and> (u = SEM_TYPE_ERROR \<or> u = SEM_TYPE_INT)"
  using clean_trans [OF grows_reports(16) grows_reports(16)]
  by (cases t) (auto simp: indexResult_def Let_def split: if_splits)

lemma clean_three:
  "grows a b \<Longrightarrow> grows b c \<Longrightarrow> grows c d \<Longrightarrow> clean a d \<longleftrightarrow> clean a b \<and> clean b c \<and> clean c d"
  using clean_trans [of a b d] clean_trans [of b c d] grows_trans [of b c d] by simp

lemma grows_pair:
  "checkExpression sc e es = (t, es') \<Longrightarrow> grows es es'"
  "checkAssignmentTarget sc e es = (t, es') \<Longrightarrow> grows es es'"
  using grows_check(1) [of es sc e] grows_check(2) [of es sc e] by simp_all

lemma element_Suc: "element t 1 = Some v \<Longrightarrow> element t (Suc n) = element v n"
  by (cases t) simp_all

lemma elements_type_step:
  "elements_type (Some v) us w \<Longrightarrow>
   (case acc of None \<Rightarrow> v = t | Some u \<Rightarrow> v = u \<and> (t = SEM_TYPE_ERROR \<or> t = u)) \<Longrightarrow>
   elements_type acc (t # us) w"
  by (auto simp: elements_type_def split: option.splits)

lemma check_sound:
  "clean es (snd (checkExpression sc e es)) \<Longrightarrow> has_type (scopeLookup sc) e (fst (checkExpression sc e es))"
  "clean es (snd (checkAssignmentTarget sc e es)) \<Longrightarrow>
     target_type (scopeLookup sc) e (fst (checkAssignmentTarget sc e es))"
  "clean es (snd (checkArrayAccess sc l e is es)) \<Longrightarrow>
     has_type (scopeLookup sc) (AST_ARRAY_ACCESS l e is) (fst (checkArrayAccess sc l e is es))"
  "clean es (snd (checkIndices sc n t is es)) \<Longrightarrow>
     \<exists>us. types_are sc is us \<and> (\<forall>u \<in> set us. u = SEM_TYPE_ERROR \<or> u = SEM_TYPE_INT)
        \<and> element t (length is) = Some (fst (checkIndices sc n t is es))"
  "clean es (snd (checkElements sc n acc is es)) \<Longrightarrow>
     \<exists>us. types_are sc is us \<and> elements_type acc us (fst (checkElements sc n acc is es))"
  "clean es (checkArguments sc s i is es) \<Longrightarrow> length is + i = length (sparams s) \<Longrightarrow>
     \<exists>us. types_are sc is us
        \<and> list_all2 (\<lambda>p u. u = SEM_TYPE_ERROR \<or> assignable p u) (drop i (sparams s)) us"
proof (induction sc e es and sc e es and sc l e "is" es and sc n t "is" es and sc n acc "is" es and sc s i "is" es
    rule: checkExpression_checkAssignmentTarget_checkArrayAccess_checkIndices_checkElements_checkArguments.induct)
  case (1 sc l name es)
  then show ?case
    by (auto simp: checkIdentifier_def intro: has_type_target_type.Var split: option.splits if_splits)
next
  case (7 sc l xs es)
  show ?case
  proof (cases xs)
    case Nil
    then show ?thesis by (simp add: NoElements)
  next
    case (Cons y ys)
    let ?r = "checkElements sc (AST_ARRAY_LITERAL l xs) None xs es"
    have r: "checkExpression sc (AST_ARRAY_LITERAL l xs) es = (SEM_TYPE_ARRAY (fst ?r) None, snd ?r)"
      using Cons by (simp add: case_prod_unfold Let_def)
    then have "clean es (snd ?r)" using "7.prems" by simp
    with "7.IH" Cons obtain us where us: "types_are sc xs us" "elements_type None us (fst ?r)" by auto
    with Cons obtain t ts where "us = t # ts" by (auto simp: types_are_def list_all2_Cons1)
    with us Cons show ?thesis
      unfolding r by (auto simp: elements_type_def types_are_def intro: Elements)
  qed
next
  case (9 sc l op a b es)
  obtain t es1 where 1: "checkExpression sc a es = (t, es1)" by (cases "checkExpression sc a es")
  obtain u es2 where 2: "checkExpression sc b es1 = (u, es2)" by (cases "checkExpression sc b es1")
  let ?r = "binaryResult (AST_BINARY l op a b) op t u es2"
  have r: "checkExpression sc (AST_BINARY l op a b) es = ?r" using 1 2 by simp
  have g: "grows es es1" "grows es1 es2" "grows es2 (snd ?r)"
    using grows_pair(1) [OF 1] grows_pair(1) [OF 2] grows_results(2) by auto
  then have c: "clean es es1" "clean es1 es2" "clean es2 (snd ?r)"
    using "9.prems" r clean_trans [OF g(1) grows_trans [OF g(2,3)]] clean_trans [OF g(2,3)] by simp_all
  have "has_type (scopeLookup sc) a t" using "9.IH"(1) 1 c(1) by simp
  moreover have "has_type (scopeLookup sc) b u" using "9.IH"(2) [OF 1 [symmetric] refl] 1 2 c(2) by simp
  ultimately show ?case unfolding r by (rule binaryResult_clean [OF c(3)])
next
  case (10 sc l op a es)
  show ?case
  proof (cases "op = AST_UNARY_ADDRESS_OF")
    case True
    then show ?thesis using "10.prems" "10.IH"(1)
      by (cases "checkAssignmentTarget sc a es")
        (auto intro: Address SilentAddress split: if_splits)
  next
    case False
    obtain t es1 where 1: "checkExpression sc a es = (t, es1)" by (cases "checkExpression sc a es")
    let ?r = "unaryResult (AST_UNARY l op a) op t es1"
    have r: "checkExpression sc (AST_UNARY l op a) es = ?r" using 1 False by simp
    have c: "clean es es1" "clean es1 (snd ?r)"
      using "10.prems" r clean_trans [OF grows_pair(1) [OF 1] grows_results(4)] by simp_all
    have "has_type (scopeLookup sc) a t" using "10.IH"(2) False 1 c(1) by simp
    then show ?thesis unfolding r using False by (rule unaryResult_clean [OF c(2)])
  qed
next
  case (11 sc l callee args es)
  show ?case
  proof (cases "is_identifier callee")
    case False
    then show ?thesis using SilentCall [OF False]
      by (cases callee) (auto simp: is_identifier_def)
  next
    case True
    then obtain m f where callee: "callee = AST_IDENTIFIER m f" by (cases callee) (auto simp: is_identifier_def)
    obtain s where s: "scopeLookup sc f = Some s" "skind s = SYMBOL_FUNCTION" "length args = length (sparams s)"
      and r: "checkExpression sc (AST_CALL l callee args) es = (stype s, checkArguments sc s 0 args es)"
      using "11.prems" by (auto simp: callee split: option.splits if_splits)
    have "clean es (checkArguments sc s 0 args es)" using "11.prems" r by simp
    with "11.IH" [OF callee s(1)] s(2,3) obtain us where
      "types_are sc args us" "list_all2 (\<lambda>p u. u = SEM_TYPE_ERROR \<or> assignable p u) (sparams s) us" by auto
    then show ?thesis unfolding r callee using s by (auto simp: types_are_def intro: Call)
  qed
next
  case (12 sc l op a v es)
  obtain t es1 where 1: "checkAssignmentTarget sc a es = (t, es1)" by (cases "checkAssignmentTarget sc a es")
  obtain u es2 where 2: "checkExpression sc v es1 = (u, es2)" by (cases "checkExpression sc v es1")
  let ?r = "assignResult (AST_ASSIGN l op a v) a t u es2"
  have r: "checkExpression sc (AST_ASSIGN l op a v) es = ?r" using 1 2 by simp
  have g: "grows es es1" "grows es1 es2" "grows es2 (snd ?r)"
    using grows_pair(2) [OF 1] grows_pair(1) [OF 2] grows_results(5) by auto
  then have c: "clean es es1" "clean es1 es2" "clean es2 (snd ?r)"
    using "12.prems" r clean_trans [OF g(1) grows_trans [OF g(2,3)]] clean_trans [OF g(2,3)] by simp_all
  have "target_type (scopeLookup sc) a t" using "12.IH"(1) 1 c(1) by simp
  moreover have "has_type (scopeLookup sc) v u" using "12.IH"(2) [OF 1 [symmetric] refl] 1 2 c(2) by simp
  ultimately show ?case unfolding r by (rule assignResult_clean [OF c(3)])
next
  case (14 sc l name es)
  then show ?case by (auto intro: TargetVar SilentVar split: option.splits if_splits)
next
  case (16 sc l op a es)
  show ?case
  proof (cases "op = AST_UNARY_DEREF")
    case False
    then show ?thesis by (auto intro: SilentTarget simp: is_target_def)
  next
    case True
    obtain t es1 where 1: "checkExpression sc a es = (t, es1)" by (cases "checkExpression sc a es")
    let ?r = "if t = SEM_TYPE_ERROR then (t, es1) else derefResult (AST_UNARY l op a) t es1"
    have r: "checkAssignmentTarget sc (AST_UNARY l op a) es = ?r" using 1 True by simp
    have g: "grows es1 (snd ?r)" by (simp add: grows_results)
    have c: "clean es es1" "clean es1 (snd ?r)"
      using "16.prems" r clean_trans [OF grows_pair(1) [OF 1] g] by simp_all
    have "has_type (scopeLookup sc) a t" using "16.IH" True 1 c(1) by simp
    then show ?thesis unfolding r
      using True c(2) derefResult_clean [of es1 "AST_UNARY l op a" t "scopeLookup sc" a l]
      by (cases "t = SEM_TYPE_ERROR") (auto intro: SilentDeref)
  qed
next
  case (18 sc l base indices es)
  obtain t es1 where 1: "checkExpression sc base es = (t, es1)" by (cases "checkExpression sc base es")
  let ?r = "checkIndices sc (AST_ARRAY_ACCESS l base indices) t indices es1"
  have r: "checkArrayAccess sc l base indices es = ?r" using 1 by simp
  have c: "clean es es1" "clean es1 (snd ?r)"
    using "18.prems" r clean_trans [OF grows_pair(1) [OF 1] grows_check(4)] by simp_all
  have t: "has_type (scopeLookup sc) base t" using "18.IH"(1) 1 c(1) by simp
  from "18.IH"(2) [OF 1 [symmetric] refl c(2)] obtain us where
    "types_are sc indices us" "\<forall>u \<in> set us. u = SEM_TYPE_ERROR \<or> u = SEM_TYPE_INT"
    "element t (length indices) = Some (fst ?r)" by blast
  then show ?case unfolding r using t by (auto simp: types_are_def intro: Index)
next
  case (20 sc node base i ix es)
  obtain t es1 where 1: "checkExpression sc i es = (t, es1)" by (cases "checkExpression sc i es")
  let ?m = "indexResult node i base t es1"
  let ?r = "checkIndices sc node base (i # ix) es"
  have r: "?r = (case ?m of (Some u, es) \<Rightarrow> checkIndices sc node u ix es | (None, es) \<Rightarrow> (SEM_TYPE_ERROR, es))"
    using 1 by simp
  have g: "grows (snd ?m) (snd ?r)"
    unfolding r by (auto simp: grows_check split: prod.splits option.splits)
  have c: "clean es es1" "clean es1 (snd ?m)" "clean (snd ?m) (snd ?r)"
    using "20.prems" clean_three [OF grows_pair(1) [OF 1] grows_index g] by simp_all
  from indexResult_clean [OF c(2)] obtain v where v: "fst ?m = Some v" "element base 1 = Some v"
    "t = SEM_TYPE_ERROR \<or> t = SEM_TYPE_INT" by blast
  obtain es2 where m: "?m = (Some v, es2)" using v(1) by (cases ?m) simp
  have r': "?r = checkIndices sc node v ix es2" unfolding r m by simp
  have t: "has_type (scopeLookup sc) i t" using "20.IH"(1) 1 c(1) by simp
  from "20.IH"(2) [OF 1 [symmetric] refl m [symmetric] refl] c(3) m obtain us where
    "types_are sc ix us" "\<forall>u \<in> set us. u = SEM_TYPE_ERROR \<or> u = SEM_TYPE_INT"
    "element v (length ix) = Some (fst ?r)" unfolding r' by auto
  then show ?case using t v by (intro exI [of _ "t # us"]) (simp add: element_Suc)
next
  case (22 sc node acc x xs es)
  obtain t es1 where 1: "checkExpression sc x es = (t, es1)" by (cases "checkExpression sc x es")
  let ?m = "elementResult node acc t es1"
  let ?r = "checkElements sc node (Some (fst ?m)) xs (snd ?m)"
  have r: "checkElements sc node acc (x # xs) es = ?r" using 1 by (simp add: case_prod_unfold Let_def)
  have c: "clean es es1" "clean es1 (snd ?m)" "clean (snd ?m) (snd ?r)"
    using "22.prems" clean_three [OF grows_pair(1) [OF 1] grows_results(6) grows_check(5)] r by simp_all
  have t: "has_type (scopeLookup sc) x t" using "22.IH"(1) 1 c(1) by simp
  from "22.IH"(2) [OF 1 [symmetric] refl refl prod.collapse c(3)] obtain us where
    "types_are sc xs us" "elements_type (Some (fst ?m)) us (fst ?r)" by blast
  then show ?case unfolding r using t elementResult_clean [OF c(2)]
    by (intro exI [of _ "t # us"]) (auto intro: elements_type_step)
next
  case (24 sc callee i a as es)
  obtain t es1 where 1: "checkExpression sc a es = (t, es1)" by (cases "checkExpression sc a es")
  let ?m = "argumentResult a callee i t es1"
  have r: "checkArguments sc callee i (a # as) es = checkArguments sc callee (i + 1) as ?m" using 1 by simp
  have c: "clean es es1" "clean es1 ?m" "clean ?m (checkArguments sc callee (i + 1) as ?m)"
    using "24.prems"(1) clean_three [OF grows_pair(1) [OF 1] grows_results(7) grows_check(6)] r by simp_all
  have t: "has_type (scopeLookup sc) a t" using "24.IH"(1) 1 c(1) by simp
  from "24.IH"(2) [OF 1 [symmetric] refl c(3)] "24.prems"(2) obtain us where
    us: "types_are sc as us" "list_all2 (\<lambda>p u. u = SEM_TYPE_ERROR \<or> assignable p u) (drop (i + 1) (sparams callee)) us"
    by auto
  have "drop i (sparams callee) = sparams callee ! i # drop (i + 1) (sparams callee)"
    using "24.prems"(2) by (simp add: Cons_nth_drop_Suc)
  moreover have "t = SEM_TYPE_ERROR \<or> assignable (sparams callee ! i) t"
    using c(2) by (auto simp: argumentResult_def compatible_iff_assignable split: if_splits)
  ultimately show ?case using t us by (intro exI [of _ "t # us"]) simp
qed (auto intro: has_type_target_type.intros String [simplified]
    simp: is_expression_def is_target_def elements_type_def
    split: option.splits)

text \<open>The checker reports nothing, at a type, exactly on the expressions of that type.\<close>

lemma check_iff: "checkExpression sc e es = (t, es) \<longleftrightarrow> has_type (scopeLookup sc) e t"
  using check_sound(1) [of es sc e] typed_passes(1) [of "scopeLookup sc" e t sc] by auto

lemma clean_iff_typed:
  "clean es (snd (checkExpression sc e es)) \<longleftrightarrow> has_type (scopeLookup sc) e (fst (checkExpression sc e es))"
  using check_sound(1) [of es sc e] typed_passes(1) [of "scopeLookup sc" e "fst (checkExpression sc e es)" sc]
  by (metis clean_refl snd_conv)

end
