(* ===== verification/ValidateProps.thy ===== *)
theory ValidateProps
  imports TypingProps
begin

text \<open>
  The rules of a valid program, stated over maps, and the proof that the analyser reports
  nothing exactly on the programs that follow them.
\<close>

section \<open>Scopes as maps\<close>

type_synonym menv = "env list"

definition abs_scopes :: "Scope list \<Rightarrow> menv" where
  "abs_scopes sc = map (bucketLookup sname) sc"

fun env_of :: "menv \<Rightarrow> env" where
  "env_of [] x = None"
| "env_of (m # ms) x = (case m x of Some s \<Rightarrow> Some s | None \<Rightarrow> env_of ms x)"

definition declare_var :: "string \<Rightarrow> SemanticType \<Rightarrow> menv \<Rightarrow> menv" where
  "declare_var x t E =
     (case E of
        [] \<Rightarrow> []
      | m # ms \<Rightarrow> (if m x = None then m(x \<mapsto> symbolCreateVariable x t) else m) # ms)"

definition declare_params :: "ast list \<Rightarrow> menv \<Rightarrow> menv" where
  "declare_params ps E =
     foldl (\<lambda>E p. declare_var (param_name p) (semanticTypeFromAst (param_type p)) E) E ps"

lemma env_of_abs: "scopeLookup sc = env_of (abs_scopes sc)"
proof
  fix x show "scopeLookup sc x = env_of (abs_scopes sc) x"
    by (induction sc) (auto simp: abs_scopes_def scopeLookupCurrent_def split: option.splits)
qed

lemma abs_scopes_simps [simp]:
  "abs_scopes [] = []"
  "abs_scopes (b # bs) = bucketLookup sname b # abs_scopes bs"
  by (simp_all add: abs_scopes_def)

lemma abs_create [simp]: "abs_scopes (scopeCreate sc) = Map.empty # abs_scopes sc"
  by (simp add: scopeCreate_def fun_eq_iff)

lemma abs_tl [simp]: "abs_scopes (tl sc) = tl (abs_scopes sc)"
  by (cases sc) simp_all

lemma sname_variable [simp]: "sname (symbolCreateVariable x t) = x"
  by (simp add: symbolCreateVariable_def)

lemma abs_declare:
  assumes "scopes_ok sc"
  shows "abs_scopes (declareVariableInScope x t sc) = declare_var x (semanticTypeFromAst t) (abs_scopes sc)"
    and "scopes_ok (declareVariableInScope x t sc)"
proof -
  show "scopes_ok (declareVariableInScope x t sc)"
    using assms by (simp add: declareVariableInScope_def scopes_ok_declare)
  show "abs_scopes (declareVariableInScope x t sc) = declare_var x (semanticTypeFromAst t) (abs_scopes sc)"
  proof (cases sc)
    case Nil
    then show ?thesis by (simp add: declareVariableInScope_def scopeLookupCurrent_def scopeDeclare_def declare_var_def)
  next
    case (Cons b bs)
    then have ok: "buckets_ok sname b" using assms by (simp add: scopes_ok_def)
    let ?s = "symbolCreateVariable x (semanticTypeFromAst t)"
    have "snd (scopeDeclare sc ?s) = snd (bucketDeclare sname b ?s) # bs"
      using Cons by (simp add: scopeDeclare_def split: prod.splits)
    then show ?thesis using Cons scope_table.declare_refines [OF ok, of ?s]
      by (auto simp: declareVariableInScope_def declare_var_def scopeLookupCurrent_def)
  qed
qed

lemma abs_declare_params:
  "scopes_ok sc \<Longrightarrow> abs_scopes (declareParams ps sc) = declare_params ps (abs_scopes sc) \<and> scopes_ok (declareParams ps sc)"
  by (induction ps arbitrary: sc) (simp_all add: declareParams_def declare_params_def abs_declare)

section \<open>The rules\<close>

text \<open>A statement that cannot complete normally.\<close>

fun always_returns :: "ast \<Rightarrow> bool" where
  "always_returns (AST_RETURN l v) = True"
| "always_returns (AST_BLOCK l ss) = (\<exists>s \<in> set ss. always_returns s)"
| "always_returns (AST_IF l c t e) = (always_returns t \<and> always_returns e)"
| "always_returns _ = False"

definition init_ok :: "env \<Rightarrow> SemanticType \<Rightarrow> ast \<Rightarrow> bool" where
  "init_ok G t i \<longleftrightarrow> i = AST_NULL \<or> (\<exists>u. has_type G i u \<and> (u = SEM_TYPE_ERROR \<or> assignable t u))"

definition cond_ok :: "env \<Rightarrow> ast \<Rightarrow> bool" where
  "cond_ok G e \<longleftrightarrow> (\<exists>t. has_type G e t \<and> (t = SEM_TYPE_ERROR \<or> t = SEM_TYPE_BOOL))"

definition return_ok :: "(string \<times> SemanticType) option \<Rightarrow> env \<Rightarrow> ast \<Rightarrow> bool" where
  "return_ok f G v \<longleftrightarrow> (\<exists>n r. f = Some (n, r)
     \<and> (if v = AST_NULL then r = SEM_TYPE_VOID
        else r \<noteq> SEM_TYPE_VOID \<and> (\<exists>t. has_type G v t \<and> (t = SEM_TYPE_ERROR \<or> t = r))))"

definition is_statement :: "ast \<Rightarrow> bool" where
  "is_statement s = (case s of
     AST_PROGRAM l ds \<Rightarrow> True | AST_BLOCK l ss \<Rightarrow> True | AST_VAR_DECL l x t i \<Rightarrow> True
   | AST_FUNC_DECL l x ps b r e \<Rightarrow> True | AST_IF l c t e \<Rightarrow> True | AST_WHILE l c b \<Rightarrow> True
   | AST_FOR l i c u b \<Rightarrow> True | AST_RETURN l v \<Rightarrow> True | AST_BREAK l \<Rightarrow> True | AST_CONTINUE l \<Rightarrow> True
   | AST_EXPR_STMT l e \<Rightarrow> True | AST_ASSIGN l op t v \<Rightarrow> True | _ \<Rightarrow> False)"

inductive stmt_ok ::
    "(string \<times> SemanticType) option \<Rightarrow> bool \<Rightarrow> menv \<Rightarrow> ast \<Rightarrow> menv \<Rightarrow> bool"
  and items_ok ::
    "(string \<times> SemanticType) option \<Rightarrow> bool \<Rightarrow> menv \<Rightarrow> ast list \<Rightarrow> menv \<Rightarrow> bool"
  and globals_ok ::
    "(string \<times> SemanticType) option \<Rightarrow> bool \<Rightarrow> menv \<Rightarrow> ast list \<Rightarrow> menv \<Rightarrow> bool"
where
  Block: "items_ok f lp (Map.empty # E) ss E' \<Longrightarrow> \<forall>s \<in> set (butlast ss). \<not> always_returns s \<Longrightarrow>
     stmt_ok f lp E (AST_BLOCK l ss) E"
| Decl: "init_ok (env_of E) (semanticTypeFromAst t) i \<Longrightarrow>
     stmt_ok f lp E (AST_VAR_DECL l x t i) (declare_var x (semanticTypeFromAst t) E)"
| Expr: "has_type (env_of E) e t \<Longrightarrow> stmt_ok f lp E (AST_EXPR_STMT l e) E"
| Assignment: "has_type (env_of E) (AST_ASSIGN l op a v) t \<Longrightarrow> stmt_ok f lp E (AST_ASSIGN l op a v) E"
| If: "cond_ok (env_of E) c \<Longrightarrow> stmt_ok f lp E t E1 \<Longrightarrow> stmt_ok f lp E1 e E2 \<Longrightarrow>
     stmt_ok f lp E (AST_IF l c t e) E2"
| While: "cond_ok (env_of E) c \<Longrightarrow> stmt_ok f True E b E' \<Longrightarrow> stmt_ok f lp E (AST_WHILE l c b) E'"
| For: "stmt_ok f lp (Map.empty # E) i E1 \<Longrightarrow> cond_ok (env_of E1) c \<Longrightarrow> has_type (env_of E1) u t \<Longrightarrow>
     stmt_ok f True E1 b E2 \<Longrightarrow> stmt_ok f lp E (AST_FOR l i c u b) E"
| Extern: "stmt_ok f lp E (AST_FUNC_DECL l x ps b r True) E"
| Function: "stmt_ok (Some (x, semanticTypeFromAst r)) lp (declare_params ps (Map.empty # E)) b E' \<Longrightarrow>
     semanticTypeFromAst r = SEM_TYPE_VOID \<or> always_returns b \<Longrightarrow>
     stmt_ok f lp E (AST_FUNC_DECL l x ps b r False) E"
| Return: "return_ok f (env_of E) v \<Longrightarrow> stmt_ok f lp E (AST_RETURN l v) E"
| Break: "stmt_ok f True E (AST_BREAK l) E"
| Continue: "stmt_ok f True E (AST_CONTINUE l) E"
| Program: "globals_ok f lp E ds E' \<Longrightarrow> stmt_ok f lp E (AST_PROGRAM l ds) E'"
| Other: "\<not> is_statement s \<Longrightarrow> stmt_ok f lp E s E"
| NoItems: "items_ok f lp E [] E"
| Items: "stmt_ok f lp E s E1 \<Longrightarrow> items_ok f lp E1 ss E2 \<Longrightarrow> items_ok f lp E (s # ss) E2"
| NoGlobals: "globals_ok f lp E [] E"
| GlobalVar: "isAllowedGlobalInitializer i \<Longrightarrow> init_ok (env_of E) (semanticTypeFromAst t) i \<Longrightarrow>
     globals_ok f lp (declare_var x (semanticTypeFromAst t) E) ds E' \<Longrightarrow>
     globals_ok f lp E (AST_VAR_DECL l x t i # ds) E'"
| Global: "\<not> is_var_decl d \<Longrightarrow> stmt_ok f lp E d E1 \<Longrightarrow> globals_ok f lp E1 ds E2 \<Longrightarrow>
     globals_ok f lp E (d # ds) E2"

section \<open>The checks of one statement\<close>

lemma grows_initializer: "grows es (initializerErrors l x t i b sc es)"
proof -
  obtain u es1 where m: "checkExpression sc i es = (u, es1)" by (cases "checkExpression sc i es")
  note g = grows_pair(1) [OF m]
  show ?thesis using g grows_trans [OF g grows_reports(2)]
    by (simp add: initializerErrors_def Let_def m)
qed

lemma grows_condition: "grows es (conditionErrors e sc es)"
proof -
  obtain u es1 where m: "checkExpression sc e es = (u, es1)" by (cases "checkExpression sc e es")
  note g = grows_pair(1) [OF m]
  show ?thesis using g grows_trans [OF g grows_reports(6)] by (simp add: conditionErrors_def m)
qed

lemma clean_report_after: "grows es es1 \<Longrightarrow> grows es1 es2 \<Longrightarrow> \<not> clean es1 es2 \<Longrightarrow> \<not> clean es es2"
  using clean_trans [of es es1 es2] by simp

lemma clean_condition: "clean es (conditionErrors e sc es) \<longleftrightarrow> cond_ok (scopeLookup sc) e"
proof -
  obtain t es1 where m: "checkExpression sc e es = (t, es1)" by (cases "checkExpression sc e es")
  note g = grows_pair(1) [OF m]
  have typed: "clean es es1 \<longleftrightarrow> has_type (scopeLookup sc) e t"
    using clean_iff_typed [of es sc e] m by simp
  have det: "has_type (scopeLookup sc) e u \<Longrightarrow> u = t" for u
    using check_iff [of sc e es u] m by simp
  show ?thesis
    using clean_report_after [OF g grows_reports(6)] typed det
    by (auto simp: conditionErrors_def m cond_ok_def semanticTypeIsBool_def)
qed

lemma clean_initializer:
  "clean es (initializerErrors l x t i b sc es) \<longleftrightarrow>
     (b \<longrightarrow> isAllowedGlobalInitializer i) \<and> init_ok (scopeLookup sc) (semanticTypeFromAst t) i"
proof (cases "i = AST_NULL \<or> (b \<and> \<not> isAllowedGlobalInitializer i)")
  case True
  then show ?thesis by (auto simp: initializerErrors_def init_ok_def Let_def)
next
  case False
  obtain u es1 where m: "checkExpression sc i es = (u, es1)" by (cases "checkExpression sc i es")
  note g = grows_pair(1) [OF m]
  have typed: "clean es es1 \<longleftrightarrow> has_type (scopeLookup sc) i u"
    using clean_iff_typed [of es sc i] m by simp
  have det: "has_type (scopeLookup sc) i w \<Longrightarrow> w = u" for w
    using check_iff [of sc i es w] m by simp
  have e: "initializerErrors l x t i b sc es =
      (if u \<noteq> SEM_TYPE_ERROR \<and> \<not> assignable (semanticTypeFromAst t) u
       then appendInitializerTypeError (AST_VAR_DECL l x t i) es1 x (semanticTypeFromAst t) u else es1)"
    using False by (auto simp: initializerErrors_def Let_def m compatible_iff_assignable)
  show ?thesis
    unfolding e using False typed det clean_report_after [OF g grows_reports(2)]
    by (auto simp: init_ok_def)
qed

lemma grows_return: "grows es (returnErrors l v f sc es)"
proof -
  obtain u es1 where m: "checkExpression sc v es = (u, es1)" by (cases "checkExpression sc v es")
  note g = grows_pair(1) [OF m]
  show ?thesis
    using g grows_trans [OF g grows_reports(13)] grows_trans [OF g grows_reports(12)]
    by (simp add: returnErrors_def m Let_def split: option.split prod.split)
qed

lemma clean_return: "clean es (returnErrors l v f sc es) \<longleftrightarrow> return_ok f (scopeLookup sc) v"
proof (cases f)
  case None
  then show ?thesis by (simp add: returnErrors_def return_ok_def)
next
  case (Some nr)
  obtain n r where nr: "nr = (n, r)" by (cases nr)
  obtain t es1 where m: "checkExpression sc v es = (t, es1)" by (cases "checkExpression sc v es")
  note g = grows_pair(1) [OF m]
  have typed: "clean es es1 \<longleftrightarrow> has_type (scopeLookup sc) v t"
    using clean_iff_typed [of es sc v] m by simp
  have det: "has_type (scopeLookup sc) v u \<Longrightarrow> u = t" for u
    using check_iff [of sc v es u] m by simp
  have bad: "\<not> clean es (appendVoidReturnValueError k es1 n)"
      "\<not> clean es (appendIncompatibleReturnTypeError k es1 n r t)" for k
    using clean_report_after [OF g grows_reports(13)] clean_report_after [OF g grows_reports(12)] by auto
  show ?thesis
    using Some nr typed det bad by (auto simp: returnErrors_def return_ok_def m Let_def)
qed

lemma grows_jump: "length m < 256 \<Longrightarrow> grows es (jumpErrors n m d es)"
  by (simp add: jumpErrors_def grows_append)

lemma clean_jump: "clean es (jumpErrors n m d es) \<longleftrightarrow> d \<noteq> 0"
  by (simp add: jumpErrors_def)

section \<open>What validation leaves as it was\<close>

definition frame :: "Scope list \<Rightarrow> SemanticContext \<Rightarrow> Scope list \<Rightarrow> SemanticContext \<Rightarrow> bool" where
  "frame sc c sc' c' \<longleftrightarrow> grows (cerrors c) (cerrors c') \<and> current_function c' = current_function c
     \<and> loop_depth c' = loop_depth c \<and> (scopes_ok sc \<longrightarrow> scopes_ok sc') \<and> tl sc' = tl sc"

lemma frame_refl [simp]: "frame sc c sc c"
  by (simp add: frame_def)

lemma frame_trans: "frame sc c sc1 c1 \<Longrightarrow> frame sc1 c1 sc2 c2 \<Longrightarrow> frame sc c sc2 c2"
  by (auto simp: frame_def intro: grows_trans)

lemma on_errors_sel [simp]:
  "cerrors (on_errors f c) = f (cerrors c)" "current_function (on_errors f c) = current_function c"
  "loop_depth (on_errors f c) = loop_depth c"
  by (simp_all add: on_errors_def)

lemma frame_on_errors: "grows (cerrors c) (f (cerrors c)) \<Longrightarrow> frame sc c sc (on_errors f c)"
  by (simp add: frame_def)

lemma frame_condition: "frame sc c sc (on_errors (conditionErrors e fs) c)"
  by (intro frame_on_errors grows_condition)

lemma frame_check: "frame sc c sc (on_errors (\<lambda>es. snd (checkExpression fs e es)) c)"
  by (intro frame_on_errors grows_check)

lemma tl_declare [simp]: "tl (declareVariableInScope x t sc) = tl sc"
  by (auto simp: declareVariableInScope_def scopeDeclare_def split: list.splits prod.splits)

lemma tl_declareParams [simp]: "tl (declareParams ps sc) = tl sc"
  by (induction ps arbitrary: sc) (simp_all add: declareParams_def)

lemma frame_declaration:
  "validateVariableDeclaration l x t i b sc c = (sc', c') \<Longrightarrow> frame sc c sc' c'"
  by (auto simp: frame_def validateVariableDeclaration_def grows_initializer abs_declare)

lemma frame_inner_scope:
  "frame (scopeCreate sc) c bs c' \<Longrightarrow> frame sc c (tl bs) c' \<and> tl bs = sc"
  by (auto simp: frame_def scopeCreate_def scopes_ok_def)

definition flow_of :: "bool \<Rightarrow> FlowState" where
  "flow_of b = (if b then FLOW_RETURNS else FLOW_CONTINUES)"

lemma flow_of_simps [simp]:
  "flow_of True = FLOW_RETURNS" "flow_of False = FLOW_CONTINUES"
  "flow_of b = FLOW_RETURNS \<longleftrightarrow> b" "flow_of b = FLOW_CONTINUES \<longleftrightarrow> \<not> b"
  "min (flow_of a) (flow_of b) = flow_of (a \<and> b)"
  by (auto simp: flow_of_def min_def less_eq_FlowState_def)

lemma validate_frame:
  "validateNode s sc c = (fl, sc', c') \<Longrightarrow> frame sc c sc' c' \<and> fl = flow_of (always_returns s)"
  "validateItems ss flow sc c = (fl, sc', c') \<Longrightarrow>
     frame sc c sc' c' \<and> fl = (if flow = FLOW_RETURNS then FLOW_RETURNS else flow_of (\<exists>s \<in> set ss. always_returns s))"
  "validateGlobals ds sc c = (sc', c') \<Longrightarrow> frame sc c sc' c'"
proof (induction s sc c and ss flow sc c and ds sc c arbitrary: fl sc' c' and fl sc' c' and sc' c'
    rule: validateNode_validateItems_validateGlobals.induct)
  case (2 l ss sc c)
  obtain f1 bs c1 where 1: "validateItems ss FLOW_CONTINUES (scopeCreate sc) c = (f1, bs, c1)"
    by (cases "validateItems ss FLOW_CONTINUES (scopeCreate sc) c")
  have "validateNode (AST_BLOCK l ss) sc c = (f1, tl bs, c1)" using 1 by simp
  moreover have "frame (scopeCreate sc) c bs c1" "f1 = flow_of (\<exists>s \<in> set ss. always_returns s)"
    using "2.IH" [OF 1] by simp_all
  ultimately show ?case using "2.prems" frame_inner_scope [of sc c bs c1] by auto
next
  case (3 l name t i sc c)
  then show ?case by (auto dest: frame_declaration)
next
  case (4 l e sc c)
  then show ?case by (auto intro: frame_check)
next
  case (5 l op t v sc c)
  then show ?case by (auto intro: frame_check simp del: checkExpression.simps)
next
  case (6 l e t f sc c)
  let ?c = "on_errors (conditionErrors e sc) c"
  obtain f1 sc1 c1 where 1: "validateNode t sc ?c = (f1, sc1, c1)" by (cases "validateNode t sc ?c")
  have fr: "frame sc c sc1 c1" and f1: "f1 = flow_of (always_returns t)"
    using "6.IH"(1) [OF 1] frame_trans [OF frame_condition [of sc c e sc]] by auto
  show ?case
  proof (cases "f = AST_NULL")
    case True
    then show ?thesis using "6.prems" 1 fr by (simp add: Let_def)
  next
    case False
    obtain f2 sc2 c2 where 2: "validateNode f sc1 c1 = (f2, sc2, c2)" by (cases "validateNode f sc1 c1")
    then show ?thesis
      using "6.prems" "6.IH"(2) [OF 1 [symmetric] refl refl False 2] 1 False f1 frame_trans [OF fr] by (auto simp: Let_def)
  qed
next
  case (7 l e b sc c)
  let ?c = "on_errors (conditionErrors e sc) c"
  let ?d = "?c\<lparr>loop_depth := loop_depth ?c + 1\<rparr>"
  obtain f1 sc1 c1 where 1: "validateNode b sc ?d = (f1, sc1, c1)" by (cases "validateNode b sc ?d")
  have "frame sc ?d sc1 c1" using "7.IH" [OF refl 1] by simp
  then have "frame sc c sc1 (c1\<lparr>loop_depth := loop_depth c1 - 1\<rparr>)"
    using grows_condition [of "cerrors c" e sc] by (auto simp: frame_def intro: grows_trans)
  then show ?case using "7.prems" 1 by (auto simp: Let_def)
next
  case (8 l i e u b sc c)
  let ?init = "if i \<noteq> AST_NULL then validateNode i (scopeCreate sc) c else (FLOW_CONTINUES, scopeCreate sc, c)"
  obtain f1 fs c1 where 1: "?init = (f1, fs, c1)" by (cases ?init)
  let ?c2 = "if e \<noteq> AST_NULL then on_errors (conditionErrors e fs) c1 else c1"
  let ?c3 = "if u \<noteq> AST_NULL then on_errors (\<lambda>es. snd (checkExpression fs u es)) ?c2 else ?c2"
  let ?d = "?c3\<lparr>loop_depth := loop_depth ?c3 + 1\<rparr>"
  obtain f2 fs2 c4 where 2: "validateNode b fs ?d = (f2, fs2, c4)" by (cases "validateNode b fs ?d")
  have "frame (scopeCreate sc) c fs c1" using "8.IH"(1) 1 by (auto split: if_splits)
  moreover have "frame fs c1 fs ?c3"
    using frame_condition [of fs c1 e fs] frame_check [of fs ?c2 fs u]
      frame_trans [of fs c1 fs ?c2 fs ?c3] by (cases "e = AST_NULL"; cases "u = AST_NULL") simp_all
  moreover have "frame fs ?d fs2 c4"
    using "8.IH"(2) [OF 1 [symmetric] refl refl refl refl 2] by simp
  then have "frame fs ?c3 fs2 (c4\<lparr>loop_depth := loop_depth c4 - 1\<rparr>)" by (simp add: frame_def)
  ultimately have "frame (scopeCreate sc) c fs2 (c4\<lparr>loop_depth := loop_depth c4 - 1\<rparr>)"
    by (rule frame_trans [OF frame_trans])
  note fr = frame_inner_scope [OF this]
  have "validateNode (AST_FOR l i e u b) sc c =
      (FLOW_CONTINUES, tl fs2, c4\<lparr>loop_depth := loop_depth c4 - 1\<rparr>)"
    using 1 2 by (simp add: Let_def)
  then have "sc' = tl fs2 \<and> c' = c4\<lparr>loop_depth := loop_depth c4 - 1\<rparr> \<and> fl = FLOW_CONTINUES"
    using "8.prems" by (metis prod.inject)
  with fr show ?case by (metis flow_of_simps(2) always_returns.simps)
next
  case (9 l name params b r ext sc c)
  show ?case
  proof (cases ext)
    case False
    let ?t = "semanticTypeFromAst r"
    let ?fs = "declareParams params (scopeCreate sc)" and ?c = "c\<lparr>current_function := Some (name, ?t)\<rparr>"
    obtain f1 fs1 c1 where 1: "validateNode b ?fs ?c = (f1, fs1, c1)" by (cases "validateNode b ?fs ?c")
    let ?c2 = "if ?t \<noteq> SEM_TYPE_VOID \<and> f1 \<noteq> FLOW_RETURNS
      then on_errors (\<lambda>es. appendMissingReturnError (AST_FUNC_DECL l name params b r ext) es name ?t) c1 else c1"
    have r: "validateNode (AST_FUNC_DECL l name params b r ext) sc c =
        (FLOW_CONTINUES, tl fs1, ?c2\<lparr>current_function := current_function c\<rparr>)"
      using False 1 by (simp add: Let_def)
    have "frame ?fs ?c fs1 c1" using "9.IH" [OF False refl 1] by simp
    moreover have "frame fs1 c1 fs1 ?c2" by (simp add: frame_on_errors)
    ultimately have "frame ?fs ?c fs1 ?c2" by (rule frame_trans)
    then have "frame (scopeCreate sc) c fs1 (?c2\<lparr>current_function := current_function c\<rparr>)"
      using abs_declare_params [of "scopeCreate sc" params] by (simp add: frame_def)
    then have "frame sc c (tl fs1) (?c2\<lparr>current_function := current_function c\<rparr>)"
      using frame_inner_scope by blast
    then show ?thesis using "9.prems" unfolding r by auto
  qed (use "9.prems" in simp)
next
  case (10 l v sc c)
  then show ?case by (auto intro: frame_on_errors grows_return)
next
  case (11 l sc c)
  then show ?case
    using frame_on_errors [of c "jumpErrors (AST_BREAK l) ''break statement outside loop'' (loop_depth c)" sc]
    by (simp add: grows_jump)
next
  case (12 l sc c)
  then show ?case
    using frame_on_errors [of c "jumpErrors (AST_CONTINUE l) ''continue statement outside loop'' (loop_depth c)" sc]
    by (simp add: grows_jump)
next
  case (14 flow sc c)
  then show ?case by (cases flow) auto
next
  case (15 s ss flow sc c)
  show ?case
  proof (cases "flow = FLOW_RETURNS")
    case True
    let ?c = "on_errors (appendUnreachableCodeError s) c"
    obtain f1 sc1 c1 where 1: "validateNode s sc ?c = (f1, sc1, c1)" by (cases "validateNode s sc ?c")
    obtain f2 sc2 c2 where 2: "validateItems ss flow sc1 c1 = (f2, sc2, c2)" by (cases "validateItems ss flow sc1 c1")
    have "frame sc c sc ?c" by (simp add: frame_on_errors)
    moreover have "frame sc ?c sc1 c1" using "15.IH"(1) [OF True 1] by simp
    moreover have "frame sc1 c1 sc2 c2" "f2 = FLOW_RETURNS"
      using "15.IH"(2) [OF True 1 [symmetric] refl refl 2] True by simp_all
    ultimately have "frame sc c sc2 c2 \<and> f2 = FLOW_RETURNS" by (metis frame_trans)
    then show ?thesis using "15.prems" 1 2 True by simp
  next
    case False
    obtain f1 sc1 c1 where 1: "validateNode s sc c = (f1, sc1, c1)" by (cases "validateNode s sc c")
    obtain f2 sc2 c2 where 2: "validateItems ss f1 sc1 c1 = (f2, sc2, c2)" by (cases "validateItems ss f1 sc1 c1")
    have a: "frame sc c sc1 c1" "f1 = flow_of (always_returns s)" using "15.IH"(3) [OF False 1] by simp_all
    have b: "frame sc1 c1 sc2 c2"
      "f2 = (if f1 = FLOW_RETURNS then FLOW_RETURNS else flow_of (\<exists>s \<in> set ss. always_returns s))"
      using "15.IH"(4) [OF False 1 [symmetric] refl refl 2] by simp_all
    have "frame sc c sc2 c2" by (rule frame_trans [OF a(1) b(1)])
    then show ?thesis using "15.prems" 1 2 False a(2) b(2) by (auto simp: flow_of_def split: if_splits)
  qed
next
  case (17 d ds sc c)
  let ?m = "if is_var_decl d then validateGlobal d sc c else snd (validateNode d sc c)"
  obtain sc1 c1 where 1: "?m = (sc1, c1)" by (cases ?m)
  have "frame sc c sc1 c1"
  proof (cases "is_var_decl d")
    case True
    then show ?thesis using 1
      by (cases d) (auto simp: is_var_decl_def validateGlobal_def dest: frame_declaration)
  next
    case False
    then obtain f where "validateNode d sc c = (f, sc1, c1)" using 1 by (cases "validateNode d sc c") simp
    then show ?thesis using "17.IH"(1) [OF False] by simp
  qed
  moreover have "frame sc1 c1 sc' c'"
    using "17.IH"(2) [OF 1 [symmetric] refl] "17.prems" 1 by simp
  ultimately show ?case by (rule frame_trans)
qed simp_all

end
