(* ===== verification/AnalyzerProps.thy ===== *)
theory AnalyzerProps
  imports ValidateProps
begin

text \<open>
  The analyser reports nothing exactly on the programs that follow the rules of
  \<open>ValidateProps\<close>: statements first, then the declarations, then the two
  passes together.
\<close>

section \<open>What passes follows the rules\<close>

lemma frame_clean:
  "frame sc c sc1 c1 \<Longrightarrow> frame sc1 c1 sc2 c2 \<Longrightarrow>
   clean (cerrors c) (cerrors c2) \<longleftrightarrow> clean (cerrors c) (cerrors c1) \<and> clean (cerrors c1) (cerrors c2)"
  unfolding frame_def by (intro clean_trans) simp_all

lemma declaration_clean:
  "clean (cerrors c) (cerrors (snd (validateVariableDeclaration l x t i b sc c))) \<longleftrightarrow>
     (b \<longrightarrow> isAllowedGlobalInitializer i) \<and> init_ok (scopeLookup sc) (semanticTypeFromAst t) i"
  by (simp add: validateVariableDeclaration_def clean_initializer)

definition valid_start :: "Scope list \<Rightarrow> SemanticContext \<Rightarrow> bool" where
  "valid_start sc c \<longleftrightarrow> scopes_ok sc \<and> 0 \<le> loop_depth c"

lemma valid_start_frame: "frame sc c sc' c' \<Longrightarrow> valid_start sc c \<Longrightarrow> valid_start sc' c'"
  by (simp add: valid_start_def frame_def)

abbreviation follows :: "Scope list \<Rightarrow> SemanticContext \<Rightarrow> ast \<Rightarrow> Scope list \<Rightarrow> bool" where
  "follows sc c s sc' \<equiv> stmt_ok (current_function c) (loop_depth c \<noteq> 0) (abs_scopes sc) s (abs_scopes sc')"

lemma abs_inner: "frame (scopeCreate sc) c bs c' \<Longrightarrow> tl (abs_scopes bs) = abs_scopes sc"
  using frame_inner_scope [of sc c bs c'] by (metis abs_tl)

lemma valid_create: "valid_start (scopeCreate sc) c = valid_start sc c"
  by (simp add: valid_start_def)

lemma stmt_ok_NULL [simp]: "stmt_ok f lp E AST_NULL E"
  by (rule Other) (simp add: is_statement_def)

lemma has_type_NULL [simp]: "has_type G AST_NULL SEM_TYPE_ERROR"
  by (rule Silent) (simp add: is_expression_def)

lemma cond_ok_NULL [simp]: "cond_ok G AST_NULL"
  unfolding cond_ok_def by (rule exI [of _ SEM_TYPE_ERROR]) simp

lemma validateFor_eq:
  assumes "(if i \<noteq> AST_NULL then validateNode i (scopeCreate sc) c else (FLOW_CONTINUES, scopeCreate sc, c)) = (f1, fs, c1)"
    and "validateNode b fs
      ((if u \<noteq> AST_NULL then on_errors (\<lambda>es. snd (checkExpression fs u es))
          (if e \<noteq> AST_NULL then on_errors (conditionErrors e fs) c1 else c1)
        else (if e \<noteq> AST_NULL then on_errors (conditionErrors e fs) c1 else c1))
       \<lparr>loop_depth := loop_depth
         (if u \<noteq> AST_NULL then on_errors (\<lambda>es. snd (checkExpression fs u es))
            (if e \<noteq> AST_NULL then on_errors (conditionErrors e fs) c1 else c1)
          else (if e \<noteq> AST_NULL then on_errors (conditionErrors e fs) c1 else c1)) + 1\<rparr>) = (f2, fs2, c4)"
  shows "validateNode (AST_FOR l i e u b) sc c = (FLOW_CONTINUES, tl fs2, c4\<lparr>loop_depth := loop_depth c4 - 1\<rparr>)"
  using assms by (simp add: Let_def)

lemma validate_sound:
  "validateNode s sc c = (fl, sc', c') \<Longrightarrow> valid_start sc c \<Longrightarrow> clean (cerrors c) (cerrors c') \<Longrightarrow>
     follows sc c s sc'"
  "validateItems ss flow sc c = (fl, sc', c') \<Longrightarrow> valid_start sc c \<Longrightarrow> clean (cerrors c) (cerrors c') \<Longrightarrow>
     (flow = FLOW_RETURNS \<longrightarrow> ss = []) \<and> (\<forall>s \<in> set (butlast ss). \<not> always_returns s)
     \<and> items_ok (current_function c) (loop_depth c \<noteq> 0) (abs_scopes sc) ss (abs_scopes sc')"
  "validateGlobals ds sc c = (sc', c') \<Longrightarrow> valid_start sc c \<Longrightarrow> clean (cerrors c) (cerrors c') \<Longrightarrow>
     globals_ok (current_function c) (loop_depth c \<noteq> 0) (abs_scopes sc) ds (abs_scopes sc')"
proof (induction s sc c and ss flow sc c and ds sc c arbitrary: fl sc' c' and fl sc' c' and sc' c'
    rule: validateNode_validateItems_validateGlobals.induct)
  case (1 l ds sc c)
  then show ?case by (auto intro: Program)
next
  case (2 l ss sc c)
  obtain f1 bs c1 where 1: "validateItems ss FLOW_CONTINUES (scopeCreate sc) c = (f1, bs, c1)"
    by (cases "validateItems ss FLOW_CONTINUES (scopeCreate sc) c")
  have r: "sc' = tl bs" "c' = c1" using "2.prems"(1) 1 by auto
  have "(\<forall>s \<in> set (butlast ss). \<not> always_returns s)
      \<and> items_ok (current_function c) (loop_depth c \<noteq> 0) (Map.empty # abs_scopes sc) ss (abs_scopes bs)"
    using "2.IH" [OF 1] "2.prems" r by (simp add: valid_create)
  then show ?case
    using abs_inner [of sc c bs c1] validate_frame(2) [OF 1] r by (auto intro: Block)
next
  case (3 l name t i sc c)
  then show ?case
    using declaration_clean [of c l name t i False sc]
    by (auto simp: validateVariableDeclaration_def abs_declare valid_start_def env_of_abs intro: Decl)
next
  case (4 l e sc c)
  then show ?case
    using clean_iff_typed [of "cerrors c" sc e] by (auto simp: env_of_abs intro: Expr)
next
  case (5 l op t v sc c)
  then show ?case
    using clean_iff_typed [of "cerrors c" sc "AST_ASSIGN l op t v"]
    by (auto simp: env_of_abs simp del: checkExpression.simps intro: Assignment)
next
  case (6 l e t f sc c)
  let ?c = "on_errors (conditionErrors e sc) c"
  obtain f1 sc1 c1 where 1: "validateNode t sc ?c = (f1, sc1, c1)" by (cases "validateNode t sc ?c")
  note fc = frame_condition [of sc c e sc]
  note f1 = conjunct1 [OF validate_frame(1) [OF 1]]
  have v: "valid_start sc ?c" "valid_start sc1 c1"
    using "6.prems"(2) valid_start_frame [OF fc] valid_start_frame [OF f1] by simp_all
  obtain f2 sc2 c2 where 2: "(if f = AST_NULL then (FLOW_CONTINUES, sc1, c1) else validateNode f sc1 c1) = (f2, sc2, c2)"
    by (cases "if f = AST_NULL then (FLOW_CONTINUES, sc1, c1) else validateNode f sc1 c1")
  have f2: "frame sc1 c1 sc2 c2" using 2 validate_frame(1) [of f sc1 c1] by (auto split: if_splits)
  have r: "sc' = sc2" "c' = c2" using "6.prems"(1) 1 2 by (auto simp: Let_def split: if_splits prod.splits)
  have c: "clean (cerrors c) (cerrors ?c)" "clean (cerrors ?c) (cerrors c1)" "clean (cerrors c1) (cerrors c2)"
    using "6.prems"(3) frame_clean [OF fc frame_trans [OF f1 f2]] frame_clean [OF f1 f2] r by simp_all
  have "cond_ok (env_of (abs_scopes sc)) e" using c(1) by (simp add: clean_condition env_of_abs)
  moreover have "follows sc c t sc1" using "6.IH"(1) [OF 1 v(1) c(2)] by simp
  moreover have "follows sc1 c1 f sc2"
    using "6.IH"(2) [OF 1 [symmetric] refl refl _ _ v(2) c(3)] 2
    by (cases "f = AST_NULL") (auto intro: Other simp: is_statement_def)
  ultimately show ?case using r f1 by (auto simp: frame_def intro: If)
next
  case (7 l e b sc c)
  let ?c = "on_errors (conditionErrors e sc) c"
  let ?d = "?c\<lparr>loop_depth := loop_depth ?c + 1\<rparr>"
  obtain f1 sc1 c1 where 1: "validateNode b sc ?d = (f1, sc1, c1)" by (cases "validateNode b sc ?d")
  note fc = frame_condition [of sc c e sc]
  have "frame sc ?d sc1 c1" using validate_frame(1) [OF 1] by simp
  then have f1: "frame sc ?c sc1 (c1\<lparr>loop_depth := loop_depth c1 - 1\<rparr>)" by (simp add: frame_def)
  have r: "sc' = sc1" "c' = c1\<lparr>loop_depth := loop_depth c1 - 1\<rparr>" using "7.prems"(1) 1 by (auto simp: Let_def)
  have c: "clean (cerrors c) (cerrors ?c)" "clean (cerrors ?d) (cerrors c1)"
    using "7.prems"(3) frame_clean [OF fc f1] r by simp_all
  have "cond_ok (env_of (abs_scopes sc)) e" using c(1) by (simp add: clean_condition env_of_abs)
  moreover have "stmt_ok (current_function c) True (abs_scopes sc) b (abs_scopes sc1)"
    using "7.IH" [OF refl 1 _ c(2)] "7.prems"(2) by (simp add: valid_start_def)
  ultimately show ?case unfolding r by (rule While)
next
  case (8 l i e u b sc c)
  let ?init = "if i \<noteq> AST_NULL then validateNode i (scopeCreate sc) c else (FLOW_CONTINUES, scopeCreate sc, c)"
  obtain f1 fs c1 where 1: "?init = (f1, fs, c1)" by (cases ?init)
  let ?c2 = "if e \<noteq> AST_NULL then on_errors (conditionErrors e fs) c1 else c1"
  let ?c3 = "if u \<noteq> AST_NULL then on_errors (\<lambda>es. snd (checkExpression fs u es)) ?c2 else ?c2"
  let ?d = "?c3\<lparr>loop_depth := loop_depth ?c3 + 1\<rparr>"
  obtain f2 fs2 c4 where 2: "validateNode b fs ?d = (f2, fs2, c4)" by (cases "validateNode b fs ?d")
  have r: "sc' = tl fs2" "c' = c4\<lparr>loop_depth := loop_depth c4 - 1\<rparr>"
    using "8.prems"(1) validateFor_eq [OF 1 2] by simp_all
  have f1: "frame (scopeCreate sc) c fs c1" using 1 validate_frame(1) [of i "scopeCreate sc" c] by (auto split: if_splits)
  have f2: "frame fs c1 fs ?c2" using frame_condition [of fs c1 e fs] by simp
  have f3: "frame fs ?c2 fs ?c3" using frame_check [of fs ?c2 fs u] by simp
  have "frame fs ?d fs2 c4" using validate_frame(1) [OF 2] by simp
  then have f4: "frame fs ?c3 fs2 (c4\<lparr>loop_depth := loop_depth c4 - 1\<rparr>)" by (simp add: frame_def)
  note f34 = frame_trans [OF f3 f4] and f234 = frame_trans [OF f2 frame_trans [OF f3 f4]]
  have c: "clean (cerrors c) (cerrors c1)" "clean (cerrors c1) (cerrors ?c2)" "clean (cerrors ?c2) (cerrors ?c3)"
    "clean (cerrors ?d) (cerrors c4)"
    using "8.prems"(3) frame_clean [OF f1 f234] frame_clean [OF f2 f34] frame_clean [OF f3 f4] r by simp_all
  have v: "valid_start (scopeCreate sc) c" "valid_start fs c1" "valid_start fs ?d"
    using "8.prems"(2) valid_start_frame [OF f1] valid_start_frame [OF frame_trans [OF f1 frame_trans [OF f2 f3]]]
    by (auto simp: valid_create) (auto simp: valid_start_def)
  have i: "stmt_ok (current_function c) (loop_depth c \<noteq> 0) (Map.empty # abs_scopes sc) i (abs_scopes fs)"
    using "8.IH"(1) [of f1 fs c1] 1 v(1) c(1) by (cases "i = AST_NULL") (auto intro: Other simp: is_statement_def)
  have e: "cond_ok (env_of (abs_scopes fs)) e"
    using c(2) by (cases "e = AST_NULL") (auto simp: clean_condition env_of_abs)
  obtain t where u: "has_type (env_of (abs_scopes fs)) u t"
  proof (cases "u = AST_NULL")
    case True
    then show ?thesis using that [of SEM_TYPE_ERROR] by simp
  next
    case False
    then show ?thesis using c(3) clean_iff_typed [of "cerrors ?c2" fs u] that by (auto simp: env_of_abs)
  qed
  have fr: "current_function ?d = current_function c" "loop_depth ?d = loop_depth c + 1"
    using frame_trans [OF f1 frame_trans [OF f2 f3]] by (simp_all add: frame_def)
  have "follows fs ?d b fs2" by (rule "8.IH"(2) [OF 1 [symmetric] refl refl refl refl 2 v(3) c(4)])
  then have b: "stmt_ok (current_function c) True (abs_scopes fs) b (abs_scopes fs2)"
    using fr "8.prems"(2) by (simp add: valid_start_def)
  have "abs_scopes sc' = abs_scopes sc"
    using abs_inner [OF frame_trans [OF f1 f234]] r by simp
  then show ?case using For [OF i e u b] by simp
next
  case (9 l name params b r ext sc c)
  show ?case
  proof (cases ext)
    case False
    let ?t = "semanticTypeFromAst r"
    let ?fs = "declareParams params (scopeCreate sc)" and ?c = "c\<lparr>current_function := Some (name, ?t)\<rparr>"
    obtain f1 fs1 c1 where 1: "validateNode b ?fs ?c = (f1, fs1, c1)" by (cases "validateNode b ?fs ?c")
    let ?bad = "?t \<noteq> SEM_TYPE_VOID \<and> f1 \<noteq> FLOW_RETURNS"
    let ?m = "\<lambda>es. appendMissingReturnError (AST_FUNC_DECL l name params b r ext) es name ?t"
    let ?c2 = "if ?bad then on_errors ?m c1 else c1"
    have eq: "sc' = tl fs1" "c' = ?c2\<lparr>current_function := current_function c\<rparr>"
      using "9.prems"(1) False 1 by (auto simp: Let_def)
    have f1: "frame ?fs ?c fs1 c1" "f1 = flow_of (always_returns b)" using validate_frame(1) [OF 1] by simp_all
    have good: "\<not> ?bad" and c1: "clean (cerrors c) (cerrors c1)"
    proof -
      have "frame fs1 c1 fs1 ?c2" by (simp add: frame_on_errors)
      from frame_clean [OF f1(1) this] have "clean (cerrors c) (cerrors c1)" "clean (cerrors c1) (cerrors ?c2)"
        using "9.prems"(3) eq by simp_all
      then show "\<not> ?bad" "clean (cerrors c) (cerrors c1)" by (auto split: if_splits)
    qed
    have sc: "scopes_ok (scopeCreate sc)" using "9.prems"(2) by (simp add: valid_start_def)
    have v: "valid_start ?fs ?c"
      using abs_declare_params [OF sc, of params] "9.prems"(2) by (simp add: valid_start_def)
    have "stmt_ok (Some (name, ?t)) (loop_depth c \<noteq> 0) (declare_params params (Map.empty # abs_scopes sc)) b (abs_scopes fs1)"
      using "9.IH" [OF False refl 1 v] c1 abs_declare_params [OF sc, of params] by simp
    moreover have "?t = SEM_TYPE_VOID \<or> always_returns b" using good f1(2) by auto
    ultimately have "follows sc c (AST_FUNC_DECL l name params b r False) sc" by (rule Function)
    moreover have "abs_scopes sc' = abs_scopes sc"
      using f1(1) eq by (simp add: frame_def abs_tl [symmetric] del: abs_tl) (simp add: scopeCreate_def)
    ultimately show ?thesis using False by simp
  qed (use "9.prems" in \<open>auto intro: Extern\<close>)
next
  case (10 l v sc c)
  then show ?case by (auto simp: clean_return env_of_abs intro: Return)
next
  case (11 l sc c)
  then show ?case by (auto simp: clean_jump intro: Break)
next
  case (12 l sc c)
  then show ?case by (auto simp: clean_jump intro: Continue)
next
  case (14 flow sc c)
  then show ?case by (auto intro: NoItems)
next
  case (15 s ss flow sc c)
  show ?case
  proof (cases "flow = FLOW_RETURNS")
    case True
    let ?c = "on_errors (appendUnreachableCodeError s) c"
    obtain f1 sc1 c1 where 1: "validateNode s sc ?c = (f1, sc1, c1)" by (cases "validateNode s sc ?c")
    have 2: "validateItems ss flow sc1 c1 = (fl, sc', c')" using "15.prems"(1) True 1 by simp
    have "frame sc c sc ?c" by (simp add: frame_on_errors)
    from frame_clean [OF this frame_trans [OF conjunct1 [OF validate_frame(1) [OF 1]] conjunct1 [OF validate_frame(2) [OF 2]]]]
    have False using "15.prems"(3) by simp
    then show ?thesis ..
  next
    case False
    obtain f1 sc1 c1 where 1: "validateNode s sc c = (f1, sc1, c1)" by (cases "validateNode s sc c")
    have 2: "validateItems ss f1 sc1 c1 = (fl, sc', c')" using "15.prems"(1) False 1 by simp
    have a: "frame sc c sc1 c1" "f1 = flow_of (always_returns s)" using validate_frame(1) [OF 1] by simp_all
    have b: "frame sc1 c1 sc' c'" using validate_frame(2) [OF 2] by simp
    have c: "clean (cerrors c) (cerrors c1)" "clean (cerrors c1) (cerrors c')"
      using "15.prems"(3) frame_clean [OF a(1) b] by simp_all
    have "follows sc c s sc1" by (rule "15.IH"(3) [OF False 1 "15.prems"(2) c(1)])
    moreover have "(f1 = FLOW_RETURNS \<longrightarrow> ss = []) \<and> (\<forall>s \<in> set (butlast ss). \<not> always_returns s)
      \<and> items_ok (current_function c1) (loop_depth c1 \<noteq> 0) (abs_scopes sc1) ss (abs_scopes sc')"
      by (rule "15.IH"(4) [OF False 1 [symmetric] refl refl 2 valid_start_frame [OF a(1) "15.prems"(2)] c(2)])
    ultimately show ?thesis using a False by (auto simp: frame_def intro: Items)
  qed
next
  case (16 sc c)
  then show ?case by (auto intro: NoGlobals)
next
  case (17 d ds sc c)
  let ?m = "if is_var_decl d then validateGlobal d sc c else snd (validateNode d sc c)"
  obtain sc1 c1 where 1: "?m = (sc1, c1)" by (cases ?m)
  have 2: "validateGlobals ds sc1 c1 = (sc', c')" using "17.prems"(1) 1 by simp
  note f2 = validate_frame(3) [OF 2]
  show ?case
  proof (cases "is_var_decl d")
    case True
    then obtain l x t i where d: "d = AST_VAR_DECL l x t i" by (cases d) (auto simp: is_var_decl_def)
    then have m: "validateVariableDeclaration l x t i True sc c = (sc1, c1)"
      using 1 True by (simp add: validateGlobal_def)
    note f1 = frame_declaration [OF m]
    have c: "clean (cerrors c) (cerrors c1)" "clean (cerrors c1) (cerrors c')"
      using "17.prems"(3) frame_clean [OF f1 f2] by simp_all
    have g: "globals_ok (current_function c) (loop_depth c \<noteq> 0) (abs_scopes sc1) ds (abs_scopes sc')"
      using "17.IH"(2) [OF 1 [symmetric] refl 2 valid_start_frame [OF f1 "17.prems"(2)] c(2)] f1
      by (simp add: frame_def)
    have "abs_scopes sc1 = declare_var x (semanticTypeFromAst t) (abs_scopes sc)"
      using m "17.prems"(2) by (auto simp: validateVariableDeclaration_def abs_declare valid_start_def)
    then show ?thesis
      using declaration_clean [of c l x t i True sc] m c(1) g
      unfolding d by (auto simp: env_of_abs intro: GlobalVar)
  next
    case False
    then obtain f where m: "validateNode d sc c = (f, sc1, c1)" using 1 by (cases "validateNode d sc c") simp
    note f1 = conjunct1 [OF validate_frame(1) [OF m]]
    have c: "clean (cerrors c) (cerrors c1)" "clean (cerrors c1) (cerrors c')"
      using "17.prems"(3) frame_clean [OF f1 f2] by simp_all
    have "follows sc c d sc1" by (rule "17.IH"(1) [OF False m "17.prems"(2) c(1)])
    moreover have "globals_ok (current_function c) (loop_depth c \<noteq> 0) (abs_scopes sc1) ds (abs_scopes sc')"
      using "17.IH"(2) [OF 1 [symmetric] refl 2 valid_start_frame [OF f1 "17.prems"(2)] c(2)] f1
      by (simp add: frame_def)
    ultimately show ?thesis by (rule Global [OF False])
  qed
qed (auto intro: Other simp: is_statement_def)

section \<open>What follows the rules passes\<close>

definition starts :: "(string \<times> SemanticType) option \<Rightarrow> bool \<Rightarrow> menv \<Rightarrow> Scope list \<Rightarrow> SemanticContext \<Rightarrow> bool" where
  "starts f lp E sc c \<longleftrightarrow> abs_scopes sc = E \<and> valid_start sc c \<and> current_function c = f
     \<and> (loop_depth c \<noteq> 0) = lp"

definition passing :: "SemanticContext \<Rightarrow> menv \<Rightarrow> Scope list \<times> SemanticContext \<Rightarrow> bool" where
  "passing c E r \<longleftrightarrow> clean (cerrors c) (cerrors (snd r)) \<and> abs_scopes (fst r) = E"

lemma starts_frame:
  "frame sc c sc1 c1 \<Longrightarrow> starts f lp E sc c \<Longrightarrow> abs_scopes sc1 = E1 \<Longrightarrow> starts f lp E1 sc1 c1"
  by (auto simp: starts_def frame_def valid_start_def)

lemma clean_chain: "clean a b \<Longrightarrow> clean b c \<Longrightarrow> clean a c"
  by (simp add: clean_def)

lemma validate_complete:
  "stmt_ok f lp E s E' \<Longrightarrow> starts f lp E sc c \<Longrightarrow> passing c E' (snd (validateNode s sc c))"
  "items_ok f lp E ss E' \<Longrightarrow> starts f lp E sc c \<Longrightarrow> \<forall>s \<in> set (butlast ss). \<not> always_returns s \<Longrightarrow>
     passing c E' (snd (validateItems ss FLOW_CONTINUES sc c))"
  "globals_ok f lp E ds E' \<Longrightarrow> starts f lp E sc c \<Longrightarrow> passing c E' (validateGlobals ds sc c)"
proof (induction arbitrary: sc c and sc c and sc c rule: stmt_ok_items_ok_globals_ok.inducts)
  case (Block f lp E ss E' l)
  obtain f1 bs c1 where 1: "validateItems ss FLOW_CONTINUES (scopeCreate sc) c = (f1, bs, c1)"
    by (cases "validateItems ss FLOW_CONTINUES (scopeCreate sc) c")
  have "starts f lp (Map.empty # E) (scopeCreate sc) c"
    using Block.prems by (simp add: starts_def valid_create)
  from Block.IH [OF this Block.hyps(2)] have "clean (cerrors c) (cerrors c1)" using 1 by (simp add: passing_def)
  then show ?case
    using 1 abs_inner [OF conjunct1 [OF validate_frame(2) [OF 1]]] Block.prems
    by (simp add: passing_def starts_def)
next
  case (Decl E t i f lp l x)
  then show ?case
    using declaration_clean [of c l x t i False sc]
    by (simp add: passing_def starts_def validateVariableDeclaration_def abs_declare valid_start_def env_of_abs)
next
  case (Expr E e t f lp l)
  then show ?case
    using check_iff [of sc e "cerrors c" t] by (simp add: passing_def starts_def env_of_abs)
next
  case (Assignment E l op a v t f lp)
  then have "checkExpression sc (AST_ASSIGN l op a v) (cerrors c) = (t, cerrors c)"
    using check_iff [of sc "AST_ASSIGN l op a v" "cerrors c" t] by (simp add: starts_def env_of_abs)
  then show ?case using Assignment.prems by (simp add: passing_def starts_def del: checkExpression.simps)
next
  case (If E e f lp t E1 h E2 l)
  let ?c = "on_errors (conditionErrors e sc) c"
  obtain f1 sc1 c1 where 1: "validateNode t sc ?c = (f1, sc1, c1)" by (cases "validateNode t sc ?c")
  have c: "clean (cerrors c) (cerrors ?c)" using If.hyps(1) If.prems
    by (simp add: clean_condition env_of_abs starts_def)
  have s: "starts f lp E sc ?c"
    using If.prems starts_frame [OF frame_condition] by (simp add: starts_def)
  have r1: "clean (cerrors ?c) (cerrors c1)" "abs_scopes sc1 = E1"
    using If.IH(1) [OF s] 1 by (simp_all add: passing_def)
  have s1: "starts f lp E1 sc1 c1" by (rule starts_frame [OF conjunct1 [OF validate_frame(1) [OF 1]] s r1(2)])
  obtain f2 sc2 c2 where 2: "validateNode h sc1 c1 = (f2, sc2, c2)" by (cases "validateNode h sc1 c1")
  have r2: "clean (cerrors c1) (cerrors c2)" "abs_scopes sc2 = E2"
    using If.IH(2) [OF s1] 2 by (simp_all add: passing_def)
  show ?case
    using 1 2 r2 clean_chain [OF clean_chain [OF c r1(1)] r2(1)]
    by (cases "h = AST_NULL") (auto simp: passing_def Let_def)
next
  case (While E e f b E' lp l)
  let ?c = "on_errors (conditionErrors e sc) c"
  let ?d = "?c\<lparr>loop_depth := loop_depth ?c + 1\<rparr>"
  obtain f1 sc1 c1 where 1: "validateNode b sc ?d = (f1, sc1, c1)" by (cases "validateNode b sc ?d")
  have c: "clean (cerrors c) (cerrors ?d)" using While.hyps(1) While.prems
    by (simp add: clean_condition env_of_abs starts_def)
  have "starts f True E sc ?d" using While.prems by (auto simp: starts_def valid_start_def)
  from While.IH [OF this] have r: "clean (cerrors ?d) (cerrors c1)" "abs_scopes sc1 = E'"
    using 1 by (simp_all add: passing_def)
  show ?case using 1 r(2) clean_chain [OF c r(1)] by (simp add: passing_def Let_def)
next
  case (For f lp E i E1 e u t b E2 l)
  let ?init = "if i \<noteq> AST_NULL then validateNode i (scopeCreate sc) c else (FLOW_CONTINUES, scopeCreate sc, c)"
  obtain f1 fs c1 where 1: "?init = (f1, fs, c1)" by (cases ?init)
  let ?c2 = "if e \<noteq> AST_NULL then on_errors (conditionErrors e fs) c1 else c1"
  let ?c3 = "if u \<noteq> AST_NULL then on_errors (\<lambda>es. snd (checkExpression fs u es)) ?c2 else ?c2"
  let ?d = "?c3\<lparr>loop_depth := loop_depth ?c3 + 1\<rparr>"
  obtain f2 fs2 c4 where 2: "validateNode b fs ?d = (f2, fs2, c4)" by (cases "validateNode b fs ?d")
  have s: "starts f lp (Map.empty # E) (scopeCreate sc) c"
    using For.prems by (simp add: starts_def valid_create)
  have f1: "frame (scopeCreate sc) c fs c1" using 1 validate_frame(1) [of i "scopeCreate sc" c] by (auto split: if_splits)
  have "snd (validateNode i (scopeCreate sc) c) = (fs, c1)"
    using 1 by (cases "i = AST_NULL") auto
  then have r1: "clean (cerrors c) (cerrors c1)" "abs_scopes fs = E1"
    using For.IH(1) [OF s] by (simp_all add: passing_def)
  have s1: "starts f lp E1 fs c1" by (rule starts_frame [OF f1 s r1(2)])
  have c2: "clean (cerrors c1) (cerrors ?c2)"
    using For.hyps(2) r1(2) by (simp add: clean_condition env_of_abs)
  have "checkExpression fs u es = (t, es)" for es
    using For.hyps(3) r1(2) by (simp add: check_iff env_of_abs)
  then have c3: "clean (cerrors ?c2) (cerrors ?c3)" by simp
  have d: "starts f True E1 fs ?d"
    using s1 by (auto simp: starts_def valid_start_def)
  have r2: "clean (cerrors ?d) (cerrors c4)"
    using For.IH(2) [OF d] 2 by (simp add: passing_def)
  have "clean (cerrors c) (cerrors c4)"
    using clean_chain [OF clean_chain [OF r1(1) c2] clean_chain [OF c3, of "cerrors c4"]] r2 by simp
  moreover have "abs_scopes (tl fs2) = E"
  proof -
    have "frame fs ?d fs2 c4" using validate_frame(1) [OF 2] by simp
    then have "tl fs2 = tl fs" by (simp add: frame_def)
    then show ?thesis using abs_inner [OF f1] For.prems by (metis abs_tl starts_def)
  qed
  ultimately show ?case unfolding validateFor_eq [OF 1 2] by (simp add: passing_def)
next
  case (Function x r lp ps E b E' f l)
  let ?t = "semanticTypeFromAst r"
  let ?fs = "declareParams ps (scopeCreate sc)" and ?c = "c\<lparr>current_function := Some (x, ?t)\<rparr>"
  obtain f1 fs1 c1 where 1: "validateNode b ?fs ?c = (f1, fs1, c1)" by (cases "validateNode b ?fs ?c")
  have sc: "scopes_ok (scopeCreate sc)" using Function.prems by (simp add: starts_def valid_start_def)
  have "starts (Some (x, ?t)) lp (declare_params ps (Map.empty # E)) ?fs ?c"
    using Function.prems abs_declare_params [OF sc, of ps] by (simp add: starts_def valid_start_def)
  from Function.IH [OF this] have r: "clean (cerrors c) (cerrors c1)" using 1 by (simp add: passing_def)
  have f1: "frame ?fs ?c fs1 c1" "f1 = flow_of (always_returns b)" using validate_frame(1) [OF 1] by simp_all
  then have "abs_scopes (tl fs1) = E"
    using Function.prems by (simp add: frame_def starts_def scopeCreate_def del: abs_tl)
  moreover have "?t = SEM_TYPE_VOID \<or> f1 = FLOW_RETURNS" using Function.hyps(2) f1(2) by auto
  ultimately show ?case using 1 r by (elim disjE) (simp_all add: passing_def Let_def del: abs_tl)
next
  case (Return f E v lp l)
  then show ?case by (simp add: passing_def starts_def clean_return env_of_abs)
next
  case (Other s f lp E)
  then have "validateNode s sc c = (FLOW_CONTINUES, sc, c)" by (cases s) (auto simp: is_statement_def)
  then show ?case using Other.prems by (simp add: passing_def starts_def)
next
  case (Items f lp E s E1 ss E2)
  obtain f1 sc1 c1 where 1: "validateNode s sc c = (f1, sc1, c1)" by (cases "validateNode s sc c")
  have r1: "clean (cerrors c) (cerrors c1)" "abs_scopes sc1 = E1"
    using Items.IH(1) [OF Items.prems(1)] 1 by (simp_all add: passing_def)
  have fr: "frame sc c sc1 c1" "f1 = flow_of (always_returns s)" using validate_frame(1) [OF 1] by simp_all
  show ?case
  proof (cases ss)
    case Nil
    then show ?thesis using 1 r1 Items.hyps(2) by (auto simp: passing_def elim: items_ok.cases)
  next
    case (Cons s' ss')
    then have "f1 = FLOW_CONTINUES" and ret: "\<forall>s \<in> set (butlast ss). \<not> always_returns s"
      using fr(2) Items.prems(2) by auto
    moreover have "passing c1 E2 (snd (validateItems ss FLOW_CONTINUES sc1 c1))"
      by (rule Items.IH(2) [OF starts_frame [OF fr(1) Items.prems(1) r1(2)] ret])
    ultimately show ?thesis using 1 clean_chain [OF r1(1)] by (simp add: passing_def)
  qed
next
  case (GlobalVar i E t f lp x ds E' l)
  obtain sc1 c1 where 1: "validateVariableDeclaration l x t i True sc c = (sc1, c1)"
    by (cases "validateVariableDeclaration l x t i True sc c")
  have r1: "clean (cerrors c) (cerrors c1)" "abs_scopes sc1 = declare_var x (semanticTypeFromAst t) E"
    using GlobalVar.hyps GlobalVar.prems declaration_clean [of c l x t i True sc] 1
    by (auto simp: starts_def validateVariableDeclaration_def abs_declare valid_start_def env_of_abs)
  have "passing c1 E' (validateGlobals ds sc1 c1)"
    by (rule GlobalVar.IH [OF starts_frame [OF frame_declaration [OF 1] GlobalVar.prems r1(2)]])
  then show ?case using 1 clean_chain [OF r1(1)]
    by (simp add: passing_def is_var_decl_def validateGlobal_def)
next
  case (Global d f lp E E1 ds E2)
  obtain f1 sc1 c1 where 1: "validateNode d sc c = (f1, sc1, c1)" by (cases "validateNode d sc c")
  have r1: "clean (cerrors c) (cerrors c1)" "abs_scopes sc1 = E1"
    using Global.IH(1) [OF Global.prems] 1 by (simp_all add: passing_def)
  have fr: "frame sc c sc1 c1" using validate_frame(1) [OF 1] by simp
  have "passing c1 E2 (validateGlobals ds sc1 c1)"
    by (rule Global.IH(2) [OF starts_frame [OF fr Global.prems r1(2)]])
  then show ?case using 1 Global.hyps(1) clean_chain [OF r1(1)] by (simp add: passing_def)
qed (auto simp: passing_def starts_def clean_jump)

end
