(* ===== verification/CollectProps.thy ===== *)
theory CollectProps
  imports AnalyzerProps
begin

text \<open>
  The collection pass: what it declares, when it reports nothing, and the scope the validation
  starts in; then the two passes together.
\<close>

section \<open>The names a program declares\<close>

text \<open>The symbols a statement declares in the scope it stands in.\<close>

definition function_symbol :: "string \<Rightarrow> ast list \<Rightarrow> ast \<Rightarrow> Symbol" where
  "function_symbol x ps r =
     symbolCreateFunction x (semanticTypeFromAst r) (map (\<lambda>p. semanticTypeFromAst (param_type p)) ps)"

fun symbols :: "ast \<Rightarrow> Symbol list" where
  "symbols (AST_PROGRAM l ds) = concat (map symbols ds)"
| "symbols (AST_VAR_DECL l x t i) = [symbolCreateVariable x (semanticTypeFromAst t)]"
| "symbols (AST_IF l c t e) = symbols t @ symbols e"
| "symbols (AST_WHILE l c b) = symbols b"
| "symbols (AST_FOR l i c u b) = symbols b"
| "symbols (AST_FUNC_DECL l x ps b r ext) = [function_symbol x ps r]"
| "symbols _ = []"

definition param_symbol :: "ast \<Rightarrow> Symbol" where
  "param_symbol p = symbolCreateVariable (param_name p) (semanticTypeFromAst (param_type p))"

abbreviation names :: "Symbol list \<Rightarrow> string list" where
  "names ss \<equiv> map sname ss"

text \<open>No scope inside the statement declares a name twice.\<close>

fun scopes_distinct :: "ast \<Rightarrow> bool" where
  "scopes_distinct (AST_PROGRAM l ds) = (\<forall>d \<in> set ds. scopes_distinct d)"
| "scopes_distinct (AST_BLOCK l ss) =
     (distinct (names (concat (map symbols ss))) \<and> (\<forall>s \<in> set ss. scopes_distinct s))"
| "scopes_distinct (AST_IF l c t e) = (scopes_distinct t \<and> scopes_distinct e)"
| "scopes_distinct (AST_WHILE l c b) = scopes_distinct b"
| "scopes_distinct (AST_FOR l i c u b) = scopes_distinct b"
| "scopes_distinct (AST_FUNC_DECL l x ps b r ext) =
     (distinct (names (map param_symbol ps @ (if ext then [] else symbols b)))
      \<and> (ext \<or> scopes_distinct b))"
| "scopes_distinct _ = True"

section \<open>Declaring in a scope\<close>

definition declare_sym :: "menv \<Rightarrow> Symbol \<Rightarrow> menv" where
  "declare_sym E s =
     (case E of
        [] \<Rightarrow> []
      | m # ms \<Rightarrow> (if m (sname s) = None then m(sname s \<mapsto> s) else m) # ms)"

definition top_dom :: "menv \<Rightarrow> string set" where
  "top_dom E = (case E of [] \<Rightarrow> {} | m # ms \<Rightarrow> dom m)"

lemma top_dom_simps [simp]: "top_dom [] = {}" "top_dom (m # ms) = dom m"
  by (simp_all add: top_dom_def)

lemma top_dom_declare: "E \<noteq> [] \<Longrightarrow> top_dom (declare_sym E s) = insert (sname s) (top_dom E)"
  by (cases E) (auto simp: declare_sym_def)

lemma declare_sym_nonempty [simp]: "declare_sym E s = [] \<longleftrightarrow> E = []"
  by (cases E) (auto simp: declare_sym_def)

lemma tl_declare_sym [simp]: "tl (declare_sym E s) = tl E"
  by (cases E) (auto simp: declare_sym_def)

lemma foldl_declare [simp]:
  "foldl declare_sym E ss = [] \<longleftrightarrow> E = []" "tl (foldl declare_sym E ss) = tl E"
  by (induction ss arbitrary: E) simp_all

lemma top_dom_declares: "E \<noteq> [] \<Longrightarrow> top_dom (foldl declare_sym E ss) = set (names ss) \<union> top_dom E"
  by (induction ss arbitrary: E) (simp_all add: top_dom_declare)

text \<open>Adding the symbols \<open>ss\<close> one by one, with a report for each duplicate.\<close>

definition adds :: "Symbol list \<Rightarrow> bool \<Rightarrow> Scope list \<Rightarrow> errs \<Rightarrow> Scope list \<times> errs \<Rightarrow> bool" where
  "adds ss inner sc es r \<longleftrightarrow>
     scopes_ok (fst r) \<and> abs_scopes (fst r) = foldl declare_sym (abs_scopes sc) ss
     \<and> grows es (snd r)
     \<and> (clean es (snd r) \<longleftrightarrow> inner \<and> distinct (names ss) \<and> set (names ss) \<inter> top_dom (abs_scopes sc) = {})"

lemma adds_none: "scopes_ok sc \<Longrightarrow> adds [] True sc es (sc, es)"
  by (simp add: adds_def)

lemma adds_append:
  assumes "sc \<noteq> []" "adds ss p sc es (sc1, es1)" "adds ss' q sc1 es1 r"
  shows "adds (ss @ ss') (p \<and> q) sc es r"
proof -
  have E: "abs_scopes sc \<noteq> []" using assms(1) by (cases sc) simp_all
  have "clean es (snd r) \<longleftrightarrow> clean es es1 \<and> clean es1 (snd r)"
    using assms(2,3) by (intro clean_trans) (simp_all add: adds_def)
  moreover have "grows es (snd r)"
    using assms(2,3) grows_trans [of es es1 "snd r"] by (simp add: adds_def)
  moreover have "(distinct (names ss) \<and> set (names ss) \<inter> top_dom (abs_scopes sc) = {})
      \<and> distinct (names ss') \<and> set (names ss') \<inter> top_dom (foldl declare_sym (abs_scopes sc) ss) = {}
     \<longleftrightarrow> distinct (names (ss @ ss')) \<and> set (names (ss @ ss')) \<inter> top_dom (abs_scopes sc) = {}"
    unfolding top_dom_declares [OF E] by auto
  moreover have "abs_scopes sc1 = foldl declare_sym (abs_scopes sc) ss"
    "clean es es1 \<longleftrightarrow> p \<and> distinct (names ss) \<and> set (names ss) \<inter> top_dom (abs_scopes sc) = {}"
    using assms(2) by (simp_all add: adds_def)
  moreover from this have "scopes_ok (fst r)" "abs_scopes (fst r) = foldl declare_sym (abs_scopes sc) (ss @ ss')"
    "clean es1 (snd r) \<longleftrightarrow> q \<and> distinct (names ss') \<and>
       set (names ss') \<inter> top_dom (foldl declare_sym (abs_scopes sc) ss) = {}"
    using assms(3) by (simp_all add: adds_def)
  ultimately show ?thesis unfolding adds_def by (intro conjI) (assumption | blast)+
qed

lemma adds_symbol:
  assumes "scopes_ok sc" "sc \<noteq> []"
  shows "adds [s] True sc es (declare_or_report n sc es s)"
proof -
  obtain b bs where sc: "sc = b # bs" using assms(2) by (cases sc) simp_all
  then have ok: "buckets_ok sname b" using assms(1) by (simp add: scopes_ok_def)
  obtain o' b' where d: "bucketDeclare sname b s = (o', b')" by (cases "bucketDeclare sname b s")
  have "scopes_ok (b' # bs)"
    using scopes_ok_declare [OF assms(1), of s] by (simp add: sc scopeDeclare_def d)
  moreover have "o' \<longleftrightarrow> bucketLookup sname b (sname s) = None"
    using scope_table.declare_ok [OF ok, of s] by (simp add: d)
  moreover have "bucketLookup sname b' =
      (if bucketLookup sname b (sname s) = None then (bucketLookup sname b)(sname s \<mapsto> s) else bucketLookup sname b)"
    using scope_table.declare_refines [OF ok, of s] by (simp add: d)
  ultimately show ?thesis
    by (auto simp: adds_def declare_or_report_def scopeDeclare_def sc d declare_sym_def)
qed

text \<open>A scope of its own: nothing of it stays.\<close>

lemma adds_scope:
  assumes "adds ss p (scopeCreate sc) es r" "scopes_ok sc" "sc \<noteq> []"
  shows "adds [] (p \<and> distinct (names ss)) sc es (sc, snd r)"
  using assms by (auto simp: adds_def)

lemma adds_ne: "adds ss p sc es (sc1, es1) \<Longrightarrow> sc \<noteq> [] \<Longrightarrow> scopes_ok sc1 \<and> sc1 \<noteq> []"
proof -
  assume "adds ss p sc es (sc1, es1)" "sc \<noteq> []"
  then have "scopes_ok sc1" "abs_scopes sc1 = foldl declare_sym (abs_scopes sc) ss" "abs_scopes sc \<noteq> []"
    by (simp_all add: adds_def) (simp add: abs_scopes_def)
  then show ?thesis using foldl_declare(1) [of "abs_scopes sc" ss] by (cases sc1) simp_all
qed

lemma adds_params:
  "scopes_ok sc \<Longrightarrow> sc \<noteq> [] \<Longrightarrow> adds (map param_symbol ps) True sc es (collectParams ps sc es)"
proof (induction ps arbitrary: sc es)
  case Nil
  then show ?case by (simp add: adds_none)
next
  case (Cons p ps)
  obtain sc1 es1 where 1: "collectVariable p (param_name p) (param_type p) sc es = (sc1, es1)"
    by (cases "collectVariable p (param_name p) (param_type p) sc es")
  have a: "adds [param_symbol p] True sc es (sc1, es1)"
    using adds_symbol [OF Cons.prems, of "param_symbol p" es p] 1
    by (simp add: collectVariable_def param_symbol_def)
  have ne: "scopes_ok sc1" "sc1 \<noteq> []" using adds_ne [OF a Cons.prems(2)] by simp_all
  from adds_append [OF Cons.prems(2) a Cons.IH [OF ne]] show ?case by (simp add: 1)
qed

text \<open>What the pass does: it adds the symbols of a statement, and is quiet exactly if the names
  are new and the scopes inside are free of duplicates.\<close>

lemma collect_adds:
  "scopes_ok sc \<Longrightarrow> sc \<noteq> [] \<Longrightarrow> adds (symbols s) (scopes_distinct s) sc es (collectSymbols s sc es)"
  "scopes_ok sc \<Longrightarrow> sc \<noteq> [] \<Longrightarrow>
     adds (concat (map symbols ss)) (\<forall>s \<in> set ss. scopes_distinct s) sc es (collectItems ss sc es)"
proof (induction s sc es and ss sc es rule: collectSymbols_collectItems.induct)
  case (2 l ss sc es)
  have "scopes_ok (scopeCreate sc)" "scopeCreate sc \<noteq> []" using "2.prems" by (simp, simp add: scopeCreate_def)
  from adds_scope [OF "2.IH" [OF this] "2.prems"] show ?case by (simp add: conj_commute)
next
  case (3 l x t i sc es)
  then show ?case
    using adds_symbol [of sc "symbolCreateVariable x (semanticTypeFromAst t)" es] by (simp add: collectVariable_def)
next
  case (4 l c t e sc es)
  obtain sc1 es1 where 1: "collectSymbols t sc es = (sc1, es1)" by (cases "collectSymbols t sc es")
  have a: "adds (symbols t) (scopes_distinct t) sc es (sc1, es1)" using "4.IH"(1) "4.prems" 1 by simp
  note ne = adds_ne [OF a "4.prems"(2)]
  from adds_append [OF "4.prems"(2) a "4.IH"(2) [OF 1 [symmetric] refl conjunct1 [OF ne] conjunct2 [OF ne]]]
  show ?case by (simp add: 1)
next
  case (7 l x ps b r ext sc es)
  let ?n = "AST_FUNC_DECL l x ps b r ext"
  obtain sc1 es1 where 1: "declare_or_report ?n sc es (function_symbol x ps r) = (sc1, es1)"
    by (cases "declare_or_report ?n sc es (function_symbol x ps r)")
  have a: "adds [function_symbol x ps r] True sc es (sc1, es1)"
    using adds_symbol [OF "7.prems", of "function_symbol x ps r" es ?n] 1 by simp
  note ne = adds_ne [OF a "7.prems"(2)]
  have fs: "scopes_ok (scopeCreate sc1)" "scopeCreate sc1 \<noteq> []" using ne by (simp, simp add: scopeCreate_def)
  obtain sc2 es2 where 2: "collectParams ps (scopeCreate sc1) es1 = (sc2, es2)"
    by (cases "collectParams ps (scopeCreate sc1) es1")
  have p: "adds (map param_symbol ps) True (scopeCreate sc1) es1 (sc2, es2)"
    using adds_params [OF fs, of ps es1] 2 by simp
  note ne2 = adds_ne [OF p fs(2)]
  let ?b = "if ext then (sc2, es2) else collectSymbols b sc2 es2"
  have "adds (if ext then [] else symbols b) (ext \<or> scopes_distinct b) sc2 es2 ?b"
    using "7.IH" [OF refl 1 [unfolded function_symbol_def, symmetric] refl 2 [symmetric] refl]
      ne2 adds_none [of sc2 es2] by auto
  from adds_scope [OF adds_append [OF fs(2) p this]] ne
  have "adds [] ((True \<and> (ext \<or> scopes_distinct b)) \<and>
      distinct (names (map param_symbol ps @ (if ext then [] else symbols b)))) sc1 es1 (sc1, snd ?b)" by blast
  from adds_append [OF "7.prems"(2) a this]
  have "adds (symbols ?n) (scopes_distinct ?n) sc es (sc1, snd ?b)"
    by (simp add: conj_commute)
  moreover have "collectSymbols ?n sc es = (sc1, snd ?b)"
    using 1 2 by (simp add: function_symbol_def Let_def)
  ultimately show ?case by simp
next
  case (10 s ss sc es)
  obtain sc1 es1 where 1: "collectSymbols s sc es = (sc1, es1)" by (cases "collectSymbols s sc es")
  have a: "adds (symbols s) (scopes_distinct s) sc es (sc1, es1)" using "10.IH"(1) "10.prems" 1 by simp
  note ne = adds_ne [OF a "10.prems"(2)]
  from adds_append [OF "10.prems"(2) a "10.IH"(2) [OF 1 [symmetric] refl conjunct1 [OF ne] conjunct2 [OF ne]]]
  show ?case by (simp add: 1)
qed (simp_all add: adds_none)

section \<open>Where validation starts\<close>

definition function_env :: "Symbol list \<Rightarrow> env" where
  "function_env ss = map_of (map (\<lambda>s. (sname s, s)) (filter (\<lambda>s. skind s = SYMBOL_FUNCTION) ss))"

lemma function_copy_id: "skind s = SYMBOL_FUNCTION \<Longrightarrow> function_copy s = s"
  by (cases s) (simp add: function_copy_def symbolCreateFunction_def)

lemma foldl_copies:
  assumes "scopes_ok sc"
  shows "abs_scopes (foldl (\<lambda>root s. if skind s = SYMBOL_FUNCTION then snd (scopeDeclare root (function_copy s)) else root) sc ss)
      = foldl declare_sym (abs_scopes sc) (filter (\<lambda>s. skind s = SYMBOL_FUNCTION) ss)
    \<and> scopes_ok (foldl (\<lambda>root s. if skind s = SYMBOL_FUNCTION then snd (scopeDeclare root (function_copy s)) else root) sc ss)"
  using assms
proof (induction ss arbitrary: sc)
  case (Cons s ss)
  have "abs_scopes (snd (scopeDeclare sc s)) = declare_sym (abs_scopes sc) s"
  proof (cases sc)
    case Nil
    then show ?thesis by (simp add: scopeDeclare_def declare_sym_def)
  next
    case (Cons b bs)
    then have "buckets_ok sname b" using \<open>scopes_ok sc\<close> by (simp add: scopes_ok_def)
    from scope_table.declare_refines [OF this, of s] show ?thesis
      by (cases "bucketDeclare sname b s") (simp add: Cons scopeDeclare_def declare_sym_def)
  qed
  moreover have "scopes_ok (snd (scopeDeclare sc s))" using Cons.prems by (rule scopes_ok_declare)
  ultimately show ?case using Cons by (simp add: function_copy_id)
qed simp

lemma declares_distinct:
  "distinct (names ss) \<Longrightarrow> set (names ss) \<inter> dom m = {} \<Longrightarrow>
   foldl declare_sym (m # ms) ss = (m ++ map_of (map (\<lambda>s. (sname s, s)) ss)) # ms"
proof (induction ss arbitrary: m)
  case (Cons s ss)
  have "m(sname s \<mapsto> s) ++ map_of (map (\<lambda>s. (sname s, s)) ss) = m ++ map_of (map (\<lambda>s. (sname s, s)) (s # ss))"
    using Cons.prems(1) by (auto simp: fun_eq_iff map_add_def map_of_eq_None_iff image_iff split: option.splits
        dest!: map_of_SomeD)
  moreover have "foldl declare_sym (m # ms) (s # ss) = foldl declare_sym (m(sname s \<mapsto> s) # ms) ss"
    using Cons.prems(2) by (simp add: declare_sym_def domIff)
  moreover have "set (names ss) \<inter> dom (m(sname s \<mapsto> s)) = {}" using Cons.prems by auto
  moreover have "distinct (names ss)" using Cons.prems(1) by simp
  ultimately show ?case using Cons.IH [of "m(sname s \<mapsto> s)"] by presburger
qed simp

lemma map_of_distinct:
  "distinct (names ss) \<Longrightarrow> map_of (map (\<lambda>s. (sname s, s)) ss) x = Some s \<longleftrightarrow> s \<in> set ss \<and> sname s = x"
  by (subst map_of_eq_Some_iff) (auto simp: comp_def)

lemma function_env_iff:
  "distinct (names ss) \<Longrightarrow> function_env ss x = Some s \<longleftrightarrow> s \<in> set ss \<and> sname s = x \<and> skind s = SYMBOL_FUNCTION"
  by (subst function_env_def, subst map_of_distinct) (auto simp: distinct_map inj_on_def)

lemma distinct_concat_keys:
  "(\<forall>i < length b. distinct (map f (b ! i)) \<and> (\<forall>s \<in> set (b ! i). h (f s) = n + i)) \<Longrightarrow> distinct (map f (concat b))"
proof (induction b arbitrary: n)
  case (Cons xs b)
  have "\<forall>i < length b. distinct (map f (b ! i)) \<and> (\<forall>s \<in> set (b ! i). h (f s) = Suc n + i)"
    using Cons.prems by (metis Suc_less_eq add_Suc_shift length_Cons nth_Cons_Suc)
  moreover have "distinct (map f xs)" "\<forall>s \<in> set xs. h (f s) = n" using Cons.prems by force+
  moreover have "f ` set xs \<inter> f ` set (concat b) = {}"
  proof -
    have "h (f s) \<noteq> n" if y: "ys \<in> set b" "s \<in> set ys" for ys s
    proof -
      obtain i where "i < length b" "s \<in> set (b ! i)" using y by (auto simp: in_set_conv_nth [of ys])
      then have "h (f s) = Suc n + i" using calculation(1) by blast
      then show ?thesis by simp
    qed
    then show ?thesis using calculation(3) by force
  qed
  ultimately show ?case using Cons.IH [of "Suc n"] by simp
qed simp

lemma buckets_distinct: "buckets_ok nm b \<Longrightarrow> distinct (map nm (concat b))"
  by (rule distinct_concat_keys [where h = "\<lambda>n. hashName n bucket_count" and n = 0]) (simp add: buckets_ok_def)

lemma find_distinct:
  "distinct (map nm xs) \<Longrightarrow> find (\<lambda>s. nm s = x) xs = Some s \<longleftrightarrow> s \<in> set xs \<and> nm s = x"
  by (induction xs) (auto simp: rev_image_eqI)

lemma bucketLookup_iff:
  assumes "buckets_ok nm b"
  shows "bucketLookup nm b x = Some s \<longleftrightarrow> s \<in> set (concat b) \<and> nm s = x"
proof -
  let ?i = "hashName x bucket_count"
  have ok: "length b = bucket_count" "distinct (map nm (b ! ?i))"
    "\<And>i s. i < bucket_count \<Longrightarrow> s \<in> set (b ! i) \<Longrightarrow> hashName (nm s) bucket_count = i"
    using assms hashName_less [of x] by (simp_all add: buckets_ok_def)
  have "s \<in> set (concat b) \<and> nm s = x \<longleftrightarrow> s \<in> set (b ! ?i) \<and> nm s = x"
  proof
    assume s: "s \<in> set (concat b) \<and> nm s = x"
    then obtain i where "i < length b" "s \<in> set (b ! i)" by (auto simp: in_set_conv_nth [of _ b])
    then show "s \<in> set (b ! ?i) \<and> nm s = x" using ok(1,3) s by auto
  next
    assume "s \<in> set (b ! ?i) \<and> nm s = x"
    moreover have "b ! ?i \<in> set b" using hashName_less [of x] ok(1) by simp
    ultimately show "s \<in> set (concat b) \<and> nm s = x" by auto
  qed
  then show ?thesis using ok by (simp add: bucketLookup_def find_distinct)
qed

lemma option_eqI: "(\<And>s. a = Some s \<longleftrightarrow> b = Some s) \<Longrightarrow> a = b"
  by (cases a; cases b) auto

lemma validation_root:
  assumes "scopes_ok (b # bs)" "bucketLookup sname b = map_of (map (\<lambda>s. (sname s, s)) ss)" "distinct (names ss)"
  shows "abs_scopes (createValidationRoot (b # bs)) = [function_env ss]"
    and "scopes_ok (createValidationRoot (b # bs))"
proof -
  let ?fs = "filter (\<lambda>s. skind s = SYMBOL_FUNCTION) (concat b)"
  have ok: "buckets_ok sname b" using assms(1) by (simp add: scopes_ok_def)
  have d: "distinct (names ?fs)"
    by (rule distinct_map_filter [OF buckets_distinct [OF ok]])
  have "scopes_ok (scopeCreate [])" by (simp add: scopes_ok_def scopeCreate_def)
  note root = foldl_copies [OF this, of "concat b"]
  then show "scopes_ok (createValidationRoot (b # bs))" by (simp add: createValidationRoot_def)
  have "abs_scopes (createValidationRoot (b # bs)) = [map_of (map (\<lambda>s. (sname s, s)) ?fs)]"
    using conjunct1 [OF root] declares_distinct [OF d, of Map.empty "[]"]
    by (simp add: createValidationRoot_def)
  moreover have "map_of (map (\<lambda>s. (sname s, s)) ?fs) x = Some s \<longleftrightarrow> function_env ss x = Some s" for x s
  proof -
    have "s \<in> set (concat b) \<and> sname s = x \<longleftrightarrow> s \<in> set ss \<and> sname s = x"
      unfolding bucketLookup_iff [OF ok, symmetric] assms(2) by (rule map_of_distinct [OF assms(3)])
    then show ?thesis
      unfolding map_of_distinct [OF d] function_env_iff [OF assms(3)] set_filter by blast
  qed
  then have "map_of (map (\<lambda>s. (sname s, s)) ?fs) = function_env ss"
    by (intro ext option_eqI)
  ultimately show "abs_scopes (createValidationRoot (b # bs)) = [function_env ss]" by simp
qed

section \<open>The analysis of a program\<close>

definition valid_program :: "ast \<Rightarrow> bool" where
  "valid_program p \<longleftrightarrow> distinct (names (symbols p)) \<and> scopes_distinct p
     \<and> (\<exists>E. stmt_ok None False [function_env (symbols p)] p E)"

lemma items_init [simp]: "items growable_init = []"
  by (simp add: growable_init_def)

lemma analyze_iff: "items (errors (semanticAnalyze p)) = [] \<longleftrightarrow> valid_program p"
proof -
  obtain sc es where 1: "collectSymbols p (scopeCreate []) growable_init = (sc, es)"
    by (cases "collectSymbols p (scopeCreate []) growable_init")
  obtain f root c where 2: "validateNode p (createValidationRoot sc) (initial_context es) = (f, root, c)"
    by (cases "validateNode p (createValidationRoot sc) (initial_context es)")
  have s: "scopes_ok (scopeCreate [])" "scopeCreate [] \<noteq> []" by (simp_all add: scopes_ok_def scopeCreate_def)
  have a: "adds (symbols p) (scopes_distinct p) (scopeCreate []) growable_init (sc, es)"
    using collect_adds(1) [OF s, of p growable_init] 1 by simp
  have e: "errors (semanticAnalyze p) = cerrors c" using 1 2 by (simp add: semanticAnalyze_def)
  have fr: "frame (createValidationRoot sc) (initial_context es) root c" using validate_frame(1) [OF 2] by simp
  have "clean growable_init (cerrors c) \<longleftrightarrow> clean growable_init es \<and> clean es (cerrors c)"
    using a fr by (intro clean_trans) (simp_all add: adds_def frame_def initial_context_def)
  moreover have "clean growable_init es \<longleftrightarrow> distinct (names (symbols p)) \<and> scopes_distinct p"
    using a by (auto simp: adds_def)
  moreover have "clean es (cerrors c) \<longleftrightarrow> (\<exists>E. stmt_ok None False [function_env (symbols p)] p E)"
    if d: "distinct (names (symbols p))"
  proof -
    have A: "scopes_ok sc" "abs_scopes sc = [map_of (map (\<lambda>s. (sname s, s)) (symbols p))]"
      using a declares_distinct [OF d, of Map.empty "[]"] by (simp_all add: adds_def)
    then obtain b where sc: "sc = [b]" "bucketLookup sname b = map_of (map (\<lambda>s. (sname s, s)) (symbols p))"
      by (cases sc) (auto simp: abs_scopes_def)
    note R = validation_root [OF A(1) [unfolded sc(1)] sc(2) d]
    have v: "valid_start (createValidationRoot sc) (initial_context es)"
      using R sc(1) by (simp add: valid_start_def initial_context_def)
    show ?thesis
    proof
      assume "clean es (cerrors c)"
      with validate_sound(1) [OF 2 v] show "\<exists>E. stmt_ok None False [function_env (symbols p)] p E"
        using R(1) sc(1) by (auto simp: initial_context_def)
    next
      assume "\<exists>E. stmt_ok None False [function_env (symbols p)] p E"
      then obtain E where "stmt_ok None False [function_env (symbols p)] p E" ..
      moreover have "starts None False [function_env (symbols p)] (createValidationRoot sc) (initial_context es)"
        using v R(1) sc(1) by (simp add: starts_def initial_context_def)
      ultimately have "passing (initial_context es) E (snd (validateNode p (createValidationRoot sc) (initial_context es)))"
        by (rule validate_complete(1))
      then show "clean es (cerrors c)" using 2 by (simp add: passing_def initial_context_def)
    qed
  qed
  ultimately show ?thesis unfolding e valid_program_def by (auto simp: clean_def)
qed

lemma analyze_errors_ok: "errors_ok (errors (semanticAnalyze p))"
proof -
  obtain sc es where 1: "collectSymbols p (scopeCreate []) growable_init = (sc, es)"
    by (cases "collectSymbols p (scopeCreate []) growable_init")
  obtain f root c where 2: "validateNode p (createValidationRoot sc) (initial_context es) = (f, root, c)"
    by (cases "validateNode p (createValidationRoot sc) (initial_context es)")
  have s: "scopes_ok (scopeCreate [])" "scopeCreate [] \<noteq> []" by (simp_all add: scopes_ok_def scopeCreate_def)
  have "grows growable_init es"
    using collect_adds(1) [OF s, of p growable_init] 1 by (simp add: adds_def)
  moreover have "grows es (cerrors c)"
    using validate_frame(1) [OF 2] by (simp add: frame_def initial_context_def)
  moreover have "errors_ok growable_init"
    by (simp add: errors_ok_def growable_init_def growable_ok_def)
  moreover have "errors (semanticAnalyze p) = cerrors c" using 1 2 by (simp add: semanticAnalyze_def)
  ultimately show ?thesis by (simp add: grows_def)
qed

end
