(* ===== verification/FlowProps.thy ===== *)
theory FlowProps
  imports CollectProps
begin

text \<open>
  How the statements of an accepted program can end.  A run of a statement is described by its
  outcome only: which branch is taken and how often a loop runs is left open.
\<close>

section \<open>Outcomes\<close>

datatype outcome = Normal | Returned | Broke | Continued

definition simple :: "ast \<Rightarrow> bool" where
  "simple s = (case s of
     AST_BLOCK l ss \<Rightarrow> False | AST_IF l c t e \<Rightarrow> False | AST_WHILE l c b \<Rightarrow> False
   | AST_FOR l i c u b \<Rightarrow> False | AST_RETURN l v \<Rightarrow> False | AST_BREAK l \<Rightarrow> False
   | AST_CONTINUE l \<Rightarrow> False | _ \<Rightarrow> True)"

inductive ends :: "ast \<Rightarrow> outcome \<Rightarrow> bool" and ends_all :: "ast list \<Rightarrow> outcome \<Rightarrow> bool" where
  Simple: "simple s \<Longrightarrow> ends s Normal"
| Block: "ends_all ss r \<Longrightarrow> ends (AST_BLOCK l ss) r"
| Then: "ends t r \<Longrightarrow> ends (AST_IF l c t e) r"
| Else: "ends e r \<Longrightarrow> ends (AST_IF l c t e) r"
| WhileDone: "ends (AST_WHILE l c b) Normal"
| WhileReturn: "ends b Returned \<Longrightarrow> ends (AST_WHILE l c b) Returned"
| ForInit: "ends i r \<Longrightarrow> r \<noteq> Normal \<Longrightarrow> ends (AST_FOR l i c u b) r"
| ForDone: "ends (AST_FOR l i c u b) Normal"
| ForReturn: "ends b Returned \<Longrightarrow> ends (AST_FOR l i c u b) Returned"
| Return: "ends (AST_RETURN l v) Returned"
| Break: "ends (AST_BREAK l) Broke"
| Continue: "ends (AST_CONTINUE l) Continued"
| Nil: "ends_all [] Normal"
| Next: "ends s Normal \<Longrightarrow> ends_all ss r \<Longrightarrow> ends_all (s # ss) r"
| Stop: "ends s r \<Longrightarrow> r \<noteq> Normal \<Longrightarrow> ends_all (s # ss) r"

lemma simple_simps [simp]:
  "\<not> simple (AST_BLOCK l ss)" "\<not> simple (AST_IF l c t e)" "\<not> simple (AST_WHILE l c b)"
  "\<not> simple (AST_FOR l i c u b)" "\<not> simple (AST_RETURN l v)" "\<not> simple (AST_BREAK l)"
  "\<not> simple (AST_CONTINUE l)"
  by (simp_all add: simple_def)

inductive_cases ends_cases [elim!]:
  "ends (AST_VAR_DECL l x d i) r" "ends (AST_EXPR_STMT l e) r" "ends (AST_ASSIGN l op t v) r"
  "ends (AST_FUNC_DECL l x ps b d ext) r" "ends (AST_PROGRAM l ss) r"
  "ends (AST_BLOCK l ss) r" "ends (AST_IF l c t e) r" "ends (AST_WHILE l c b) r"
  "ends (AST_FOR l i c u b) r" "ends (AST_RETURN l v) r" "ends (AST_BREAK l) r" "ends (AST_CONTINUE l) r"
  "ends_all [] r" "ends_all (s # ss) r"

inductive_cases ends_simple: "ends s r"

lemma simple_ends: "simple s \<Longrightarrow> ends s r \<Longrightarrow> r = Normal"
  by (erule ends_simple) (simp_all add: simple_def)

section \<open>The flow analysis against the outcomes\<close>

lemma returns_not_normal:
  "ends s r \<Longrightarrow> always_returns s \<Longrightarrow> r \<noteq> Normal"
  "ends_all ss r \<Longrightarrow> \<exists>s \<in> set ss. always_returns s \<Longrightarrow> r \<noteq> Normal"
proof (induction rule: ends_ends_all.inducts)
  case (Simple s)
  then show ?case by (cases s) (simp_all add: simple_def)
qed auto

lemma jumps_in_loops:
  "stmt_ok f lp E s E' \<Longrightarrow> ends s r \<Longrightarrow> r = Broke \<or> r = Continued \<Longrightarrow> lp"
  "items_ok f lp E ss E' \<Longrightarrow> ends_all ss r \<Longrightarrow> r = Broke \<or> r = Continued \<Longrightarrow> lp"
  "globals_ok f lp E ss E' \<Longrightarrow> True"
proof (induction arbitrary: r and r rule: stmt_ok_items_ok_globals_ok.inducts)
  case (Other s f lp E)
  then have "simple s" by (cases s) (simp_all add: is_statement_def simple_def)
  with Other.prems simple_ends [of s r] show ?case by auto
qed auto

lemma global_ok_member:
  "globals_ok f lp E ds E' \<Longrightarrow> d \<in> set ds \<Longrightarrow> \<not> is_var_decl d \<Longrightarrow> \<exists>E1 E2. stmt_ok f lp E1 d E2"
proof (induction ds arbitrary: E)
  case (Cons d' ds)
  from Cons.prems(1) show ?case
    by cases (use Cons in \<open>auto simp: is_var_decl_def\<close>)
qed simp

inductive_cases function_rules: "stmt_ok f lp E (AST_FUNC_DECL l x ps b r False) E'"
inductive_cases program_rules: "stmt_ok f lp E (AST_PROGRAM l ds) E'"

lemma valid_function:
  assumes "valid_program (AST_PROGRAM l ds)" "AST_FUNC_DECL m x ps b r False \<in> set ds"
    and "ends b k" "semanticTypeFromAst r \<noteq> SEM_TYPE_VOID"
  shows "k = Returned"
proof -
  obtain E E' where "globals_ok None False E ds E'"
    using assms(1) unfolding valid_program_def by (elim conjE exE program_rules) (simp_all add: is_statement_def)
  from global_ok_member [OF this assms(2)]
  obtain E1 E2 where "stmt_ok None False E1 (AST_FUNC_DECL m x ps b r False) E2"
    by (auto simp: is_var_decl_def)
  then show ?thesis
  proof (rule function_rules)
    fix E3
    assume 1: "stmt_ok (Some (x, semanticTypeFromAst r)) False (declare_params ps (Map.empty # E1)) b E3"
      and 2: "semanticTypeFromAst r = SEM_TYPE_VOID \<or> always_returns b"
    have "k \<noteq> Normal" using 2 assms(3,4) returns_not_normal(1) by blast
    moreover have "k \<noteq> Broke" "k \<noteq> Continued" using jumps_in_loops(1) [OF 1 assms(3)] by auto
    ultimately show ?thesis by (cases k) simp_all
  qed (simp add: is_statement_def)
qed

section \<open>What the analysis promises\<close>

text \<open>C6: The analyser accepts a program, that is, its error list is empty, exactly if no scope
  declares a name twice and every statement follows the typing, return and jump rules, with the
  functions of file scope visible everywhere in it.  The rules are those of the code and not in
  every case those of \<^verbatim>\<open>semantic/README.md\<close>: an assignment through a pointer, an argument and the
  elements of an array follow \<open>assignable\<close>, so an integer passes for a character; expressions of
  the error type pass; a jump in a nested function may count on a loop around it.  \<open>AnalyzerLimits\<close>
  evaluates a program for each.\<close>

theorem analyzer_accepts_valid:
  "items (errors (semanticAnalyze (AST_PROGRAM l ds))) = [] \<longleftrightarrow> valid_program (AST_PROGRAM l ds)"
  by (rule analyze_iff)

text \<open>C10: The expression checker returns a type and reports nothing exactly if the typing rules
  give the expression that type in the environment the scopes stand for.  The rule for assignments
  through a pointer asks for an assignable value, as \<^verbatim>\<open>semantic.c\<close> does, where
  \<^verbatim>\<open>semantic/README.md\<close> asks for the exact type of the pointee.\<close>

theorem checker_decides_typing:
  "checkExpression sc e es = (t, es) \<longleftrightarrow> has_type (scopeLookup sc) e t"
  by (rule check_iff)

text \<open>C12: A function with a result type that an accepted program declares at file scope never falls
  off its end, breaks or continues out of its body: every run of the body that ends, ends with a
  return.  Of a function nested in a loop this is false
  (\<open>AnalyzerLimits.jump_out_of_nested_function_accepted\<close>).\<close>

theorem accepted_functions_return:
  assumes "items (errors (semanticAnalyze (AST_PROGRAM l ds))) = []"
    and "AST_FUNC_DECL m x ps b r False \<in> set ds"
    and "semanticTypeFromAst r \<noteq> SEM_TYPE_VOID"
  shows "{k. ends b k} \<subseteq> {Returned}"
  using valid_function [of l ds m x ps b r] assms unfolding analyze_iff by blast

definition sample_body :: ast where
  "sample_body = AST_BLOCK (1, 2)
     [AST_IF (1, 3) (AST_BINARY (1, 3) AST_BINARY_GT (AST_IDENTIFIER (1, 3) ''a'') (AST_INT_LITERAL (1, 4) 0))
        (AST_BLOCK (1, 5) [AST_RETURN (1, 5) (AST_IDENTIFIER (1, 6) ''a'')])
        (AST_BLOCK (1, 7) [AST_RETURN (1, 7)
           (AST_BINARY (1, 8) AST_BINARY_SUB (AST_INT_LITERAL (1, 8) 0) (AST_IDENTIFIER (1, 9) ''a''))])]"

definition int_type :: ast where
  "int_type = AST_TYPE_NAME (1, 1) AST_TYPE_INT_KIND ''int''"

definition sample_function :: ast where
  "sample_function = AST_FUNC_DECL (1, 1) ''abs'' [AST_PARAM (1, 1) ''a'' int_type] sample_body int_type False"

lemma accepted_functions_return_witness: "{k. ends sample_body k} \<subseteq> {Returned}"
proof (rule accepted_functions_return)
  show "items (errors (semanticAnalyze (AST_PROGRAM (1, 1) [sample_function]))) = []" by code_simp
  show "AST_FUNC_DECL (1, 1) ''abs'' [AST_PARAM (1, 1) ''a'' int_type] sample_body int_type False
      \<in> set [sample_function]"
    by (simp add: sample_function_def)
  show "semanticTypeFromAst int_type \<noteq> SEM_TYPE_VOID" by code_simp
qed

text \<open>C13: The chained hash tables behave like a stack of maps: a declaration succeeds exactly at a
  name that is new in the innermost scope, then shadows the outer declarations of that name and
  no other name, and otherwise changes nothing.\<close>

theorem scope_refines_maps:
  assumes "scopes_ok (b # bs)"
  shows "case scopeDeclare (b # bs) s of (ok, sc) \<Rightarrow>
     ok = (scopeLookupCurrent (b # bs) (sname s) = None) \<and> scopes_ok sc
     \<and> scopeLookup sc = (if ok then (scopeLookup (b # bs))(sname s \<mapsto> s) else scopeLookup (b # bs))"
proof (cases "scopeLookupCurrent (b # bs) (sname s)")
  case None
  show ?thesis
    using scopeDeclare_fresh [OF assms None] scopes_ok_declare [OF assms, of s] None by (auto split: prod.split)
next
  case (Some x)
  show ?thesis using scopeDeclare_duplicate [OF assms, of s] assms Some by simp
qed

lemma scope_refines_maps_witness:
  "case scopeDeclare [new_buckets] (symbolCreateVariable ''x'' SEM_TYPE_INT) of (ok, sc) \<Rightarrow>
     ok = (scopeLookupCurrent [new_buckets] (sname (symbolCreateVariable ''x'' SEM_TYPE_INT)) = None) \<and> scopes_ok sc
     \<and> scopeLookup sc =
        (if ok then (scopeLookup [new_buckets])
               (sname (symbolCreateVariable ''x'' SEM_TYPE_INT) \<mapsto> symbolCreateVariable ''x'' SEM_TYPE_INT)
         else scopeLookup [new_buckets])"
  by (rule scope_refines_maps) (simp add: scopes_ok_def)

text \<open>C23: A value is compatible with a declared type exactly if it is assignable to it: the same
  type, an integer for a character, an array for a pointer to its elements, or an array of
  assignable elements whose size agrees or is open on one side.  So an array of integers passes for
  an array of characters, where \<^verbatim>\<open>semantic/README.md\<close> says that element types must match
  (\<open>AnalyzerLimits.narrowing_of_elements_accepted\<close>).\<close>

theorem compatibility_is_assignability:
  "semanticTypeIsCompatibleWithDecay t u \<longleftrightarrow> assignable t u"
  by (rule compatible_iff_assignable)

text \<open>C24: The error list of an analysis is a growable array with its count within its capacity, and
  every message fits the 256 byte buffer it is formatted in.\<close>

theorem analyzer_messages_bounded: "errors_ok (errors (semanticAnalyze p))"
  by (rule analyze_errors_ok)

end
