(* ===== verification/AnalyzerLimits.thy ===== *)
theory AnalyzerLimits
  imports FlowProps
begin

text \<open>
  Programs the analyser accepts although they use a name that is not declared, leave an expression
  unchecked, or break a rule of \<^verbatim>\<open>semantic/README.md\<close>.  Each program is a tree the parser builds
  from the text in its comment.
\<close>

text \<open>C25: An assignment to a name no scope declares is not reported: the checker returns the error
  type and exactly the reports of the assigned value, for every operator and value.\<close>

theorem undeclared_target_silent:
  assumes "scopeLookup sc x = None"
  shows "checkExpression sc (AST_ASSIGN l op (AST_IDENTIFIER m x) v) es
    = (SEM_TYPE_ERROR, snd (checkExpression sc v es))"
  using assms by (cases "checkExpression sc v es") (simp add: assignResult_def)

lemma undeclared_target_silent_witness:
  "checkExpression (scopeCreate [])
     (AST_ASSIGN (1, 1) AST_ASSIGN_SET (AST_IDENTIFIER (1, 1) ''y'') (AST_INT_LITERAL (1, 2) 5)) growable_init
   = (SEM_TYPE_ERROR, snd (checkExpression (scopeCreate []) (AST_INT_LITERAL (1, 2) 5) growable_init))"
  by (rule undeclared_target_silent) simp

definition main_with :: "ast list \<Rightarrow> ast" where
  "main_with ss = AST_PROGRAM (1, 1)
     [AST_FUNC_DECL (1, 1) ''f'' [] (AST_BLOCK (1, 1) ss) (AST_TYPE_NAME (1, 1) AST_TYPE_VOID_KIND ''void'') False]"

abbreviation accepts :: "ast \<Rightarrow> bool" where
  "accepts p \<equiv> items (errors (semanticAnalyze p)) = []"

text \<open>\<^verbatim>\<open>y = 5;\<close> with no declaration of \<^verbatim>\<open>y\<close>.\<close>

lemma undeclared_target_accepted:
  "accepts (main_with [AST_ASSIGN (1, 1) AST_ASSIGN_SET (AST_IDENTIFIER (1, 1) ''y'') (AST_INT_LITERAL (1, 1) 5)])"
  by code_simp

text \<open>\<^verbatim>\<open>g()();\<close> with no declaration of \<^verbatim>\<open>g\<close>.\<close>

lemma computed_callee_unchecked:
  "accepts (main_with [AST_EXPR_STMT (1, 1) (AST_CALL (1, 1) (AST_CALL (1, 1) (AST_IDENTIFIER (1, 1) ''g'') []) [])])"
  by code_simp

text \<open>\<^verbatim>\<open>for (y; true; ) { }\<close> with no declaration of \<^verbatim>\<open>y\<close>.\<close>

lemma for_init_expression_unchecked:
  "accepts (main_with [AST_FOR (1, 1) (AST_IDENTIFIER (1, 1) ''y'') (AST_BOOL_LITERAL (1, 1) True) AST_NULL
     (AST_BLOCK (1, 1) [])])"
  by code_simp

text \<open>\<^verbatim>\<open>while (true) { func g() -> void { break; } }\<close>: the loop of the outer function
  counts for the jump in the inner one.\<close>

lemma jump_out_of_nested_function_accepted:
  "accepts (main_with [AST_WHILE (1, 1) (AST_BOOL_LITERAL (1, 1) True) (AST_BLOCK (1, 1)
     [AST_FUNC_DECL (1, 1) ''g'' [] (AST_BLOCK (1, 1) [AST_BREAK (1, 1)])
        (AST_TYPE_NAME (1, 1) AST_TYPE_VOID_KIND ''void'') False])])"
  by code_simp

text \<open>\<^verbatim>\<open>while (true) { break; f(); }\<close>: only code after a return is reported as
  unreachable.\<close>

lemma code_after_break_accepted:
  "accepts (main_with [AST_WHILE (1, 1) (AST_BOOL_LITERAL (1, 1) True) (AST_BLOCK (1, 1)
     [AST_BREAK (1, 1), AST_EXPR_STMT (1, 1) (AST_CALL (1, 1) (AST_IDENTIFIER (1, 1) ''f'') [])])])"
  by code_simp

text \<open>\<^verbatim>\<open>x :: void;\<close>\<close>

lemma void_variable_accepted:
  "accepts (main_with [AST_VAR_DECL (1, 1) ''x'' (AST_TYPE_NAME (1, 1) AST_TYPE_VOID_KIND ''void'') AST_NULL])"
  by code_simp

text \<open>\<^verbatim>\<open>b :: bool = true; b += false;\<close>: a compound assignment is checked like a plain
  one.\<close>

lemma bool_increment_accepted:
  "accepts (main_with
     [AST_VAR_DECL (1, 1) ''b'' (AST_TYPE_NAME (1, 1) AST_TYPE_BOOL_KIND ''bool'') (AST_BOOL_LITERAL (1, 1) True),
      AST_ASSIGN (1, 1) AST_ASSIGN_ADD (AST_IDENTIFIER (1, 1) ''b'') (AST_BOOL_LITERAL (1, 1) False)])"
  by code_simp

section \<open>Integers for characters, and other divergences from the documented rules\<close>

abbreviation char_type :: ast where
  "char_type \<equiv> AST_TYPE_NAME (1, 1) AST_TYPE_CHAR_KIND ''char''"

abbreviation void_type :: ast where
  "void_type \<equiv> AST_TYPE_NAME (1, 1) AST_TYPE_VOID_KIND ''void''"

text \<open>\<^verbatim>\<open>p :: *char; *p = 65;\<close>: the pointee is \<^verbatim>\<open>char\<close>, the value
  \<^verbatim>\<open>int\<close>.\<close>

lemma narrowing_through_pointer_accepted:
  "accepts (main_with
     [AST_VAR_DECL (1, 1) ''p'' (AST_TYPE_POINTER (1, 1) char_type) AST_NULL,
      AST_ASSIGN (1, 1) AST_ASSIGN_SET (AST_UNARY (1, 1) AST_UNARY_DEREF (AST_IDENTIFIER (1, 1) ''p''))
        (AST_INT_LITERAL (1, 1) 65)])"
  by code_simp

text \<open>\<^verbatim>\<open>a :: char[] = {65};\<close>\<close>

lemma narrowing_of_elements_accepted:
  "accepts (main_with [AST_VAR_DECL (1, 1) ''a'' (AST_TYPE_ARRAY (1, 1) char_type AST_NULL)
     (AST_ARRAY_LITERAL (1, 1) [AST_INT_LITERAL (1, 1) 65])])"
  by code_simp

text \<open>\<^verbatim>\<open>extern func h(c :: char) -> void; func f() -> void { h(65); }\<close>\<close>

lemma narrowing_of_arguments_accepted:
  "accepts (AST_PROGRAM (1, 1)
     [AST_FUNC_DECL (1, 1) ''h'' [AST_PARAM (1, 1) ''c'' char_type] AST_NULL void_type True,
      AST_FUNC_DECL (1, 1) ''f'' []
        (AST_BLOCK (1, 1) [AST_EXPR_STMT (1, 1) (AST_CALL (1, 1) (AST_IDENTIFIER (1, 1) ''h'') [AST_INT_LITERAL (1, 1) 65])])
        void_type False])"
  by code_simp

text \<open>\<^verbatim>\<open>a :: int[2] = {1, 2, 3};\<close>: the type of a literal carries no size.\<close>

lemma longer_literal_accepted:
  "accepts (main_with [AST_VAR_DECL (1, 1) ''a''
     (AST_TYPE_ARRAY (1, 1) (AST_TYPE_NAME (1, 1) AST_TYPE_INT_KIND ''int'') (AST_INT_LITERAL (1, 1) 2))
     (AST_ARRAY_LITERAL (1, 1) [AST_INT_LITERAL (1, 1) 1, AST_INT_LITERAL (1, 1) 2, AST_INT_LITERAL (1, 1) 3])])"
  by code_simp

text \<open>\<^verbatim>\<open>x :: foo; x = true;\<close>: a name that is no type is the error type, which nothing is
  checked against.\<close>

lemma unknown_type_accepted:
  "accepts (main_with
     [AST_VAR_DECL (1, 1) ''x'' (AST_TYPE_NAME (1, 1) AST_TYPE_CUSTOM_KIND ''foo'') AST_NULL,
      AST_ASSIGN (1, 1) AST_ASSIGN_SET (AST_IDENTIFIER (1, 1) ''x'') (AST_BOOL_LITERAL (1, 1) True)])"
  by code_simp

text \<open>\<^verbatim>\<open>f() == f();\<close> where \<^verbatim>\<open>f\<close> returns nothing: equality takes operands of
  any type.\<close>

lemma void_comparison_accepted:
  "accepts (main_with [AST_EXPR_STMT (1, 1) (AST_BINARY (1, 1) AST_BINARY_EQ
     (AST_CALL (1, 1) (AST_IDENTIFIER (1, 1) ''f'') []) (AST_CALL (1, 1) (AST_IDENTIFIER (1, 1) ''f'') []))])"
  by code_simp

text \<open>\<^verbatim>\<open>func g() -> void { } g();\<close> inside a function: a nested function is declared only in
  the block scope of the first pass, so its call is reported; without the call it is accepted.\<close>

lemma nested_function_not_callable:
  "accepts (main_with [AST_FUNC_DECL (1, 1) ''g'' [] (AST_BLOCK (1, 1) []) void_type False])"
  "\<not> accepts (main_with [AST_FUNC_DECL (1, 1) ''g'' [] (AST_BLOCK (1, 1) []) void_type False,
     AST_EXPR_STMT (1, 1) (AST_CALL (1, 1) (AST_IDENTIFIER (1, 1) ''g'') [])])"
  by code_simp+

end
