(* ===== verification/IrCore.thy ===== *)
theory IrCore
  imports Scope
begin

text \<open>
  The intermediate representation: the data of \<^verbatim>\<open>include/ir.h\<close> and the operations of
  \<^verbatim>\<open>ir_core.c\<close>, \<^verbatim>\<open>ir_instr.c\<close>, \<^verbatim>\<open>ir_scope.c\<close> and
  \<^verbatim>\<open>ir_module.c\<close>.  Types, literals and operands are values, since the code clones
  them wherever they would be shared.  A null type or literal is \<open>None\<close>.  A flag with the
  member it guards (\<^verbatim>\<open>has_value\<close>, \<^verbatim>\<open>has_result\<close>,
  \<^verbatim>\<open>has_array_size\<close>, \<^verbatim>\<open>has_storage_global\<close>) is an option.  A block
  is referred to by its id.  The counters of ids are unbounded.
\<close>

section \<open>Types, literals, operands\<close>

datatype IRType =
    IR_TYPE_VOID
  | IR_TYPE_INT
  | IR_TYPE_FLOAT
  | IR_TYPE_CHAR
  | IR_TYPE_BOOL
  | IR_TYPE_ARRAY "IRType option" "nat option" \<comment> \<open>element type, size\<close>
  | IR_TYPE_POINTER IRType

definition irTypeCreateArray :: "IRType option \<Rightarrow> IRType" where
  "irTypeCreateArray t = IR_TYPE_ARRAY t None"

definition irTypeCreateSizedArray :: "IRType option \<Rightarrow> nat \<Rightarrow> IRType" where
  "irTypeCreateSizedArray t n = IR_TYPE_ARRAY t (Some n)"

definition irTypeCreatePointer :: "IRType \<Rightarrow> IRType" where
  "irTypeCreatePointer t = IR_TYPE_POINTER t"

fun is_array_type :: "IRType \<Rightarrow> bool" where
  "is_array_type (IR_TYPE_ARRAY t n) = True"
| "is_array_type _ = False"

fun is_pointer_type :: "IRType \<Rightarrow> bool" where
  "is_pointer_type (IR_TYPE_POINTER t) = True"
| "is_pointer_type _ = False"

text \<open>\<^verbatim>\<open>type->element_type\<close> and \<^verbatim>\<open>type->has_array_size\<close>.\<close>

fun element_type :: "IRType \<Rightarrow> IRType option" where
  "element_type (IR_TYPE_ARRAY t n) = t"
| "element_type (IR_TYPE_POINTER t) = Some t"
| "element_type _ = None"

fun array_size :: "IRType \<Rightarrow> nat option" where
  "array_size (IR_TYPE_ARRAY t n) = n"
| "array_size _ = None"

datatype IRLiteral =
    IR_LITERAL_INT int
  | IR_LITERAL_FLOAT double
  | IR_LITERAL_STRING string
  | IR_LITERAL_BOOL bool

datatype IROperandRef =
    IR_OPERAND_LOCAL nat
  | IR_OPERAND_PARAM nat
  | IR_OPERAND_GLOBAL nat
  | IR_OPERAND_LITERAL "IRLiteral option"
  | IR_OPERAND_BLOCK nat

record IROperand =
  otype :: "IRType option"
  oref :: IROperandRef

definition irOperandCreateLocal :: "IRType \<Rightarrow> nat \<Rightarrow> IROperand" where
  "irOperandCreateLocal t i = \<lparr>otype = Some t, oref = IR_OPERAND_LOCAL i\<rparr>"

definition irOperandCreateParam :: "IRType \<Rightarrow> nat \<Rightarrow> IROperand" where
  "irOperandCreateParam t i = \<lparr>otype = Some t, oref = IR_OPERAND_PARAM i\<rparr>"

definition irOperandCreateGlobal :: "IRType \<Rightarrow> nat \<Rightarrow> IROperand" where
  "irOperandCreateGlobal t i = \<lparr>otype = Some t, oref = IR_OPERAND_GLOBAL i\<rparr>"

definition irOperandCreateLiteral :: "IRType \<Rightarrow> IRLiteral option \<Rightarrow> IROperand" where
  "irOperandCreateLiteral t l = \<lparr>otype = Some t, oref = IR_OPERAND_LITERAL l\<rparr>"

definition irOperandCreateBlock :: "nat \<Rightarrow> IROperand" where
  "irOperandCreateBlock i = \<lparr>otype = None, oref = IR_OPERAND_BLOCK i\<rparr>"

text \<open>What lowering an expression yields: a value, the address of one, or nothing.\<close>

record IRValue =
  vtype :: "IRType option"
  vvalue :: "IROperand option"
  vaddress :: "IROperand option"

definition irValueEmpty :: IRValue where
  "irValueEmpty = \<lparr>vtype = None, vvalue = None, vaddress = None\<rparr>"

section \<open>Instructions\<close>

datatype IRBinaryKind =
    IR_INSTR_ADD | IR_INSTR_SUB | IR_INSTR_MUL | IR_INSTR_DIV | IR_INSTR_AND | IR_INSTR_OR
  | IR_INSTR_CMP_EQ | IR_INSTR_CMP_NE | IR_INSTR_CMP_LT | IR_INSTR_CMP_LE | IR_INSTR_CMP_GT | IR_INSTR_CMP_GE

datatype IRUnaryKind = IR_INSTR_NEG | IR_INSTR_NOT

datatype IRInstructionData =
    IR_INSTR_CONST IROperand
  | IR_INSTR_GLOBAL_ADDR nat
  | IR_INSTR_ALLOCA IRType
  | IR_INSTR_LOAD IROperand
  | IR_INSTR_STORE IROperand IROperand \<comment> \<open>address, value\<close>
  | IR_INSTR_GEP IROperand "IROperand list"
  | IR_INSTR_BINARY IRBinaryKind IROperand IROperand
  | IR_INSTR_UNARY IRUnaryKind IROperand
  | IR_INSTR_BR nat
  | IR_INSTR_COND_BR IROperand nat nat
  | IR_INSTR_RET "IROperand option"
  | IR_INSTR_CALL string "IROperand list"
  | IR_INSTR_CAST IROperand IRType

record IRInstruction =
  iresult :: "(nat \<times> IRType) option" \<comment> \<open>result id and type\<close>
  idata :: IRInstructionData

definition instr :: "(nat \<times> IRType) option \<Rightarrow> IRInstructionData \<Rightarrow> IRInstruction" where
  "instr r d = \<lparr>iresult = r, idata = d\<rparr>"

record IRBasicBlock =
  bid :: nat
  instructions :: "IRInstruction growable"

definition irBasicBlockCreate :: "nat \<Rightarrow> IRBasicBlock" where
  "irBasicBlockCreate i = \<lparr>bid = i, instructions = growable_init\<rparr>"

definition irBasicBlockAppendInstruction :: "IRBasicBlock \<Rightarrow> IRInstruction \<Rightarrow> IRBasicBlock" where
  "irBasicBlockAppendInstruction b i = b\<lparr>instructions := growable_append (instructions b) i\<rparr>"

section \<open>Symbols and scopes\<close>

datatype IRSymbolData =
    IR_SYMBOL_GLOBAL nat
  | IR_SYMBOL_LOCAL nat
  | IR_SYMBOL_FUNCTION IRType "IRType list" \<comment> \<open>return type, parameter types\<close>

record IRSymbol =
  irname :: string
  irtype :: IRType
  irdata :: IRSymbolData

definition irSymbolCreateGlobal :: "string \<Rightarrow> IRType \<Rightarrow> nat \<Rightarrow> IRSymbol" where
  "irSymbolCreateGlobal name t i = \<lparr>irname = name, irtype = t, irdata = IR_SYMBOL_GLOBAL i\<rparr>"

definition irSymbolCreateLocal :: "string \<Rightarrow> IRType \<Rightarrow> nat \<Rightarrow> IRSymbol" where
  "irSymbolCreateLocal name t i = \<lparr>irname = name, irtype = t, irdata = IR_SYMBOL_LOCAL i\<rparr>"

definition irSymbolCreateFunction :: "string \<Rightarrow> IRType \<Rightarrow> IRType list \<Rightarrow> IRSymbol" where
  "irSymbolCreateFunction name t ps = \<lparr>irname = name, irtype = t, irdata = IR_SYMBOL_FUNCTION t ps\<rparr>"

type_synonym IRSymbolTable = "IRSymbol buckets"

definition irHashName :: "string \<Rightarrow> nat \<Rightarrow> nat" where
  "irHashName name n = unat (djb2 name mod of_nat n)"

definition irSymbolTableCreate :: "nat \<Rightarrow> IRSymbolTable" where
  "irSymbolTableCreate n = replicate (if n = 0 then 64 else n) []"

definition irSymbolTableLookupCurrent :: "IRSymbolTable \<Rightarrow> string \<Rightarrow> IRSymbol option" where
  "irSymbolTableLookupCurrent t name = find (\<lambda>s. irname s = name) (t ! irHashName name (length t))"

definition irSymbolTableDeclare :: "IRSymbolTable \<Rightarrow> IRSymbol \<Rightarrow> bool \<times> IRSymbolTable" where
  "irSymbolTableDeclare t s =
     (if irSymbolTableLookupCurrent t (irname s) \<noteq> None then (False, t)
      else let i = irHashName (irname s) (length t) in (True, t[i := s # t ! i]))"

text \<open>A scope is the list of tables from the innermost one outwards.\<close>

type_synonym IRScope = "IRSymbolTable list"

definition irScopeCreate :: "IRScope \<Rightarrow> IRScope" where
  "irScopeCreate parent = irSymbolTableCreate 64 # parent"

definition irScopeLookupCurrent :: "IRScope \<Rightarrow> string \<Rightarrow> IRSymbol option" where
  "irScopeLookupCurrent sc name = (case sc of [] \<Rightarrow> None | t # ts \<Rightarrow> irSymbolTableLookupCurrent t name)"

fun irScopeLookup :: "IRScope \<Rightarrow> string \<Rightarrow> IRSymbol option" where
  "irScopeLookup [] name = None"
| "irScopeLookup (t # ts) name =
     (case irScopeLookupCurrent (t # ts) name of Some s \<Rightarrow> Some s | None \<Rightarrow> irScopeLookup ts name)"

definition irScopeDeclare :: "IRScope \<Rightarrow> IRSymbol \<Rightarrow> bool \<times> IRScope" where
  "irScopeDeclare sc s =
     (case sc of
        [] \<Rightarrow> (False, [])
      | t # ts \<Rightarrow> (let (ok, t) = irSymbolTableDeclare t s in (ok, t # ts)))"

text \<open>The tables are those of the semantic scopes, so the interface is interpreted again.\<close>

lemma ir_table [simp]:
  "irSymbolTableCreate 64 = new_buckets"
  "irSymbolTableLookupCurrent = bucketLookup irname"
  "irSymbolTableDeclare = bucketDeclare irname"
  by (simp_all add: fun_eq_iff irSymbolTableCreate_def new_buckets_def bucket_count_def
      irSymbolTableLookupCurrent_def irSymbolTableDeclare_def bucketLookup_def bucketDeclare_def
      irHashName_def hashName_def)

interpretation ir_table:
  symbol_table "irSymbolTableCreate 64" irSymbolTableLookupCurrent irSymbolTableDeclare irname
    "buckets_ok irname"
  unfolding ir_table by unfold_locales

section \<open>Functions, globals, modules\<close>

record IRParameter =
  pname :: string
  ptype :: IRType

record IRFunction =
  fname :: string
  return_type :: IRType
  fscope :: IRSymbolTable
  params :: "IRParameter list"
  blocks :: "IRBasicBlock growable"
  next_local_id :: nat
  next_block_id :: nat

definition irFunctionCreate :: "string \<Rightarrow> IRType \<Rightarrow> IRFunction" where
  "irFunctionCreate name t =
     \<lparr>fname = name, return_type = t, fscope = irSymbolTableCreate 64, params = [],
      blocks = growable_init, next_local_id = 1, next_block_id = 1\<rparr>"

definition irFunctionReserveLocalId :: "IRFunction \<Rightarrow> nat \<times> IRFunction" where
  "irFunctionReserveLocalId f = (next_local_id f, f\<lparr>next_local_id := next_local_id f + 1\<rparr>)"

definition irFunctionReserveBlockId :: "IRFunction \<Rightarrow> nat \<times> IRFunction" where
  "irFunctionReserveBlockId f = (next_block_id f, f\<lparr>next_block_id := next_block_id f + 1\<rparr>)"

definition irFunctionCreateBlock :: "IRFunction \<Rightarrow> IRBasicBlock \<times> IRFunction" where
  "irFunctionCreateBlock f = (let (i, f) = irFunctionReserveBlockId f in (irBasicBlockCreate i, f))"

definition irFunctionAppendBlock :: "IRFunction \<Rightarrow> IRBasicBlock \<Rightarrow> IRFunction" where
  "irFunctionAppendBlock f b = f\<lparr>blocks := growable_append (blocks f) b\<rparr>"

record IRGlobal =
  gname :: string
  gid :: nat
  gtype :: IRType
  initializer :: "IRLiteral option"
  is_constant :: bool
  storage_global_id :: "nat option"

definition irGlobalCreate :: "string \<Rightarrow> nat \<Rightarrow> IRType \<Rightarrow> IRLiteral option \<Rightarrow> IRGlobal" where
  "irGlobalCreate name i t init =
     \<lparr>gname = name, gid = i, gtype = t, initializer = init, is_constant = False, storage_global_id = None\<rparr>"

record IRModule =
  mscope :: IRSymbolTable
  globals :: "IRGlobal growable"
  mfunctions :: "IRFunction growable"

definition irModuleCreate :: IRModule where
  "irModuleCreate =
     \<lparr>mscope = irSymbolTableCreate 64, globals = growable_init, mfunctions = growable_init\<rparr>"

definition irModuleAppendGlobal :: "IRModule \<Rightarrow> IRGlobal \<Rightarrow> IRModule" where
  "irModuleAppendGlobal m g = m\<lparr>globals := growable_append (globals m) g\<rparr>"

definition irModuleAppendFunction :: "IRModule \<Rightarrow> IRFunction \<Rightarrow> IRModule" where
  "irModuleAppendFunction m f = m\<lparr>mfunctions := growable_append (mfunctions m) f\<rparr>"

text \<open>
  The builder.  The flag \<open>ub\<close> is not in the code: it records that the code would have read
  through a null pointer or the wrong member of a union.  The current function is null until
  the first body is lowered, and is not read before.
\<close>

record IRBuilder =
  module :: IRModule
  current_fun :: IRFunction
  current_block :: nat
  current_scope :: IRScope
  loop_targets :: "(nat \<times> nat) growable" \<comment> \<open>break and continue target\<close>
  ub :: bool

definition irBuilderCreate :: IRBuilder where
  "irBuilderCreate =
     \<lparr>module = irModuleCreate, current_fun = irFunctionCreate [] IR_TYPE_VOID, current_block = 0,
      current_scope = [], loop_targets = growable_init, ub = False\<rparr>"

definition undefined_behaviour :: "IRBuilder \<Rightarrow> IRBuilder" where
  "undefined_behaviour b = b\<lparr>ub := True\<rparr>"

end
