(* ===== verification/IrBuild.thy ===== *)
theory IrBuild
  imports IrCore
begin

text \<open>
  The helpers of the IR builder: \<^verbatim>\<open>src/ir/ir_builder_utils.c\<close> and the string
  storage of \<^verbatim>\<open>ir_builder_module.c\<close>.  An operation takes the builder last and
  returns it updated; a result that is false only when memory is exhausted is left out.
\<close>

section \<open>String literals\<close>

fun decodeEscapedChar :: "char \<Rightarrow> char" where
  "decodeEscapedChar c =
     (if c = CHR ''n'' then CHR 0x0A
      else if c = CHR ''t'' then CHR 0x09
      else if c = CHR ''0'' then CHR 0x00
      else c)"

text \<open>The loop over the characters between the quotes.\<close>

fun unescape :: "string \<Rightarrow> string" where
  "unescape [] = []"
| "unescape [c] = [c]"
| "unescape (c # d # s) =
     (if c = CHR 0x5C then decodeEscapedChar d # unescape s else c # unescape (d # s))"

definition is_quoted :: "string \<Rightarrow> bool" where
  "is_quoted s \<longleftrightarrow> 2 \<le> length s
     \<and> ((hd s = CHR 0x22 \<and> last s = CHR 0x22) \<or> (hd s = CHR 0x27 \<and> last s = CHR 0x27))"

definition irBuilderUnquoteString :: "string \<Rightarrow> string" where
  "irBuilderUnquoteString s = c_string (if is_quoted s then unescape (butlast (tl s)) else s)"

definition irBuilderStringLiteralLength :: "string \<Rightarrow> nat" where
  "irBuilderStringLiteralLength s = length (irBuilderUnquoteString s)"

text \<open>\<^verbatim>\<open>(long)\<close> of a \<^verbatim>\<open>char\<close>, which is signed on the compiler's
  target.\<close>

definition char_to_long :: "char \<Rightarrow> int" where
  "char_to_long c = (if of_char c < (128 :: int) then of_char c else of_char c - 256)"

section \<open>Types\<close>

function irBuilderTypeFromAst :: "ast \<Rightarrow> IRType option" where
  "irBuilderTypeFromAst t =
     (case t of
        AST_TYPE_POINTER l u \<Rightarrow> map_option irTypeCreatePointer (irBuilderTypeFromAst u)
      | AST_TYPE_ARRAY l u e \<Rightarrow>
          (let el = irBuilderTypeFromAst (skip_sizeless e u)
           in Some (case array_size_of e of
                      Some n \<Rightarrow> irTypeCreateSizedArray el n
                    | None \<Rightarrow> irTypeCreateArray el))
      | AST_TYPE_NAME l k name \<Rightarrow>
          (case k of
             AST_TYPE_INT_KIND \<Rightarrow> Some IR_TYPE_INT
           | AST_TYPE_FLOAT_KIND \<Rightarrow> Some IR_TYPE_FLOAT
           | AST_TYPE_CHAR_KIND \<Rightarrow> Some IR_TYPE_CHAR
           | AST_TYPE_BOOL_KIND \<Rightarrow> Some IR_TYPE_BOOL
           | AST_TYPE_VOID_KIND \<Rightarrow> Some IR_TYPE_VOID
           | _ \<Rightarrow> None)
      | _ \<Rightarrow> None)"
  by pat_completeness auto
termination
  by (relation "measure size") (auto simp: le_imp_less_Suc trans_le_add1 size_skip_sizeless)

declare irBuilderTypeFromAst.simps [simp del]

text \<open>\<^verbatim>\<open>irBuilderArrayDepth\<close>.\<close>

fun irBuilderArrayDepth :: "IRType \<Rightarrow> nat" where
  "irBuilderArrayDepth (IR_TYPE_ARRAY (Some t) n) = Suc (irBuilderArrayDepth t)"
| "irBuilderArrayDepth (IR_TYPE_ARRAY None n) = 1"
| "irBuilderArrayDepth _ = 0"

fun is_array_literal :: "ast \<Rightarrow> bool" where
  "is_array_literal (AST_ARRAY_LITERAL l xs) = True"
| "is_array_literal _ = False"

fun is_string_literal :: "ast \<Rightarrow> bool" where
  "is_string_literal (AST_STRING_LITERAL l s) = True"
| "is_string_literal _ = False"

text \<open>The inner option is the null pointer; \<open>None\<close> outside is a null element being
  read.\<close>

fun irBuilderInferArrayTypeFromLiteral :: "IRType \<Rightarrow> ast \<Rightarrow> IRType option option" where
  "irBuilderInferArrayTypeFromLiteral (IR_TYPE_ARRAY (Some t) n) literal =
     (case literal of
        AST_ARRAY_LITERAL l xs \<Rightarrow>
          if is_array_type t \<and> xs \<noteq> [] then
            (if hd xs = AST_NULL then None
             else if is_array_literal (hd xs) then
               (case irBuilderInferArrayTypeFromLiteral t (hd xs) of
                  None \<Rightarrow> None
                | Some None \<Rightarrow> Some None
                | Some (Some el) \<Rightarrow> Some (Some (irTypeCreateSizedArray (Some el) (length xs))))
             else Some (Some (irTypeCreateSizedArray (Some t) (length xs))))
          else Some (Some (irTypeCreateSizedArray (Some t) (length xs)))
      | _ \<Rightarrow> Some (Some (IR_TYPE_ARRAY (Some t) n)))"
| "irBuilderInferArrayTypeFromLiteral (IR_TYPE_ARRAY None n) literal =
     (if is_array_literal literal then Some None else Some (Some (IR_TYPE_ARRAY None n)))"
| "irBuilderInferArrayTypeFromLiteral t literal = Some (Some t)"

section \<open>Emitting instructions\<close>

definition irBuilderReserveResult :: "IRBuilder \<Rightarrow> nat \<times> IRBuilder" where
  "irBuilderReserveResult b =
     (let (i, f) = irFunctionReserveLocalId (current_fun b) in (i, b\<lparr>current_fun := f\<rparr>))"

text \<open>Appending to the current block of the function.\<close>

definition append_to_block :: "nat \<Rightarrow> IRInstruction \<Rightarrow> IRFunction \<Rightarrow> IRFunction" where
  "append_to_block k i f =
     f\<lparr>blocks := (blocks f)\<lparr>items :=
         map (\<lambda>bb. if bid bb = k then irBasicBlockAppendInstruction bb i else bb) (items (blocks f))\<rparr>\<rparr>"

definition irBuilderAppendInstruction :: "IRInstruction \<Rightarrow> IRBuilder \<Rightarrow> IRBuilder" where
  "irBuilderAppendInstruction i b = b\<lparr>current_fun := append_to_block (current_block b) i (current_fun b)\<rparr>"

definition is_terminator :: "IRInstruction \<Rightarrow> bool" where
  "is_terminator i = (case idata i of
     IR_INSTR_RET v \<Rightarrow> True | IR_INSTR_BR t \<Rightarrow> True | IR_INSTR_COND_BR c t e \<Rightarrow> True | _ \<Rightarrow> False)"

definition terminated :: "IRBasicBlock \<Rightarrow> bool" where
  "terminated bb \<longleftrightarrow> items (instructions bb) \<noteq> [] \<and> is_terminator (last (items (instructions bb)))"

definition block_of :: "IRFunction \<Rightarrow> nat \<Rightarrow> IRBasicBlock option" where
  "block_of f k = find (\<lambda>bb. bid bb = k) (items (blocks f))"

definition irBuilderCurrentBlockHasTerminator :: "IRBuilder \<Rightarrow> bool" where
  "irBuilderCurrentBlockHasTerminator b =
     (case block_of (current_fun b) (current_block b) of None \<Rightarrow> False | Some bb \<Rightarrow> terminated bb)"

text \<open>An instruction with a result: its id is reserved, the instruction appended.\<close>

definition emit_result :: "IRType \<Rightarrow> IRInstructionData \<Rightarrow> IRBuilder \<Rightarrow> nat \<times> IRBuilder" where
  "emit_result t d b =
     (let (i, b) = irBuilderReserveResult b in (i, irBuilderAppendInstruction (instr (Some (i, t)) d) b))"

definition a_value :: "IRType \<Rightarrow> IROperand \<Rightarrow> IRValue" where
  "a_value t v = \<lparr>vtype = Some t, vvalue = Some v, vaddress = None\<rparr>"

definition an_address :: "IRType option \<Rightarrow> IROperand \<Rightarrow> IRValue" where
  "an_address t a = \<lparr>vtype = t, vvalue = None, vaddress = Some a\<rparr>"

definition irBuilderEmitLoad :: "IROperand \<Rightarrow> IRType option \<Rightarrow> IRBuilder \<Rightarrow> IRValue \<times> IRBuilder" where
  "irBuilderEmitLoad address t b =
     (case t of
        None \<Rightarrow> (irValueEmpty, b)
      | Some t \<Rightarrow> (let (i, b) = emit_result t (IR_INSTR_LOAD address) b
                   in (a_value t (irOperandCreateLocal t i), b)))"

definition irBuilderEmitBinary ::
  "IRBinaryKind \<Rightarrow> IROperand \<Rightarrow> IROperand \<Rightarrow> IRType option \<Rightarrow> IRBuilder \<Rightarrow> IRValue \<times> IRBuilder" where
  "irBuilderEmitBinary k left right t b =
     (case t of
        None \<Rightarrow> (irValueEmpty, b)
      | Some t \<Rightarrow> (let (i, b) = emit_result t (IR_INSTR_BINARY k left right) b
                   in (a_value t (irOperandCreateLocal t i), b)))"

definition irBuilderEmitUnary ::
  "IRUnaryKind \<Rightarrow> IROperand \<Rightarrow> IRType option \<Rightarrow> IRBuilder \<Rightarrow> IRValue \<times> IRBuilder" where
  "irBuilderEmitUnary k v t b =
     (case t of
        None \<Rightarrow> (irValueEmpty, b)
      | Some t \<Rightarrow> (let (i, b) = emit_result t (IR_INSTR_UNARY k v) b
                   in (a_value t (irOperandCreateLocal t i), b)))"

definition irBuilderEmitGep ::
  "IROperand \<Rightarrow> IROperand list \<Rightarrow> IRType option \<Rightarrow> IRBuilder \<Rightarrow> IRValue \<times> IRBuilder" where
  "irBuilderEmitGep base indices t b =
     (case t of
        None \<Rightarrow> (irValueEmpty, b)
      | Some t \<Rightarrow> (let p = irTypeCreatePointer t; (i, b) = emit_result p (IR_INSTR_GEP base indices) b
                   in (an_address (Some t) (irOperandCreateLocal p i), b)))"

definition irBuilderEmitStore :: "IROperand \<Rightarrow> IROperand \<Rightarrow> IRBuilder \<Rightarrow> IRBuilder" where
  "irBuilderEmitStore address v b = irBuilderAppendInstruction (instr None (IR_INSTR_STORE address v)) b"

definition irBuilderEmitBranch :: "nat \<Rightarrow> IRBuilder \<Rightarrow> IRBuilder" where
  "irBuilderEmitBranch target b = irBuilderAppendInstruction (instr None (IR_INSTR_BR target)) b"

definition irBuilderEmitCondBranch :: "IROperand \<Rightarrow> nat \<Rightarrow> nat \<Rightarrow> IRBuilder \<Rightarrow> IRBuilder" where
  "irBuilderEmitCondBranch c t e b = irBuilderAppendInstruction (instr None (IR_INSTR_COND_BR c t e)) b"

definition int_operand :: "int \<Rightarrow> IROperand" where
  "int_operand v = irOperandCreateLiteral IR_TYPE_INT (Some (IR_LITERAL_INT v))"

definition irBuilderLiteralValue :: "IRType \<Rightarrow> IRLiteral \<Rightarrow> IRValue" where
  "irBuilderLiteralValue t literal = a_value t (irOperandCreateLiteral t (Some literal))"

text \<open>A \<^verbatim>\<open>getelementptr\<close> whose address is used as a value.\<close>

definition address_as_value :: "IRValue \<Rightarrow> IRValue" where
  "address_as_value v =
     (case vaddress v of
        None \<Rightarrow> irValueEmpty
      | Some a \<Rightarrow> (case otype a of None \<Rightarrow> irValueEmpty | Some t \<Rightarrow> a_value t a))"

definition irBuilderDecayArrayToPointer :: "IRValue \<Rightarrow> IRBuilder \<Rightarrow> IRValue \<times> IRBuilder" where
  "irBuilderDecayArrayToPointer v b =
     (case (vaddress v, vtype v) of
        (Some a, Some (IR_TYPE_ARRAY (Some t) n)) \<Rightarrow>
          (let (g, b) = irBuilderEmitGep a [int_operand 0, int_operand 0] (Some t) b
           in (address_as_value g, b))
      | _ \<Rightarrow> (irValueEmpty, b))"

section \<open>Loop targets\<close>

definition irBuilderPushLoopTarget :: "nat \<Rightarrow> nat \<Rightarrow> IRBuilder \<Rightarrow> IRBuilder" where
  "irBuilderPushLoopTarget brk cont b = b\<lparr>loop_targets := growable_append (loop_targets b) (brk, cont)\<rparr>"

definition irBuilderPopLoopTarget :: "IRBuilder \<Rightarrow> IRBuilder" where
  "irBuilderPopLoopTarget b = b\<lparr>loop_targets := (loop_targets b)\<lparr>items := butlast (items (loop_targets b))\<rparr>\<rparr>"

definition irBuilderCurrentLoopTarget :: "IRBuilder \<Rightarrow> (nat \<times> nat) option" where
  "irBuilderCurrentLoopTarget b =
     (if items (loop_targets b) = [] then None else Some (last (items (loop_targets b))))"

section \<open>String storage\<close>

definition irBuilderNextGlobalId :: "IRBuilder \<Rightarrow> nat" where
  "irBuilderNextGlobalId b = length (items (globals (module b))) + 1"

definition append_global :: "IRGlobal \<Rightarrow> IRBuilder \<Rightarrow> IRBuilder" where
  "append_global g b = b\<lparr>module := irModuleAppendGlobal (module b) g\<rparr>"

text \<open>A constant with the decoded characters and the terminating zero.\<close>

definition irBuilderAddStringStorage :: "string \<Rightarrow> IRBuilder \<Rightarrow> nat \<times> IRBuilder" where
  "irBuilderAddStringStorage v b =
     (let i = irBuilderNextGlobalId b;
          name = snprintf 32 (''.str.'' @ show_nat i);
          s = irBuilderUnquoteString v;
          t = irTypeCreateSizedArray (Some IR_TYPE_CHAR) (length s + 1);
          g = irGlobalCreate name i t (Some (IR_LITERAL_STRING s))
      in (i, append_global (g\<lparr>is_constant := True\<rparr>) b))"

end
