(* ===== verification/IrExpr.thy ===== *)
theory IrExpr
  imports IrBuild
begin

text \<open>
  Lowering of expressions: \<^verbatim>\<open>src/ir/ir_builder_expr.c\<close>.
\<close>

section \<open>Leaves\<close>

text \<open>A local symbol is a stack slot, whose address is the value; a global one is its own
  address.\<close>

definition irBuilderLowerIdentifier :: "string \<Rightarrow> IRBuilder \<Rightarrow> IRValue" where
  "irBuilderLowerIdentifier name b =
     (case irScopeLookup (current_scope b) name of
        None \<Rightarrow> irValueEmpty
      | Some s \<Rightarrow>
          (case irdata s of
             IR_SYMBOL_LOCAL i \<Rightarrow>
               if is_pointer_type (irtype s) then an_address (element_type (irtype s)) (irOperandCreateLocal (irtype s) i)
               else irValueEmpty
           | IR_SYMBOL_GLOBAL i \<Rightarrow>
               an_address (Some (irtype s)) (irOperandCreateGlobal (irTypeCreatePointer (irtype s)) i)
           | IR_SYMBOL_FUNCTION t ps \<Rightarrow> irValueEmpty))"

definition irBuilderLowerStringLiteralRValue :: "string \<Rightarrow> IRBuilder \<Rightarrow> IRValue \<times> IRBuilder" where
  "irBuilderLowerStringLiteralRValue v b =
     (let (i, b) = irBuilderAddStringStorage v b;
          t = irTypeCreateSizedArray (Some IR_TYPE_CHAR) (irBuilderStringLiteralLength v + 1);
          base = irOperandCreateGlobal (irTypeCreatePointer t) i;
          (g, b) = irBuilderEmitGep base [int_operand 0, int_operand 0] (Some IR_TYPE_CHAR) b
      in (case vaddress g of
            None \<Rightarrow> irValueEmpty
          | Some a \<Rightarrow> a_value (irTypeCreatePointer IR_TYPE_CHAR) a, b))"

text \<open>The value at a lowered address.\<close>

definition load_value :: "IRValue \<times> IRBuilder \<Rightarrow> IRValue \<times> IRBuilder" where
  "load_value r =
     (let (v, b) = r
      in case (vaddress v, vtype v) of
           (Some a, Some t) \<Rightarrow> irBuilderEmitLoad a (Some t) b
         | _ \<Rightarrow> (irValueEmpty, b))"

section \<open>Operators\<close>

definition irBuilderLowerPointerArithmetic ::
  "AstBinaryOp \<Rightarrow> IRType \<Rightarrow> IROperand \<Rightarrow> IROperand \<Rightarrow> IRBuilder \<Rightarrow> IRValue \<times> IRBuilder" where
  "irBuilderLowerPointerArithmetic op t left right b =
     (let (offset, b) =
            (if op = AST_BINARY_SUB then
               (let (n, b) = irBuilderEmitBinary IR_INSTR_SUB (int_operand 0) right (Some IR_TYPE_INT) b
                in (vvalue n, b))
             else (Some right, b))
      in case offset of
           None \<Rightarrow> (irValueEmpty, b)
         | Some offset \<Rightarrow>
             (let (g, b) = irBuilderEmitGep left [offset] (element_type t) b
              in (address_as_value g, b)))"

text \<open>The instruction of an operator and the type of its result, given the left type.\<close>

fun binary_instr :: "AstBinaryOp \<Rightarrow> IRBinaryKind" where
  "binary_instr AST_BINARY_ADD = IR_INSTR_ADD"
| "binary_instr AST_BINARY_SUB = IR_INSTR_SUB"
| "binary_instr AST_BINARY_MUL = IR_INSTR_MUL"
| "binary_instr AST_BINARY_DIV = IR_INSTR_DIV"
| "binary_instr AST_BINARY_AND = IR_INSTR_AND"
| "binary_instr AST_BINARY_OR = IR_INSTR_OR"
| "binary_instr AST_BINARY_GT = IR_INSTR_CMP_GT"
| "binary_instr AST_BINARY_LT = IR_INSTR_CMP_LT"
| "binary_instr AST_BINARY_LTE = IR_INSTR_CMP_LE"
| "binary_instr AST_BINARY_GTE = IR_INSTR_CMP_GE"
| "binary_instr AST_BINARY_EQ = IR_INSTR_CMP_EQ"
| "binary_instr AST_BINARY_NEQ = IR_INSTR_CMP_NE"

definition binary_type :: "AstBinaryOp \<Rightarrow> IRType \<Rightarrow> IRType" where
  "binary_type op t =
     (if op \<in> {AST_BINARY_ADD, AST_BINARY_SUB, AST_BINARY_MUL, AST_BINARY_DIV} then t else IR_TYPE_BOOL)"

definition lower_binary ::
  "AstBinaryOp \<Rightarrow> IRValue \<Rightarrow> IRValue \<Rightarrow> IRBuilder \<Rightarrow> IRValue \<times> IRBuilder" where
  "lower_binary op left right b =
     (case (vvalue left, vvalue right, vtype left) of
        (Some l, Some r, Some t) \<Rightarrow>
          if op \<in> {AST_BINARY_ADD, AST_BINARY_SUB} \<and> is_pointer_type t
          then irBuilderLowerPointerArithmetic op t l r b
          else irBuilderEmitBinary (binary_instr op) l r (Some (binary_type op t)) b
      | _ \<Rightarrow> (irValueEmpty, b))"

definition lower_unary :: "AstUnaryOp \<Rightarrow> IRValue \<Rightarrow> IRBuilder \<Rightarrow> IRValue \<times> IRBuilder" where
  "lower_unary op v b =
     (case vvalue v of
        None \<Rightarrow> (irValueEmpty, b)
      | Some x \<Rightarrow>
          if op = AST_UNARY_NOT then irBuilderEmitUnary IR_INSTR_NOT x (Some IR_TYPE_BOOL) b
          else if op = AST_UNARY_NEGATE then irBuilderEmitUnary IR_INSTR_NEG x (vtype v) b
          else (irValueEmpty, b))"

text \<open>The address a dereferenced pointer value stands for.\<close>

definition pointee :: "IRValue \<Rightarrow> IRValue" where
  "pointee p =
     (case (vvalue p, vtype p) of
        (Some v, Some (IR_TYPE_POINTER t)) \<Rightarrow> an_address (Some t) v
      | _ \<Rightarrow> irValueEmpty)"

definition emit_call :: "string \<Rightarrow> IROperand list \<Rightarrow> IRType \<Rightarrow> IRBuilder \<Rightarrow> IRValue \<times> IRBuilder" where
  "emit_call name args t b =
     (if t = IR_TYPE_VOID then
        (irValueEmpty, irBuilderAppendInstruction (instr None (IR_INSTR_CALL name args)) b)
      else (let (i, b) = emit_result t (IR_INSTR_CALL name args) b
            in (a_value t (irOperandCreateLocal t i), b)))"

text \<open>\<^verbatim>\<open>callee->data.function.param_types\<close>: nothing to read if the symbol is not a
  function.\<close>

definition symbol_params :: "IRSymbol \<Rightarrow> IRType list" where
  "symbol_params s = (case irdata s of IR_SYMBOL_FUNCTION t ps \<Rightarrow> ps | _ \<Rightarrow> [])"

definition has_array_address :: "IRValue \<Rightarrow> bool" where
  "has_array_address v \<longleftrightarrow> vaddress v \<noteq> None \<and> (case vtype v of None \<Rightarrow> False | Some t \<Rightarrow> is_array_type t)"

fun string_value :: "ast \<Rightarrow> string" where
  "string_value (AST_STRING_LITERAL l s) = s"
| "string_value _ = []"

section \<open>Expressions\<close>

function irBuilderLowerLValue :: "ast \<Rightarrow> IRBuilder \<Rightarrow> IRValue \<times> IRBuilder"
and irBuilderLowerArrayAccess :: "ast \<Rightarrow> ast list \<Rightarrow> IRBuilder \<Rightarrow> IRValue \<times> IRBuilder"
and lower_indices :: "IRType \<Rightarrow> ast list \<Rightarrow> IRBuilder \<Rightarrow> (IROperand list \<times> IRType) option \<times> IRBuilder"
and irBuilderLowerRValue :: "ast \<Rightarrow> IRBuilder \<Rightarrow> IRValue \<times> IRBuilder"
and irBuilderLowerValueForExpectedType :: "ast \<Rightarrow> IRType \<Rightarrow> IRBuilder \<Rightarrow> IRValue \<times> IRBuilder"
and lower_args :: "ast list \<Rightarrow> IRType list \<Rightarrow> IRBuilder \<Rightarrow> IROperand list option \<times> IRBuilder"
where
  "irBuilderLowerLValue node b =
     (case node of
        AST_IDENTIFIER l name \<Rightarrow> (irBuilderLowerIdentifier name b, b)
      | AST_ARRAY_ACCESS l base indices \<Rightarrow> irBuilderLowerArrayAccess base indices b
      | AST_UNARY l op e \<Rightarrow>
          if op = AST_UNARY_DEREF then
            (let (p, b) = irBuilderLowerRValue e b in (pointee p, b))
          else (irValueEmpty, b)
      | _ \<Rightarrow> (irValueEmpty, b))"
| "irBuilderLowerArrayAccess base indices b =
     (let (v, b) = irBuilderLowerLValue base b
      in case (vaddress v, vtype v) of
           (Some a, Some (IR_TYPE_ARRAY t n)) \<Rightarrow>
             if indices = [] then (irValueEmpty, b)
             else (let (r, b) = lower_indices (IR_TYPE_ARRAY t n) indices b
                   in case r of
                        None \<Rightarrow> (irValueEmpty, b)
                      | Some (ops, u) \<Rightarrow> irBuilderEmitGep a (int_operand 0 # ops) (Some u) b)
         | _ \<Rightarrow> (irValueEmpty, b))"
| "lower_indices t [] b = (Some ([], t), b)"
| "lower_indices t (i # is) b =
     (case t of
        IR_TYPE_ARRAY (Some u) n \<Rightarrow>
          (let (v, b) = irBuilderLowerRValue i b
           in case vvalue v of
                None \<Rightarrow> (None, b)
              | Some x \<Rightarrow>
                  (let (r, b) = lower_indices u is b
                   in (map_option (\<lambda>(ops, w). (x # ops, w)) r, b)))
      | _ \<Rightarrow> (None, b))"
| "irBuilderLowerRValue node b =
     (case node of
        AST_INT_LITERAL l v \<Rightarrow> (irBuilderLiteralValue IR_TYPE_INT (IR_LITERAL_INT v), b)
      | AST_FLOAT_LITERAL l v \<Rightarrow> (irBuilderLiteralValue IR_TYPE_FLOAT (IR_LITERAL_FLOAT v), b)
      | AST_CHAR_LITERAL l v \<Rightarrow>
          (irBuilderLiteralValue IR_TYPE_CHAR (IR_LITERAL_INT (char_to_long v)), b)
      | AST_BOOL_LITERAL l v \<Rightarrow> (irBuilderLiteralValue IR_TYPE_BOOL (IR_LITERAL_BOOL v), b)
      | AST_STRING_LITERAL l v \<Rightarrow> irBuilderLowerStringLiteralRValue v b
      | AST_IDENTIFIER l name \<Rightarrow> load_value (irBuilderLowerIdentifier name b, b)
      | AST_ARRAY_ACCESS l base indices \<Rightarrow> load_value (irBuilderLowerArrayAccess base indices b)
      | AST_UNARY l op e \<Rightarrow>
          if op = AST_UNARY_ADDRESS_OF then
            (let (v, b) = irBuilderLowerLValue e b in (address_as_value v, b))
          else if op = AST_UNARY_DEREF then load_value (irBuilderLowerLValue node b)
          else (let (v, b) = irBuilderLowerRValue e b in lower_unary op v b)
      | AST_CALL l callee args \<Rightarrow>
          (case callee of
             AST_IDENTIFIER m name \<Rightarrow>
               (case irScopeLookup [mscope (module b)] name of
                  None \<Rightarrow> (irValueEmpty, b)
                | Some s \<Rightarrow>
                    (let (ops, b) = lower_args args (symbol_params s) b
                     in case ops of
                          None \<Rightarrow> (irValueEmpty, b)
                        | Some ops \<Rightarrow> emit_call name ops (irtype s) b))
           | AST_NULL \<Rightarrow> (irValueEmpty, undefined_behaviour b)
           | _ \<Rightarrow> (irValueEmpty, b))
      | AST_BINARY l op x y \<Rightarrow>
          (let (left, b) = irBuilderLowerRValue x b;
               (right, b) = irBuilderLowerRValue y b
           in lower_binary op left right b)
      | _ \<Rightarrow> (irValueEmpty, b))"
| "irBuilderLowerValueForExpectedType node t b =
     (if is_pointer_type t then
        (if is_string_literal node then irBuilderLowerStringLiteralRValue (string_value node) b
         else (let (v, b) = irBuilderLowerLValue node b
               in if has_array_address v then irBuilderDecayArrayToPointer v b
                  else irBuilderLowerRValue node b))
      else irBuilderLowerRValue node b)"
| "lower_args [] ts b = (Some [], b)"
| "lower_args (a # as) [] b = (None, undefined_behaviour b)"
| "lower_args (a # as) (t # ts) b =
     (let (v, b) = irBuilderLowerValueForExpectedType a t b
      in case vvalue v of
           None \<Rightarrow> (None, b)
         | Some x \<Rightarrow>
             (let (ops, b) = lower_args as ts b
              in (map_option (\<lambda>ops. x # ops) ops, b)))"
  by pat_completeness auto
termination
  by (relation "measure (\<lambda>x. case x of
        Inl (Inl (e, b)) \<Rightarrow> 4 * size e
      | Inl (Inr (Inl (e, is, b))) \<Rightarrow> 4 * (size e + size_list size is) + 1
      | Inl (Inr (Inr (t, is, b))) \<Rightarrow> 4 * size_list size is
      | Inr (Inl (e, b)) \<Rightarrow> 4 * size e + 1
      | Inr (Inr (Inl (e, t, b))) \<Rightarrow> 4 * size e + 2
      | Inr (Inr (Inr (as, ts, b))) \<Rightarrow> 4 * size_list size as)") auto

lemmas lower_unfold = irBuilderLowerLValue.simps irBuilderLowerRValue.simps
  irBuilderLowerValueForExpectedType.simps irBuilderLowerArrayAccess.simps

declare lower_unfold [simp del]

end
