(* ===== verification/IrStmt.thy ===== *)
theory IrStmt
  imports IrExpr
begin

text \<open>
  Lowering of statements: \<^verbatim>\<open>src/ir/ir_builder_stmt.c\<close>.  The flag of a result is
  the \<^verbatim>\<open>bool\<close> the C function returns.
\<close>

section \<open>Initializers\<close>

fun literal_elements :: "ast \<Rightarrow> ast list" where
  "literal_elements (AST_ARRAY_LITERAL l xs) = xs"
| "literal_elements _ = []"

lemma size_literal_elements: "is_array_literal e \<Longrightarrow> size_list size (literal_elements e) < size e"
  by (cases e) simp_all

text \<open>The elements of an array literal from number \<open>i\<close> on; \<open>path\<close> are the indices of
  the enclosing literals.\<close>

function irBuilderStoreArrayLiteralElements ::
  "IROperand \<Rightarrow> IRType \<Rightarrow> int list \<Rightarrow> int \<Rightarrow> ast list \<Rightarrow> IRBuilder \<Rightarrow> bool \<times> IRBuilder" where
  "irBuilderStoreArrayLiteralElements base t path i [] b = (True, b)"
| "irBuilderStoreArrayLiteralElements base t path i (e # es) b =
     (if e = AST_NULL then (False, undefined_behaviour b)
      else if is_array_literal e then
        (case element_type t of
           None \<Rightarrow> (False, b)
         | Some u \<Rightarrow>
             if \<not> is_array_type u then (False, b)
             else (let (ok, b) = irBuilderStoreArrayLiteralElements base u (path @ [i]) 0 (literal_elements e) b
                   in if ok then irBuilderStoreArrayLiteralElements base t path (i + 1) es b
                      else (False, b)))
      else
        (let (slot, b) = irBuilderEmitGep base (int_operand 0 # map int_operand (path @ [i])) (element_type t) b;
             (v, b) = irBuilderLowerRValue e b
         in case (vaddress slot, vvalue v) of
              (Some a, Some x) \<Rightarrow>
                irBuilderStoreArrayLiteralElements base t path (i + 1) es (irBuilderEmitStore a x b)
            | _ \<Rightarrow> (False, b)))"
  by pat_completeness auto
termination
  by (relation "measure (\<lambda>(base, t, path, i, es, b). size_list size es)")
     (auto dest: size_literal_elements)

text \<open>One store per element of the array, zeros after the string.\<close>

fun store_chars :: "IROperand \<Rightarrow> int \<Rightarrow> int list \<Rightarrow> IRBuilder \<Rightarrow> IRBuilder" where
  "store_chars base i [] b = b"
| "store_chars base i (c # cs) b =
     (let (slot, b) = irBuilderEmitGep base [int_operand 0, int_operand i] (Some IR_TYPE_CHAR) b
      in case vaddress slot of
           None \<Rightarrow> b
         | Some a \<Rightarrow>
             store_chars base (i + 1) cs
               (irBuilderEmitStore a (irOperandCreateLiteral IR_TYPE_CHAR (Some (IR_LITERAL_INT c))) b))"

definition padded_chars :: "nat \<Rightarrow> string \<Rightarrow> int list" where
  "padded_chars n s = map (\<lambda>i. if i < length s then of_char (s ! i) else 0) [0..<n]"

definition irBuilderStoreStringLiteralElements ::
  "IROperand \<Rightarrow> IRType \<Rightarrow> string \<Rightarrow> IRBuilder \<Rightarrow> bool \<times> IRBuilder" where
  "irBuilderStoreStringLiteralElements base t s b =
     (case t of
        IR_TYPE_ARRAY (Some IR_TYPE_CHAR) (Some n) \<Rightarrow>
          (True, store_chars base 0 (padded_chars n (irBuilderUnquoteString s)) b)
      | _ \<Rightarrow> (False, b))"

section \<open>Declarations, assignments, returns\<close>

definition inferred_type :: "IRType \<Rightarrow> ast \<Rightarrow> IRType option option" where
  "inferred_type t i =
     (if is_array_type t \<and> array_size t = None \<and> is_array_literal i then irBuilderInferArrayTypeFromLiteral t i
      else if is_array_type t \<and> array_size t = None \<and> element_type t = Some IR_TYPE_CHAR \<and> is_string_literal i
      then Some (Some (irTypeCreateSizedArray (Some IR_TYPE_CHAR) (irBuilderStringLiteralLength (string_value i) + 1)))
      else Some (Some t))"

text \<open>The stores of an initializer into a new slot.\<close>

definition store_initializer :: "IROperand \<Rightarrow> IRType \<Rightarrow> ast \<Rightarrow> IRBuilder \<Rightarrow> bool \<times> IRBuilder" where
  "store_initializer slot t i b =
     (if i = AST_NULL then (True, b)
      else if is_array_type t \<and> is_array_literal i then
        irBuilderStoreArrayLiteralElements slot t [] 0 (literal_elements i) b
      else if is_array_type t \<and> element_type t = Some IR_TYPE_CHAR \<and> is_string_literal i then
        irBuilderStoreStringLiteralElements slot t (string_value i) b
      else (let (v, b) = irBuilderLowerValueForExpectedType i t b
            in case vvalue v of
                 None \<Rightarrow> (False, b)
               | Some x \<Rightarrow> (True, irBuilderEmitStore slot x b)))"

definition irBuilderLowerVarDecl :: "string \<Rightarrow> ast \<Rightarrow> ast \<Rightarrow> IRBuilder \<Rightarrow> bool \<times> IRBuilder" where
  "irBuilderLowerVarDecl name t i b =
     (case irBuilderTypeFromAst t of
        None \<Rightarrow> (False, b)
      | Some t \<Rightarrow>
          (case inferred_type t i of
             None \<Rightarrow> (False, undefined_behaviour b)
           | Some None \<Rightarrow> (False, b)
           | Some (Some t) \<Rightarrow>
               (let p = irTypeCreatePointer t;
                    (k, b) = irBuilderReserveResult b;
                    (ok, sc) = irScopeDeclare (current_scope b) (irSymbolCreateLocal name p k)
                in if \<not> ok then (False, b)
                   else (let b = b\<lparr>current_scope := sc\<rparr>;
                             b = irBuilderAppendInstruction (instr (Some (k, p)) (IR_INSTR_ALLOCA t)) b
                         in store_initializer (irOperandCreateLocal p k) t i b))))"

definition assign_instr :: "AstAssignOp \<Rightarrow> IRBinaryKind" where
  "assign_instr op = (if op = AST_ASSIGN_ADD then IR_INSTR_ADD else IR_INSTR_SUB)"

definition irBuilderLowerAssign :: "AstAssignOp \<Rightarrow> ast \<Rightarrow> ast \<Rightarrow> IRBuilder \<Rightarrow> bool \<times> IRBuilder" where
  "irBuilderLowerAssign op target v b =
     (let (tv, b) = irBuilderLowerLValue target b
      in case (vaddress tv, vtype tv) of
           (Some a, Some t) \<Rightarrow>
             if op = AST_ASSIGN_SET then
               (let (r, b) = irBuilderLowerValueForExpectedType v t b
                in case vvalue r of
                     None \<Rightarrow> (False, b)
                   | Some x \<Rightarrow> (True, irBuilderEmitStore a x b))
             else
               (let (cur, b) = irBuilderEmitLoad a (Some t) b;
                    (r, b) = irBuilderLowerRValue v b
                in case (vvalue cur, vvalue r) of
                     (Some c, Some x) \<Rightarrow>
                       (let (s, b) = irBuilderEmitBinary (assign_instr op) c x (vtype cur) b
                        in case vvalue s of
                             None \<Rightarrow> (False, b)
                           | Some y \<Rightarrow>
                               (let (again, b) = irBuilderLowerLValue target b
                                in case vaddress again of
                                     None \<Rightarrow> (False, b)
                                   | Some a' \<Rightarrow> (True, irBuilderEmitStore a' y b)))
                   | _ \<Rightarrow> (False, b))
         | _ \<Rightarrow> (False, b))"

definition irBuilderLowerReturn :: "ast \<Rightarrow> IRBuilder \<Rightarrow> bool \<times> IRBuilder" where
  "irBuilderLowerReturn v b =
     (if v = AST_NULL then (True, irBuilderAppendInstruction (instr None (IR_INSTR_RET None)) b)
      else (let (r, b) = irBuilderLowerRValue v b
            in case vvalue r of
                 None \<Rightarrow> (False, b)
               | Some x \<Rightarrow> (True, irBuilderAppendInstruction (instr None (IR_INSTR_RET (Some x))) b)))"

definition irBuilderLowerBreakStatement :: "IRBuilder \<Rightarrow> bool \<times> IRBuilder" where
  "irBuilderLowerBreakStatement b =
     (case irBuilderCurrentLoopTarget b of
        None \<Rightarrow> (False, b)
      | Some (brk, cont) \<Rightarrow> (True, irBuilderEmitBranch brk b))"

definition irBuilderLowerContinueStatement :: "IRBuilder \<Rightarrow> bool \<times> IRBuilder" where
  "irBuilderLowerContinueStatement b =
     (case irBuilderCurrentLoopTarget b of
        None \<Rightarrow> (False, b)
      | Some (brk, cont) \<Rightarrow> (True, irBuilderEmitBranch cont b))"

text \<open>The value of an expression statement is dropped.\<close>

definition irBuilderLowerExprStatement :: "ast \<Rightarrow> IRBuilder \<Rightarrow> bool \<times> IRBuilder" where
  "irBuilderLowerExprStatement e b = (True, snd (irBuilderLowerRValue e b))"

section \<open>Blocks and branches\<close>

definition create_block :: "IRBuilder \<Rightarrow> IRBasicBlock \<times> IRBuilder" where
  "create_block b = (let (k, f) = irFunctionCreateBlock (current_fun b) in (k, b\<lparr>current_fun := f\<rparr>))"

definition append_block :: "IRBasicBlock \<Rightarrow> IRBuilder \<Rightarrow> IRBuilder" where
  "append_block k b = b\<lparr>current_fun := irFunctionAppendBlock (current_fun b) k\<rparr>"

definition enter_block :: "IRBasicBlock \<Rightarrow> IRBuilder \<Rightarrow> IRBuilder" where
  "enter_block k b = b\<lparr>current_block := bid k\<rparr>"

text \<open>Jump on, unless the current block has been left already.\<close>

definition branch_unless_terminated :: "IRBasicBlock \<Rightarrow> IRBuilder \<Rightarrow> IRBuilder" where
  "branch_unless_terminated k b =
     (if irBuilderCurrentBlockHasTerminator b then b else irBuilderEmitBranch (bid k) b)"

definition enter_scope :: "IRBuilder \<Rightarrow> IRBuilder" where
  "enter_scope b = b\<lparr>current_scope := irScopeCreate (current_scope b)\<rparr>"

definition is_loose_statement :: "ast \<Rightarrow> bool" where
  "is_loose_statement s = (case s of
     AST_VAR_DECL l x t i \<Rightarrow> True | AST_ASSIGN l op t v \<Rightarrow> True | AST_IF l c t e \<Rightarrow> True
   | AST_RETURN l v \<Rightarrow> True | AST_WHILE l c b \<Rightarrow> True | AST_FOR l i c u b \<Rightarrow> True | _ \<Rightarrow> False)"

text \<open>The items of a block; reading them from any other node is undefined.\<close>

definition block_items :: "ast \<Rightarrow> ast list option" where
  "block_items s = (case s of AST_NULL \<Rightarrow> Some [] | AST_BLOCK l ss \<Rightarrow> Some ss | _ \<Rightarrow> None)"

lemma size_block_items: "block_items s = Some ss \<Longrightarrow> size_list size ss \<le> size s"
  by (cases s) (auto simp: block_items_def)

function irBuilderLowerStatement :: "ast \<Rightarrow> IRBuilder \<Rightarrow> bool \<times> IRBuilder"
and lower_items :: "ast list \<Rightarrow> IRBuilder \<Rightarrow> bool \<times> IRBuilder"
and irBuilderLowerBlockNode :: "ast \<Rightarrow> IRBuilder \<Rightarrow> bool \<times> IRBuilder"
and irBuilderLowerIfBranch :: "ast \<Rightarrow> IRBuilder \<Rightarrow> bool \<times> IRBuilder"
and irBuilderLowerLooseNode :: "ast \<Rightarrow> IRBuilder \<Rightarrow> bool \<times> IRBuilder"
and irBuilderLowerIfStatement :: "ast \<Rightarrow> ast \<Rightarrow> ast \<Rightarrow> IRBuilder \<Rightarrow> bool \<times> IRBuilder"
and irBuilderLowerWhileStatement :: "ast \<Rightarrow> ast \<Rightarrow> IRBuilder \<Rightarrow> bool \<times> IRBuilder"
and irBuilderLowerForStatement :: "ast \<Rightarrow> ast \<Rightarrow> ast \<Rightarrow> ast \<Rightarrow> IRBuilder \<Rightarrow> bool \<times> IRBuilder"
and lower_for :: "ast \<Rightarrow> ast \<Rightarrow> ast \<Rightarrow> ast \<Rightarrow> IRBuilder \<Rightarrow> bool \<times> IRBuilder"
where
  "irBuilderLowerStatement s b =
     (case s of
        AST_VAR_DECL l x t i \<Rightarrow> irBuilderLowerVarDecl x t i b
      | AST_ASSIGN l op t v \<Rightarrow> irBuilderLowerAssign op t v b
      | AST_IF l c t e \<Rightarrow> irBuilderLowerIfStatement c t e b
      | AST_WHILE l c body \<Rightarrow> irBuilderLowerWhileStatement c body b
      | AST_FOR l i c u body \<Rightarrow> irBuilderLowerForStatement i c u body b
      | AST_BREAK l \<Rightarrow> irBuilderLowerBreakStatement b
      | AST_CONTINUE l \<Rightarrow> irBuilderLowerContinueStatement b
      | AST_RETURN l v \<Rightarrow> irBuilderLowerReturn v b
      | AST_EXPR_STMT l e \<Rightarrow> irBuilderLowerExprStatement e b
      | _ \<Rightarrow> (True, b))"
| "lower_items [] b = (True, b)"
| "lower_items (s # ss) b =
     (let (ok, b) = irBuilderLowerStatement s b in if ok then lower_items ss b else (False, b))"
| "irBuilderLowerBlockNode s b =
     (case block_items s of None \<Rightarrow> (False, undefined_behaviour b) | Some ss \<Rightarrow> lower_items ss b)"
| "irBuilderLowerIfBranch s b =
     (if s = AST_NULL then (True, b)
      else if is_block s then irBuilderLowerBlockNode s b
      else irBuilderLowerStatement s b)"
| "irBuilderLowerLooseNode s b =
     (if s = AST_NULL then (True, b)
      else if is_loose_statement s then irBuilderLowerStatement s b
      else (True, snd (irBuilderLowerRValue s b)))"
| "irBuilderLowerIfStatement c t e b =
     (let (then_block, b) = create_block b;
          (else_block, b) = create_block b;
          (end_block, b) = create_block b;
          b = append_block end_block (append_block else_block (append_block then_block b));
          (cond, b) = irBuilderLowerRValue c b
      in case vvalue cond of
           None \<Rightarrow> (False, b)
         | Some x \<Rightarrow>
             (let b = irBuilderEmitCondBranch x (bid then_block) (bid else_block) b;
                  (ok, b) = irBuilderLowerIfBranch t (enter_block then_block b)
              in if \<not> ok then (False, b)
                 else (let (ok, b) = irBuilderLowerIfBranch e
                             (enter_block else_block (branch_unless_terminated end_block b))
                       in if \<not> ok then (False, b)
                          else (True, enter_block end_block (branch_unless_terminated end_block b)))))"
| "irBuilderLowerWhileStatement c body b =
     (let (cond_block, b) = create_block b;
          (body_block, b) = create_block b;
          (end_block, b) = create_block b;
          b = append_block end_block (append_block body_block (append_block cond_block b));
          (cond, b) = irBuilderLowerRValue c (enter_block cond_block (branch_unless_terminated cond_block b))
      in case vvalue cond of
           None \<Rightarrow> (False, b)
         | Some x \<Rightarrow>
             (let b = irBuilderEmitCondBranch x (bid body_block) (bid end_block) b;
                  b = irBuilderPushLoopTarget (bid end_block) (bid cond_block) b;
                  (ok, b) = irBuilderLowerBlockNode body (enter_block body_block b);
                  b = irBuilderPopLoopTarget b
              in if \<not> ok then (False, b)
                 else (True, enter_block end_block (branch_unless_terminated cond_block b))))"
| "irBuilderLowerForStatement i c u body b =
     (let (ok, b') = lower_for i c u body (enter_scope b) in (ok, b'\<lparr>current_scope := current_scope b\<rparr>))"
| "lower_for i c u body b =
     (let (ok, b) = irBuilderLowerLooseNode i b
      in if \<not> ok then (False, b)
         else
           (let (cond_block, b) = create_block b;
                (body_block, b) = create_block b;
                (update_block, b) = create_block b;
                (end_block, b) = create_block b;
                b = append_block end_block (append_block update_block
                      (append_block body_block (append_block cond_block b)));
                b = enter_block cond_block (branch_unless_terminated cond_block b);
                (ok, b) =
                  (if c \<noteq> AST_NULL then
                     (let (cond, b) = irBuilderLowerRValue c b
                      in case vvalue cond of
                           None \<Rightarrow> (False, b)
                         | Some x \<Rightarrow> (True, irBuilderEmitCondBranch x (bid body_block) (bid end_block) b))
                   else (True, irBuilderEmitBranch (bid body_block) b))
            in if \<not> ok then (False, b)
               else
                 (let b = irBuilderPushLoopTarget (bid end_block) (bid update_block) b;
                      (ok, b) = irBuilderLowerBlockNode body (enter_block body_block b);
                      b = irBuilderPopLoopTarget b
                  in if \<not> ok then (False, b)
                     else
                       (let b = enter_block update_block (branch_unless_terminated update_block b);
                            (ok, b) = irBuilderLowerLooseNode u b
                        in if \<not> ok then (False, b)
                           else (True, enter_block end_block (branch_unless_terminated cond_block b))))))"
  by pat_completeness auto
termination
  by (relation "measure (\<lambda>x. case x of
        Inl (Inl (Inl (s, b))) \<Rightarrow> 4 * size s + 1
      | Inl (Inl (Inr (ss, b))) \<Rightarrow> 4 * size_list size ss
      | Inl (Inr (Inl (s, b))) \<Rightarrow> 4 * size s + 1
      | Inl (Inr (Inr (s, b))) \<Rightarrow> 4 * size s + 2
      | Inr (Inl (Inl (s, b))) \<Rightarrow> 4 * size s + 2
      | Inr (Inl (Inr (c, t, e, b))) \<Rightarrow> 4 * (size c + size t + size e) + 4
      | Inr (Inr (Inl (c, s, b))) \<Rightarrow> 4 * (size c + size s) + 4
      | Inr (Inr (Inr (Inl (i, c, u, s, b)))) \<Rightarrow> 4 * (size i + size c + size u + size s) + 4
      | Inr (Inr (Inr (Inr (i, c, u, s, b)))) \<Rightarrow> 4 * (size i + size c + size u + size s) + 3)")
     (auto dest: size_block_items)

lemmas statement_unfold = irBuilderLowerStatement.simps irBuilderLowerBlockNode.simps
  irBuilderLowerIfBranch.simps irBuilderLowerLooseNode.simps irBuilderLowerIfStatement.simps
  irBuilderLowerWhileStatement.simps irBuilderLowerForStatement.simps lower_for.simps

declare statement_unfold [simp del]

end
