(* ===== verification/IrModules.thy ===== *)
theory IrModules
  imports IrStmt Semantic
begin

text \<open>
  Building a module: \<^verbatim>\<open>src/ir/ir_builder_module.c\<close>.  Symbols are declared first,
  then the strings of the program are stored, then the bodies are lowered in order.
\<close>

section \<open>Declarations of file scope\<close>

definition irBuilderLiteralFromAst :: "ast \<Rightarrow> IRLiteral option" where
  "irBuilderLiteralFromAst e = (case e of
     AST_INT_LITERAL l v \<Rightarrow> Some (IR_LITERAL_INT v)
   | AST_FLOAT_LITERAL l v \<Rightarrow> Some (IR_LITERAL_FLOAT v)
   | AST_STRING_LITERAL l v \<Rightarrow> Some (IR_LITERAL_STRING (irBuilderUnquoteString v))
   | AST_BOOL_LITERAL l v \<Rightarrow> Some (IR_LITERAL_BOOL v)
   | _ \<Rightarrow> None)"

text \<open>\<^verbatim>\<open>irScopeDeclare\<close> in the global scope.\<close>

definition declare_global :: "IRSymbol \<Rightarrow> IRBuilder \<Rightarrow> bool \<times> IRBuilder" where
  "declare_global s b =
     (let (ok, t) = irSymbolTableDeclare (mscope (module b)) s
      in (ok, b\<lparr>module := (module b)\<lparr>mscope := t\<rparr>\<rparr>))"

definition irBuilderAppendGlobalSymbol :: "string \<Rightarrow> IRType \<Rightarrow> nat \<Rightarrow> IRBuilder \<Rightarrow> bool \<times> IRBuilder" where
  "irBuilderAppendGlobalSymbol name t i b = declare_global (irSymbolCreateGlobal name t i) b"

definition irBuilderPredeclareGlobal :: "string \<Rightarrow> ast \<Rightarrow> ast \<Rightarrow> IRBuilder \<Rightarrow> bool \<times> IRBuilder" where
  "irBuilderPredeclareGlobal name t init b =
     (case irBuilderTypeFromAst t of
        None \<Rightarrow> (False, b)
      | Some t \<Rightarrow>
          (let i = irBuilderNextGlobalId b;
               g = irGlobalCreate name i t (irBuilderLiteralFromAst init);
               (g, b) = (if is_string_literal init then
                           (let (k, b) = irBuilderAddStringStorage (string_value init) b
                            in (g\<lparr>storage_global_id := Some k\<rparr>, b))
                         else (g, b))
           in irBuilderAppendGlobalSymbol name t i (append_global g b)))"

text \<open>The types of the parameters, unless one cannot be represented.\<close>

definition irBuilderCreateFunctionParamTypes :: "ast list \<Rightarrow> IRType list option" where
  "irBuilderCreateFunctionParamTypes ps = those (map (\<lambda>p. irBuilderTypeFromAst (param_type p)) ps)"

definition irBuilderPopulateFunctionParams :: "ast list \<Rightarrow> IRFunction \<Rightarrow> IRFunction option" where
  "irBuilderPopulateFunctionParams ps f =
     map_option (\<lambda>qs. f\<lparr>params := qs\<rparr>)
       (those (map (\<lambda>p. map_option (\<lambda>t. \<lparr>pname = param_name p, ptype = t\<rparr>) (irBuilderTypeFromAst (param_type p))) ps))"

definition irBuilderPredeclareFunction :: "string \<Rightarrow> ast list \<Rightarrow> ast \<Rightarrow> IRBuilder \<Rightarrow> bool \<times> IRBuilder" where
  "irBuilderPredeclareFunction name ps r b =
     (case irBuilderTypeFromAst r of
        None \<Rightarrow> (False, b)
      | Some t \<Rightarrow>
          (case irBuilderPopulateFunctionParams ps (irFunctionCreate name t) of
             None \<Rightarrow> (False, b)
           | Some f \<Rightarrow>
               (case irBuilderCreateFunctionParamTypes ps of
                  None \<Rightarrow> (False, b)
                | Some ts \<Rightarrow>
                    (let (ok, b) = declare_global (irSymbolCreateFunction name t ts) b
                     in if ok then (True, b\<lparr>module := irModuleAppendFunction (module b) f\<rparr>)
                        else (False, b)))))"

definition irBuilderPredeclareExternFunction :: "string \<Rightarrow> ast list \<Rightarrow> ast \<Rightarrow> IRBuilder \<Rightarrow> bool \<times> IRBuilder" where
  "irBuilderPredeclareExternFunction name ps r b =
     (case irBuilderTypeFromAst r of
        None \<Rightarrow> (False, b)
      | Some t \<Rightarrow>
          (case irBuilderCreateFunctionParamTypes ps of
             None \<Rightarrow> (False, b)
           | Some ts \<Rightarrow> declare_global (irSymbolCreateFunction name t ts) b))"

section \<open>String literals of the program\<close>

text \<open>The literals are stored in source order; a function's return type and parameters hold
  none.\<close>

function irBuilderCollectStringLiterals :: "ast \<Rightarrow> IRBuilder \<Rightarrow> IRBuilder"
and collect_all :: "ast list \<Rightarrow> IRBuilder \<Rightarrow> IRBuilder"
where
  "irBuilderCollectStringLiterals s b =
     (case s of
        AST_PROGRAM l ds \<Rightarrow> collect_all ds b
      | AST_BLOCK l ss \<Rightarrow> collect_all ss b
      | AST_VAR_DECL l x t i \<Rightarrow> irBuilderCollectStringLiterals i b
      | AST_FUNC_DECL l x ps body r ext \<Rightarrow> irBuilderCollectStringLiterals body b
      | AST_IF l c t e \<Rightarrow> irBuilderCollectStringLiterals e (irBuilderCollectStringLiterals t (irBuilderCollectStringLiterals c b))
      | AST_WHILE l c body \<Rightarrow> irBuilderCollectStringLiterals body (irBuilderCollectStringLiterals c b)
      | AST_FOR l i c u body \<Rightarrow> irBuilderCollectStringLiterals body (irBuilderCollectStringLiterals u (irBuilderCollectStringLiterals c (irBuilderCollectStringLiterals i b)))
      | AST_RETURN l v \<Rightarrow> irBuilderCollectStringLiterals v b
      | AST_EXPR_STMT l e \<Rightarrow> irBuilderCollectStringLiterals e b
      | AST_ASSIGN l op t v \<Rightarrow> irBuilderCollectStringLiterals v (irBuilderCollectStringLiterals t b)
      | AST_BINARY l op x y \<Rightarrow> irBuilderCollectStringLiterals y (irBuilderCollectStringLiterals x b)
      | AST_UNARY l op x \<Rightarrow> irBuilderCollectStringLiterals x b
      | AST_CALL l f args \<Rightarrow> collect_all args (irBuilderCollectStringLiterals f b)
      | AST_ARRAY_ACCESS l base indices \<Rightarrow> collect_all indices (irBuilderCollectStringLiterals base b)
      | AST_ARRAY_LITERAL l xs \<Rightarrow> collect_all xs b
      | AST_STRING_LITERAL l v \<Rightarrow> snd (irBuilderAddStringStorage v b)
      | _ \<Rightarrow> b)"
| "collect_all [] b = b"
| "collect_all (s # ss) b = collect_all ss (irBuilderCollectStringLiterals s b)"
  by pat_completeness auto
termination
  by (relation "measure (\<lambda>x. case x of Inl (s, b) \<Rightarrow> 2 * size s + 1 | Inr (ss, b) \<Rightarrow> 2 * size_list size ss)") auto

declare irBuilderCollectStringLiterals.simps [simp del]

section \<open>Function bodies\<close>

text \<open>A parameter gets a stack slot and is stored there.\<close>

definition irBuilderMaterializeParameter :: "IRParameter \<Rightarrow> nat \<Rightarrow> IRBuilder \<Rightarrow> bool \<times> IRBuilder" where
  "irBuilderMaterializeParameter p index b =
     (let t = irTypeCreatePointer (ptype p);
          (k, b) = irBuilderReserveResult b;
          alloca = instr (Some (k, t)) (IR_INSTR_ALLOCA (ptype p));
          store = instr None (IR_INSTR_STORE (irOperandCreateLocal t k) (irOperandCreateParam (ptype p) (index + 1)));
          (ok, sc) = irScopeDeclare (current_scope b) (irSymbolCreateLocal (pname p) t k)
      in if \<not> ok then (False, b)
         else (True, irBuilderAppendInstruction store
                       (irBuilderAppendInstruction alloca (b\<lparr>current_scope := sc\<rparr>))))"

fun materialize_params :: "IRParameter list \<Rightarrow> nat \<Rightarrow> IRBuilder \<Rightarrow> bool \<times> IRBuilder" where
  "materialize_params [] i b = (True, b)"
| "materialize_params (p # ps) i b =
     (let (ok, b) = irBuilderMaterializeParameter p i b
      in if ok then materialize_params ps (i + 1) b else (False, b))"

text \<open>The literal of a default return of array or pointer type is null.\<close>

definition default_literal :: "IRType \<Rightarrow> IRLiteral option" where
  "default_literal t = (case t of
     IR_TYPE_INT \<Rightarrow> Some (IR_LITERAL_INT 0)
   | IR_TYPE_CHAR \<Rightarrow> Some (IR_LITERAL_INT 0)
   | IR_TYPE_BOOL \<Rightarrow> Some (IR_LITERAL_BOOL False)
   | IR_TYPE_FLOAT \<Rightarrow> Some (IR_LITERAL_FLOAT (Double 0 0))
   | _ \<Rightarrow> None)"

definition irBuilderEmitDefaultReturn :: "IRBuilder \<Rightarrow> IRBuilder" where
  "irBuilderEmitDefaultReturn b =
     (let t = return_type (current_fun b);
          v = (if t = IR_TYPE_VOID then None else Some (irOperandCreateLiteral t (default_literal t)))
      in irBuilderAppendInstruction (instr None (IR_INSTR_RET v)) b)"

text \<open>The function is worked on in \<open>current_fun\<close> and put back at its index, with the scope
  it has then.\<close>

definition put_function :: "nat \<Rightarrow> IRBuilder \<Rightarrow> IRBuilder" where
  "put_function n b =
     (let m = module b; f = (current_fun b)\<lparr>fscope := hd (current_scope b)\<rparr>
      in b\<lparr>module := m\<lparr>mfunctions := (mfunctions m)\<lparr>items := (items (mfunctions m))[n := f]\<rparr>\<rparr>\<rparr>)"

definition irBuilderLowerFunctionBody :: "ast \<Rightarrow> nat \<Rightarrow> IRBuilder \<Rightarrow> bool \<times> IRBuilder" where
  "irBuilderLowerFunctionBody body n b =
     (let f = items (mfunctions (module b)) ! n;
          b = b\<lparr>current_fun := f, current_scope := [fscope f, mscope (module b)]\<rparr>;
          (entry, b) = create_block b;
          b = enter_block entry (append_block entry b);
          (ok, b) = materialize_params (params f) 0 b
      in if \<not> ok then (False, b)
         else (case body of
                 AST_BLOCK l ss \<Rightarrow>
                   (let (ok, b) = lower_items ss b
                    in if \<not> ok then (False, b)
                       else (True, put_function n
                               (if irBuilderCurrentBlockHasTerminator b then b else irBuilderEmitDefaultReturn b)))
               | _ \<Rightarrow> (False, undefined_behaviour b)))"

section \<open>The module\<close>

definition predeclare :: "ast \<Rightarrow> IRBuilder \<Rightarrow> bool \<times> IRBuilder" where
  "predeclare d b = (case d of
     AST_VAR_DECL l x t i \<Rightarrow> irBuilderPredeclareGlobal x t i b
   | AST_FUNC_DECL l x ps body r ext \<Rightarrow>
       if ext then irBuilderPredeclareExternFunction x ps r b else irBuilderPredeclareFunction x ps r b
   | AST_NULL \<Rightarrow> (False, undefined_behaviour b)
   | _ \<Rightarrow> (True, b))"

fun predeclare_all :: "ast list \<Rightarrow> IRBuilder \<Rightarrow> bool \<times> IRBuilder" where
  "predeclare_all [] b = (True, b)"
| "predeclare_all (d # ds) b =
     (let (ok, b) = predeclare d b in if ok then predeclare_all ds b else (False, b))"

text \<open>The bodies to lower: the functions that are not extern, in order.\<close>

definition defined_body :: "ast \<Rightarrow> ast option" where
  "defined_body d = (case d of
     AST_FUNC_DECL l x ps body r ext \<Rightarrow> if ext then None else Some body
   | _ \<Rightarrow> None)"

fun lower_bodies :: "ast list \<Rightarrow> nat \<Rightarrow> IRBuilder \<Rightarrow> bool \<times> IRBuilder" where
  "lower_bodies [] n b = (True, b)"
| "lower_bodies (d # ds) n b =
     (case defined_body d of
        None \<Rightarrow> lower_bodies ds n b
      | Some body \<Rightarrow>
          (let (ok, b) = irBuilderLowerFunctionBody body n b
           in if ok then lower_bodies ds (n + 1) b else (False, b)))"

text \<open>The result and the builder it was found with.\<close>

definition build :: "ast list \<Rightarrow> bool \<times> IRBuilder" where
  "build ds =
     (let (ok, b) = predeclare_all ds irBuilderCreate
      in if \<not> ok then (False, b)
         else lower_bodies ds 0 (collect_all ds b))"

definition irBuildModule :: "ast \<Rightarrow> SemanticErrorList \<Rightarrow> IRModule option" where
  "irBuildModule program es =
     (case program of
        AST_PROGRAM l ds \<Rightarrow>
          if items es \<noteq> [] then None
          else (let (ok, b) = build ds in if ok then Some (module b) else None)
      | _ \<Rightarrow> None)"

end
