(* ===== verification/IrPrint.thy ===== *)
theory IrPrint
  imports IrModules
begin

text \<open>
  Printing a module as LLVM assembly and dumping it: \<^verbatim>\<open>src/ir/ir_printer.c\<close>.  A
  result is \<open>None\<close> where the code would read through a null pointer or the wrong member of a
  union.  A stream is the text written to it, in order.
\<close>

text \<open>The pieces of a text, all of which must be there.\<close>

definition pieces :: "string option list \<Rightarrow> string option" where
  "pieces xs = map_option concat (those xs)"

lemma pieces_simps [simp]:
  "pieces [] = Some []"
  "pieces (None # xs) = None"
  "pieces (Some s # xs) = map_option (\<lambda>t. s @ t) (pieces xs)"
  by (simp_all add: pieces_def option.map_comp comp_def)

fun separated :: "string \<Rightarrow> string list \<Rightarrow> string" where
  "separated sep [] = []"
| "separated sep [s] = s"
| "separated sep (s # ss) = s @ sep @ separated sep ss"

definition listed :: "string option list \<Rightarrow> string option" where
  "listed xs = map_option (separated '', '') (those xs)"

section \<open>Strings, types, operands\<close>

definition quote_char :: char where
  "quote_char = CHR 0x22"

definition escaped :: "char \<Rightarrow> string" where
  "escaped c =
     (if c = CHR 0x5C then CHR 0x5C # ''5C''
      else if c = quote_char then CHR 0x5C # ''22''
      else if c = CHR 0x0A then CHR 0x5C # ''0A''
      else if c = CHR 0x09 then CHR 0x5C # ''09''
      else if of_char c < (32 :: nat) \<or> of_char c > (126 :: nat) then CHR 0x5C # show_hex2 c
      else [c])"

definition irPrintEscapedString :: "string \<Rightarrow> string" where
  "irPrintEscapedString s = concat (map escaped (c_string s))"

fun irPrintType :: "IRType option \<Rightarrow> string" where
  "irPrintType None = ''void''"
| "irPrintType (Some IR_TYPE_VOID) = ''void''"
| "irPrintType (Some IR_TYPE_INT) = ''i32''"
| "irPrintType (Some IR_TYPE_FLOAT) = ''double''"
| "irPrintType (Some IR_TYPE_CHAR) = ''i8''"
| "irPrintType (Some IR_TYPE_BOOL) = ''i1''"
| "irPrintType (Some (IR_TYPE_ARRAY t n)) =
     ''['' @ show_nat (case n of None \<Rightarrow> 0 | Some n \<Rightarrow> n) @ '' x '' @ irPrintType t @ '']''"
| "irPrintType (Some (IR_TYPE_POINTER t)) = irPrintType (Some t) @ ''*''"

fun irPrintZeroValue :: "IRType \<Rightarrow> string" where
  "irPrintZeroValue IR_TYPE_FLOAT = ''0.0''"
| "irPrintZeroValue IR_TYPE_BOOL = ''0''"
| "irPrintZeroValue IR_TYPE_CHAR = ''0''"
| "irPrintZeroValue IR_TYPE_INT = ''0''"
| "irPrintZeroValue (IR_TYPE_POINTER t) = ''null''"
| "irPrintZeroValue (IR_TYPE_ARRAY t n) = ''zeroinitializer''"
| "irPrintZeroValue IR_TYPE_VOID = []"

definition irPrinterFindGlobalById :: "IRModule \<Rightarrow> nat \<Rightarrow> IRGlobal option" where
  "irPrinterFindGlobalById m i = find (\<lambda>g. gid g = i) (items (globals m))"

fun print_literal :: "IRLiteral \<Rightarrow> string" where
  "print_literal (IR_LITERAL_INT v) = show_int v"
| "print_literal (IR_LITERAL_FLOAT v) = show_double v"
| "print_literal (IR_LITERAL_STRING v) = ''null''"
| "print_literal (IR_LITERAL_BOOL v) = (if v then ''1'' else ''0'')"

definition global_label :: "IRModule \<Rightarrow> nat \<Rightarrow> string" where
  "global_label m i = ''@'' @ (case irPrinterFindGlobalById m i of Some g \<Rightarrow> gname g | None \<Rightarrow> ''g'')"

definition irPrintOperand :: "IRModule \<Rightarrow> IROperand \<Rightarrow> string option" where
  "irPrintOperand m x =
     (case oref x of
        IR_OPERAND_LOCAL i \<Rightarrow> Some (''%t'' @ show_nat i)
      | IR_OPERAND_PARAM i \<Rightarrow> Some (''%p'' @ show_nat i)
      | IR_OPERAND_GLOBAL i \<Rightarrow> Some (global_label m i)
      | IR_OPERAND_LITERAL l \<Rightarrow> map_option print_literal l
      | IR_OPERAND_BLOCK i \<Rightarrow> Some (''%bb'' @ show_nat i))"

text \<open>An operand after its type.\<close>

definition typed_operand :: "IRModule \<Rightarrow> IROperand \<Rightarrow> string option" where
  "typed_operand m x = pieces [Some (irPrintType (otype x)), Some '' '', irPrintOperand m x]"

section \<open>Globals\<close>

definition string_of :: "IRLiteral option \<Rightarrow> string option" where
  "string_of l = (case l of None \<Rightarrow> Some [] | Some (IR_LITERAL_STRING s) \<Rightarrow> Some s | _ \<Rightarrow> None)"

definition points_to_storage :: "IRGlobal \<Rightarrow> bool" where
  "points_to_storage g \<longleftrightarrow>
     gtype g = IR_TYPE_POINTER IR_TYPE_CHAR
     \<and> (case initializer g of Some (IR_LITERAL_STRING s) \<Rightarrow> True | _ \<Rightarrow> False)
     \<and> storage_global_id g \<noteq> None"

definition irPrintGlobal :: "IRModule \<Rightarrow> IRGlobal \<Rightarrow> string option" where
  "irPrintGlobal m g =
     (if is_constant g then
        pieces [Some (''@'' @ gname g @ '' = private unnamed_addr constant '' @ irPrintType (Some (gtype g)) @ '' c'' @ [quote_char]),
                map_option irPrintEscapedString (string_of (initializer g)),
                Some ([CHR 0x5C] @ ''00'' @ [quote_char, newline])]
      else
        pieces [Some (''@'' @ gname g @ '' = global '' @ irPrintType (Some (gtype g)) @ '' ''),
                (if points_to_storage g then
                   map_option (\<lambda>st. ''getelementptr inbounds ('' @ irPrintType (Some (gtype st)) @ '', ''
                                 @ irPrintType (Some (gtype st)) @ ''* @'' @ gname st @ '', i32 0, i32 0)'')
                     (irPrinterFindGlobalById m (the (storage_global_id g)))
                 else Some (case initializer g of None \<Rightarrow> irPrintZeroValue (gtype g) | Some l \<Rightarrow> print_literal l)),
                Some [newline]])"

section \<open>Instructions\<close>

definition is_float :: "IRType option \<Rightarrow> bool" where
  "is_float t \<longleftrightarrow> t = Some IR_TYPE_FLOAT"

definition is_comparison :: "IRBinaryKind \<Rightarrow> bool" where
  "is_comparison k \<longleftrightarrow>
     k \<in> {IR_INSTR_CMP_EQ, IR_INSTR_CMP_NE, IR_INSTR_CMP_GT, IR_INSTR_CMP_LT, IR_INSTR_CMP_LE, IR_INSTR_CMP_GE}"

definition comparison_name :: "bool \<Rightarrow> IRBinaryKind \<Rightarrow> string" where
  "comparison_name fl k =
     (if fl then
        (if k = IR_INSTR_CMP_EQ then ''fcmp oeq '' else if k = IR_INSTR_CMP_NE then ''fcmp one ''
         else if k = IR_INSTR_CMP_GT then ''fcmp ogt '' else if k = IR_INSTR_CMP_LT then ''fcmp olt ''
         else if k = IR_INSTR_CMP_LE then ''fcmp ole '' else ''fcmp oge '')
      else
        (if k = IR_INSTR_CMP_EQ then ''icmp eq '' else if k = IR_INSTR_CMP_NE then ''icmp ne ''
         else if k = IR_INSTR_CMP_GT then ''icmp sgt '' else if k = IR_INSTR_CMP_LT then ''icmp slt ''
         else if k = IR_INSTR_CMP_LE then ''icmp sle '' else ''icmp sge ''))"

definition arithmetic_name :: "bool \<Rightarrow> IRBinaryKind \<Rightarrow> string" where
  "arithmetic_name fl k =
     (if fl then
        (if k = IR_INSTR_ADD then ''fadd'' else if k = IR_INSTR_SUB then ''fsub''
         else if k = IR_INSTR_MUL then ''fmul'' else if k = IR_INSTR_DIV then ''fdiv''
         else if k = IR_INSTR_AND then ''and'' else ''or'')
      else
        (if k = IR_INSTR_ADD then ''add'' else if k = IR_INSTR_SUB then ''sub''
         else if k = IR_INSTR_MUL then ''mul'' else if k = IR_INSTR_DIV then ''sdiv''
         else if k = IR_INSTR_AND then ''and'' else ''or''))"

text \<open>\<^verbatim>\<open>result_id\<close> is 0 and \<^verbatim>\<open>result_type\<close> null without a result.\<close>

definition result_label :: "IRInstruction \<Rightarrow> string" where
  "result_label i = ''%t'' @ show_nat (case iresult i of None \<Rightarrow> 0 | Some (k, t) \<Rightarrow> k)"

definition result_type :: "IRInstruction \<Rightarrow> IRType option" where
  "result_type i = map_option snd (iresult i)"

definition irPrintInstruction :: "IRModule \<Rightarrow> IRInstruction \<Rightarrow> string option" where
  "irPrintInstruction m i =
     (case idata i of
        IR_INSTR_ALLOCA t \<Rightarrow>
          Some (''  '' @ result_label i @ '' = alloca '' @ irPrintType (Some t) @ [newline])
      | IR_INSTR_LOAD a \<Rightarrow>
          pieces [Some (''  '' @ result_label i @ '' = load '' @ irPrintType (result_type i) @ '', ''),
                  typed_operand m a, Some [newline]]
      | IR_INSTR_STORE a x \<Rightarrow>
          pieces [Some ''  store '', typed_operand m x, Some '', '', typed_operand m a, Some [newline]]
      | IR_INSTR_BINARY k x y \<Rightarrow>
          pieces [Some (''  '' @ result_label i @ '' = ''
                    @ (if is_comparison k then comparison_name (is_float (otype x)) k @ irPrintType (otype x)
                       else arithmetic_name (is_float (otype x)) k @ '' '' @ irPrintType (result_type i)) @ '' ''),
                  irPrintOperand m x, Some '', '', irPrintOperand m y, Some [newline]]
      | IR_INSTR_UNARY k x \<Rightarrow>
          (if k = IR_INSTR_NEG then
             pieces [Some (''  '' @ result_label i @ '' = '' @ (if is_float (result_type i) then ''fsub'' else ''sub'')
                       @ '' '' @ irPrintType (result_type i)
                       @ (if is_float (result_type i) then '' 0.000000, '' else '' 0, '')),
                     irPrintOperand m x, Some [newline]]
           else
             pieces [Some (''  '' @ result_label i @ '' = xor '' @ irPrintType (result_type i) @ '' ''),
                     irPrintOperand m x, Some ('', 1'' @ [newline])])
      | IR_INSTR_GEP a xs \<Rightarrow>
          pieces [Some (''  '' @ result_label i @ '' = getelementptr inbounds ''),
                  map_option (\<lambda>t. irPrintType (element_type t)) (otype a), Some '', '', typed_operand m a,
                  pieces (map (\<lambda>x. pieces [Some '', '', typed_operand m x]) xs), Some [newline]]
      | IR_INSTR_BR k \<Rightarrow> Some (''  br label %bb'' @ show_nat k @ [newline])
      | IR_INSTR_COND_BR x t e \<Rightarrow>
          pieces [Some ''  br i1 '', irPrintOperand m x,
                  Some ('', label %bb'' @ show_nat t @ '', label %bb'' @ show_nat e @ [newline])]
      | IR_INSTR_CALL name xs \<Rightarrow>
          pieces [Some (''  '' @ (case iresult i of None \<Rightarrow> [] | Some r \<Rightarrow> result_label i @ '' = '')
                    @ ''call '' @ (case iresult i of None \<Rightarrow> ''void'' | Some r \<Rightarrow> irPrintType (result_type i))
                    @ '' @'' @ name @ ''(''),
                  listed (map (typed_operand m) xs), Some ('')'' @ [newline])]
      | IR_INSTR_RET v \<Rightarrow>
          (case v of
             None \<Rightarrow> Some (''  ret void'' @ [newline])
           | Some x \<Rightarrow> pieces [Some ''  ret '', typed_operand m x, Some [newline]])
      | _ \<Rightarrow> Some [])"

section \<open>Functions and modules\<close>

fun print_params :: "nat \<Rightarrow> IRParameter list \<Rightarrow> string list" where
  "print_params i [] = []"
| "print_params i (p # ps) = (irPrintType (Some (ptype p)) @ '' %p'' @ show_nat (i + 1)) # print_params (i + 1) ps"

definition irPrintBlock :: "IRModule \<Rightarrow> IRBasicBlock \<Rightarrow> string option" where
  "irPrintBlock m b =
     pieces (Some (''bb'' @ show_nat (bid b) @ '':'' @ [newline])
             # map (irPrintInstruction m) (items (instructions b)))"

definition irPrintFunction :: "IRModule \<Rightarrow> IRFunction \<Rightarrow> string option" where
  "irPrintFunction m f =
     pieces [Some (''define '' @ irPrintType (Some (return_type f)) @ '' @'' @ fname f @ ''(''
               @ separated '', '' (print_params 0 (params f)) @ '') {'' @ [newline]),
             (if items (blocks f) = [] then
                Some (''bb0:'' @ [newline]
                  @ (if return_type f = IR_TYPE_VOID then ''  ret void''
                     else ''  ret '' @ irPrintType (Some (return_type f)) @ '' '' @ irPrintZeroValue (return_type f))
                  @ [newline])
              else pieces (map (irPrintBlock m) (items (blocks f)))),
             Some (''}'' @ [newline])]"

definition irPrinterHasFunctionDefinition :: "IRModule \<Rightarrow> string \<Rightarrow> bool" where
  "irPrinterHasFunctionDefinition m name \<longleftrightarrow> (\<exists>f \<in> set (items (mfunctions m)). fname f = name)"

text \<open>The declarations, one for every function symbol without a body, in the order of the
  buckets.\<close>

definition extern_line :: "IRModule \<Rightarrow> IRSymbol \<Rightarrow> string option" where
  "extern_line m s =
     (case irdata s of
        IR_SYMBOL_FUNCTION t ps \<Rightarrow>
          if irPrinterHasFunctionDefinition m (irname s) then None
          else Some (''declare '' @ irPrintType (Some (irtype s)) @ '' @'' @ irname s @ ''(''
                 @ separated '', '' (map (\<lambda>p. irPrintType (Some p)) ps) @ '')'' @ [newline])
      | _ \<Rightarrow> None)"

definition irPrintExternalDeclarations :: "IRModule \<Rightarrow> string list" where
  "irPrintExternalDeclarations m = List.map_filter (extern_line m) (concat (mscope m))"

definition irPrintModuleToString :: "IRModule \<Rightarrow> string option" where
  "irPrintModuleToString m =
     (let ds = irPrintExternalDeclarations m
      in pieces [pieces (map (irPrintGlobal m) (items (globals m))),
                 Some (concat ds),
                 Some (if (items (globals m) \<noteq> [] \<or> ds \<noteq> []) \<and> items (mfunctions m) \<noteq> [] then [newline] else []),
                 map_option (separated [newline]) (those (map (irPrintFunction m) (items (mfunctions m))))])"

section \<open>Dumping a module\<close>

fun binary_kind_name :: "IRBinaryKind \<Rightarrow> string" where
  "binary_kind_name IR_INSTR_ADD = ''add''"
| "binary_kind_name IR_INSTR_SUB = ''sub''"
| "binary_kind_name IR_INSTR_MUL = ''mul''"
| "binary_kind_name IR_INSTR_DIV = ''div''"
| "binary_kind_name IR_INSTR_AND = ''and''"
| "binary_kind_name IR_INSTR_OR = ''or''"
| "binary_kind_name IR_INSTR_CMP_EQ = ''cmp_eq''"
| "binary_kind_name IR_INSTR_CMP_NE = ''cmp_ne''"
| "binary_kind_name IR_INSTR_CMP_LT = ''cmp_lt''"
| "binary_kind_name IR_INSTR_CMP_LE = ''cmp_le''"
| "binary_kind_name IR_INSTR_CMP_GT = ''cmp_gt''"
| "binary_kind_name IR_INSTR_CMP_GE = ''cmp_ge''"

fun irInstructionKindName :: "IRInstructionData \<Rightarrow> string" where
  "irInstructionKindName (IR_INSTR_CONST x) = ''const''"
| "irInstructionKindName (IR_INSTR_GLOBAL_ADDR k) = ''global_addr''"
| "irInstructionKindName (IR_INSTR_ALLOCA t) = ''alloca''"
| "irInstructionKindName (IR_INSTR_LOAD a) = ''load''"
| "irInstructionKindName (IR_INSTR_STORE a x) = ''store''"
| "irInstructionKindName (IR_INSTR_GEP a xs) = ''gep''"
| "irInstructionKindName (IR_INSTR_BINARY k x y) = binary_kind_name k"
| "irInstructionKindName (IR_INSTR_UNARY k x) = (if k = IR_INSTR_NEG then ''neg'' else ''not'')"
| "irInstructionKindName (IR_INSTR_BR k) = ''br''"
| "irInstructionKindName (IR_INSTR_COND_BR x t e) = ''cond_br''"
| "irInstructionKindName (IR_INSTR_RET v) = ''ret''"
| "irInstructionKindName (IR_INSTR_CALL name xs) = ''call''"
| "irInstructionKindName (IR_INSTR_CAST x t) = ''cast''"

definition colon_type :: "IRType option \<Rightarrow> string" where
  "colon_type t = (if t = None then [] else '': '' @ irPrintType t)"

definition irDumpOperand :: "IRModule \<Rightarrow> IROperand \<Rightarrow> string option" where
  "irDumpOperand m x =
     pieces [(case oref x of
                IR_OPERAND_LOCAL i \<Rightarrow> Some (''local(%t'' @ show_nat i @ '')'')
              | IR_OPERAND_PARAM i \<Rightarrow> Some (''param(%p'' @ show_nat i @ '')'')
              | IR_OPERAND_GLOBAL i \<Rightarrow> Some (''global('' @ global_label m i @ '')'')
              | IR_OPERAND_LITERAL l \<Rightarrow> pieces [Some ''literal('', irPrintOperand m x, Some '')'']
              | IR_OPERAND_BLOCK i \<Rightarrow> Some (''block(bb'' @ show_nat i @ '')'')),
             Some (colon_type (otype x))]"

definition dump_data :: "IRModule \<Rightarrow> IRInstructionData \<Rightarrow> string option" where
  "dump_data m d =
     (case d of
        IR_INSTR_ALLOCA t \<Rightarrow> Some ('' allocated='' @ irPrintType (Some t))
      | IR_INSTR_LOAD a \<Rightarrow> pieces [Some '' address='', irDumpOperand m a]
      | IR_INSTR_STORE a x \<Rightarrow> pieces [Some '' value='', irDumpOperand m x, Some '' address='', irDumpOperand m a]
      | IR_INSTR_GEP a xs \<Rightarrow>
          pieces [Some '' base='', irDumpOperand m a, Some '' indices=['', listed (map (irDumpOperand m) xs), Some '']'']
      | IR_INSTR_BINARY k x y \<Rightarrow> pieces [Some '' left='', irDumpOperand m x, Some '' right='', irDumpOperand m y]
      | IR_INSTR_UNARY k x \<Rightarrow> pieces [Some '' operand='', irDumpOperand m x]
      | IR_INSTR_BR k \<Rightarrow> Some ('' target=bb'' @ show_nat k)
      | IR_INSTR_COND_BR x t e \<Rightarrow>
          pieces [Some '' condition='', irDumpOperand m x,
                  Some ('' then=bb'' @ show_nat t @ '' else=bb'' @ show_nat e)]
      | IR_INSTR_RET v \<Rightarrow> (case v of None \<Rightarrow> Some [] | Some x \<Rightarrow> pieces [Some '' value='', irDumpOperand m x])
      | IR_INSTR_CALL name xs \<Rightarrow>
          pieces [Some ('' callee='' @ name @ '' args=[''), listed (map (irDumpOperand m) xs), Some '']'']
      | IR_INSTR_CAST x t \<Rightarrow> pieces [Some '' value='', irDumpOperand m x, Some ('' target='' @ irPrintType (Some t))]
      | IR_INSTR_CONST x \<Rightarrow> pieces [Some '' value='', irDumpOperand m x]
      | IR_INSTR_GLOBAL_ADDR k \<Rightarrow> Some ('' global_id='' @ show_nat k))"

definition irDumpInstruction :: "IRModule \<Rightarrow> IRInstruction \<Rightarrow> string option" where
  "irDumpInstruction m i =
     pieces [Some (''      - '' @ irInstructionKindName (idata i)
               @ (case iresult i of None \<Rightarrow> [] | Some r \<Rightarrow> '' -> '' @ result_label i @ colon_type (result_type i))),
             dump_data m (idata i), Some [newline]]"

definition dump_global :: "IRGlobal \<Rightarrow> string" where
  "dump_global g = ''    - @'' @ gname g @ '' [id='' @ show_nat (gid g) @ ''] type='' @ irPrintType (Some (gtype g))
     @ (if is_constant g then '' constant'' else []) @ [newline]"

definition dump_block :: "IRModule \<Rightarrow> IRBasicBlock \<Rightarrow> string option" where
  "dump_block m b =
     pieces (Some (''      block bb'' @ show_nat (bid b) @ '' ('' @ show_nat (length (items (instructions b)))
               @ '' instructions)'' @ [newline])
             # map (irDumpInstruction m) (items (instructions b)))"

definition dump_function :: "IRModule \<Rightarrow> IRFunction \<Rightarrow> string option" where
  "dump_function m f =
     pieces (Some (''    - '' @ fname f @ '' returns '' @ irPrintType (Some (return_type f)) @ '' blocks=''
               @ show_nat (length (items (blocks f))) @ [newline])
             # map (dump_block m) (items (blocks f)))"

definition irDumpModule :: "IRModule \<Rightarrow> string option" where
  "irDumpModule m =
     pieces [Some (''IRModule'' @ [newline] @ ''  globals ('' @ show_nat (length (items (globals m))) @ '')'' @ [newline]
               @ concat (map dump_global (items (globals m)))
               @ ''  functions ('' @ show_nat (length (items (mfunctions m))) @ '')'' @ [newline]),
             pieces (map (dump_function m) (items (mfunctions m)))]"

end
