(* ===== verification/Driver.thy ===== *)
theory Driver
  imports Lexer ParserStmt Validate IrPrint
begin

text \<open>
  The compiler from source to LLVM assembly: \<^verbatim>\<open>src/compiler_driver.c\<close> and
  \<^verbatim>\<open>src/main.c\<close>.  The file system is a parameter: the bytes that can be read at a
  path, and whether a path can be written.  What a run does is its value: the text on each
  stream, what became of the output file, the result.
\<close>

datatype file_effect = Untouched | Removed | Written string

record run =
  stdout :: string
  stderr :: string
  output_file :: file_effect
  succeeded :: bool

text \<open>A call returns, ends the process with status 1 after a message on \<^verbatim>\<open>stderr\<close>, or
  is undefined.\<close>

datatype run_result = Completed run | Exits string | Undefined

section \<open>Messages\<close>

definition located_message :: "string \<Rightarrow> nat \<Rightarrow> nat \<Rightarrow> string \<Rightarrow> string \<Rightarrow> string" where
  "located_message name line column elsewhere msg =
     name @ (if line > 0 \<and> column > 0
             then '' at line '' @ show_nat line @ '', column '' @ show_nat column else elsewhere)
     @ '': '' @ msg @ [newline]"

definition printParserErrors :: "Parser \<Rightarrow> string" where
  "printParserErrors p =
     concat (map (\<lambda>e. located_message ''SyntaxError'' (eline e) (ecolumn e) '' at end of input'' (emessage e))
       (items (perrors p)))"

definition printSemanticErrors :: "SemanticErrorList \<Rightarrow> string" where
  "printSemanticErrors es =
     concat (map (\<lambda>e. located_message (semanticErrorKindName (kind e)) (seline e) (secolumn e) [] (semessage e))
       (items es))"

section \<open>Compiling\<close>

text \<open>\<^verbatim>\<open>irPrintModuleToFile\<close>: the text written, unless the file cannot be; \<open>None\<close>
  where printing is undefined.\<close>

definition irPrintModuleToFile :: "(string \<Rightarrow> bool) \<Rightarrow> IRModule \<Rightarrow> string \<Rightarrow> string option option" where
  "irPrintModuleToFile writable m path =
     map_option (\<lambda>text. if writable path then Some text else None) (irPrintModuleToString m)"

text \<open>Whether building the module read through a null pointer or past an array.\<close>

definition build_undefined :: "ast \<Rightarrow> bool" where
  "build_undefined root = (case root of AST_PROGRAM l ds \<Rightarrow> ub (snd (build ds)) | _ \<Rightarrow> False)"

definition generation_failed :: run_result where
  "generation_failed = Completed \<lparr>stdout = [], stderr = ''IR generation failed'' @ [newline],
     output_file = Removed, succeeded = False\<rparr>"

definition generate :: "(string \<Rightarrow> bool) \<Rightarrow> ast \<Rightarrow> SemanticErrorList \<Rightarrow> string \<Rightarrow> run_result" where
  "generate writable root es path =
     (if build_undefined root then Undefined
      else case irBuildModule root es of
             None \<Rightarrow> generation_failed
           | Some m \<Rightarrow>
               (case irPrintModuleToFile writable m path of
                  None \<Rightarrow> Undefined
                | Some None \<Rightarrow> generation_failed
                | Some (Some text) \<Rightarrow>
                    Completed \<lparr>stdout = [], stderr = [], output_file = Written text, succeeded = True\<rparr>))"

definition compileTokensToLlvmIr :: "(string \<Rightarrow> bool) \<Rightarrow> Token list \<Rightarrow> string \<Rightarrow> run_result" where
  "compileTokensToLlvmIr writable tokens path =
     (case parserParseProgram (parserInit tokens) of
        None \<Rightarrow> Undefined
      | Some (root, parser) \<Rightarrow>
          if items (perrors parser) \<noteq> [] then
            Completed \<lparr>stdout = newline # printParserErrors parser, stderr = [], output_file = Untouched, succeeded = False\<rparr>
          else
            (let semantic = semanticAnalyze root
             in if items (errors semantic) \<noteq> [] then
                  Completed \<lparr>stdout = newline # printSemanticErrors (errors semantic), stderr = [],
                            output_file = Untouched, succeeded = False\<rparr>
                else generate writable root (errors semantic) path))"

definition lexer_exit :: "LexError \<Rightarrow> run_result" where
  "lexer_exit e = (case e of UnrecognizedToken s \<Rightarrow> Exits (''Unrecognized token: '' @ s @ [newline]))"

definition compileSourceStringToLlvmIr :: "(string \<Rightarrow> bool) \<Rightarrow> string \<Rightarrow> string \<Rightarrow> run_result" where
  "compileSourceStringToLlvmIr writable input path =
     (case tokenizeString input of
        Inl e \<Rightarrow> lexer_exit e
      | Inr tokens \<Rightarrow> compileTokensToLlvmIr writable tokens path)"

definition compileSourceFileToLlvmIr ::
  "(string \<Rightarrow> string option) \<Rightarrow> (string \<Rightarrow> bool) \<Rightarrow> string \<Rightarrow> string \<Rightarrow> run_result" where
  "compileSourceFileToLlvmIr readFileToString writable input_path path =
     (case tokenizeFile readFileToString input_path of
        None \<Rightarrow> Completed \<lparr>stdout = [], stderr = ''Error opening '' @ input_path @ [newline],
                          output_file = Untouched, succeeded = False\<rparr>
      | Some (Inl e) \<Rightarrow> lexer_exit e
      | Some (Inr tokens) \<Rightarrow> compileTokensToLlvmIr writable tokens path)"

text \<open>\<^verbatim>\<open>main\<close> with the arguments after the program's name.\<close>

definition main_program ::
  "(string \<Rightarrow> string option) \<Rightarrow> (string \<Rightarrow> bool) \<Rightarrow> string \<Rightarrow> string list \<Rightarrow> run_result" where
  "main_program readFileToString writable name args =
     (let input_path = (case args of [] \<Rightarrow> ''input.ps'' | a # as \<Rightarrow> a);
          output_path = (case args of a # b # as \<Rightarrow> b | _ \<Rightarrow> ''build/ir/IR.ll'')
      in if length args > 2 then
           Completed \<lparr>stdout = [], stderr = ''usage: '' @ name @ '' [input.ps] [output.ll]'' @ [newline],
                     output_file = Untouched, succeeded = False\<rparr>
         else compileSourceFileToLlvmIr readFileToString writable input_path output_path)"

text \<open>The exit status of the process, where it has one.\<close>

definition exit_status :: "run_result \<Rightarrow> nat option" where
  "exit_status r = (case r of
     Completed c \<Rightarrow> Some (if succeeded c then 0 else 1)
   | Exits s \<Rightarrow> Some 1
   | Undefined \<Rightarrow> None)"

end
