(* ===== verification/IrInv.thy ===== *)
theory IrInv
  imports IrModules "HOL-Library.Multiset" "HOL-Library.Sublist"
begin

text \<open>
  The invariant of a function under construction, and what an extension of it keeps.
\<close>

section \<open>The contents of a function\<close>

definition block_ids :: "IRFunction \<Rightarrow> nat list" where
  "block_ids f = map bid (items (blocks f))"

definition code_of :: "IRFunction \<Rightarrow> IRInstruction set" where
  "code_of f = (\<Union>bb \<in> set (items (blocks f)). set (items (instructions bb)))"

definition result_ids :: "IRInstruction list \<Rightarrow> nat list" where
  "result_ids is = concat (map (\<lambda>i. case iresult i of None \<Rightarrow> [] | Some d \<Rightarrow> [fst d]) is)"

definition def_ids :: "IRFunction \<Rightarrow> nat list" where
  "def_ids f = concat (map (\<lambda>bb. result_ids (items (instructions bb))) (items (blocks f)))"

definition defs :: "IRFunction \<Rightarrow> (nat \<times> IRType) set" where
  "defs f = {d. \<exists>i \<in> code_of f. iresult i = Some d}"

lemma append_keeps [simp]:
  "fname (append_to_block k i f) = fname f" "return_type (append_to_block k i f) = return_type f"
  "fscope (append_to_block k i f) = fscope f" "params (append_to_block k i f) = params f"
  "next_local_id (append_to_block k i f) = next_local_id f"
  "next_block_id (append_to_block k i f) = next_block_id f"
  "block_ids (append_to_block k i f) = block_ids f"
  by (simp_all add: append_to_block_def block_ids_def irBasicBlockAppendInstruction_def comp_def if_distrib cong: if_cong)

text \<open>Where the new instruction goes.\<close>

lemma append_split:
  assumes "distinct (block_ids f)" "k \<in> set (block_ids f)"
  obtains xs bb ys where "items (blocks f) = xs @ bb # ys" "bid bb = k"
    and "items (blocks (append_to_block k i f)) = xs @ irBasicBlockAppendInstruction bb i # ys"
proof -
  obtain bb where "bb \<in> set (items (blocks f))" and k: "bid bb = k"
    using assms(2) by (auto simp: block_ids_def)
  then obtain xs ys where s: "items (blocks f) = xs @ bb # ys" by (auto dest: split_list)
  have "bid bb \<notin> bid ` set xs" "bid bb \<notin> bid ` set ys"
    using assms(1) by (simp_all add: block_ids_def s)
  then have "\<forall>b \<in> set xs \<union> set ys. bid b \<noteq> k" unfolding k by (metis UnE imageI)
  then have "map (\<lambda>b. if bid b = k then irBasicBlockAppendInstruction b i else b) xs = xs"
    "map (\<lambda>b. if bid b = k then irBasicBlockAppendInstruction b i else b) ys = ys"
    by (auto intro: map_idI)
  then have "items (blocks (append_to_block k i f)) = xs @ irBasicBlockAppendInstruction bb i # ys"
    using k by (simp add: append_to_block_def s)
  with that s k show thesis by blast
qed

lemma append_contents:
  assumes "distinct (block_ids f)" "k \<in> set (block_ids f)"
  shows "code_of (append_to_block k i f) = insert i (code_of f)"
    and "mset (def_ids (append_to_block k i f)) = mset (result_ids [i]) + mset (def_ids f)"
proof -
  obtain xs bb ys where "items (blocks f) = xs @ bb # ys"
      "items (blocks (append_to_block k i f)) = xs @ irBasicBlockAppendInstruction bb i # ys"
    using append_split [OF assms] by metis
  then show "code_of (append_to_block k i f) = insert i (code_of f)"
    "mset (def_ids (append_to_block k i f)) = mset (result_ids [i]) + mset (def_ids f)"
    by (auto simp: code_of_def def_ids_def irBasicBlockAppendInstruction_def result_ids_def)
qed

lemma def_ids_defs: "set (def_ids f) = fst ` defs f"
proof -
  have "set (result_ids is) = {fst d | d i. i \<in> set is \<and> iresult i = Some d}" for "is"
    by (auto simp: result_ids_def split: option.splits) (metis fst_conv option.distinct(1) option.inject)+
  note r = this
  have "k \<in> set (def_ids f) \<longleftrightarrow> (\<exists>t. (k, t) \<in> defs f)" for k
    unfolding def_ids_def defs_def code_of_def set_concat set_map image_image r by auto
  then show ?thesis by force
qed

section \<open>Operands and instructions\<close>

text \<open>\<open>G\<close> is what the module declares: the numbers of its globals with their types.  A global
  operand is the address of one of them.\<close>

definition operand_ok :: "IRFunction \<Rightarrow> (nat \<times> IRType) set \<Rightarrow> IROperand \<Rightarrow> bool" where
  "operand_ok f G x \<longleftrightarrow>
     (case oref x of
        IR_OPERAND_LOCAL i \<Rightarrow> (\<exists>t. otype x = Some t \<and> (i, t) \<in> defs f)
      | IR_OPERAND_PARAM i \<Rightarrow> 1 \<le> i \<and> i \<le> length (params f) \<and> otype x = Some (ptype (params f ! (i - 1)))
      | IR_OPERAND_GLOBAL i \<Rightarrow> (\<exists>t. otype x = Some (IR_TYPE_POINTER t) \<and> (i, t) \<in> G)
      | IR_OPERAND_LITERAL l \<Rightarrow> l \<noteq> None
      | IR_OPERAND_BLOCK i \<Rightarrow> False)"

definition points_to :: "IROperand \<Rightarrow> IRType \<Rightarrow> bool" where
  "points_to x t \<longleftrightarrow> otype x = Some (IR_TYPE_POINTER t)"

text \<open>The operands are defined; loads, stores and address computations go through pointers; a
  jump goes to a block of the function.  Three kinds are never built.  A literal may be null only
  in a return.\<close>

definition instr_ok :: "IRFunction \<Rightarrow> (nat \<times> IRType) set \<Rightarrow> IRInstruction \<Rightarrow> bool" where
  "instr_ok f G i \<longleftrightarrow>
     (case idata i of
        IR_INSTR_CONST x \<Rightarrow> False
      | IR_INSTR_GLOBAL_ADDR k \<Rightarrow> False
      | IR_INSTR_CAST x t \<Rightarrow> False
      | IR_INSTR_ALLOCA t \<Rightarrow> (\<exists>k. iresult i = Some (k, IR_TYPE_POINTER t))
      | IR_INSTR_LOAD a \<Rightarrow> operand_ok f G a \<and> (\<exists>k t. iresult i = Some (k, t) \<and> points_to a t)
      | IR_INSTR_STORE a x \<Rightarrow> iresult i = None \<and> operand_ok f G a \<and> operand_ok f G x \<and> (\<exists>t. points_to a t)
      | IR_INSTR_GEP a xs \<Rightarrow> operand_ok f G a \<and> (\<forall>x \<in> set xs. operand_ok f G x) \<and> (\<exists>t. points_to a t)
          \<and> (\<exists>k t. iresult i = Some (k, IR_TYPE_POINTER t))
      | IR_INSTR_BINARY k x y \<Rightarrow> iresult i \<noteq> None \<and> operand_ok f G x \<and> operand_ok f G y
      | IR_INSTR_UNARY k x \<Rightarrow> iresult i \<noteq> None \<and> operand_ok f G x
      | IR_INSTR_BR k \<Rightarrow> iresult i = None \<and> k \<in> set (block_ids f)
      | IR_INSTR_COND_BR x k m \<Rightarrow> iresult i = None \<and> operand_ok f G x
          \<and> k \<in> set (block_ids f) \<and> m \<in> set (block_ids f)
      | IR_INSTR_RET v \<Rightarrow> iresult i = None \<and> (case v of None \<Rightarrow> True
          | Some x \<Rightarrow> operand_ok f G x \<or> oref x = IR_OPERAND_LITERAL None)
      | IR_INSTR_CALL name xs \<Rightarrow> (\<forall>x \<in> set xs. operand_ok f G x))"

definition function_inv :: "IRFunction \<Rightarrow> (nat \<times> IRType) set \<Rightarrow> bool" where
  "function_inv f G \<longleftrightarrow>
     distinct (block_ids f) \<and> (\<forall>k \<in> set (block_ids f). 1 \<le> k \<and> k < next_block_id f) \<and> 1 \<le> next_block_id f
     \<and> distinct (def_ids f) \<and> (\<forall>k \<in> set (def_ids f). 1 \<le> k \<and> k < next_local_id f) \<and> 1 \<le> next_local_id f
     \<and> (\<forall>i \<in> code_of f. instr_ok f G i)
     \<and> growable_ok (blocks f) \<and> (\<forall>bb \<in> set (items (blocks f)). growable_ok (instructions bb))"

text \<open>The blocks that control cannot leave yet.  An instruction appended to a block decides alone
  whether that block is among them.\<close>

definition open_ids :: "IRFunction \<Rightarrow> nat set" where
  "open_ids f = bid ` {bb \<in> set (items (blocks f)). \<not> terminated bb}"

lemma open_ids_append:
  "open_ids (append_to_block k i f) \<subseteq> (open_ids f - {k}) \<union> (if is_terminator i then {} else {k})"
proof -
  have "terminated (irBasicBlockAppendInstruction bb i) = is_terminator i" "bid (irBasicBlockAppendInstruction bb i) = bid bb" for bb
    by (simp_all add: terminated_def irBasicBlockAppendInstruction_def)
  then show ?thesis by (auto simp: open_ids_def append_to_block_def split: if_splits)
qed

text \<open>The instructions of a block.\<close>

definition block_code :: "IRFunction \<Rightarrow> nat \<Rightarrow> IRInstruction list" where
  "block_code f k = (case block_of f k of None \<Rightarrow> [] | Some bb \<Rightarrow> items (instructions bb))"

lemma block_code_blocks: "blocks g = blocks f \<Longrightarrow> block_code g = block_code f"
  by (simp add: fun_eq_iff block_code_def block_of_def)

lemma block_code_same [simp]:
  "block_code (f\<lparr>next_local_id := n\<rparr>) = block_code f" "block_code (f\<lparr>next_block_id := n\<rparr>) = block_code f"
  "block_code (f\<lparr>fscope := t\<rparr>) = block_code f"
  by (rule block_code_blocks, simp)+

lemma block_code_append:
  "block_code (append_to_block k i f) l = block_code f l @ (if l = k \<and> k \<in> set (block_ids f) then [i] else [])"
proof -
  have "case_option [] (\<lambda>bb. items (instructions bb))
      (find (\<lambda>bb. bid bb = l) (map (\<lambda>bb. if bid bb = k then irBasicBlockAppendInstruction bb i else bb) bs))
    = case_option [] (\<lambda>bb. items (instructions bb)) (find (\<lambda>bb. bid bb = l) bs)
      @ (if l = k \<and> k \<in> bid ` set bs then [i] else [])" for bs
    by (induction bs) (auto simp: irBasicBlockAppendInstruction_def)
  then show ?thesis by (simp add: block_code_def block_of_def append_to_block_def block_ids_def)
qed

text \<open>What later steps keep of a function.\<close>

definition extends :: "IRFunction \<Rightarrow> IRFunction \<Rightarrow> bool" where
  "extends f g \<longleftrightarrow> defs f \<subseteq> defs g \<and> set (block_ids f) \<subseteq> set (block_ids g)
     \<and> params g = params f \<and> return_type g = return_type f \<and> fname g = fname f
     \<and> next_block_id f \<le> next_block_id g \<and> next_local_id f \<le> next_local_id g
     \<and> (\<forall>k. prefix (block_code f k) (block_code g k)) \<and> prefix (block_ids f) (block_ids g)"

lemma extends_refl [simp]: "extends f f"
  by (simp add: extends_def)

lemma extends_trans: "extends f g \<Longrightarrow> extends g h \<Longrightarrow> extends f h"
  by (auto simp: extends_def intro: prefix_order.trans)

lemma operand_ok_mono: "operand_ok f G x \<Longrightarrow> extends f g \<Longrightarrow> G \<subseteq> H \<Longrightarrow> operand_ok g H x"
  by (auto simp: operand_ok_def extends_def split: IROperandRef.splits)

lemma instr_ok_mono: "instr_ok f G i \<Longrightarrow> extends f g \<Longrightarrow> G \<subseteq> H \<Longrightarrow> instr_ok g H i"
  using operand_ok_mono [of f G _ g H]
  by (auto simp: instr_ok_def extends_def split: IRInstructionData.splits option.splits)

lemma literal_operand_ok [simp]: "operand_ok f G (irOperandCreateLiteral t l) \<longleftrightarrow> l \<noteq> None" "operand_ok f G (int_operand v)"
  by (simp_all add: operand_ok_def irOperandCreateLiteral_def int_operand_def)

lemma function_inv_append:
  assumes inv: "function_inv f G" and k: "k \<in> set (block_ids f)" and i: "instr_ok f G i"
    and fresh: "\<And>r t. iresult i = Some (r, t) \<Longrightarrow> 1 \<le> r \<and> r < next_local_id f \<and> r \<notin> set (def_ids f)"
  shows "function_inv (append_to_block k i f) G" and "extends f (append_to_block k i f)"
    and "iresult i = Some d \<Longrightarrow> d \<in> defs (append_to_block k i f)"
proof -
  let ?g = "append_to_block k i f"
  have d: "distinct (block_ids f)" using inv by (simp add: function_inv_def)
  note c = append_contents [OF d k, of i]
  show e: "extends f ?g" by (auto simp: extends_def defs_def c block_code_append)
  show "iresult i = Some d \<Longrightarrow> d \<in> defs ?g" by (auto simp: defs_def c)
  have m: "mset (def_ids ?g) = mset (result_ids [i] @ def_ids f)" using c(2) by simp
  have "distinct (result_ids [i] @ def_ids f)"
    using inv fresh by (auto simp: function_inv_def result_ids_def split: option.split)
  then have dg: "distinct (def_ids ?g)" using mset_eq_imp_distinct_iff [OF m] by simp
  have "set (def_ids ?g) = set (result_ids [i]) \<union> set (def_ids f)"
    using mset_eq_setD [OF m] by simp
  moreover have "\<forall>j \<in> set (result_ids [i]). 1 \<le> j \<and> j < next_local_id f"
    using fresh by (cases "iresult i") (auto simp: result_ids_def)
  ultimately have "\<forall>j \<in> set (def_ids ?g). 1 \<le> j \<and> j < next_local_id f"
    using inv by (auto simp: function_inv_def)
  moreover have "\<forall>j \<in> code_of ?g. instr_ok ?g G j"
    using inv i instr_ok_mono [OF _ e] by (auto simp: c function_inv_def)
  moreover have "growable_ok (blocks ?g)"
    using inv by (simp add: function_inv_def append_to_block_def growable_ok_def)
  moreover have "\<forall>bb \<in> set (items (blocks ?g)). growable_ok (instructions bb)"
    using inv by (auto simp: function_inv_def append_to_block_def irBasicBlockAppendInstruction_def growable_ok_append)
  ultimately show "function_inv ?g G" using inv dg by (simp add: function_inv_def)
qed

end
