(* ===== verification/IrExprProps.thy ===== *)
theory IrExprProps
  imports IrInv
begin

text \<open>
  Lowering an expression keeps the builder's invariant, only adds to the function, and yields
  operands that are defined with the type they carry.
\<close>

section \<open>The builder\<close>

definition gcount :: "IRBuilder \<Rightarrow> nat" where
  "gcount b = length (items (globals (module b)))"

definition global_types :: "IRGlobal list \<Rightarrow> (nat \<times> IRType) set" where
  "global_types gs = (\<lambda>g. (gid g, gtype g)) ` set gs"

abbreviation gdefs :: "IRBuilder \<Rightarrow> (nat \<times> IRType) set" where
  "gdefs b \<equiv> global_types (items (globals (module b)))"

definition sym_ok :: "IRFunction \<Rightarrow> (nat \<times> IRType) set \<Rightarrow> IRSymbol \<Rightarrow> bool" where
  "sym_ok f G s \<longleftrightarrow>
     (case irdata s of
        IR_SYMBOL_LOCAL i \<Rightarrow> (i, irtype s) \<in> defs f \<and> is_pointer_type (irtype s)
      | IR_SYMBOL_GLOBAL i \<Rightarrow> (i, irtype s) \<in> G
      | IR_SYMBOL_FUNCTION t ps \<Rightarrow> True)"

definition table_ok :: "IRFunction \<Rightarrow> (nat \<times> IRType) set \<Rightarrow> IRSymbolTable \<Rightarrow> bool" where
  "table_ok f G t \<longleftrightarrow> buckets_ok irname t \<and> (\<forall>x s. bucketLookup irname t x = Some s \<longrightarrow> sym_ok f G s)"

text \<open>A global has a number of the module, which it shares with its storage if it has one.  A
  constant holds a string and has its length as type.\<close>

definition well_formed_global :: "nat \<Rightarrow> IRGlobal \<Rightarrow> bool" where
  "well_formed_global n g \<longleftrightarrow> 1 \<le> gid g \<and> gid g \<le> n
     \<and> storage_global_id g \<in> {None, Some (gid g)}
     \<and> (is_constant g \<longrightarrow> (\<exists>s. initializer g = Some (IR_LITERAL_STRING s) \<and> NUL \<notin> set s
          \<and> gtype g = IR_TYPE_ARRAY (Some IR_TYPE_CHAR) (Some (length s + 1))))"

lemma well_formed_global_mono: "well_formed_global n g \<Longrightarrow> n \<le> m \<Longrightarrow> well_formed_global m g"
  by (simp add: well_formed_global_def)

text \<open>A global is numbered by its place, except a variable with a storage of its own: that takes
  its number before the storage, which is appended first and gets the same.\<close>

definition numbered_after :: "IRGlobal list \<Rightarrow> IRGlobal \<Rightarrow> bool" where
  "numbered_after gs g \<longleftrightarrow> gid g = Suc (length gs)
     \<or> (gs \<noteq> [] \<and> gid g = length gs \<and> storage_global_id g = Some (gid g)
        \<and> is_constant (last gs) \<and> gid (last gs) = length gs)"

definition well_formed_globals :: "IRGlobal list \<Rightarrow> bool" where
  "well_formed_globals gs \<longleftrightarrow> (\<forall>k < length gs. numbered_after (take k gs) (gs ! k))
     \<and> (\<forall>g \<in> set gs. well_formed_global (length gs) g)"

lemma well_formed_globals_Nil [simp]: "well_formed_globals []"
  by (simp add: well_formed_globals_def)

lemma well_formed_globals_append:
  "well_formed_globals gs \<Longrightarrow> numbered_after gs g \<Longrightarrow> well_formed_global (Suc (length gs)) g \<Longrightarrow>
   well_formed_globals (gs @ [g])"
  by (auto simp: well_formed_globals_def nth_append less_Suc_eq intro: well_formed_global_mono)

lemma shared_number:
  assumes "well_formed_globals gs" "i < j" "j < length gs" "gid (gs ! i) = gid (gs ! j)"
  shows "j = Suc i \<and> is_constant (gs ! i) \<and> storage_global_id (gs ! j) = Some (gid (gs ! j))"
proof -
  have n: "numbered_after (take k gs) (gs ! k)" if "k < length gs" for k
    using assms(1) that by (simp add: well_formed_globals_def)
  have "j = Suc i" "gid (gs ! j) = j"
    using n [of i] n [of j] assms(2-4) by (auto simp: numbered_after_def)
  moreover from this have "last (take j gs) = gs ! i" using assms(3) by (simp add: take_Suc_conv_app_nth)
  ultimately show ?thesis using n [of j] assms(3) by (auto simp: numbered_after_def)
qed

lemma global_types_prefix: "prefix gs hs \<Longrightarrow> global_types gs \<subseteq> global_types hs"
  by (auto simp: global_types_def dest: set_mono_prefix)

lemma global_types_append [simp]: "global_types (gs @ [g]) = insert (gid g, gtype g) (global_types gs)"
  by (simp add: global_types_def)

definition builder_inv :: "IRBuilder \<Rightarrow> bool" where
  "builder_inv b \<longleftrightarrow>
     function_inv (current_fun b) (gdefs b)
     \<and> current_block b \<in> set (block_ids (current_fun b))
     \<and> (\<forall>p \<in> set (items (loop_targets b)).
          fst p \<in> set (block_ids (current_fun b)) \<and> snd p \<in> set (block_ids (current_fun b)))
     \<and> (\<forall>t \<in> set (current_scope b). table_ok (current_fun b) (gdefs b) t)
     \<and> current_scope b \<noteq> []
     \<and> growable_ok (globals (module b))
     \<and> well_formed_globals (items (globals (module b)))"

text \<open>What every step keeps, and what a step inside a block keeps besides.\<close>

definition builder_ext :: "IRBuilder \<Rightarrow> IRBuilder \<Rightarrow> bool" where
  "builder_ext b c \<longleftrightarrow> extends (current_fun b) (current_fun c)
     \<and> prefix (items (globals (module b))) (items (globals (module c)))
     \<and> mscope (module c) = mscope (module b) \<and> mfunctions (module c) = mfunctions (module b)
     \<and> items (loop_targets c) = items (loop_targets b) \<and> tl (current_scope c) = tl (current_scope b)"

definition pending :: "IRBuilder \<Rightarrow> nat set" where
  "pending b = open_ids (current_fun b) - {current_block b}"

text \<open>A step inside a block appends to that block only, and does not close it.\<close>

definition closed :: "IRBuilder \<Rightarrow> bool" where
  "closed b \<longleftrightarrow> block_code (current_fun b) (current_block b) \<noteq> []
     \<and> is_terminator (last (block_code (current_fun b) (current_block b)))"

lemma has_terminator_closed: "irBuilderCurrentBlockHasTerminator b = closed b"
  by (simp add: irBuilderCurrentBlockHasTerminator_def closed_def block_code_def terminated_def split: option.split)

definition stays :: "IRBuilder \<Rightarrow> IRBuilder \<Rightarrow> bool" where
  "stays b c \<longleftrightarrow> builder_ext b c \<and> current_block c = current_block b \<and> current_scope c = current_scope b
     \<and> pending c \<subseteq> pending b
     \<and> (\<forall>k. k \<noteq> current_block b \<longrightarrow> block_code (current_fun c) k = block_code (current_fun b) k)
     \<and> (closed c \<longrightarrow> closed b)"

lemma builder_ext_refl [simp]: "builder_ext b b"
  by (simp add: builder_ext_def)

lemma builder_ext_trans: "builder_ext b c \<Longrightarrow> builder_ext c d \<Longrightarrow> builder_ext b d"
  by (auto simp: builder_ext_def intro: extends_trans prefix_order.trans)

lemma stays_refl [simp]: "stays b b"
  by (simp add: stays_def)

lemma stays_trans: "stays b c \<Longrightarrow> stays c d \<Longrightarrow> stays b d"
  by (auto simp: stays_def intro: builder_ext_trans)

lemma pending_cong: "current_fun c = current_fun b \<Longrightarrow> current_block c = current_block b \<Longrightarrow> pending c = pending b"
  by (simp add: pending_def)

lemma builder_ext_gdefs: "builder_ext b c \<Longrightarrow> gdefs b \<subseteq> gdefs c"
  by (simp add: builder_ext_def global_types_prefix)

section \<open>Values\<close>

abbreviation op_ok :: "IRBuilder \<Rightarrow> IROperand \<Rightarrow> bool" where
  "op_ok b \<equiv> operand_ok (current_fun b) (gdefs b)"

definition value_ok :: "IRBuilder \<Rightarrow> IRValue \<Rightarrow> bool" where
  "value_ok b v \<longleftrightarrow>
     (\<forall>x. vvalue v = Some x \<longrightarrow> op_ok b x \<and> vtype v \<noteq> None \<and> otype x = vtype v)
     \<and> (\<forall>a. vaddress v = Some a \<longrightarrow> op_ok b a \<and> (\<exists>t. vtype v = Some t \<and> points_to a t))"

lemma op_ok_ext: "op_ok b x \<Longrightarrow> builder_ext b c \<Longrightarrow> op_ok c x"
  using builder_ext_gdefs [of b c] by (auto simp: builder_ext_def intro: operand_ok_mono)

lemma value_ok_ext: "value_ok b v \<Longrightarrow> builder_ext b c \<Longrightarrow> value_ok c v"
  by (auto simp: value_ok_def intro: op_ok_ext)

lemma value_ok_empty [simp]: "value_ok b irValueEmpty"
  by (simp add: value_ok_def irValueEmpty_def)

lemma irValueEmpty_sel [simp]: "vvalue irValueEmpty = None" "vaddress irValueEmpty = None" "vtype irValueEmpty = None"
  by (simp_all add: irValueEmpty_def)

lemma table_ok_mono: "table_ok f G t \<Longrightarrow> extends f g \<Longrightarrow> G \<subseteq> H \<Longrightarrow> table_ok g H t"
  by (fastforce simp: table_ok_def sym_ok_def extends_def split: IRSymbolData.splits)

section \<open>Sequencing\<close>

text \<open>From a builder with the invariant the computation reaches one with the invariant and the
  postcondition.\<close>

definition reaches :: "IRBuilder \<Rightarrow> 'a \<times> IRBuilder \<Rightarrow> (IRBuilder \<Rightarrow> 'a \<Rightarrow> bool) \<Rightarrow> bool" where
  "reaches b r Q \<longleftrightarrow> (builder_inv b \<longrightarrow> stays b (snd r) \<and> builder_inv (snd r) \<and> Q (snd r) (fst r))"

lemma reaches_return [simp]: "reaches b (x, b) Q \<longleftrightarrow> (builder_inv b \<longrightarrow> Q b x)"
  by (auto simp: reaches_def)

lemma reaches_bind:
  assumes "reaches b m P"
    and "\<And>x c. m = (x, c) \<Longrightarrow> builder_inv c \<Longrightarrow> stays b c \<Longrightarrow> P c x \<Longrightarrow> reaches c (k x c) Q"
  shows "reaches b (let (x, c) = m in k x c) Q"
  using assms stays_trans by (cases m) (fastforce simp: reaches_def)

lemma reaches_case:
  "reaches b m P \<Longrightarrow> (\<And>x c. m = (x, c) \<Longrightarrow> builder_inv c \<Longrightarrow> stays b c \<Longrightarrow> P c x \<Longrightarrow> reaches c (k x c) Q) \<Longrightarrow>
   reaches b (case m of (x, c) \<Rightarrow> k x c) Q"
  using reaches_bind [of b m P k Q] by simp

lemma reaches_mono: "reaches b r P \<Longrightarrow> (\<And>x c. builder_inv c \<Longrightarrow> P c x \<Longrightarrow> Q c x) \<Longrightarrow> reaches b r Q"
  by (simp add: reaches_def)

lemma reaches_assuming_inv: "(builder_inv b \<Longrightarrow> reaches b r Q) \<Longrightarrow> reaches b r Q"
  by (simp add: reaches_def)

section \<open>Emitting\<close>

lemma operand_ok_reserve [simp]: "operand_ok (f\<lparr>next_local_id := k\<rparr>) G x = operand_ok f G x"
  by (simp add: operand_ok_def defs_def code_of_def cong: IROperandRef.case_cong)

lemma contents_reserve [simp]:
  "block_ids (f\<lparr>next_local_id := k\<rparr>) = block_ids f" "def_ids (f\<lparr>next_local_id := k\<rparr>) = def_ids f"
  "code_of (f\<lparr>next_local_id := k\<rparr>) = code_of f" "defs (f\<lparr>next_local_id := k\<rparr>) = defs f"
  by (simp_all add: block_ids_def def_ids_def code_of_def defs_def)

lemma instr_ok_reserve [simp]: "instr_ok (f\<lparr>next_local_id := k\<rparr>) G i = instr_ok f G i"
  by (simp add: instr_ok_def cong: IRInstructionData.case_cong option.case_cong)

lemma function_inv_reserve:
  "function_inv f G \<Longrightarrow> function_inv (f\<lparr>next_local_id := Suc (next_local_id f)\<rparr>) G"
  by (auto simp: function_inv_def)

text \<open>Appending an instruction to the current block.\<close>

lemma append_step:
  assumes inv: "builder_inv b" and i: "instr_ok (current_fun b) (gdefs b) i"
    and fresh: "\<And>r t. iresult i = Some (r, t) \<Longrightarrow>
        1 \<le> r \<and> r < next_local_id (current_fun b) \<and> r \<notin> set (def_ids (current_fun b))"
  shows "\<not> is_terminator i \<Longrightarrow> stays b (irBuilderAppendInstruction i b)"
    "builder_ext b (irBuilderAppendInstruction i b)" "pending (irBuilderAppendInstruction i b) \<subseteq> pending b"
    "builder_inv (irBuilderAppendInstruction i b)" "iresult i = Some d \<Longrightarrow> d \<in> defs (current_fun (irBuilderAppendInstruction i b))"
proof -
  let ?f = "current_fun b" and ?c = "irBuilderAppendInstruction i b"
  have fi: "function_inv ?f (gdefs b)" and k: "current_block b \<in> set (block_ids ?f)"
    using inv by (simp_all add: builder_inv_def)
  note a = function_inv_append [OF fi k i fresh]
  have cf: "current_fun ?c = append_to_block (current_block b) i ?f"
    by (simp add: irBuilderAppendInstruction_def)
  have same: "current_block ?c = current_block b" "current_scope ?c = current_scope b"
    "loop_targets ?c = loop_targets b" "module ?c = module b"
    by (simp_all add: irBuilderAppendInstruction_def)
  show p: "pending ?c \<subseteq> pending b"
    using open_ids_append [of "current_block b" i ?f] by (auto simp: pending_def cf same split: if_splits)
  show e: "builder_ext b ?c" using a(2) by (simp add: builder_ext_def cf same)
  show "stays b ?c" if "\<not> is_terminator i"
    using that e p k by (simp add: stays_def cf same block_code_append closed_def)
  show "builder_inv ?c"
    using inv a(1) k table_ok_mono [OF _ a(2) subset_refl]
    by (simp add: builder_inv_def cf same)
  show "iresult i = Some d \<Longrightarrow> d \<in> defs (current_fun ?c)" using a(3) by (simp add: cf)
qed

lemma reserve_step:
  assumes "builder_inv b" "irBuilderReserveResult b = (k, c)"
  shows "stays b c" "builder_inv c" "1 \<le> k \<and> k < next_local_id (current_fun c) \<and> k \<notin> set (def_ids (current_fun c))"
    "current_fun c = (current_fun b)\<lparr>next_local_id := Suc (next_local_id (current_fun b))\<rparr>" "module c = module b"
proof -
  have c: "c = b\<lparr>current_fun := (current_fun b)\<lparr>next_local_id := Suc (next_local_id (current_fun b))\<rparr>\<rparr>"
      "k = next_local_id (current_fun b)"
    using assms(2) by (auto simp: irBuilderReserveResult_def irFunctionReserveLocalId_def)
  show "current_fun c = (current_fun b)\<lparr>next_local_id := Suc (next_local_id (current_fun b))\<rparr>"
    "module c = module b" by (simp_all add: c)
  show "stays b c" by (simp add: c stays_def builder_ext_def extends_def pending_def open_ids_def closed_def)
  have t: "table_ok (f\<lparr>next_local_id := j\<rparr>) G t = table_ok f G t" for f j G t
    by (simp add: table_ok_def sym_ok_def cong: IRSymbolData.case_cong)
  show "builder_inv c"
    using assms(1) function_inv_reserve [of "current_fun b" "gdefs b"]
    by (simp add: c builder_inv_def t)
  show "1 \<le> k \<and> k < next_local_id (current_fun c) \<and> k \<notin> set (def_ids (current_fun c))"
    using assms(1) by (auto simp: c builder_inv_def function_inv_def)
qed

lemma result_not_terminator: "instr_ok f G (instr (Some d) e) \<Longrightarrow> \<not> is_terminator (instr (Some d) e)"
  by (auto simp: instr_ok_def is_terminator_def instr_def split: IRInstructionData.splits)

lemma emit_result_reaches:
  assumes "builder_inv b \<Longrightarrow> (\<And>k. instr_ok (current_fun b) (gdefs b) (instr (Some (k, t)) d))"
  shows "reaches b (emit_result t d b) (\<lambda>c k. (k, t) \<in> defs (current_fun c))"
proof (rule reaches_assuming_inv)
  assume inv: "builder_inv b"
  obtain k c where r: "irBuilderReserveResult b = (k, c)" by (cases "irBuilderReserveResult b")
  note s = reserve_step [OF inv r]
  have i: "instr_ok (current_fun c) (gdefs c) (instr (Some (k, t)) d)"
    using assms [OF inv] s(4,5) by simp
  have "builder_inv (irBuilderAppendInstruction (instr (Some (k, t)) d) c)
     \<and> stays c (irBuilderAppendInstruction (instr (Some (k, t)) d) c)
     \<and> (k, t) \<in> defs (current_fun (irBuilderAppendInstruction (instr (Some (k, t)) d) c))"
    using append_step [OF s(2) i] s(3) result_not_terminator [OF i] by (auto simp: instr_def)
  then show "reaches b (emit_result t d b) (\<lambda>c k. (k, t) \<in> defs (current_fun c))"
    using stays_trans [OF s(1)] by (simp add: reaches_def emit_result_def r)
qed

lemma local_operand: "(k, t) \<in> defs f \<Longrightarrow> operand_ok f G (irOperandCreateLocal t k)"
  by (simp add: operand_ok_def irOperandCreateLocal_def)

lemma global_operand [simp]: "operand_ok f G (irOperandCreateGlobal (IR_TYPE_POINTER t) i) \<longleftrightarrow> (i, t) \<in> G"
  by (simp add: operand_ok_def irOperandCreateGlobal_def)

lemma otype_simps [simp]:
  "otype (irOperandCreateLocal t k) = Some t" "otype (irOperandCreateParam t k) = Some t"
  "otype (irOperandCreateGlobal t k) = Some t" "otype (irOperandCreateLiteral t l) = Some t"
  by (simp_all add: irOperandCreateLocal_def irOperandCreateParam_def irOperandCreateGlobal_def
      irOperandCreateLiteral_def)

lemma value_ok_a_value: "value_ok b (a_value t x) \<longleftrightarrow> op_ok b x \<and> otype x = Some t"
  by (auto simp: value_ok_def a_value_def)

lemma value_ok_an_address: "value_ok b (an_address t a) \<longleftrightarrow> op_ok b a \<and> (\<exists>u. t = Some u \<and> points_to a u)"
  by (auto simp: value_ok_def an_address_def)

lemma emit_value:
  assumes "builder_inv b \<Longrightarrow> (\<And>k. instr_ok (current_fun b) (gdefs b) (instr (Some (k, t)) d))"
  shows "reaches b (let (i, b) = emit_result t d b in (a_value t (irOperandCreateLocal t i), b)) value_ok"
  by (rule reaches_bind [OF emit_result_reaches [OF assms]])
     (simp_all add: value_ok_a_value local_operand)

lemma load_reaches:
  "builder_inv b \<Longrightarrow> op_ok b a \<Longrightarrow> points_to a t \<Longrightarrow> reaches b (irBuilderEmitLoad a (Some t) b) value_ok"
  unfolding irBuilderEmitLoad_def by (simp only: option.case) (rule emit_value, simp add: instr_ok_def instr_def)

lemma binary_reaches:
  "builder_inv b \<Longrightarrow> op_ok b x \<Longrightarrow> op_ok b y \<Longrightarrow> reaches b (irBuilderEmitBinary k x y t b) value_ok"
  unfolding irBuilderEmitBinary_def
  by (cases t) (simp, simp only: option.case, rule emit_value, simp add: instr_ok_def instr_def)

lemma unary_reaches:
  "builder_inv b \<Longrightarrow> op_ok b x \<Longrightarrow> reaches b (irBuilderEmitUnary k x t b) value_ok"
  unfolding irBuilderEmitUnary_def
  by (cases t) (simp, simp only: option.case, rule emit_value, simp add: instr_ok_def instr_def)

lemma gep_reaches:
  assumes "builder_inv b" "op_ok b a" "points_to a u" "\<forall>x \<in> set xs. op_ok b x"
  shows "reaches b (irBuilderEmitGep a xs t b) value_ok"
proof (cases t)
  case None
  then show ?thesis by (simp add: irBuilderEmitGep_def)
next
  case (Some v)
  have "instr_ok (current_fun b) (gdefs b) (instr (Some (k, irTypeCreatePointer v)) (IR_INSTR_GEP a xs))" for k
    using assms by (auto simp: instr_ok_def instr_def irTypeCreatePointer_def)
  then show ?thesis
    unfolding Some irBuilderEmitGep_def option.case Let_def [of "irTypeCreatePointer v"]
    by (intro reaches_bind [OF emit_result_reaches])
       (simp_all add: value_ok_an_address local_operand points_to_def irTypeCreatePointer_def)
qed

section \<open>The parts of an expression\<close>

lemma builder_scope_lookup:
  "\<forall>t \<in> set sc. table_ok f G t \<Longrightarrow> irScopeLookup sc x = Some s \<Longrightarrow> sym_ok f G s"
  by (induction sc) (auto simp: irScopeLookupCurrent_def table_ok_def split: option.splits)

lemma identifier_ok:
  assumes "builder_inv b"
  shows "value_ok b (irBuilderLowerIdentifier name b)"
proof (cases "irScopeLookup (current_scope b) name")
  case None
  then show ?thesis by (simp add: irBuilderLowerIdentifier_def)
next
  case (Some s)
  have "sym_ok (current_fun b) (gdefs b) s"
    using builder_scope_lookup [OF _ Some] assms by (simp add: builder_inv_def)
  then show ?thesis
    using Some by (cases "irtype s")
      (auto simp: irBuilderLowerIdentifier_def sym_ok_def value_ok_an_address local_operand points_to_def
        irTypeCreatePointer_def split: IRSymbolData.splits)
qed

lemma function_inv_mono: "function_inv f G \<Longrightarrow> G \<subseteq> H \<Longrightarrow> function_inv f H"
  by (auto simp: function_inv_def intro: instr_ok_mono)

lemma append_global_step:
  assumes "builder_inv b" "well_formed_global (Suc (gcount b)) g" "numbered_after (items (globals (module b))) g"
  shows "stays b (append_global g b)" "builder_inv (append_global g b)" "(gid g, gtype g) \<in> gdefs (append_global g b)"
proof -
  let ?c = "append_global g b"
  have s: "current_fun ?c = current_fun b" "current_block ?c = current_block b" "current_scope ?c = current_scope b"
    "loop_targets ?c = loop_targets b" "globals (module ?c) = growable_append (globals (module b)) g"
    "mscope (module ?c) = mscope (module b)" "mfunctions (module ?c) = mfunctions (module b)"
    by (simp_all add: append_global_def irModuleAppendGlobal_def)
  show "stays b ?c" by (simp add: stays_def builder_ext_def s pending_def closed_def)
  show "(gid g, gtype g) \<in> gdefs ?c" by (simp add: s)
  have "gdefs b \<subseteq> gdefs ?c" by (auto simp: s)
  then show "builder_inv ?c"
    using assms function_inv_mono [of "current_fun b" "gdefs b" "gdefs ?c"]
      table_ok_mono [of "current_fun b" "gdefs b" _ "current_fun b" "gdefs ?c"]
    by (simp add: builder_inv_def s growable_ok_append well_formed_globals_append gcount_def)
qed

lemma storage_reaches: "reaches b (irBuilderAddStringStorage v b)
   (\<lambda>c i. (i, irTypeCreateSizedArray (Some IR_TYPE_CHAR) (irBuilderStringLiteralLength v + 1)) \<in> gdefs c)"
  using append_global_step [of b]
  by (simp add: reaches_def irBuilderAddStringStorage_def Let_def irBuilderNextGlobalId_def gcount_def
      well_formed_global_def numbered_after_def irGlobalCreate_def irTypeCreateSizedArray_def irBuilderStringLiteralLength_def
      irBuilderUnquoteString_def c_string_no_NUL append_global_def irModuleAppendGlobal_def)

lemma string_literal_reaches: "reaches b (irBuilderLowerStringLiteralRValue v b) value_ok"
  unfolding irBuilderLowerStringLiteralRValue_def Let_def
proof (rule reaches_case [OF storage_reaches])
  let ?t = "irTypeCreateSizedArray (Some IR_TYPE_CHAR) (irBuilderStringLiteralLength v + 1)"
  fix i c assume 1: "builder_inv c" "(i, ?t) \<in> gdefs c"
  have "reaches c (irBuilderEmitGep (irOperandCreateGlobal (irTypeCreatePointer ?t) i) [int_operand 0, int_operand 0]
      (Some IR_TYPE_CHAR) c) value_ok"
    using gep_reaches [OF 1(1), of "irOperandCreateGlobal (irTypeCreatePointer ?t) i" ?t] 1
    by (simp add: points_to_def irTypeCreatePointer_def)
  then show "reaches c (case irBuilderEmitGep (irOperandCreateGlobal (irTypeCreatePointer ?t) i) [int_operand 0, int_operand 0]
      (Some IR_TYPE_CHAR) c of (g, b) \<Rightarrow>
        (case vaddress g of None \<Rightarrow> irValueEmpty | Some a \<Rightarrow> a_value (irTypeCreatePointer IR_TYPE_CHAR) a, b)) value_ok"
  proof (rule reaches_case)
    fix g d assume g: "irBuilderEmitGep (irOperandCreateGlobal (irTypeCreatePointer ?t) i) [int_operand 0, int_operand 0]
      (Some IR_TYPE_CHAR) c = (g, d)" and ok: "value_ok d g"
    have "vtype g = Some IR_TYPE_CHAR"
      using g by (auto simp: irBuilderEmitGep_def an_address_def Let_def split: prod.splits)
    with ok have "value_ok d (case vaddress g of None \<Rightarrow> irValueEmpty | Some a \<Rightarrow> a_value (irTypeCreatePointer IR_TYPE_CHAR) a)"
      by (cases "vaddress g") (auto simp: value_ok_a_value value_ok_def [of d g] points_to_def irTypeCreatePointer_def)
    then show "reaches d (case vaddress g of None \<Rightarrow> irValueEmpty | Some a \<Rightarrow> a_value (irTypeCreatePointer IR_TYPE_CHAR) a, d) value_ok"
      by simp
  qed
qed

lemma load_value_reaches: "reaches b r value_ok \<Longrightarrow> reaches b (load_value r) value_ok"
  unfolding load_value_def
proof (erule reaches_bind)
  fix v c assume "builder_inv c" "value_ok c v"
  then show "reaches c (case (vaddress v, vtype v) of (Some a, Some t) \<Rightarrow> irBuilderEmitLoad a (Some t) c
      | _ \<Rightarrow> (irValueEmpty, c)) value_ok"
    using load_reaches [of c "the (vaddress v)" "the (vtype v)"]
    by (cases "vaddress v"; cases "vtype v") (auto simp: value_ok_def [of c v])
qed

lemma address_as_value_ok: "value_ok b v \<Longrightarrow> value_ok b (address_as_value v)"
  by (auto simp: address_as_value_def value_ok_def a_value_def points_to_def split: option.splits)

lemma decay_reaches: "builder_inv b \<Longrightarrow> value_ok b v \<Longrightarrow> reaches b (irBuilderDecayArrayToPointer v b) value_ok"
proof -
  assume 1: "builder_inv b" "value_ok b v"
  show ?thesis
  proof (cases "\<exists>a t n. vaddress v = Some a \<and> vtype v = Some (IR_TYPE_ARRAY (Some t) n)")
    case True
    then obtain a t n where v: "vaddress v = Some a" "vtype v = Some (IR_TYPE_ARRAY (Some t) n)" by blast
    then have "op_ok b a" "points_to a (IR_TYPE_ARRAY (Some t) n)" using 1(2) by (simp_all add: value_ok_def)
    from gep_reaches [OF 1(1) this, of "[int_operand 0, int_operand 0]" "Some t"]
    show ?thesis by (simp add: irBuilderDecayArrayToPointer_def v) (erule reaches_case, simp add: address_as_value_ok)
  next
    case False
    then have "irBuilderDecayArrayToPointer v b = (irValueEmpty, b)"
      by (auto simp: irBuilderDecayArrayToPointer_def split: option.split IRType.split)
    then show ?thesis by simp
  qed
qed

lemma pointee_ok: "value_ok b p \<Longrightarrow> value_ok b (pointee p)"
  by (auto simp: pointee_def value_ok_def an_address_def points_to_def split: option.split IRType.split)

lemma pointer_arithmetic_reaches:
  assumes "builder_inv b" "op_ok b l" "op_ok b r" "points_to l u"
  shows "reaches b (irBuilderLowerPointerArithmetic op t l r b) value_ok"
  unfolding irBuilderLowerPointerArithmetic_def
proof (rule reaches_bind)
  show "reaches b (if op = AST_BINARY_SUB
        then let (n, b) = irBuilderEmitBinary IR_INSTR_SUB (int_operand 0) r (Some IR_TYPE_INT) b in (vvalue n, b)
        else (Some r, b)) (\<lambda>c x. \<forall>y. x = Some y \<longrightarrow> op_ok c y)"
    using binary_reaches [OF assms(1), of "int_operand 0" r IR_INSTR_SUB "Some IR_TYPE_INT"] assms(1,3)
    by (auto intro!: reaches_case simp: value_ok_def)
next
  fix x c assume 1: "builder_inv c" "stays b c" "\<forall>y. x = Some y \<longrightarrow> op_ok c y"
  show "reaches c (case x of None \<Rightarrow> (irValueEmpty, c)
     | Some offset \<Rightarrow> let (g, b) = irBuilderEmitGep l [offset] (element_type t) c in (address_as_value g, b)) value_ok"
  proof (cases x)
    case (Some y)
    have "op_ok c l" using assms(2) 1(2) by (simp add: stays_def op_ok_ext)
    then have "reaches c (irBuilderEmitGep l [y] (element_type t) c) value_ok"
      using gep_reaches [OF 1(1) _ assms(4), of "[y]"] 1(3) Some by simp
    then show ?thesis unfolding Some option.case by (rule reaches_bind) (simp add: address_as_value_ok)
  qed simp
qed

lemma lower_binary_reaches:
  assumes "builder_inv b" "value_ok b l" "value_ok b r"
  shows "reaches b (lower_binary op l r b) value_ok"
proof (cases "\<exists>x y t. vvalue l = Some x \<and> vvalue r = Some y \<and> vtype l = Some t")
  case True
  then obtain x y t where v: "vvalue l = Some x" "vvalue r = Some y" "vtype l = Some t" by blast
  then have "op_ok b x" "op_ok b y" "otype x = Some t" using assms by (simp_all add: value_ok_def)
  then show ?thesis
    using binary_reaches [OF assms(1)] pointer_arithmetic_reaches [OF assms(1)] v
    by (cases t) (auto simp: lower_binary_def points_to_def)
next
  case False
  then have "lower_binary op l r b = (irValueEmpty, b)"
    by (auto simp: lower_binary_def split: option.split)
  then show ?thesis by simp
qed

lemma lower_unary_reaches: "builder_inv b \<Longrightarrow> value_ok b v \<Longrightarrow> reaches b (lower_unary op v b) value_ok"
  by (auto simp: lower_unary_def value_ok_def unary_reaches split: option.split)

lemma emit_call_reaches:
  assumes "builder_inv b" "\<forall>x \<in> set xs. op_ok b x"
  shows "reaches b (emit_call name xs t b) value_ok"
proof (cases "t = IR_TYPE_VOID")
  case True
  have "instr_ok (current_fun b) (gdefs b) (instr None (IR_INSTR_CALL name xs))"
    using assms(2) by (simp add: instr_ok_def instr_def)
  from append_step [OF assms(1) this] True show ?thesis by (simp add: emit_call_def reaches_def instr_def is_terminator_def)
next
  case False
  have "reaches b (let (i, b) = emit_result t (IR_INSTR_CALL name xs) b in (a_value t (irOperandCreateLocal t i), b)) value_ok"
    by (rule emit_value) (use assms(2) in \<open>simp add: instr_ok_def instr_def\<close>)
  then show ?thesis using False by (simp add: emit_call_def)
qed

section \<open>Expressions\<close>

lemma ub_step [simp]: "builder_inv (undefined_behaviour b) = builder_inv b" "stays b (undefined_behaviour b)"
  by (simp_all add: builder_inv_def undefined_behaviour_def gcount_def stays_def builder_ext_def pending_def closed_def)

definition ops_ok :: "IRBuilder \<Rightarrow> IROperand list \<Rightarrow> bool" where
  "ops_ok b xs \<longleftrightarrow> (\<forall>x \<in> set xs. op_ok b x)"

lemma ops_ok_simps [simp]: "ops_ok b []" "ops_ok b (x # xs) \<longleftrightarrow> op_ok b x \<and> ops_ok b xs"
  by (simp_all add: ops_ok_def)

definition indices_ok :: "IRBuilder \<Rightarrow> (IROperand list \<times> IRType) option \<Rightarrow> bool" where
  "indices_ok b r = (case r of None \<Rightarrow> True | Some (xs, u) \<Rightarrow> ops_ok b xs)"

definition args_ok :: "IRBuilder \<Rightarrow> IROperand list option \<Rightarrow> bool" where
  "args_ok b r = (case r of None \<Rightarrow> True | Some xs \<Rightarrow> ops_ok b xs)"

text \<open>What is shown of an expression, wherever it is lowered.\<close>

definition lowers :: "ast \<Rightarrow> bool" where
  "lowers e \<longleftrightarrow> (\<forall>b. reaches b (irBuilderLowerLValue e b) value_ok)
     \<and> (\<forall>b. reaches b (irBuilderLowerRValue e b) value_ok)"

text \<open>The cases of an option inside a computation.\<close>

lemma reaches_option:
  "(x = None \<Longrightarrow> reaches b r Q) \<Longrightarrow> (\<And>y. x = Some y \<Longrightarrow> reaches b (k y) Q) \<Longrightarrow>
   reaches b (case x of None \<Rightarrow> r | Some y \<Rightarrow> k y) Q"
  by (cases x) simp_all

lemma value_of: "value_ok b v \<Longrightarrow> vvalue v = Some x \<Longrightarrow> op_ok b x"
  by (simp add: value_ok_def)

lemma stays_op: "op_ok b x \<Longrightarrow> stays b c \<Longrightarrow> op_ok c x"
  by (simp add: stays_def op_ok_ext)

lemma stays_value: "value_ok b v \<Longrightarrow> stays b c \<Longrightarrow> value_ok c v"
  by (simp add: stays_def value_ok_ext)

lemma lowers_value: "lowers e \<Longrightarrow> reaches b (irBuilderLowerRValue e b) value_ok"
  and lowers_address: "lowers e \<Longrightarrow> reaches b (irBuilderLowerLValue e b) value_ok"
  by (simp_all add: lowers_def)

lemma indices_reach: "\<forall>i \<in> set is. lowers i \<Longrightarrow> reaches b (lower_indices t is b) indices_ok"
proof (induction "is" arbitrary: t b)
  case Nil
  then show ?case by (simp add: indices_ok_def)
next
  case (Cons i "is")
  show ?case
  proof (cases "\<exists>u n. t = IR_TYPE_ARRAY (Some u) n")
    case True
    then obtain u n where t: "t = IR_TYPE_ARRAY (Some u) n" by blast
    have i: "lowers i" and r: "\<And>c. reaches c (lower_indices u is c) indices_ok"
      using Cons by simp_all
    show ?thesis
      unfolding t lower_indices.simps IRType.case option.case
    proof (intro reaches_bind [OF lowers_value [OF i]] reaches_option reaches_bind [OF r])
      fix v c x r d assume "value_ok c v" "vvalue v = Some x" "builder_inv d" "stays c d" "indices_ok d r"
      then show "reaches d (map_option (\<lambda>(ops, w). (x # ops, w)) r, d) indices_ok"
        using stays_op [OF value_of] by (auto simp: indices_ok_def split: option.splits)
    qed (simp add: indices_ok_def)
  next
    case False
    then have "lower_indices t (i # is) b = (None, b)" by (auto split: IRType.split option.split)
    then show ?thesis by (simp add: indices_ok_def)
  qed
qed

lemma array_access_reaches:
  assumes "lowers base" "\<forall>i \<in> set indices. lowers i"
  shows "reaches b (irBuilderLowerArrayAccess base indices b) value_ok"
  unfolding irBuilderLowerArrayAccess.simps [of base indices b]
proof (rule reaches_bind [OF lowers_address [OF assms(1)]])
  fix v c assume inv: "builder_inv c" and v: "value_ok c v"
  show "reaches c (case (vaddress v, vtype v) of
      (Some a, Some (IR_TYPE_ARRAY t n)) \<Rightarrow>
        if indices = [] then (irValueEmpty, c)
        else (let (r, b) = lower_indices (IR_TYPE_ARRAY t n) indices c
              in case r of None \<Rightarrow> (irValueEmpty, b)
                 | Some (ops, u) \<Rightarrow> irBuilderEmitGep a (int_operand 0 # ops) (Some u) b)
      | _ \<Rightarrow> (irValueEmpty, c)) value_ok" (is "reaches c ?k value_ok")
  proof (cases "\<exists>a t n. vaddress v = Some a \<and> vtype v = Some (IR_TYPE_ARRAY t n) \<and> indices \<noteq> []")
    case True
    then obtain a t n where h: "vaddress v = Some a" "vtype v = Some (IR_TYPE_ARRAY t n)" "indices \<noteq> []" by blast
    have a: "op_ok c a" "points_to a (IR_TYPE_ARRAY t n)" using v h by (simp_all add: value_ok_def)
    have "reaches c (let (r, b) = lower_indices (IR_TYPE_ARRAY t n) indices c
              in case r of None \<Rightarrow> (irValueEmpty, b)
                 | Some (ops, u) \<Rightarrow> irBuilderEmitGep a (int_operand 0 # ops) (Some u) b) value_ok"
    proof (intro reaches_bind [OF indices_reach [OF assms(2)]] reaches_option)
      fix r d p assume 2: "builder_inv d" "stays c d" "indices_ok d r" "r = Some p"
      then show "reaches d (case p of (ops, u) \<Rightarrow> irBuilderEmitGep a (int_operand 0 # ops) (Some u) d) value_ok"
        using gep_reaches [OF 2(1) stays_op [OF a(1) 2(2)] a(2)]
        by (cases p) (simp add: indices_ok_def ops_ok_def)
    qed simp
    then show ?thesis by (simp only: h option.case IRType.case prod.case if_False)
  next
    case False
    then have "?k = (irValueEmpty, c)" by (auto split: option.split IRType.split)
    then show ?thesis by simp
  qed
qed

lemma expected_reaches:
  assumes "lowers e"
  shows "reaches b (irBuilderLowerValueForExpectedType e t b) value_ok"
proof -
  note l = assms [unfolded lowers_def]
  have "reaches b (let (v, b) = irBuilderLowerLValue e b
      in if has_array_address v then irBuilderDecayArrayToPointer v b else irBuilderLowerRValue e b) value_ok"
    by (rule reaches_bind [OF conjunct1 [OF l, rule_format]]) (use l in \<open>simp add: decay_reaches\<close>)
  then show ?thesis
    using l by (simp add: irBuilderLowerValueForExpectedType.simps [of e t b] string_literal_reaches)
qed

lemma args_reach: "\<forall>a \<in> set as. lowers a \<Longrightarrow> reaches b (lower_args as ts b) args_ok"
proof (induction as arbitrary: ts b)
  case Nil
  then show ?case by (simp add: args_ok_def)
next
  case (Cons a as)
  have a: "lowers a" and r: "\<And>c ts. reaches c (lower_args as ts c) args_ok" using Cons by simp_all
  show ?case
  proof (cases ts)
    case Nil
    then show ?thesis by (simp add: args_ok_def reaches_def)
  next
    case (Cons t ts')
    show ?thesis unfolding Cons lower_args.simps
    proof (intro reaches_bind [OF expected_reaches [OF a]] reaches_option reaches_bind [OF r])
      fix v c x ops d assume "value_ok c v" "vvalue v = Some x" "builder_inv d" "stays c d" "args_ok d ops"
      then show "reaches d (map_option (\<lambda>ops. x # ops) ops, d) args_ok"
        using stays_op [OF value_of] by (auto simp: args_ok_def split: option.splits)
    qed (simp add: args_ok_def)
  qed
qed

lemma call_reaches:
  assumes "\<forall>a \<in> set args. lowers a"
  shows "reaches b (irBuilderLowerRValue (AST_CALL l callee args) b) value_ok"
proof (cases "\<exists>m name s. callee = AST_IDENTIFIER m name \<and> irScopeLookup [mscope (module b)] name = Some s")
  case True
  then obtain m name s where c: "callee = AST_IDENTIFIER m name"
      and s: "irScopeLookup [mscope (module b)] name = Some s" by blast
  have "reaches b (let (ops, b) = lower_args args (symbol_params s) b
      in case ops of None \<Rightarrow> (irValueEmpty, b) | Some ops \<Rightarrow> emit_call name ops (irtype s) b) value_ok"
    by (intro reaches_bind [OF args_reach [OF assms]] reaches_option)
      (simp_all add: args_ok_def ops_ok_def emit_call_reaches)
  then show ?thesis
    by (simp only: c s irBuilderLowerRValue.simps [of "AST_CALL _ _ _"] ast.case option.case)
next
  case False
  then have "irBuilderLowerRValue (AST_CALL l callee args) b \<in> {(irValueEmpty, b), (irValueEmpty, undefined_behaviour b)}"
    by (cases callee) (auto simp: irBuilderLowerRValue.simps [of "AST_CALL _ _ _"] split: option.split)
  then show ?thesis by (auto simp: reaches_def)
qed

lemma binary_expression_reaches:
  assumes "lowers x" "lowers y"
  shows "reaches b (irBuilderLowerRValue (AST_BINARY l op x y) b) value_ok"
  unfolding irBuilderLowerRValue.simps [of "AST_BINARY _ _ _ _"] ast.case
  by (intro reaches_bind [OF lowers_value] assms lower_binary_reaches) (simp_all add: stays_value)

lemma unary_expression_reaches:
  assumes "lowers e"
  shows "reaches b (irBuilderLowerLValue (AST_UNARY l op e) b) value_ok"
    and "reaches b (irBuilderLowerRValue (AST_UNARY l op e) b) value_ok"
proof -
  have "reaches b (let (p, b) = irBuilderLowerRValue e b in (pointee p, b)) value_ok"
    by (rule reaches_bind [OF lowers_value [OF assms]]) (simp add: pointee_ok)
  then show lv: "reaches b (irBuilderLowerLValue (AST_UNARY l op e) b) value_ok"
    by (simp only: irBuilderLowerLValue.simps [of "AST_UNARY _ _ _"] ast.case reaches_return value_ok_empty simp_thms split: if_split)
  have "reaches b (let (v, b) = irBuilderLowerLValue e b in (address_as_value v, b)) value_ok"
    by (rule reaches_bind [OF lowers_address [OF assms]]) (simp add: address_as_value_ok)
  moreover have "reaches b (let (v, b) = irBuilderLowerRValue e b in lower_unary op v b) value_ok"
    by (rule reaches_bind [OF lowers_value [OF assms]]) (simp add: lower_unary_reaches)
  moreover note load_value_reaches [OF lv]
  ultimately show "reaches b (irBuilderLowerRValue (AST_UNARY l op e) b) value_ok"
    by (simp only: irBuilderLowerRValue.simps [of "AST_UNARY _ _ _"] ast.case simp_thms split: if_split)
qed

theorem every_expression_lowers: "lowers e"
proof (induction e)
  case (AST_UNARY l op e)
  then show ?case by (simp add: lowers_def unary_expression_reaches)
next
  case (AST_BINARY l op x y)
  then show ?case by (simp add: lowers_def binary_expression_reaches irBuilderLowerLValue.simps [of "AST_BINARY _ _ _ _"])
next
  case (AST_CALL l f args)
  then show ?case by (simp add: lowers_def call_reaches irBuilderLowerLValue.simps [of "AST_CALL _ _ _"])
next
  case (AST_ARRAY_ACCESS l base indices)
  then show ?case
    by (simp add: lowers_def [of "AST_ARRAY_ACCESS _ _ _"] lower_unfold [of "AST_ARRAY_ACCESS _ _ _"]
        array_access_reaches load_value_reaches)
next
  case (AST_IDENTIFIER l x)
  have "reaches b (irBuilderLowerIdentifier x b, b) value_ok" for b by (simp add: identifier_ok)
  then show ?case
    by (simp add: lowers_def irBuilderLowerLValue.simps [of "AST_IDENTIFIER _ _"]
        irBuilderLowerRValue.simps [of "AST_IDENTIFIER _ _"] load_value_reaches del: reaches_return)
qed (simp_all add: lowers_def lower_unfold irBuilderLiteralValue_def value_ok_a_value string_literal_reaches)

lemmas lvalue_reaches = every_expression_lowers [unfolded lowers_def, THEN conjunct1, rule_format]
  and rvalue_reaches = every_expression_lowers [unfolded lowers_def, THEN conjunct2, rule_format]
  and value_for_reaches = expected_reaches [OF every_expression_lowers]

end
