(* ===== verification/IrStmtProps.thy ===== *)
theory IrStmtProps
  imports IrExprProps
begin

text \<open>
  Lowering a statement keeps the builder's invariant, restores the scopes around it and the
  stack of loop targets, and leaves no block open except the current one.
\<close>

section \<open>From one builder to a later one\<close>

text \<open>\<open>ready a S b\<close>: after \<open>a\<close> the builder is \<open>b\<close>, and apart from the current
  block only the blocks of \<open>S\<close> still need a terminator.  \<open>left a S b\<close>: the current
  block has one too.\<close>

definition ready :: "IRBuilder \<Rightarrow> nat set \<Rightarrow> IRBuilder \<Rightarrow> bool" where
  "ready a S b \<longleftrightarrow> builder_inv b \<and> builder_ext a b \<and> pending b \<subseteq> S"

definition left :: "IRBuilder \<Rightarrow> nat set \<Rightarrow> IRBuilder \<Rightarrow> bool" where
  "left a S b \<longleftrightarrow> builder_inv b \<and> builder_ext a b \<and> open_ids (current_fun b) \<subseteq> S"

abbreviation known :: "IRBuilder \<Rightarrow> nat \<Rightarrow> bool" where
  "known b k \<equiv> k \<in> set (block_ids (current_fun b))"

lemma ready_inv: "ready a S b \<Longrightarrow> builder_inv b"
  by (simp add: ready_def)

lemma ready_refl: "builder_inv b \<Longrightarrow> ready b (pending b) b"
  by (simp add: ready_def)

lemma ready_stays: "ready a S b \<Longrightarrow> stays b c \<Longrightarrow> builder_inv c \<Longrightarrow> ready a S c"
  using builder_ext_trans [of a b c] by (auto simp: ready_def stays_def)

lemma ready_known: "ready a S b \<Longrightarrow> known a k \<Longrightarrow> known b k"
  by (auto simp: ready_def builder_ext_def extends_def)

lemma left_known: "left a S b \<Longrightarrow> known a k \<Longrightarrow> known b k"
  by (auto simp: left_def builder_ext_def extends_def)

lemma ready_reaches:
  "ready a S b \<Longrightarrow> reaches b r Q \<Longrightarrow> r = (x, c) \<Longrightarrow> ready a S c \<and> Q c x"
  using ready_stays [of a S b c] ready_inv [of a S b] by (simp add: reaches_def)

text \<open>An instruction without a result.\<close>

lemma ready_append:
  assumes "ready a S b" "instr_ok (current_fun b) (gdefs b) (instr None d)"
  shows "ready a S (irBuilderAppendInstruction (instr None d) b)"
    and "is_terminator (instr None d) \<Longrightarrow> left a S (irBuilderAppendInstruction (instr None d) b)"
proof -
  let ?c = "irBuilderAppendInstruction (instr None d) b"
  have n: "iresult (instr None d) = None" by (simp add: instr_def)
  note st = append_step [OF ready_inv [OF assms(1)] assms(2)]
  have s: "builder_ext b ?c" "pending ?c \<subseteq> pending b" "builder_inv ?c" using st n by simp_all
  show r: "ready a S ?c" using assms(1) s builder_ext_trans [of a b ?c] by (auto simp: ready_def)
  assume t: "is_terminator (instr None d)"
  have "open_ids (current_fun ?c) \<subseteq> pending b"
    using open_ids_append [of "current_block b" "instr None d" "current_fun b"] t
    by (simp add: irBuilderAppendInstruction_def pending_def)
  then show "left a S ?c" using r assms(1) by (auto simp: ready_def left_def)
qed

lemma ready_store:
  "ready a S b \<Longrightarrow> op_ok b x \<Longrightarrow> points_to x t \<Longrightarrow> op_ok b v \<Longrightarrow> ready a S (irBuilderEmitStore x v b)"
  unfolding irBuilderEmitStore_def by (rule ready_append(1)) (auto simp: instr_ok_def instr_def)

lemma left_branch: "ready a S b \<Longrightarrow> known b k \<Longrightarrow> left a S (irBuilderEmitBranch k b)"
  unfolding irBuilderEmitBranch_def
  by (rule ready_append(2)) (simp_all add: instr_ok_def instr_def is_terminator_def)

lemma left_cond_branch:
  "ready a S b \<Longrightarrow> op_ok b x \<Longrightarrow> known b k \<Longrightarrow> known b m \<Longrightarrow> left a S (irBuilderEmitCondBranch x k m b)"
  unfolding irBuilderEmitCondBranch_def
  by (rule ready_append(2)) (simp_all add: instr_ok_def instr_def is_terminator_def)

lemma left_return:
  "ready a S b \<Longrightarrow> (case v of None \<Rightarrow> True | Some x \<Rightarrow> op_ok b x \<or> oref x = IR_OPERAND_LITERAL None) \<Longrightarrow>
   left a S (irBuilderAppendInstruction (instr None (IR_INSTR_RET v)) b)"
  by (rule ready_append(2)) (simp_all add: instr_ok_def instr_def is_terminator_def)

lemma left_ready: "left a S b \<Longrightarrow> ready a S b"
  by (auto simp: left_def ready_def pending_def)

lemma has_terminator_left:
  assumes "ready a S b" "irBuilderCurrentBlockHasTerminator b"
  shows "left a S b"
proof -
  obtain bb where bb: "block_of (current_fun b) (current_block b) = Some bb" "terminated bb"
    using assms(2) by (auto simp: irBuilderCurrentBlockHasTerminator_def split: option.splits)
  then have "bb \<in> set (items (blocks (current_fun b)))" "bid bb = current_block b"
    by (auto simp: block_of_def find_Some_iff)
  moreover have "distinct (block_ids (current_fun b))"
    using assms(1) by (simp add: ready_def builder_inv_def function_inv_def)
  ultimately have "x = bb" if "x \<in> set (items (blocks (current_fun b)))" "bid x = current_block b" for x
    using that by (simp add: block_ids_def distinct_map inj_on_def)
  then have "current_block b \<notin> open_ids (current_fun b)" using bb(2) by (auto simp: open_ids_def)
  then show ?thesis using assms(1) by (auto simp: left_def ready_def pending_def)
qed

lemma left_branch_unless: "ready a S b \<Longrightarrow> known b (bid k) \<Longrightarrow> left a S (branch_unless_terminated k b)"
  by (simp add: branch_unless_terminated_def has_terminator_left left_branch)

lemma ready_enter: "left a S b \<Longrightarrow> known b (bid k) \<Longrightarrow> ready a (S - {bid k}) (enter_block k b)"
  by (auto simp: left_def ready_def enter_block_def builder_inv_def builder_ext_def pending_def)

section \<open>Sequencing\<close>

definition steps :: "IRBuilder \<Rightarrow> bool \<times> IRBuilder \<Rightarrow> bool" where
  "steps b r \<longleftrightarrow> (builder_inv b \<and> fst r \<longrightarrow> ready b (pending b) (snd r))"

lemma ready_steps:
  assumes "ready a S b" "steps b r" "r = (True, c)"
  shows "ready a S c"
proof -
  have "ready b (pending b) c" using assms by (simp add: steps_def ready_def)
  then show ?thesis using assms(1) builder_ext_trans [of a b c] by (auto simp: ready_def)
qed

lemma steps_fail [simp]: "steps b (False, c)"
  by (simp add: steps_def)

lemma steps_done [simp]: "steps b (True, b)"
  by (simp add: steps_def ready_refl)

lemma steps_ready: "(builder_inv b \<Longrightarrow> ready b (pending b) c) \<Longrightarrow> steps b (ok, c)"
  by (simp add: steps_def)

lemma steps_bind:
  assumes "reaches b m P"
    and "\<And>x c. m = (x, c) \<Longrightarrow> builder_inv c \<Longrightarrow> stays b c \<Longrightarrow> P c x \<Longrightarrow> steps c (k x c)"
  shows "steps b (let (x, c) = m in k x c)"
proof (cases m)
  case (Pair x c)
  show ?thesis
  proof (cases "builder_inv b")
    case True
    then have "ready b (pending b) c" "P c x"
      using ready_reaches [OF ready_refl [OF True] assms(1) Pair] by simp_all
    moreover have "builder_inv c" "stays b c" using True assms(1) Pair by (simp_all add: reaches_def)
    ultimately show ?thesis
      using ready_steps [of b "pending b" c "k x c" "snd (k x c)"] assms(2) [OF Pair]
      by (cases "k x c") (auto simp: steps_def [of b] Pair)
  qed (simp add: steps_def)
qed

lemma steps_if:
  assumes "steps b m" "\<And>c. m = (True, c) \<Longrightarrow> builder_inv c \<Longrightarrow> builder_ext b c \<Longrightarrow> steps c (k c)"
  shows "steps b (let (ok, c) = m in if ok then k c else (False, c))"
proof (cases m)
  case (Pair ok c)
  show ?thesis
  proof (cases "builder_inv b \<and> ok")
    case True
    then have "ready b (pending b) c" using assms(1) Pair by (simp add: steps_def)
    moreover have "steps c (k c)"
      using calculation assms(2) [of c] Pair True by (simp add: ready_def)
    ultimately show ?thesis
      using ready_steps [of b "pending b" c "k c" "snd (k c)"] Pair True
      by (cases "k c") (auto simp: steps_def [of b])
  qed (auto simp: steps_def Pair)
qed

lemma steps_option:
  "(x = None \<Longrightarrow> steps b r) \<Longrightarrow> (\<And>y. x = Some y \<Longrightarrow> steps b (k y)) \<Longrightarrow>
   steps b (case x of None \<Rightarrow> r | Some y \<Rightarrow> k y)"
  by (cases x) simp_all

lemma steps_via: "(builder_inv b \<Longrightarrow> ready b (pending b) c) \<Longrightarrow> steps c r \<Longrightarrow> steps b r"
proof (cases r)
  case (Pair ok d)
  assume "builder_inv b \<Longrightarrow> ready b (pending b) c" "steps c r"
  then show ?thesis using ready_steps [of b "pending b" c r d] Pair by (cases ok) (auto simp: steps_def [of b])
qed

lemma store_steps:
  "op_ok b a \<Longrightarrow> points_to a t \<Longrightarrow> op_ok b x \<Longrightarrow> steps b (ok, irBuilderEmitStore a x b)"
  by (rule steps_ready) (rule ready_store [OF ready_refl])

section \<open>Initializers\<close>

lemma gep_store_reaches:
  "builder_inv b \<Longrightarrow> op_ok b a \<Longrightarrow> points_to a t \<Longrightarrow>
   reaches b (irBuilderEmitGep a (int_operand i # map int_operand is) u b) value_ok"
  by (rule gep_reaches) auto

lemma address_of: "value_ok b v \<Longrightarrow> vaddress v = Some a \<Longrightarrow> op_ok b a \<and> (\<exists>t. points_to a t)"
  by (auto simp: value_ok_def)

lemma array_literal_steps:
  "op_ok b base \<Longrightarrow> points_to base s \<Longrightarrow> steps b (irBuilderStoreArrayLiteralElements base t path i es b)"
proof (induction base t path i es b rule: irBuilderStoreArrayLiteralElements.induct)
  case (1 base t path i b)
  then show ?case by simp
next
  case (2 base t path i e es b)
  note IH = "2.IH" and base = "2.prems"
  let ?rest = "irBuilderStoreArrayLiteralElements base t path (i + 1) es"
  consider "e = AST_NULL" | u where "e \<noteq> AST_NULL" "is_array_literal e" "element_type t = Some u" "is_array_type u"
    | "e \<noteq> AST_NULL" "is_array_literal e" "\<nexists>u. element_type t = Some u \<and> is_array_type u"
    | "e \<noteq> AST_NULL" "\<not> is_array_literal e" by blast
  then show ?case
  proof cases
    case (2 u)
    have "steps b (let (ok, b) = irBuilderStoreArrayLiteralElements base u (path @ [i]) 0 (literal_elements e) b
        in if ok then ?rest b else (False, b))"
    proof (rule steps_if)
      show "steps b (irBuilderStoreArrayLiteralElements base u (path @ [i]) 0 (literal_elements e) b)"
        using IH(1) 2 base by simp
      fix c assume c: "irBuilderStoreArrayLiteralElements base u (path @ [i]) 0 (literal_elements e) b = (True, c)"
        "builder_ext b c"
      show "steps c (?rest c)"
        using IH(2) [of u "(True, c)" True c] 2 c(1) op_ok_ext [OF base(1) c(2)] base(2) by simp
    qed
    then show ?thesis using 2 by simp
  next
    case 3
    then show ?thesis by (auto split: option.split)
  next
    case 4
    have "steps b (let (slot, b) = irBuilderEmitGep base (int_operand 0 # map int_operand (path @ [i])) (element_type t) b;
          (v, b) = irBuilderLowerRValue e b
      in case (vaddress slot, vvalue v) of
           (Some a, Some x) \<Rightarrow> ?rest (irBuilderEmitStore a x b)
         | _ \<Rightarrow> (False, b))"
    proof (cases "builder_inv b")
      case True
      show ?thesis
      proof (intro steps_bind [OF gep_store_reaches [OF True base]] steps_bind [OF rvalue_reaches])
        fix slot c v d assume *: "irBuilderEmitGep base (int_operand 0 # map int_operand (path @ [i])) (element_type t) b = (slot, c)"
          "irBuilderLowerRValue e c = (v, d)" "stays b c" "value_ok c slot"
          "builder_inv d" "stays c d" "value_ok d v"
        show "steps d (case (vaddress slot, vvalue v) of
           (Some a, Some x) \<Rightarrow> ?rest (irBuilderEmitStore a x d) | _ \<Rightarrow> (False, d))"
        proof (cases "\<exists>a x. vaddress slot = Some a \<and> vvalue v = Some x")
          case True
          then obtain a x where ax: "vaddress slot = Some a" "vvalue v = Some x" by blast
          have a: "op_ok d a" "\<exists>t. points_to a t" and x: "op_ok d x"
            using address_of [OF *(4) ax(1)] stays_op [OF _ *(6)] value_of [OF *(7) ax(2)] by blast+
          then have r: "ready d (pending d) (irBuilderEmitStore a x d)"
            using ready_store [OF ready_refl] *(5) by blast
          have "op_ok (irBuilderEmitStore a x d) base"
            using op_ok_ext [OF stays_op [OF stays_op [OF base(1) *(3)] *(6)]] r by (simp add: ready_def)
          then have "steps (irBuilderEmitStore a x d) (?rest (irBuilderEmitStore a x d))"
            using IH(3) [of "(slot, c)" slot c "(v, d)" v d "Some a" "Some x" a x] *(1,2) ax 4 base(2) by simp
          then show ?thesis using steps_via [OF r] ax by simp
        next
          case False
          then show ?thesis by (auto split: option.split)
        qed
      qed
    qed (simp add: steps_def)
    then show ?thesis using 4 by simp
  qed simp
qed

lemma gep_store:
  assumes "builder_inv b" "op_ok b base" "points_to base t" "\<forall>x \<in> set xs. op_ok b x"
    and "irBuilderEmitGep base xs u b = (slot, c)" "vaddress slot = Some a" "\<And>d. op_ok d v"
  shows "ready b (pending b) (irBuilderEmitStore a v c)"
proof -
  have "ready b (pending b) c \<and> value_ok c slot"
    using ready_reaches [OF ready_refl [OF assms(1)] gep_reaches [OF assms(1-4)] assms(5)] by simp
  moreover obtain s where "op_ok c a" "points_to a s"
    using address_of [OF _ assms(6)] calculation by blast
  ultimately show ?thesis using ready_store assms(7) by blast
qed

lemma gep_ready:
  "builder_inv b \<Longrightarrow> op_ok b base \<Longrightarrow> points_to base t \<Longrightarrow> \<forall>x \<in> set xs. op_ok b x \<Longrightarrow>
   irBuilderEmitGep base xs u b = (slot, c) \<Longrightarrow> ready b (pending b) c"
  using ready_reaches [OF ready_refl gep_reaches] by blast

lemma ready_trans: "ready a S b \<Longrightarrow> ready b (pending b) c \<Longrightarrow> ready a S c"
  using builder_ext_trans [of a b c] by (auto simp: ready_def)

lemma store_chars_ready:
  "builder_inv b \<Longrightarrow> op_ok b base \<Longrightarrow> points_to base t \<Longrightarrow> ready b (pending b) (store_chars base i cs b)"
proof (induction cs arbitrary: i b)
  case Nil
  then show ?case by (simp add: ready_refl)
next
  case (Cons x cs)
  obtain slot c where g: "irBuilderEmitGep base [int_operand 0, int_operand i] (Some IR_TYPE_CHAR) b = (slot, c)"
    by fastforce
  show ?case
  proof (cases "vaddress slot")
    case None
    then show ?thesis using gep_ready [OF Cons.prems _ g] by (simp add: g)
  next
    case (Some a)
    let ?d = "irBuilderEmitStore a (irOperandCreateLiteral IR_TYPE_CHAR (Some (IR_LITERAL_INT x))) c"
    have r: "ready b (pending b) ?d" by (rule gep_store [OF Cons.prems _ g Some]) simp_all
    then have "builder_inv ?d" "op_ok ?d base" using op_ok_ext [OF Cons.prems(2)] by (simp_all add: ready_def)
    from ready_trans [OF r Cons.IH [OF this Cons.prems(3)]] show ?thesis by (simp add: g Some)
  qed
qed

lemma initializer_steps:
  assumes "op_ok b slot" "points_to slot t"
  shows "steps b (store_initializer slot t i b)"
proof -
  have "steps b (let (v, b) = irBuilderLowerValueForExpectedType i t b
      in case vvalue v of None \<Rightarrow> (False, b) | Some x \<Rightarrow> (True, irBuilderEmitStore slot x b))"
    by (intro steps_bind [OF value_for_reaches] steps_option store_steps [OF stays_op [OF assms(1)] assms(2) value_of])
       simp_all
  moreover have "steps b (irBuilderStoreStringLiteralElements slot t s b)" for s
    using store_chars_ready [OF _ assms]
    by (auto simp: irBuilderStoreStringLiteralElements_def steps_ready split: IRType.split option.split)
  ultimately show ?thesis
    using array_literal_steps [OF assms] by (simp add: store_initializer_def)
qed

section \<open>Declarations\<close>

lemma table_ok_declare:
  "table_ok f G t \<Longrightarrow> sym_ok f G s \<Longrightarrow> bucketDeclare irname t s = (True, t') \<Longrightarrow> table_ok f G t'"
  using ir_table.declare_inv [of t s] ir_table.declare_lookup [of t s]
  by (auto simp: table_ok_def split: if_splits)

lemma declare_local:
  assumes "builder_inv b" "(k, p) \<in> defs (current_fun b)" "is_pointer_type p"
    and "irScopeDeclare (current_scope b) (irSymbolCreateLocal name p k) = (True, sc)"
  shows "builder_inv (b\<lparr>current_scope := sc\<rparr>)" "tl sc = tl (current_scope b)"
proof -
  obtain t ts where s: "current_scope b = t # ts" using assms(1) by (cases "current_scope b") (simp_all add: builder_inv_def)
  obtain t' where d: "bucketDeclare irname t (irSymbolCreateLocal name p k) = (True, t')" and sc: "sc = t' # ts"
    using assms(4) by (auto simp: s irScopeDeclare_def split: prod.splits)
  show "tl sc = tl (current_scope b)" by (simp add: sc s)
  have "table_ok (current_fun b) (gdefs b) t" using assms(1) by (simp add: builder_inv_def s)
  then have "table_ok (current_fun b) (gdefs b) t'"
    using table_ok_declare [OF _ _ d] assms(2,3) by (simp add: sym_ok_def irSymbolCreateLocal_def)
  then show "builder_inv (b\<lparr>current_scope := sc\<rparr>)" using assms(1) by (simp add: builder_inv_def s sc)
qed

text \<open>A stack slot: an id is reserved, the name declared, the allocation appended.\<close>

definition stack_slot :: "string \<Rightarrow> IRType \<Rightarrow> IRBuilder \<Rightarrow> (nat \<times> IRBuilder) option" where
  "stack_slot name t b =
     (let (k, c) = irBuilderReserveResult b;
          (ok, sc) = irScopeDeclare (current_scope c) (irSymbolCreateLocal name (irTypeCreatePointer t) k)
      in if ok then Some (k, irBuilderAppendInstruction
              (instr (Some (k, irTypeCreatePointer t)) (IR_INSTR_ALLOCA t)) (c\<lparr>current_scope := sc\<rparr>))
         else None)"

lemma stack_slot_ready:
  assumes "builder_inv b" "stack_slot name t b = Some (k, d)"
  shows "ready b (pending b) d" "op_ok d (irOperandCreateLocal (irTypeCreatePointer t) k)"
proof -
  let ?p = "irTypeCreatePointer t" and ?i = "instr (Some (k, irTypeCreatePointer t)) (IR_INSTR_ALLOCA t)"
  obtain c sc where r: "irBuilderReserveResult b = (k, c)"
      and s: "irScopeDeclare (current_scope c) (irSymbolCreateLocal name ?p k) = (True, sc)"
      and d: "d = irBuilderAppendInstruction ?i (c\<lparr>current_scope := sc\<rparr>)"
    using assms(2) by (auto simp: stack_slot_def split: prod.splits if_splits)
  note c = reserve_step [OF assms(1) r]
  let ?e = "irBuilderAppendInstruction ?i c"
  have d': "d = ?e\<lparr>current_scope := sc\<rparr>" by (simp add: d irBuilderAppendInstruction_def)
  have i: "instr_ok (current_fun c) (gdefs c) ?i" by (simp add: instr_ok_def instr_def irTypeCreatePointer_def)
  have e: "stays c ?e" "builder_inv ?e" "(k, ?p) \<in> defs (current_fun ?e)"
    using append_step [OF c(2) i] c(3) by (simp_all add: instr_def is_terminator_def)
  have sc: "current_scope ?e = current_scope c" using e(1) by (simp add: stays_def)
  have "is_pointer_type ?p" by (simp add: irTypeCreatePointer_def)
  note dl = declare_local [OF e(2,3) this, of name sc, unfolded sc, OF s]
  have "ready b (pending b) ?e"
    by (rule ready_stays [OF ready_stays [OF ready_refl [OF assms(1)] c(1,2)] e(1,2)])
  then show "ready b (pending b) d"
    using dl sc by (simp add: d' ready_def builder_ext_def pending_def)
  show "op_ok d (irOperandCreateLocal ?p k)" using local_operand [OF e(3)] by (simp add: d')
qed

lemma var_decl_slot:
  "irBuilderLowerVarDecl name t i b =
     (case irBuilderTypeFromAst t of
        None \<Rightarrow> (False, b)
      | Some t \<Rightarrow>
          (case inferred_type t i of
             None \<Rightarrow> (False, undefined_behaviour b)
           | Some None \<Rightarrow> (False, b)
           | Some (Some t) \<Rightarrow>
               (case stack_slot name t b of
                  None \<Rightarrow> (False, snd (irBuilderReserveResult b))
                | Some (k, c) \<Rightarrow> store_initializer (irOperandCreateLocal (irTypeCreatePointer t) k) t i c)))"
  by (auto simp: irBuilderLowerVarDecl_def stack_slot_def Let_def split: option.split prod.split)

lemma var_decl_steps: "steps b (irBuilderLowerVarDecl name t i b)"
  unfolding var_decl_slot
proof (intro steps_option)
  fix u k r assume r: "stack_slot name u b = Some r"
  obtain k d where kd: "r = (k, d)" by fastforce
  have p: "points_to (irOperandCreateLocal (irTypeCreatePointer u) k) u"
    by (simp add: points_to_def irTypeCreatePointer_def)
  show "steps b (case r of (k, c) \<Rightarrow> store_initializer (irOperandCreateLocal (irTypeCreatePointer u) k) u i c)"
  proof (cases "builder_inv b")
    case True
    note s = stack_slot_ready [OF True r [unfolded kd]]
    show ?thesis unfolding kd prod.case by (rule steps_via [OF s(1) initializer_steps [OF s(2) p]])
  qed (simp add: steps_def)
qed simp_all

section \<open>Simple statements\<close>

lemma store_reaches:
  assumes "op_ok b a" "points_to a t" "op_ok b x"
  shows "reaches b (ok, irBuilderEmitStore a x b) (\<lambda>c r. True)"
proof (rule reaches_assuming_inv)
  assume inv: "builder_inv b"
  have "instr_ok (current_fun b) (gdefs b) (instr None (IR_INSTR_STORE a x))"
    using assms by (auto simp: instr_ok_def instr_def)
  from append_step [OF inv this] show ?thesis
    by (simp add: reaches_def irBuilderEmitStore_def instr_def is_terminator_def)
qed

lemma reaches_steps: "reaches b r Q \<Longrightarrow> steps b r"
  using ready_stays [OF ready_refl, of b "snd r"] by (auto simp: reaches_def steps_def)

text \<open>The two kinds of assignment, once the target has an address.\<close>

lemma set_reaches:
  assumes "op_ok b a" "points_to a t"
  shows "reaches b (let (r, b) = irBuilderLowerValueForExpectedType v u b
      in case vvalue r of None \<Rightarrow> (False, b) | Some x \<Rightarrow> (True, irBuilderEmitStore a x b)) (\<lambda>c r. True)"
  by (intro reaches_bind [OF value_for_reaches] reaches_option store_reaches [OF stays_op [OF assms(1)] assms(2) value_of])
    simp_all

lemma store_again_reaches:
  assumes "op_ok b z"
  shows "reaches b (let (again, b) = irBuilderLowerLValue target b
       in case vaddress again of None \<Rightarrow> (False, b) | Some a \<Rightarrow> (True, irBuilderEmitStore a z b)) (\<lambda>c r. True)"
proof (intro reaches_bind [OF lvalue_reaches] reaches_option)
  fix w g a assume *: "stays b g" "value_ok g w" "vaddress w = Some a"
  obtain t where a: "op_ok g a" "points_to a t" using address_of [OF *(2,3)] by blast
  show "reaches g (True, irBuilderEmitStore a z g) (\<lambda>c r. True)"
    by (rule store_reaches [OF a stays_op [OF assms *(1)]])
qed simp

lemma combine_reaches:
  assumes "builder_inv b" "op_ok b y" "op_ok b x"
  shows "reaches b (let (s, b) = irBuilderEmitBinary k y x u b
       in case vvalue s of
            None \<Rightarrow> (False, b)
          | Some z \<Rightarrow>
              (let (again, b) = irBuilderLowerLValue target b
               in case vaddress again of None \<Rightarrow> (False, b) | Some a \<Rightarrow> (True, irBuilderEmitStore a z b))) (\<lambda>c r. True)"
  by (intro reaches_bind [OF binary_reaches [OF assms]] reaches_option store_again_reaches value_of) simp_all

lemma compound_reaches:
  assumes "builder_inv b" "op_ok b a" "points_to a t"
  shows "reaches b (let (cur, b) = irBuilderEmitLoad a (Some t) b; (r, b) = irBuilderLowerRValue v b
      in case (vvalue cur, vvalue r) of
           (Some y, Some x) \<Rightarrow>
             (let (s, b) = irBuilderEmitBinary k y x (vtype cur) b
              in case vvalue s of
                   None \<Rightarrow> (False, b)
                 | Some z \<Rightarrow>
                     (let (again, b) = irBuilderLowerLValue target b
                      in case vaddress again of None \<Rightarrow> (False, b) | Some a \<Rightarrow> (True, irBuilderEmitStore a z b)))
         | _ \<Rightarrow> (False, b)) (\<lambda>c r. True)"
  unfolding prod.case
proof (intro reaches_bind [OF load_reaches [OF assms]] reaches_bind [OF rvalue_reaches] reaches_option combine_reaches)
  fix cur d y r e x assume *: "value_ok d cur" "vvalue cur = Some y" "stays d e" "value_ok e r" "vvalue r = Some x"
  show "op_ok e y" by (rule stays_op [OF value_of [OF *(1,2)] *(3)])
  show "op_ok e x" by (rule value_of [OF *(4,5)])
qed simp_all

definition assign_to :: "AstAssignOp \<Rightarrow> ast \<Rightarrow> ast \<Rightarrow> IRValue \<Rightarrow> IRBuilder \<Rightarrow> bool \<times> IRBuilder" where
  "assign_to op target v tv b =
     (case (vaddress tv, vtype tv) of
        (Some a, Some t) \<Rightarrow>
          if op = AST_ASSIGN_SET then
            (let (r, b) = irBuilderLowerValueForExpectedType v t b
             in case vvalue r of None \<Rightarrow> (False, b) | Some x \<Rightarrow> (True, irBuilderEmitStore a x b))
          else
            (let (cur, b) = irBuilderEmitLoad a (Some t) b; (r, b) = irBuilderLowerRValue v b
             in case (vvalue cur, vvalue r) of
                  (Some y, Some x) \<Rightarrow>
                    (let (s, b) = irBuilderEmitBinary (assign_instr op) y x (vtype cur) b
                     in case vvalue s of
                          None \<Rightarrow> (False, b)
                        | Some z \<Rightarrow>
                            (let (again, b) = irBuilderLowerLValue target b
                             in case vaddress again of
                                  None \<Rightarrow> (False, b)
                                | Some a' \<Rightarrow> (True, irBuilderEmitStore a' z b)))
                | _ \<Rightarrow> (False, b))
      | _ \<Rightarrow> (False, b))"

lemma assign_unfold:
  "irBuilderLowerAssign op target v b = (let (tv, b) = irBuilderLowerLValue target b in assign_to op target v tv b)"
  by (simp only: irBuilderLowerAssign_def assign_to_def)

lemma assign_to_reaches:
  assumes inv: "builder_inv b" and tv: "value_ok b tv"
  shows "reaches b (assign_to op target v tv b) (\<lambda>c r. True)"
proof (cases "\<exists>a t. vaddress tv = Some a \<and> vtype tv = Some t")
  case False
  then have "assign_to op target v tv b = (False, b)" by (auto simp: assign_to_def split: option.split)
  then show ?thesis by simp
next
  case True
  then obtain a t where at: "vaddress tv = Some a" "vtype tv = Some t" by blast
  have a: "op_ok b a" "points_to a t" using tv at by (simp_all add: value_ok_def)
  show ?thesis
    using set_reaches [OF a, of v t] compound_reaches [OF inv a, of v "assign_instr op" target]
    by (simp only: assign_to_def at prod.case option.case split: if_split) blast
qed

lemma assign_reaches: "reaches b (irBuilderLowerAssign op target v b) (\<lambda>c r. True)"
  unfolding assign_unfold by (rule reaches_bind [OF lvalue_reaches assign_to_reaches])

lemma assign_steps: "steps b (irBuilderLowerAssign op target v b)"
  by (rule reaches_steps [OF assign_reaches])

lemma return_steps: "steps b (irBuilderLowerReturn v b)"
proof -
  have r: "steps c (True, irBuilderAppendInstruction (instr None (IR_INSTR_RET w)) c)"
    if "case w of None \<Rightarrow> True | Some x \<Rightarrow> op_ok c x \<or> oref x = IR_OPERAND_LITERAL None" for c and w :: "IROperand option"
    using left_ready [OF left_return [OF ready_refl that]] by (rule steps_ready)
  have "steps b (let (r, b) = irBuilderLowerRValue v b
      in case vvalue r of
           None \<Rightarrow> (False, b)
         | Some x \<Rightarrow> (True, irBuilderAppendInstruction (instr None (IR_INSTR_RET (Some x))) b))"
    by (intro steps_bind [OF rvalue_reaches] steps_option r) (simp_all add: value_of)
  then show ?thesis using r [where w = None] by (simp add: irBuilderLowerReturn_def)
qed

lemma branch_steps: "(builder_inv b \<Longrightarrow> known b k) \<Longrightarrow> steps b (ok, irBuilderEmitBranch k b)"
  by (intro steps_ready left_ready left_branch ready_refl)

lemma loop_target_known:
  "irBuilderCurrentLoopTarget b = Some (x, y) \<Longrightarrow> builder_inv b \<Longrightarrow> known b x \<and> known b y"
  by (auto simp: irBuilderCurrentLoopTarget_def builder_inv_def split: if_splits dest!: last_in_set)

lemma break_steps: "steps b (irBuilderLowerBreakStatement b)"
  and continue_steps: "steps b (irBuilderLowerContinueStatement b)"
  using loop_target_known branch_steps
  by (auto simp: irBuilderLowerBreakStatement_def irBuilderLowerContinueStatement_def split: option.split)

lemma expression_steps: "steps b (ok, snd (irBuilderLowerRValue e b))"
  using ready_reaches [OF ready_refl rvalue_reaches] by (intro steps_ready) (cases "irBuilderLowerRValue e b", auto)

lemma expr_statement_steps: "steps b (irBuilderLowerExprStatement e b)"
  unfolding irBuilderLowerExprStatement_def by (rule expression_steps)

section \<open>New blocks\<close>

text \<open>The blocks of a statement are created and appended before the statement is lowered.\<close>

definition open_blocks :: "nat \<Rightarrow> IRBuilder \<Rightarrow> IRBuilder" where
  "open_blocks m b =
     (let n = next_block_id (current_fun b)
      in fold (\<lambda>k. append_block (irBasicBlockCreate k)) [n..<n + m]
           (b\<lparr>current_fun := (current_fun b)\<lparr>next_block_id := n + m\<rparr>\<rparr>))"

lemma create_three:
  "(let (x, b) = create_block b; (y, b) = create_block b; (z, b) = create_block b;
        b = append_block z (append_block y (append_block x b))
    in k x y z b) =
   (let n = next_block_id (current_fun b)
    in k (irBasicBlockCreate n) (irBasicBlockCreate (Suc n)) (irBasicBlockCreate (Suc (Suc n))) (open_blocks 3 b))"
  by (simp add: create_block_def irFunctionCreateBlock_def irFunctionReserveBlockId_def open_blocks_def
      eval_nat_numeral Let_def)

lemma create_four:
  "(let (x, b) = create_block b; (y, b) = create_block b; (z, b) = create_block b; (w, b) = create_block b;
        b = append_block w (append_block z (append_block y (append_block x b)))
    in k x y z w b) =
   (let n = next_block_id (current_fun b)
    in k (irBasicBlockCreate n) (irBasicBlockCreate (Suc n)) (irBasicBlockCreate (Suc (Suc n)))
         (irBasicBlockCreate (Suc (Suc (Suc n)))) (open_blocks 4 b))"
  by (simp add: create_block_def irFunctionCreateBlock_def irFunctionReserveBlockId_def open_blocks_def
      eval_nat_numeral Let_def)

lemma append_block_contents:
  assumes "f' = irFunctionAppendBlock f (irBasicBlockCreate k)"
  shows "block_ids f' = block_ids f @ [k]" "code_of f' = code_of f" "def_ids f' = def_ids f"
    "open_ids f' = insert k (open_ids f)" "defs f' = defs f" "params f' = params f"
    "next_block_id f' = next_block_id f" "next_local_id f' = next_local_id f" "return_type f' = return_type f"
    "fname f' = fname f"
proof -
  have bs: "items (blocks f') = items (blocks f) @ [irBasicBlockCreate k]"
    and new: "bid (irBasicBlockCreate k) = k" "items (instructions (irBasicBlockCreate k)) = []"
    by (simp_all add: assms irFunctionAppendBlock_def irBasicBlockCreate_def)
  show "block_ids f' = block_ids f @ [k]" "code_of f' = code_of f" "def_ids f' = def_ids f"
    by (simp_all add: block_ids_def code_of_def def_ids_def bs new result_ids_def)
  then show "defs f' = defs f" by (simp add: defs_def)
  have "\<not> terminated (irBasicBlockCreate k)" by (simp add: terminated_def new)
  then have "{bb \<in> set (items (blocks f')). \<not> terminated bb}
      = insert (irBasicBlockCreate k) {bb \<in> set (items (blocks f)). \<not> terminated bb}" unfolding bs by auto
  then show "open_ids f' = insert k (open_ids f)" by (simp add: open_ids_def new)
qed (simp_all add: assms irFunctionAppendBlock_def)

lemma append_block_code: "block_code (irFunctionAppendBlock f (irBasicBlockCreate k)) = block_code f"
proof -
  have "case_option [] (\<lambda>bb. items (instructions bb)) (find (\<lambda>bb. bid bb = l) (bs @ [irBasicBlockCreate k]))
      = case_option [] (\<lambda>bb. items (instructions bb)) (find (\<lambda>bb. bid bb = l) bs)" for bs l
    by (induction bs) (auto simp: irBasicBlockCreate_def)
  then show ?thesis by (simp add: fun_eq_iff block_code_def block_of_def irFunctionAppendBlock_def)
qed

lemma append_block_ready:
  assumes "ready a S b" "k \<notin> set (block_ids (current_fun b))" "1 \<le> k" "k < next_block_id (current_fun b)"
  shows "ready a (insert k S) (append_block (irBasicBlockCreate k) b)"
proof -
  let ?f = "current_fun b" and ?g = "irFunctionAppendBlock (current_fun b) (irBasicBlockCreate k)"
  note c = append_block_contents [OF refl, of ?f k]
  have e: "extends ?f ?g" by (auto simp: extends_def c append_block_code)
  have inv: "function_inv ?f (gdefs b)" using assms(1) by (simp add: ready_def builder_inv_def)
  have "growable_ok (blocks ?g)" "\<forall>bb \<in> set (items (blocks ?g)). growable_ok (instructions bb)"
    using inv by (auto simp: function_inv_def irFunctionAppendBlock_def growable_ok_append irBasicBlockCreate_def)
  then have "function_inv ?g (gdefs b)"
    using inv assms(2-4) instr_ok_mono [OF _ e order_refl] by (auto simp: function_inv_def c)
  then have "builder_inv (append_block (irBasicBlockCreate k) b)"
    using assms(1) table_ok_mono [OF _ e order_refl]
    by (auto simp: ready_def builder_inv_def append_block_def c)
  moreover have "builder_ext b (append_block (irBasicBlockCreate k) b)"
    using e by (simp add: builder_ext_def append_block_def)
  moreover have "pending (append_block (irBasicBlockCreate k) b) \<subseteq> insert k (pending b)"
    by (auto simp: pending_def append_block_def c)
  ultimately show ?thesis
    using assms(1) builder_ext_trans [of a b "append_block (irBasicBlockCreate k) b"] by (auto simp: ready_def)
qed

lemma append_blocks_ready:
  "ready a S b \<Longrightarrow> distinct ks \<Longrightarrow> \<forall>k \<in> set ks. k \<notin> set (block_ids (current_fun b)) \<and> 1 \<le> k \<and> k < next_block_id (current_fun b) \<Longrightarrow>
   ready a (set ks \<union> S) (fold (\<lambda>k. append_block (irBasicBlockCreate k)) ks b)
   \<and> set ks \<subseteq> set (block_ids (current_fun (fold (\<lambda>k. append_block (irBasicBlockCreate k)) ks b)))"
proof (induction ks arbitrary: b S)
  case Nil
  then show ?case by simp
next
  case (Cons k ks)
  let ?c = "append_block (irBasicBlockCreate k) b"
  have ids: "block_ids (current_fun ?c) = block_ids (current_fun b) @ [k]"
    "next_block_id (current_fun ?c) = next_block_id (current_fun b)"
    by (simp_all add: append_block_def append_block_contents [OF refl])
  have r: "ready a (insert k S) ?c" using append_block_ready [OF Cons.prems(1)] Cons.prems(3) by simp
  have rest: "ready a (set ks \<union> insert k S) (fold (\<lambda>k. append_block (irBasicBlockCreate k)) ks ?c)
     \<and> set ks \<subseteq> set (block_ids (current_fun (fold (\<lambda>k. append_block (irBasicBlockCreate k)) ks ?c)))"
    by (rule Cons.IH [OF r]) (use Cons.prems ids in auto)
  have "set (block_ids (current_fun c)) \<subseteq> set (block_ids (current_fun (fold (\<lambda>k. append_block (irBasicBlockCreate k)) js c)))" for js c
    by (induction js arbitrary: c) (fastforce simp: append_block_def append_block_contents [OF refl])+
  from this [of ?c ks] have "k \<in> set (block_ids (current_fun (fold (\<lambda>k. append_block (irBasicBlockCreate k)) ks ?c)))"
    using ids by auto
  with rest show ?case by simp
qed

lemma open_blocks_ready:
  assumes "ready a S b" "n = next_block_id (current_fun b)"
  shows "ready a ({n..<n + m} \<union> S) (open_blocks m b)" "k \<in> {n..<n + m} \<Longrightarrow> known (open_blocks m b) k"
proof -
  let ?f = "current_fun b" and ?c = "b\<lparr>current_fun := (current_fun b)\<lparr>next_block_id := n + m\<rparr>\<rparr>"
  have f: "block_ids (?f\<lparr>next_block_id := j\<rparr>) = block_ids ?f" "code_of (?f\<lparr>next_block_id := j\<rparr>) = code_of ?f"
    "def_ids (?f\<lparr>next_block_id := j\<rparr>) = def_ids ?f" "defs (?f\<lparr>next_block_id := j\<rparr>) = defs ?f"
    "open_ids (?f\<lparr>next_block_id := j\<rparr>) = open_ids ?f" for j
    by (simp_all add: block_ids_def code_of_def def_ids_def defs_def open_ids_def)
  have inv: "function_inv ?f (gdefs b)" using assms(1) by (simp add: ready_def builder_inv_def)
  have e: "extends ?f (current_fun ?c)" by (simp add: extends_def f assms(2))
  have g: "module ?c = module b" by simp
  have "function_inv (current_fun ?c) (gdefs b)"
    using inv instr_ok_mono [OF _ e order_refl] by (auto simp: function_inv_def f assms(2))
  then have "builder_inv ?c"
    using assms(1) table_ok_mono [OF _ e order_refl] by (auto simp: ready_def builder_inv_def f g)
  moreover have "builder_ext b ?c" using e by (simp add: builder_ext_def)
  ultimately have r: "ready a S ?c"
    using assms(1) builder_ext_trans [of a b ?c] by (simp add: ready_def pending_def f)
  have fresh: "\<forall>k \<in> set [n..<n + m]. k \<notin> set (block_ids (current_fun ?c)) \<and> 1 \<le> k \<and> k < next_block_id (current_fun ?c)"
    using inv by (auto simp: f assms(2) function_inv_def)
  note a = append_blocks_ready [OF r distinct_upt fresh]
  show "ready a ({n..<n + m} \<union> S) (open_blocks m b)" "k \<in> {n..<n + m} \<Longrightarrow> known (open_blocks m b) k"
    using a by (auto simp: open_blocks_def assms(2) Let_def)
qed

section \<open>Control flow\<close>

definition lowers_well :: "ast \<Rightarrow> bool" where
  "lowers_well s \<longleftrightarrow> (\<forall>b. steps b (irBuilderLowerStatement s b)) \<and> (\<forall>b. steps b (irBuilderLowerBlockNode s b))"

lemma items_steps: "\<forall>s \<in> set ss. lowers_well s \<Longrightarrow> steps b (lower_items ss b)"
proof (induction ss arbitrary: b)
  case Nil
  then show ?case by simp
next
  case (Cons s ss)
  show ?case unfolding lower_items.simps
    by (rule steps_if) (use Cons in \<open>simp_all add: lowers_well_def\<close>)
qed

lemma if_branch_steps: "lowers_well s \<Longrightarrow> steps b (irBuilderLowerIfBranch s b)"
  by (simp add: irBuilderLowerIfBranch.simps [of s] lowers_well_def)

lemma loose_steps: "lowers_well s \<Longrightarrow> steps b (irBuilderLowerLooseNode s b)"
  by (simp add: irBuilderLowerLooseNode.simps [of s] lowers_well_def expression_steps)

lemma block_steps: "lowers_well s \<Longrightarrow> steps b (irBuilderLowerBlockNode s b)"
  by (simp add: lowers_well_def)

lemma bid_create [simp]: "bid (irBasicBlockCreate k) = k"
  by (simp add: irBasicBlockCreate_def)

lemma ready_weaken: "ready a S b \<Longrightarrow> S \<subseteq> T \<Longrightarrow> ready a T b"
  by (auto simp: ready_def)

lemma ready_from: "builder_ext b a \<Longrightarrow> ready a S c \<Longrightarrow> S \<subseteq> T \<Longrightarrow> ready b T c"
  using builder_ext_trans [of b a c] by (auto simp: ready_def)

text \<open>Closing the current block with a jump and going on in another one.\<close>

lemma ready_jump:
  "ready a S b \<Longrightarrow> known a (bid k) \<Longrightarrow> known a (bid m) \<Longrightarrow>
   ready a (S - {bid m}) (enter_block m (branch_unless_terminated k b))"
  by (rule ready_enter [OF left_branch_unless left_known [OF left_branch_unless]])
     (simp_all add: ready_known)

lemma three_blocks:
  assumes "builder_inv b" "n = next_block_id (current_fun b)"
  shows "ready (open_blocks 3 b) ({n, Suc n, Suc (Suc n)} \<union> pending b) (open_blocks 3 b)"
    "builder_ext b (open_blocks 3 b)"
    "known (open_blocks 3 b) n" "known (open_blocks 3 b) (Suc n)" "known (open_blocks 3 b) (Suc (Suc n))"
proof -
  have "{n..<n + 3} = {n, Suc n, Suc (Suc n)}" by auto
  note o = open_blocks_ready [OF ready_refl [OF assms(1)] assms(2), where m = 3, unfolded this]
  show "ready (open_blocks 3 b) ({n, Suc n, Suc (Suc n)} \<union> pending b) (open_blocks 3 b)"
    "builder_ext b (open_blocks 3 b)" using o(1) by (simp_all add: ready_def)
  have "known (open_blocks 3 b) k" if "k \<in> {n, Suc n, Suc (Suc n)}" for k using that by (rule o(2))
  then show "known (open_blocks 3 b) n" "known (open_blocks 3 b) (Suc n)" "known (open_blocks 3 b) (Suc (Suc n))"
    by simp_all
qed

text \<open>The builders an if statement goes through.\<close>

lemma if_parts:
  assumes "irBuilderLowerIfStatement c t e b = (True, d)" "n = next_block_id (current_fun b)"
  obtains cond b1 x b2 b3 where
    "irBuilderLowerRValue c (open_blocks 3 b) = (cond, b1)" "vvalue cond = Some x"
    "irBuilderLowerIfBranch t (enter_block (irBasicBlockCreate n) (irBuilderEmitCondBranch x n (Suc n) b1)) = (True, b2)"
    "irBuilderLowerIfBranch e (enter_block (irBasicBlockCreate (Suc n))
       (branch_unless_terminated (irBasicBlockCreate (Suc (Suc n))) b2)) = (True, b3)"
    "d = enter_block (irBasicBlockCreate (Suc (Suc n))) (branch_unless_terminated (irBasicBlockCreate (Suc (Suc n))) b3)"
  using assms(1) unfolding irBuilderLowerIfStatement.simps [of c t e b] create_three Let_def [of "next_block_id _"] assms(2)
  by (auto split: prod.splits option.splits if_splits)

lemma if_steps:
  assumes t: "lowers_well t" and e: "lowers_well e"
  shows "steps b (irBuilderLowerIfStatement c t e b)"
  unfolding steps_def
proof (intro impI, elim conjE)
  let ?r = "irBuilderLowerIfStatement c t e b"
  assume inv: "builder_inv b" and ok: "fst ?r"
  define n where "n = next_block_id (current_fun b)"
  let ?T = "irBasicBlockCreate n" and ?E = "irBasicBlockCreate (Suc n)" and ?N = "irBasicBlockCreate (Suc (Suc n))"
  let ?b = "open_blocks 3 b" and ?S = "{n, Suc n, Suc (Suc n)} \<union> pending b"
  note o = three_blocks [OF inv n_def]
  obtain cond b1 x b2 b3 where
      1: "irBuilderLowerRValue c ?b = (cond, b1)" and x: "vvalue cond = Some x"
    and 2: "irBuilderLowerIfBranch t (enter_block ?T (irBuilderEmitCondBranch x n (Suc n) b1)) = (True, b2)"
    and 3: "irBuilderLowerIfBranch e (enter_block ?E (branch_unless_terminated ?N b2)) = (True, b3)"
    and res: "snd ?r = enter_block ?N (branch_unless_terminated ?N b3)"
    using if_parts [OF surjective_pairing [of ?r, unfolded ok [THEN eqTrueI]] n_def] by metis
  have r1: "ready ?b ?S b1" "value_ok b1 cond" using ready_reaches [OF o(1) rvalue_reaches 1] by simp_all
  have "left ?b ?S (irBuilderEmitCondBranch x n (Suc n) b1)"
    by (rule left_cond_branch [OF r1(1) value_of [OF r1(2) x]]) (simp_all add: ready_known [OF r1(1)] o)
  then have "ready ?b (?S - {n}) (enter_block ?T (irBuilderEmitCondBranch x n (Suc n) b1))"
    using ready_enter [of ?b ?S _ ?T] left_known o(3) by simp
  then have "ready ?b (?S - {n}) b2" by (rule ready_steps [OF _ if_branch_steps [OF t] 2])
  from ready_jump [OF this, of ?N ?E]
  have "ready ?b (?S - {n} - {Suc n}) (enter_block ?E (branch_unless_terminated ?N b2))" by (simp add: o)
  then have "ready ?b (?S - {n} - {Suc n}) b3" by (rule ready_steps [OF _ if_branch_steps [OF e] 3])
  from ready_jump [OF this, of ?N ?N]
  have "ready ?b (?S - {n} - {Suc n} - {Suc (Suc n)}) (snd ?r)" by (simp add: o res)
  then show "ready b (pending b) (snd ?r)" by (rule ready_from [OF o(2)]) auto
qed

text \<open>A loop pushes its targets around the body.\<close>

lemma ready_push:
  assumes "ready a S b" "known a brk" "known a cont"
  shows "ready (irBuilderPushLoopTarget brk cont b) S (irBuilderPushLoopTarget brk cont b)"
  using assms ready_known [OF assms(1)]
  by (auto simp: ready_def irBuilderPushLoopTarget_def builder_inv_def pending_def)

lemma ready_pop:
  assumes "ready a S b" "ready (irBuilderPushLoopTarget brk cont b) T c"
  shows "ready a T (irBuilderPopLoopTarget c)"
proof -
  let ?c = "irBuilderPopLoopTarget c"
  have l: "items (loop_targets c) = items (loop_targets b) @ [(brk, cont)]"
    using assms(2) by (simp add: ready_def builder_ext_def irBuilderPushLoopTarget_def)
  have s: "current_fun ?c = current_fun c" "current_block ?c = current_block c" "module ?c = module c"
    "current_scope ?c = current_scope c" "items (loop_targets ?c) = items (loop_targets b)"
    by (simp_all add: irBuilderPopLoopTarget_def l)
  have "builder_inv ?c" using assms(2) by (auto simp: ready_def builder_inv_def s l)
  moreover have "builder_ext b ?c"
    using assms(2) by (simp add: ready_def builder_ext_def s irBuilderPushLoopTarget_def)
  ultimately show ?thesis
    using assms builder_ext_trans [of a b ?c] by (simp add: ready_def pending_def s)
qed

text \<open>The body of a loop: from the block before the body to the one after it.\<close>

lemma loop_body_ready:
  assumes body: "lowers_well body" and l: "left a S b"
    and k: "known a brk" "known a cont" "known a k"
    and run: "irBuilderLowerBlockNode body (enter_block (irBasicBlockCreate k) (irBuilderPushLoopTarget brk cont b)) = (True, c)"
  shows "ready a (S - {k}) (irBuilderPopLoopTarget c)"
proof -
  let ?k = "irBasicBlockCreate k"
  have swap: "enter_block ?k (irBuilderPushLoopTarget brk cont b) = irBuilderPushLoopTarget brk cont (enter_block ?k b)"
    by (simp add: enter_block_def irBuilderPushLoopTarget_def)
  have e: "ready a (S - {k}) (enter_block ?k b)"
    using ready_enter [OF l, of ?k] left_known [OF l k(3)] by simp
  have p: "ready (irBuilderPushLoopTarget brk cont (enter_block ?k b)) (S - {k}) (irBuilderPushLoopTarget brk cont (enter_block ?k b))"
    by (rule ready_push [OF e k(1,2)])
  show ?thesis
    by (rule ready_pop [OF e]) (rule ready_steps [OF p block_steps [OF body] run [unfolded swap]])
qed

lemma while_parts:
  assumes "irBuilderLowerWhileStatement c body b = (True, d)" "n = next_block_id (current_fun b)"
  obtains cond b1 x b2 where
    "irBuilderLowerRValue c (enter_block (irBasicBlockCreate n)
       (branch_unless_terminated (irBasicBlockCreate n) (open_blocks 3 b))) = (cond, b1)" "vvalue cond = Some x"
    "irBuilderLowerBlockNode body (enter_block (irBasicBlockCreate (Suc n)) (irBuilderPushLoopTarget (Suc (Suc n)) n
       (irBuilderEmitCondBranch x (Suc n) (Suc (Suc n)) b1))) = (True, b2)"
    "d = enter_block (irBasicBlockCreate (Suc (Suc n)))
       (branch_unless_terminated (irBasicBlockCreate n) (irBuilderPopLoopTarget b2))"
  using assms(1) unfolding irBuilderLowerWhileStatement.simps [of c body b] create_three Let_def [of "next_block_id _"] assms(2)
  by (auto simp: Let_def split: prod.splits option.splits if_splits)

lemma while_steps:
  assumes body: "lowers_well body"
  shows "steps b (irBuilderLowerWhileStatement c body b)"
  unfolding steps_def
proof (intro impI, elim conjE)
  let ?r = "irBuilderLowerWhileStatement c body b"
  assume inv: "builder_inv b" and ok: "fst ?r"
  define n where "n = next_block_id (current_fun b)"
  let ?C = "irBasicBlockCreate n" and ?B = "irBasicBlockCreate (Suc n)" and ?N = "irBasicBlockCreate (Suc (Suc n))"
  let ?b = "open_blocks 3 b" and ?S = "{n, Suc n, Suc (Suc n)} \<union> pending b"
  note o = three_blocks [OF inv n_def]
  obtain cond b1 x b2 where
      1: "irBuilderLowerRValue c (enter_block ?C (branch_unless_terminated ?C ?b)) = (cond, b1)" and x: "vvalue cond = Some x"
    and 2: "irBuilderLowerBlockNode body (enter_block ?B (irBuilderPushLoopTarget (Suc (Suc n)) n
              (irBuilderEmitCondBranch x (Suc n) (Suc (Suc n)) b1))) = (True, b2)"
    and res: "snd ?r = enter_block ?N (branch_unless_terminated ?C (irBuilderPopLoopTarget b2))"
    using while_parts [OF surjective_pairing [of ?r, unfolded ok [THEN eqTrueI]] n_def] by metis
  have "ready ?b (?S - {n}) (enter_block ?C (branch_unless_terminated ?C ?b))"
    using ready_jump [OF o(1), of ?C ?C] o by simp
  from ready_reaches [OF this rvalue_reaches 1] have r1: "ready ?b (?S - {n}) b1" "value_ok b1 cond" by simp_all
  have "left ?b (?S - {n}) (irBuilderEmitCondBranch x (Suc n) (Suc (Suc n)) b1)"
    by (rule left_cond_branch [OF r1(1) value_of [OF r1(2) x]]) (simp_all add: ready_known [OF r1(1)] o)
  from loop_body_ready [OF body this o(5,3,4) 2]
  have "ready ?b (?S - {n} - {Suc n}) (irBuilderPopLoopTarget b2)" .
  from ready_jump [OF this, of ?C ?N]
  have "ready ?b (?S - {n} - {Suc n} - {Suc (Suc n)}) (snd ?r)" by (simp add: o res)
  then show "ready b (pending b) (snd ?r)" by (rule ready_from [OF o(2)]) auto
qed

lemma four_blocks:
  assumes "builder_inv b" "n = next_block_id (current_fun b)"
  shows "ready (open_blocks 4 b) ({n, n + 1, n + 2, n + 3} \<union> pending b) (open_blocks 4 b)"
    "builder_ext b (open_blocks 4 b)" "k \<in> {n, n + 1, n + 2, n + 3} \<Longrightarrow> known (open_blocks 4 b) k"
proof -
  have "{n..<n + 4} = {n, n + 1, n + 2, n + 3}" by auto
  note o = open_blocks_ready [OF ready_refl [OF assms(1)] assms(2), where m = 4, unfolded this]
  show "ready (open_blocks 4 b) ({n, n + 1, n + 2, n + 3} \<union> pending b) (open_blocks 4 b)"
    "builder_ext b (open_blocks 4 b)" using o(1) by (simp_all add: ready_def)
  show "k \<in> {n, n + 1, n + 2, n + 3} \<Longrightarrow> known (open_blocks 4 b) k" by (rule o(2))
qed

lemma for_parts:
  assumes "lower_for i c u body b = (True, d)"
  obtains b0 n b1 b2 b3 where "irBuilderLowerLooseNode i b = (True, b0)" "n = next_block_id (current_fun b0)"
    "(let k = enter_block (irBasicBlockCreate n) (branch_unless_terminated (irBasicBlockCreate n) (open_blocks 4 b0))
      in if c \<noteq> AST_NULL then
           (let (cond, b) = irBuilderLowerRValue c k
            in case vvalue cond of None \<Rightarrow> (False, b)
               | Some x \<Rightarrow> (True, irBuilderEmitCondBranch x (Suc n) (Suc (Suc (Suc n))) b))
         else (True, irBuilderEmitBranch (Suc n) k)) = (True, b1)"
    "irBuilderLowerBlockNode body (enter_block (irBasicBlockCreate (Suc n))
       (irBuilderPushLoopTarget (Suc (Suc (Suc n))) (Suc (Suc n)) b1)) = (True, b2)"
    "irBuilderLowerLooseNode u (enter_block (irBasicBlockCreate (Suc (Suc n)))
       (branch_unless_terminated (irBasicBlockCreate (Suc (Suc n))) (irBuilderPopLoopTarget b2))) = (True, b3)"
    "d = enter_block (irBasicBlockCreate (Suc (Suc (Suc n)))) (branch_unless_terminated (irBasicBlockCreate n) b3)"
proof -
  obtain b0 where 0: "irBuilderLowerLooseNode i b = (True, b0)"
    using assms unfolding lower_for.simps [of i c u body b] by (cases "irBuilderLowerLooseNode i b") (auto split: if_splits)
  show thesis
    using that [OF 0 refl] assms
    unfolding lower_for.simps [of i c u body b] 0 create_four Let_def [of "next_block_id _"] prod.case
    by (auto simp: Let_def split: prod.splits option.splits if_splits)
qed

lemma for_body_steps:
  assumes i: "lowers_well i" and u: "lowers_well u" and body: "lowers_well body"
  shows "steps b (lower_for i c u body b)"
  unfolding steps_def
proof (intro impI, elim conjE)
  let ?r = "lower_for i c u body b"
  assume inv: "builder_inv b" and ok: "fst ?r"
  obtain b0 n b1 b2 b3 where 0: "irBuilderLowerLooseNode i b = (True, b0)" and n_def: "n = next_block_id (current_fun b0)"
    and 1: "(let k = enter_block (irBasicBlockCreate n) (branch_unless_terminated (irBasicBlockCreate n) (open_blocks 4 b0))
      in if c \<noteq> AST_NULL then
           (let (cond, b) = irBuilderLowerRValue c k
            in case vvalue cond of None \<Rightarrow> (False, b)
               | Some x \<Rightarrow> (True, irBuilderEmitCondBranch x (Suc n) (Suc (Suc (Suc n))) b))
         else (True, irBuilderEmitBranch (Suc n) k)) = (True, b1)"
    and 2: "irBuilderLowerBlockNode body (enter_block (irBasicBlockCreate (Suc n))
       (irBuilderPushLoopTarget (Suc (Suc (Suc n))) (Suc (Suc n)) b1)) = (True, b2)"
    and 3: "irBuilderLowerLooseNode u (enter_block (irBasicBlockCreate (Suc (Suc n)))
       (branch_unless_terminated (irBasicBlockCreate (Suc (Suc n))) (irBuilderPopLoopTarget b2))) = (True, b3)"
    and res: "snd ?r = enter_block (irBasicBlockCreate (Suc (Suc (Suc n)))) (branch_unless_terminated (irBasicBlockCreate n) b3)"
    by (rule for_parts [OF surjective_pairing [of ?r, unfolded ok [THEN eqTrueI]]])
  let ?C = "irBasicBlockCreate n" and ?B = "irBasicBlockCreate (Suc n)" and ?U = "irBasicBlockCreate (Suc (Suc n))"
    and ?N = "irBasicBlockCreate (Suc (Suc (Suc n)))"
  have r0: "ready b (pending b) b0" by (rule ready_steps [OF ready_refl [OF inv] loose_steps [OF i] 0])
  let ?b = "open_blocks 4 b0" and ?S = "{n, n + 1, n + 2, n + 3} \<union> pending b0"
  note o = four_blocks [OF ready_inv [OF r0] n_def]
  let ?c = "enter_block ?C (branch_unless_terminated ?C ?b)"
  have rc: "ready ?b (?S - {n}) ?c" using ready_jump [OF o(1), of ?C ?C] o(3) by simp
  have l1: "left ?b (?S - {n}) b1"
  proof (cases "c = AST_NULL")
    case True
    then show ?thesis using 1 left_branch [OF rc] ready_known [OF rc] o(3) by (auto simp: Let_def)
  next
    case False
    then obtain cond d x where d: "irBuilderLowerRValue c ?c = (cond, d)" "vvalue cond = Some x"
        and b1: "b1 = irBuilderEmitCondBranch x (Suc n) (Suc (Suc (Suc n))) d"
      using 1 by (auto simp: Let_def split: prod.splits option.splits)
    have r: "ready ?b (?S - {n}) d" "value_ok d cond" using ready_reaches [OF rc rvalue_reaches d(1)] by simp_all
    show ?thesis unfolding b1
      by (rule left_cond_branch [OF r(1) value_of [OF r(2) d(2)]]) (simp_all add: ready_known [OF r(1)] o(3))
  qed
  have "ready ?b (?S - {n} - {Suc n}) (irBuilderPopLoopTarget b2)"
    by (rule loop_body_ready [OF body l1 _ _ _ 2]) (simp_all add: o(3))
  from ready_jump [OF this, of ?U ?U]
  have "ready ?b (?S - {n} - {Suc n} - {Suc (Suc n)}) (enter_block ?U (branch_unless_terminated ?U (irBuilderPopLoopTarget b2)))"
    by (simp add: o(3))
  then have "ready ?b (?S - {n} - {Suc n} - {Suc (Suc n)}) b3" by (rule ready_steps [OF _ loose_steps [OF u] 3])
  from ready_jump [OF this, of ?C ?N]
  have "ready ?b (?S - {n} - {Suc n} - {Suc (Suc n)} - {Suc (Suc (Suc n))}) (snd ?r)" by (simp add: o(3) res)
  then have "ready b0 (pending b0) (snd ?r)" by (rule ready_from [OF o(2)]) auto
  then show "ready b (pending b) (snd ?r)" by (rule ready_trans [OF r0])
qed

lemma for_steps:
  assumes "lowers_well i" "lowers_well u" "lowers_well body"
  shows "steps b (irBuilderLowerForStatement i c u body b)"
proof (cases "lower_for i c u body (enter_scope b)")
  case (Pair ok d)
  show ?thesis
  proof (cases "builder_inv b \<and> ok")
    case True
    let ?b = "enter_scope b" and ?d = "d\<lparr>current_scope := current_scope b\<rparr>"
    have inv: "builder_inv ?b"
      using True by (auto simp: builder_inv_def enter_scope_def irScopeCreate_def table_ok_def)
    then have r: "ready ?b (pending ?b) d"
      using ready_steps [OF ready_refl [OF inv] for_body_steps [OF assms, of ?b c]] Pair True by simp
    then have tl: "tl (current_scope d) = current_scope b"
      by (simp add: ready_def builder_ext_def enter_scope_def irScopeCreate_def)
    have "\<forall>t \<in> set (current_scope b). table_ok (current_fun d) (gdefs d) t"
      using r by (cases "current_scope d") (auto simp: ready_def builder_inv_def simp flip: tl)
    moreover have "current_scope b \<noteq> []" using True by (simp add: builder_inv_def)
    ultimately have "builder_inv ?d" using r by (simp add: ready_def builder_inv_def)
    moreover have "builder_ext b ?d" using r by (simp add: ready_def builder_ext_def enter_scope_def)
    moreover have "pending ?d \<subseteq> pending b" using r by (simp add: ready_def pending_def enter_scope_def)
    ultimately show ?thesis
      by (simp add: steps_def ready_def irBuilderLowerForStatement.simps [of i c u body b] Pair)
  qed (auto simp: steps_def irBuilderLowerForStatement.simps [of i c u body b] Pair)
qed

theorem every_statement_lowers: "lowers_well s"
proof (induction s)
  case AST_NULL
  then show ?case by (simp add: lowers_well_def statement_unfold [of AST_NULL] block_items_def)
next
  case (AST_BLOCK l ss)
  then show ?case
    by (simp add: lowers_well_def [of "AST_BLOCK _ _"] statement_unfold [of "AST_BLOCK _ _"] block_items_def items_steps)
qed (simp_all add: lowers_well_def [of "_ _"] irBuilderLowerStatement.simps irBuilderLowerBlockNode.simps
    block_items_def var_decl_steps assign_steps return_steps break_steps continue_steps expr_statement_steps
    if_steps while_steps for_steps)

end
