(* ===== verification/IrModuleProps.thy ===== *)
theory IrModuleProps
  imports IrStmtProps
begin

text \<open>
  Every module the compiler builds is well formed.
\<close>

section \<open>Well-formed modules\<close>

definition well_formed_function :: "(nat \<times> IRType) set \<Rightarrow> IRFunction \<Rightarrow> bool" where
  "well_formed_function G f \<longleftrightarrow> function_inv f G \<and> block_ids f \<noteq> [] \<and> open_ids f = {}"

definition well_formed_module :: "IRModule \<Rightarrow> bool" where
  "well_formed_module m \<longleftrightarrow>
     growable_ok (globals m) \<and> growable_ok (mfunctions m)
     \<and> well_formed_globals (items (globals m))
     \<and> (\<forall>f \<in> set (items (mfunctions m)). well_formed_function (global_types (items (globals m))) f)"

section \<open>A function body\<close>

text \<open>A function as it is predeclared.\<close>

definition fresh_function :: "IRFunction \<Rightarrow> bool" where
  "fresh_function f \<longleftrightarrow> f = (irFunctionCreate (fname f) (return_type f))\<lparr>params := params f\<rparr>"

text \<open>The table of file scope holds globals and functions only.\<close>

definition global_table_ok :: "(nat \<times> IRType) set \<Rightarrow> IRSymbolTable \<Rightarrow> bool" where
  "global_table_ok G t \<longleftrightarrow> buckets_ok irname t
     \<and> (\<forall>x s. bucketLookup irname t x = Some s \<longrightarrow>
          (case irdata s of IR_SYMBOL_LOCAL i \<Rightarrow> False | IR_SYMBOL_GLOBAL i \<Rightarrow> (i, irtype s) \<in> G
           | IR_SYMBOL_FUNCTION t ps \<Rightarrow> True))"

lemma global_table_any: "global_table_ok G t \<Longrightarrow> table_ok f G t"
  by (fastforce simp: global_table_ok_def table_ok_def sym_ok_def split: IRSymbolData.splits)

definition module_inv :: "nat \<Rightarrow> IRBuilder \<Rightarrow> bool" where
  "module_inv done b \<longleftrightarrow>
     (let m = module b; G = gdefs b
      in growable_ok (globals m) \<and> growable_ok (mfunctions m) \<and> global_table_ok G (mscope m)
         \<and> well_formed_globals (items (globals m))
         \<and> (\<forall>f \<in> set (take done (items (mfunctions m))). well_formed_function G f)
         \<and> (\<forall>f \<in> set (drop done (items (mfunctions m))). fresh_function f)
         \<and> items (loop_targets b) = [])"

text \<open>The entry block of a function.\<close>

definition entered :: "nat \<Rightarrow> IRBuilder \<Rightarrow> IRBuilder" where
  "entered n b =
     (let f = items (mfunctions (module b)) ! n;
          b = b\<lparr>current_fun := f, current_scope := [fscope f, mscope (module b)]\<rparr>;
          (entry, b) = create_block b
      in enter_block entry (append_block entry b))"

lemma entered_inv:
  assumes "module_inv n b" "n < length (items (mfunctions (module b)))"
  shows "builder_inv (entered n b)" "pending (entered n b) = {}"
proof -
  have "items (mfunctions (module b)) ! n \<in> set (drop n (items (mfunctions (module b))))"
    using assms(2) by (simp add: Cons_nth_drop_Suc [symmetric])
  then have f: "fresh_function (items (mfunctions (module b)) ! n)" using assms(1) by (simp add: module_inv_def Let_def)
  then obtain nm r ps where nth: "items (mfunctions (module b)) ! n = (irFunctionCreate nm r)\<lparr>params := ps\<rparr>"
    by (auto simp: fresh_function_def)
  define g where "g = current_fun (entered n b)"
  have g: "block_ids g = [1]" "code_of g = {}" "def_ids g = []" "next_block_id g = 2" "next_local_id g = 1"
      "growable_ok (blocks g)" "\<forall>bb \<in> set (items (blocks g)). growable_ok (instructions bb)"
    by (simp_all add: g_def entered_def Let_def nth create_block_def irFunctionCreateBlock_def irFunctionReserveBlockId_def
        irFunctionCreate_def enter_block_def append_block_def irFunctionAppendBlock_def block_ids_def code_of_def def_ids_def
        irBasicBlockCreate_def growable_ok_append result_ids_def)
  then have fi: "function_inv g (gdefs b)" by (simp add: function_inv_def)
  have e: "current_block (entered n b) = 1" "module (entered n b) = module b" "loop_targets (entered n b) = loop_targets b"
    "current_scope (entered n b) = [irSymbolTableCreate 64, mscope (module b)]"
    by (simp_all add: entered_def Let_def nth create_block_def irFunctionCreateBlock_def irFunctionReserveBlockId_def
        irFunctionCreate_def enter_block_def append_block_def irBasicBlockCreate_def)
  have "table_ok g (gdefs b) (mscope (module b))" "items (loop_targets b) = []" "growable_ok (globals (module b))"
    "well_formed_globals (items (globals (module b)))"
    using assms(1) global_table_any by (simp_all add: module_inv_def Let_def)
  then show "builder_inv (entered n b)"
    using fi by (simp add: builder_inv_def e g_def [symmetric] g table_ok_def)
  show "pending (entered n b) = {}"
    using g(1) by (auto simp: pending_def e g_def [symmetric] open_ids_def block_ids_def)
qed

lemma materialize_slot:
  "irBuilderMaterializeParameter p i b =
     (case stack_slot (pname p) (ptype p) b of
        None \<Rightarrow> (False, snd (irBuilderReserveResult b))
      | Some (k, c) \<Rightarrow> (True, irBuilderAppendInstruction
          (instr None (IR_INSTR_STORE (irOperandCreateLocal (irTypeCreatePointer (ptype p)) k)
             (irOperandCreateParam (ptype p) (i + 1)))) c))"
  by (simp add: irBuilderMaterializeParameter_def stack_slot_def Let_def split: prod.split)

lemma materialize_step:
  assumes "i < length (params (current_fun b))" "params (current_fun b) ! i = p"
  shows "steps b (irBuilderMaterializeParameter p i b)"
  unfolding materialize_slot
proof (rule steps_option)
  fix r assume r: "stack_slot (pname p) (ptype p) b = Some r"
  obtain k c where kc: "r = (k, c)" by fastforce
  let ?a = "irOperandCreateLocal (irTypeCreatePointer (ptype p)) k" and ?x = "irOperandCreateParam (ptype p) (i + 1)"
  have "ready b (pending b) (irBuilderEmitStore ?a ?x c)" if inv: "builder_inv b"
  proof -
    note s = stack_slot_ready [OF inv r [unfolded kc]]
    have "params (current_fun c) = params (current_fun b)" using s(1) by (simp add: ready_def builder_ext_def extends_def)
    then have "op_ok c ?x" using assms by (simp add: operand_ok_def irOperandCreateParam_def)
    then show ?thesis
      by (intro ready_store [OF s, of "ptype p"]) (simp add: points_to_def irTypeCreatePointer_def)
  qed
  then show "steps b (case r of (k, c) \<Rightarrow> (True, irBuilderAppendInstruction
      (instr None (IR_INSTR_STORE (irOperandCreateLocal (irTypeCreatePointer (ptype p)) k)
        (irOperandCreateParam (ptype p) (i + 1)))) c))"
    by (simp add: kc steps_ready irBuilderEmitStore_def)
qed simp

lemma drop_ConsD:
  assumes "drop i xs = y # ys"
  shows "i < length xs" "xs ! i = y" "drop (Suc i) xs = ys"
proof -
  show i: "i < length xs" using assms by (metis drop_eq_Nil linorder_not_le list.distinct(1))
  show "xs ! i = y" "drop (Suc i) xs = ys" using Cons_nth_drop_Suc [OF i] assms by simp_all
qed

lemma materialize_steps:
  "drop i (params (current_fun b)) = ps \<Longrightarrow> steps b (materialize_params ps i b)"
proof (induction ps arbitrary: i b)
  case Nil
  then show ?case by simp
next
  case (Cons p ps)
  note p = drop_ConsD [OF Cons.prems]
  show ?case unfolding materialize_params.simps
  proof (rule steps_if [OF materialize_step [OF p(1,2)]])
    fix c assume "builder_ext b c"
    then have "params (current_fun c) = params (current_fun b)" by (simp add: builder_ext_def extends_def)
    then show "steps c (materialize_params ps (i + 1) c)" using Cons.IH p(3) by simp
  qed
qed

lemma well_formed_function_scope: "function_inv f G \<Longrightarrow> open_ids f = {} \<Longrightarrow> block_ids f \<noteq> [] \<Longrightarrow>
    well_formed_function G (f\<lparr>fscope := t\<rparr>)"
proof -
  let ?g = "f\<lparr>fscope := t\<rparr>"
  assume *: "function_inv f G" "open_ids f = {}" "block_ids f \<noteq> []"
  have g: "block_ids ?g = block_ids f" "code_of ?g = code_of f" "def_ids ?g = def_ids f" "defs ?g = defs f" "open_ids ?g = open_ids f"
    by (simp_all add: block_ids_def code_of_def def_ids_def defs_def open_ids_def)
  have "extends f ?g" by (simp add: extends_def g)
  then have "function_inv ?g G" using *(1) instr_ok_mono [of f G _ ?g G] by (auto simp: function_inv_def g)
  then show ?thesis using *(2,3) by (simp add: well_formed_function_def g)
qed

lemma well_formed_function_mono: "well_formed_function G f \<Longrightarrow> G \<subseteq> H \<Longrightarrow> well_formed_function H f"
  by (simp add: well_formed_function_def function_inv_mono [of f G H])

lemma global_table_mono: "global_table_ok G t \<Longrightarrow> G \<subseteq> H \<Longrightarrow> global_table_ok H t"
  by (fastforce simp: global_table_ok_def split: IRSymbolData.splits)

text \<open>The default return closes a body that can run off its end.\<close>

lemma default_return_left: "ready a S b \<Longrightarrow> left a S (irBuilderEmitDefaultReturn b)"
  unfolding irBuilderEmitDefaultReturn_def Let_def
  by (rule left_return) (auto simp: irOperandCreateLiteral_def operand_ok_def)

lemma function_body_parts:
  assumes inv: "module_inv n b" and n: "n < length (items (mfunctions (module b)))"
    and ok: "irBuilderLowerFunctionBody body n b = (True, c)"
  obtains l ss d d2 e where "body = AST_BLOCK l ss"
    "materialize_params (params (items (mfunctions (module b)) ! n)) 0 (entered n b) = (True, d)"
    "lower_items ss d = (True, d2)" "e = (if irBuilderCurrentBlockHasTerminator d2 then d2 else irBuilderEmitDefaultReturn d2)"
    "c = put_function n e" "ready (entered n b) {} d" "ready (entered n b) {} d2" "left (entered n b) {} e"
proof -
  note e = entered_inv [OF inv n]
  let ?e = "entered n b"
  obtain l ss d d2 where 0: "body = AST_BLOCK l ss" and 1: "materialize_params (params (items (mfunctions (module b)) ! n)) 0 ?e = (True, d)"
      and 2: "lower_items ss d = (True, d2)"
      and c: "c = put_function n (if irBuilderCurrentBlockHasTerminator d2 then d2 else irBuilderEmitDefaultReturn d2)"
    using ok by (auto simp: irBuilderLowerFunctionBody_def entered_def Let_def split: prod.splits if_splits ast.splits)
  have p: "drop 0 (params (current_fun ?e)) = params (items (mfunctions (module b)) ! n)"
    by (simp add: entered_def Let_def create_block_def irFunctionCreateBlock_def irFunctionReserveBlockId_def
        enter_block_def append_block_def irFunctionAppendBlock_def)
  have d: "ready ?e {} d" using ready_steps [OF ready_refl [OF e(1)] materialize_steps [OF p] 1] e(2) by simp
  then have d2: "ready ?e {} d2" by (rule ready_steps [OF _ items_steps 2]) (simp add: every_statement_lowers)
  then have "left ?e {} (if irBuilderCurrentBlockHasTerminator d2 then d2 else irBuilderEmitDefaultReturn d2)"
    by (simp add: has_terminator_left default_return_left)
  then show thesis by (rule that [OF 0 1 2 refl c d d2])
qed

lemma entered_same: "module (entered n b) = module b" "loop_targets (entered n b) = loop_targets b"
  by (simp_all add: entered_def Let_def create_block_def irFunctionCreateBlock_def irFunctionReserveBlockId_def
      enter_block_def append_block_def)

lemma function_body_ok:
  assumes inv: "module_inv n b" and n: "n < length (items (mfunctions (module b)))"
    and ok: "irBuilderLowerFunctionBody body n b = (True, c)"
  shows "module_inv (Suc n) c" "length (items (mfunctions (module c))) = length (items (mfunctions (module b)))"
    "mscope (module c) = mscope (module b)" "prefix (items (globals (module b))) (items (globals (module c)))"
    "\<exists>g. items (mfunctions (module c)) = (items (mfunctions (module b)))[n := g]"
proof -
  obtain f where c: "c = put_function n f" and f: "left (entered n b) {} f"
    by (rule function_body_parts [OF inv n ok])
  let ?e = "entered n b" and ?f = f
  have f: "builder_inv ?f" "builder_ext ?e ?f" "open_ids (current_fun ?f) = {}" using f by (simp_all add: left_def)
  let ?xs = "items (mfunctions (module b))" and ?g = "(current_fun ?f)\<lparr>fscope := hd (current_scope ?f)\<rparr>"
  note me = entered_same [of n b]
  have mf: "mfunctions (module ?f) = mfunctions (module b)" "mscope (module ?f) = mscope (module b)"
      "items (loop_targets ?f) = []" and le: "gdefs b \<subseteq> gdefs ?f"
    using f(2) inv builder_ext_gdefs [OF f(2)] by (simp_all add: builder_ext_def me module_inv_def Let_def)
  have mc: "items (mfunctions (module c)) = ?xs[n := ?g]" "mscope (module c) = mscope (module b)"
      "globals (module c) = globals (module ?f)" "loop_targets c = loop_targets ?f"
    by (simp_all add: c put_function_def Let_def mf)
  show "length (items (mfunctions (module c))) = length ?xs" by (simp add: mc)
  show "mscope (module c) = mscope (module b)" by (simp add: mc)
  show "prefix (items (globals (module b))) (items (globals (module c)))"
    using f(2) by (simp add: mc builder_ext_def me)
  show "\<exists>g. items (mfunctions (module c)) = (items (mfunctions (module b)))[n := g]" using mc(1) by blast
  have "function_inv (current_fun ?f) (gdefs ?f)" "block_ids (current_fun ?f) \<noteq> []"
    using f(1) by (auto simp: builder_inv_def)
  then have g: "well_formed_function (gdefs ?f) ?g" using well_formed_function_scope f(3) by blast
  have "\<forall>h \<in> set (take (Suc n) (?xs[n := ?g])). well_formed_function (gdefs ?f) h"
    using inv n g well_formed_function_mono [OF _ le] by (auto simp: module_inv_def Let_def take_Suc_conv_app_nth)
  moreover have "set (drop (Suc n) (?xs[n := ?g])) \<subseteq> set (drop n ?xs)"
    using set_drop_subset_set_drop [of n "Suc n" ?xs] by simp
  moreover have "growable_ok (mfunctions (module c))"
    using inv by (simp add: c put_function_def Let_def mf module_inv_def growable_ok_def)
  ultimately show "module_inv (Suc n) c"
    using inv f(1) mf global_table_mono [OF _ le] by (auto simp: module_inv_def Let_def mc builder_inv_def)
qed

section \<open>Declarations\<close>

lemma declare_global_ok:
  assumes "module_inv n b" "declare_global s b = (True, c)"
    and "case irdata s of IR_SYMBOL_LOCAL i \<Rightarrow> False | IR_SYMBOL_GLOBAL i \<Rightarrow> (i, irtype s) \<in> gdefs b
         | IR_SYMBOL_FUNCTION t ps \<Rightarrow> True"
  shows "module_inv n c" "mfunctions (module c) = mfunctions (module b)" "globals (module c) = globals (module b)"
proof -
  obtain t where t: "bucketDeclare irname (mscope (module b)) s = (True, t)"
      and c: "c = b\<lparr>module := (module b)\<lparr>mscope := t\<rparr>\<rparr>"
    using assms(2) by (auto simp: declare_global_def split: prod.splits)
  show g: "mfunctions (module c) = mfunctions (module b)" "globals (module c) = globals (module b)" by (simp_all add: c)
  have "global_table_ok (gdefs b) t"
    using assms(1,3) t ir_table.declare_inv [of "mscope (module b)" s] ir_table.declare_lookup [of "mscope (module b)" s]
    by (auto simp: module_inv_def global_table_ok_def Let_def split: if_splits)
  then show "module_inv n c" using assms(1) g by (simp add: module_inv_def Let_def c)
qed

lemma append_global_ok:
  assumes "module_inv n b" "well_formed_global (Suc (gcount b)) g" "numbered_after (items (globals (module b))) g"
  shows "module_inv n (append_global g b)" "mfunctions (module (append_global g b)) = mfunctions (module b)"
    "items (globals (module (append_global g b))) = items (globals (module b)) @ [g]"
proof -
  have s: "globals (module (append_global g b)) = growable_append (globals (module b)) g"
    "mscope (module (append_global g b)) = mscope (module b)"
    "mfunctions (module (append_global g b)) = mfunctions (module b)"
    "loop_targets (append_global g b) = loop_targets b"
    by (simp_all add: append_global_def irModuleAppendGlobal_def)
  then show "mfunctions (module (append_global g b)) = mfunctions (module b)" by simp
  show n: "items (globals (module (append_global g b))) = items (globals (module b)) @ [g]" by (simp add: s)
  have le: "gdefs b \<subseteq> gdefs (append_global g b)" by (auto simp: n)
  show "module_inv n (append_global g b)"
    using assms global_table_mono [OF _ le] well_formed_globals_append [OF _ assms(3)] well_formed_function_mono [OF _ le]
    by (auto simp: module_inv_def Let_def s growable_ok_append gcount_def)
qed

lemma storage_ok:
  assumes "module_inv n b" "irBuilderAddStringStorage v b = (k, c)"
  shows "module_inv n c" "mfunctions (module c) = mfunctions (module b)" "k = Suc (gcount b)"
    "\<exists>g. items (globals (module c)) = items (globals (module b)) @ [g] \<and> is_constant g \<and> gid g = k"
proof -
  define g where "g = (irGlobalCreate (snprintf 32 (''.str.'' @ show_nat (Suc (gcount b)))) (Suc (gcount b))
      (irTypeCreateSizedArray (Some IR_TYPE_CHAR) (length (irBuilderUnquoteString v) + 1))
      (Some (IR_LITERAL_STRING (irBuilderUnquoteString v))))\<lparr>is_constant := True\<rparr>"
  have k: "k = Suc (gcount b)" and c: "c = append_global g b"
    using assms(2) by (auto simp: g_def irBuilderAddStringStorage_def Let_def irBuilderNextGlobalId_def gcount_def)
  have "well_formed_global (Suc (gcount b)) g" "numbered_after (items (globals (module b))) g"
    by (simp_all add: well_formed_global_def numbered_after_def gcount_def g_def irGlobalCreate_def irTypeCreateSizedArray_def
        irBuilderUnquoteString_def c_string_no_NUL)
  from append_global_ok [OF assms(1) this]
  show "module_inv n c" "mfunctions (module c) = mfunctions (module b)" "k = Suc (gcount b)"
    "\<exists>g. items (globals (module c)) = items (globals (module b)) @ [g] \<and> is_constant g \<and> gid g = k"
    by (auto simp: c k g_def irGlobalCreate_def)
qed

lemma storage_scope:
  "mscope (module (snd (irBuilderAddStringStorage v b))) = mscope (module b)"
  "prefix (items (globals (module b))) (items (globals (module (snd (irBuilderAddStringStorage v b)))))"
  by (simp_all add: irBuilderAddStringStorage_def Let_def append_global_def irModuleAppendGlobal_def)

lemma predeclare_global_ok:
  assumes inv: "module_inv n b" and ok: "irBuilderPredeclareGlobal x t i b = (True, c)"
  shows "module_inv n c" "mfunctions (module c) = mfunctions (module b)"
proof -
  obtain u where u: "irBuilderTypeFromAst t = Some u"
    using ok by (auto simp: irBuilderPredeclareGlobal_def split: option.splits)
  let ?i = "Suc (gcount b)" and ?g = "irGlobalCreate x (Suc (gcount b)) u (irBuilderLiteralFromAst i)"
  obtain g d where g: "(if is_string_literal i then
        (let (k, b) = irBuilderAddStringStorage (string_value i) b in (?g\<lparr>storage_global_id := Some k\<rparr>, b))
      else (?g, b)) = (g, d)" by fastforce
  have d: "declare_global (irSymbolCreateGlobal x u ?i) (append_global g d) = (True, c)"
    using ok g by (simp add: irBuilderPredeclareGlobal_def u irBuilderNextGlobalId_def gcount_def [symmetric]
        irBuilderAppendGlobalSymbol_def Let_def)
  have "module_inv n d \<and> mfunctions (module d) = mfunctions (module b) \<and> well_formed_global (Suc (gcount d)) g
      \<and> numbered_after (items (globals (module d))) g"
  proof (cases "is_string_literal i")
    case True
    then obtain k where "irBuilderAddStringStorage (string_value i) b = (k, d)" "g = ?g\<lparr>storage_global_id := Some k\<rparr>"
      using g by (auto split: prod.splits)
    with storage_ok [OF inv this(1)] show ?thesis
      by (auto simp: well_formed_global_def irGlobalCreate_def numbered_after_def gcount_def)
  next
    case False
    then show ?thesis using g inv by (auto simp: well_formed_global_def irGlobalCreate_def numbered_after_def gcount_def)
  qed
  then have d1: "module_inv n d" "mfunctions (module d) = mfunctions (module b)" "well_formed_global (Suc (gcount d)) g"
    "numbered_after (items (globals (module d))) g" by blast+
  note a = append_global_ok [OF d1(1,3,4)]
  have "gid g = ?i" "gtype g = u" using g by (auto simp: irGlobalCreate_def split: if_splits prod.splits)
  then have "case irdata (irSymbolCreateGlobal x u ?i) of IR_SYMBOL_LOCAL i \<Rightarrow> False
      | IR_SYMBOL_GLOBAL i \<Rightarrow> (i, irtype (irSymbolCreateGlobal x u ?i)) \<in> gdefs (append_global g d) | IR_SYMBOL_FUNCTION t ps \<Rightarrow> True"
    by (simp add: irSymbolCreateGlobal_def a(3))
  from declare_global_ok [OF a(1) d this] a(2) d1(2)
  show "module_inv n c" "mfunctions (module c) = mfunctions (module b)" by simp_all
qed

lemma populate_params:
  "irBuilderPopulateFunctionParams ps (irFunctionCreate x t) = Some f \<Longrightarrow> fresh_function f"
  by (auto simp: irBuilderPopulateFunctionParams_def fresh_function_def irFunctionCreate_def)

lemma predeclare_function_ok:
  assumes inv: "module_inv 0 b" and ok: "irBuilderPredeclareFunction x ps r b = (True, c)"
  shows "module_inv 0 c" "length (items (mfunctions (module c))) = Suc (length (items (mfunctions (module b))))"
proof -
  obtain t f ts d where f: "irBuilderPopulateFunctionParams ps (irFunctionCreate x t) = Some f"
      and d: "declare_global (irSymbolCreateFunction x t ts) b = (True, d)"
      and c: "c = d\<lparr>module := irModuleAppendFunction (module d) f\<rparr>"
    using ok by (auto simp: irBuilderPredeclareFunction_def split: option.splits prod.splits if_splits)
  have "case irdata (irSymbolCreateFunction x t ts) of IR_SYMBOL_LOCAL i \<Rightarrow> False
      | IR_SYMBOL_GLOBAL i \<Rightarrow> (i, irtype (irSymbolCreateFunction x t ts)) \<in> gdefs b | IR_SYMBOL_FUNCTION t ps \<Rightarrow> True"
    by (simp add: irSymbolCreateFunction_def)
  note g = declare_global_ok [OF inv d this]
  show "module_inv 0 c"
    using g(1) populate_params [OF f]
    by (auto simp: c module_inv_def Let_def irModuleAppendFunction_def growable_ok_append)
  show "length (items (mfunctions (module c))) = Suc (length (items (mfunctions (module b))))"
    by (simp add: c irModuleAppendFunction_def g(2))
qed

lemma predeclare_extern_ok:
  assumes "module_inv n b" "irBuilderPredeclareExternFunction x ps r b = (True, c)"
  shows "module_inv n c" "mfunctions (module c) = mfunctions (module b)"
  using assms declare_global_ok [OF assms(1)]
  by (auto simp: irBuilderPredeclareExternFunction_def irSymbolCreateFunction_def split: option.splits)

section \<open>The module\<close>

abbreviation function_count :: "IRBuilder \<Rightarrow> nat" where
  "function_count b \<equiv> length (items (mfunctions (module b)))"

definition body_count :: "ast list \<Rightarrow> nat" where
  "body_count ds = length (filter (\<lambda>d. defined_body d \<noteq> None) ds)"

lemma body_count_simps [simp]:
  "body_count [] = 0" "body_count (d # ds) = (if defined_body d = None then 0 else 1) + body_count ds"
  by (simp_all add: body_count_def)

lemma predeclare_ok:
  assumes "module_inv 0 b" "predeclare d b = (True, c)"
  shows "module_inv 0 c" "function_count c = (if defined_body d = None then 0 else 1) + function_count b"
proof -
  consider l x t i where "d = AST_VAR_DECL l x t i" | l x ps body r where "d = AST_FUNC_DECL l x ps body r True"
    | l x ps body r where "d = AST_FUNC_DECL l x ps body r False"
    | "d = AST_NULL" | "predeclare d b = (True, b)" "defined_body d = None"
    by (cases d) (auto simp: predeclare_def defined_body_def)
  then have "module_inv 0 c \<and> function_count c = (if defined_body d = None then 0 else 1) + function_count b"
  proof cases
    case (1 l x t i)
    then have "irBuilderPredeclareGlobal x t i b = (True, c)" "defined_body d = None"
      using assms(2) by (simp_all add: predeclare_def defined_body_def)
    with predeclare_global_ok [OF assms(1) this(1)] show ?thesis by simp
  next
    case (2 l x ps body r)
    then have "irBuilderPredeclareExternFunction x ps r b = (True, c)" "defined_body d = None"
      using assms(2) by (simp_all add: predeclare_def defined_body_def)
    with predeclare_extern_ok [OF assms(1) this(1)] show ?thesis by simp
  next
    case (3 l x ps body r)
    then have "irBuilderPredeclareFunction x ps r b = (True, c)" "defined_body d \<noteq> None"
      using assms(2) by (simp_all add: predeclare_def defined_body_def)
    with predeclare_function_ok [OF assms(1) this(1)] show ?thesis by simp
  next
    case 4
    then show ?thesis using assms(2) by (simp add: predeclare_def)
  next
    case 5
    then show ?thesis using assms by simp
  qed
  then show "module_inv 0 c" "function_count c = (if defined_body d = None then 0 else 1) + function_count b"
    by blast+
qed

lemma predeclare_all_ok:
  "module_inv 0 b \<Longrightarrow> predeclare_all ds b = (True, c) \<Longrightarrow>
   module_inv 0 c \<and> function_count c = body_count ds + function_count b"
proof (induction ds arbitrary: b)
  case Nil
  then show ?case by simp
next
  case (Cons d ds)
  then obtain e where e: "predeclare d b = (True, e)" "predeclare_all ds e = (True, c)"
    by (auto split: prod.splits if_splits)
  from predeclare_ok [OF Cons.prems(1) e(1)] Cons.IH [OF _ e(2)] show ?case by simp
qed

definition collects :: "IRBuilder \<Rightarrow> IRBuilder \<Rightarrow> bool" where
  "collects b c \<longleftrightarrow> (module_inv 0 b \<longrightarrow> module_inv 0 c \<and> mfunctions (module c) = mfunctions (module b)
     \<and> mscope (module c) = mscope (module b) \<and> prefix (items (globals (module b))) (items (globals (module c))))"

lemma collects_refl [simp]: "collects b b"
  by (simp add: collects_def)

lemma collects_trans: "collects b c \<Longrightarrow> collects c d \<Longrightarrow> collects b d"
  unfolding collects_def by (metis prefix_order.trans)

lemma collects_storage: "collects b (snd (irBuilderAddStringStorage v b))"
  using storage_ok [of 0 b v] storage_scope [where v = v and b = b] by (cases "irBuilderAddStringStorage v b") (simp add: collects_def)

lemma collects_list: "\<forall>d \<in> set ds. \<forall>b. collects b (irBuilderCollectStringLiterals d b) \<Longrightarrow> collects b (collect_all ds b)"
proof (induction ds arbitrary: b)
  case Nil
  then show ?case by simp
next
  case (Cons d ds)
  then show ?case by (auto intro: collects_trans)
qed

lemma collect_simps:
  "irBuilderCollectStringLiterals (AST_PROGRAM l ds) b = collect_all ds b"
  "irBuilderCollectStringLiterals (AST_BLOCK l ds) b = collect_all ds b"
  "irBuilderCollectStringLiterals (AST_VAR_DECL l x t e) b = irBuilderCollectStringLiterals e b"
  "irBuilderCollectStringLiterals (AST_FUNC_DECL l x ds e r ext) b = irBuilderCollectStringLiterals e b"
  "irBuilderCollectStringLiterals (AST_RETURN l e) b = irBuilderCollectStringLiterals e b"
  "irBuilderCollectStringLiterals (AST_EXPR_STMT l e) b = irBuilderCollectStringLiterals e b"
  "irBuilderCollectStringLiterals (AST_UNARY l u e) b = irBuilderCollectStringLiterals e b"
  "irBuilderCollectStringLiterals (AST_ARRAY_LITERAL l ds) b = collect_all ds b"
  "irBuilderCollectStringLiterals (AST_STRING_LITERAL l v) b = snd (irBuilderAddStringStorage v b)"
  by (subst irBuilderCollectStringLiterals.simps, simp)+

lemma collects_seq:
  "\<forall>b. collects b (irBuilderCollectStringLiterals s b) \<Longrightarrow> collects b c \<Longrightarrow> collects b (irBuilderCollectStringLiterals s c)"
  "\<forall>s \<in> set ss. \<forall>b. collects b (irBuilderCollectStringLiterals s b) \<Longrightarrow> collects b c \<Longrightarrow> collects b (collect_all ss c)"
  by (blast intro: collects_trans collects_list)+

lemma collect_literals_ok: "collects b (irBuilderCollectStringLiterals s b)"
proof (induction s arbitrary: b)
  case (AST_IF l c t e)
  then show ?case
    unfolding irBuilderCollectStringLiterals.simps [of "AST_IF l c t e"] ast.case
    by (intro collects_seq) simp_all
next
  case (AST_WHILE l c t)
  then show ?case
    unfolding irBuilderCollectStringLiterals.simps [of "AST_WHILE l c t"] ast.case
    by (intro collects_seq) simp_all
next
  case (AST_FOR l i c u t)
  then show ?case
    unfolding irBuilderCollectStringLiterals.simps [of "AST_FOR l i c u t"] ast.case
    by (intro collects_seq) simp_all
next
  case (AST_ASSIGN l op t v)
  then show ?case
    unfolding irBuilderCollectStringLiterals.simps [of "AST_ASSIGN l op t v"] ast.case
    by (intro collects_seq) simp_all
next
  case (AST_BINARY l op x y)
  then show ?case
    unfolding irBuilderCollectStringLiterals.simps [of "AST_BINARY l op x y"] ast.case
    by (intro collects_seq) simp_all
next
  case (AST_CALL l f args)
  then show ?case
    unfolding irBuilderCollectStringLiterals.simps [of "AST_CALL l f args"] ast.case
    by (intro collects_seq) simp_all
next
  case (AST_ARRAY_ACCESS l f args)
  then show ?case
    unfolding irBuilderCollectStringLiterals.simps [of "AST_ARRAY_ACCESS l f args"] ast.case
    by (intro collects_seq) simp_all
qed (simp_all add: collect_simps collects_list collects_storage, (subst irBuilderCollectStringLiterals.simps, simp)+)

lemma collect_all_ok: "collects b (collect_all ds b)"
  by (rule collects_list) (simp add: collect_literals_ok)

lemma lower_bodies_ok:
  "module_inv n b \<Longrightarrow> n + body_count ds = function_count b \<Longrightarrow> lower_bodies ds n b = (True, c) \<Longrightarrow>
   module_inv (function_count c) c"
proof (induction ds arbitrary: n b)
  case Nil
  then show ?case by simp
next
  case (Cons d ds)
  show ?case
  proof (cases "defined_body d")
    case None
    then show ?thesis using Cons.IH [OF Cons.prems(1)] Cons.prems(2,3) by simp
  next
    case (Some body)
    then obtain e where e: "irBuilderLowerFunctionBody body n b = (True, e)" "lower_bodies ds (Suc n) e = (True, c)"
      using Cons.prems(3) by (auto split: prod.splits if_splits)
    have n: "n < function_count b" using Cons.prems(2) Some by simp
    note f = function_body_ok [OF Cons.prems(1) n e(1)]
    show ?thesis using Cons.IH [OF f(1) _ e(2)] f(2) Cons.prems(2) Some by simp
  qed
qed

lemma initial_module: "module_inv 0 irBuilderCreate" "function_count irBuilderCreate = 0"
  by (simp_all add: module_inv_def irBuilderCreate_def irModuleCreate_def global_table_ok_def)

lemma build_ok:
  assumes "build ds = (True, b)"
  shows "module_inv (function_count b) b"
proof -
  obtain c where c: "predeclare_all ds irBuilderCreate = (True, c)" "lower_bodies ds 0 (collect_all ds c) = (True, b)"
    using assms by (auto simp: build_def split: prod.splits if_splits)
  have p: "module_inv 0 c" "function_count c = body_count ds"
    using predeclare_all_ok [OF initial_module(1) c(1)] initial_module(2) by simp_all
  then have "module_inv 0 (collect_all ds c)" "function_count (collect_all ds c) = body_count ds"
    using collect_all_ok [of c ds] by (simp_all add: collects_def)
  from lower_bodies_ok [OF this(1) _ c(2)] this(2) show ?thesis by simp
qed

lemma built_module: "irBuildModule program es = Some m \<Longrightarrow> well_formed_module m"
proof -
  assume "irBuildModule program es = Some m"
  then obtain l ds b where "program = AST_PROGRAM l ds" "build ds = (True, b)" "m = module b"
    by (auto simp: irBuildModule_def split: ast.splits if_splits prod.splits)
  then show ?thesis using build_ok [of ds b] by (simp add: well_formed_module_def module_inv_def Let_def)
qed

text \<open>C8: a module that the IR builder returns is well formed, whatever the program: in each
  function the blocks have distinct numbers and all end in a jump or a return, jumps lead to
  blocks of the function, results have distinct numbers, every local or parameter an operand names
  is a result or parameter of the function with the operand's type, every global it names is a
  global of the module and the operand's type the pointer to that global's type, loads, stores and
  address computations go through pointers, and no growing list exceeds its buffer.  Globals are
  numbered by their place, except that a variable with a string of its own has the number of that
  string, which stands before it: these two are the only ones that can share a number, and then an
  operand names both (the printer takes the string; \<open>IrLimits.string_global_shares_number\<close>).\<close>

theorem module_well_formed: "case irBuildModule program es of None \<Rightarrow> True | Some m \<Rightarrow> well_formed_module m"
  by (simp add: built_module split: option.split)

end
