(* ===== verification/IrPrintProps.thy ===== *)
theory IrPrintProps
  imports IrModuleProps IrPrint
begin

text \<open>
  What the printed module says: string constants read back as the bytes of the literal, and
  printing fails exactly on the null literal of a default return.
\<close>

section \<open>String constants\<close>

text \<open>Reading a string constant of LLVM assembly after its opening quote: the bytes up to the
  closing quote, and the text after it.  A backslash starts a byte of two hexadecimal digits.\<close>

definition hex_value :: "char \<Rightarrow> nat option" where
  "hex_value c =
     (let n = of_char c :: nat
      in if 48 \<le> n \<and> n \<le> 57 then Some (n - 48)
         else if 65 \<le> n \<and> n \<le> 70 then Some (n - 55) else None)"

definition hex_byte :: "char \<Rightarrow> char \<Rightarrow> char option" where
  "hex_byte h l =
     (case (hex_value h, hex_value l) of
        (Some a, Some b) \<Rightarrow> Some (char_of (16 * a + b))
      | _ \<Rightarrow> None)"

fun llvm_string :: "string \<Rightarrow> (string \<times> string) option" where
  "llvm_string [] = None"
| "llvm_string (c # s) =
     (if c = quote_char then Some ([], s)
      else if c = CHR 0x5C then
        (case s of
           h # l # r \<Rightarrow>
             (case hex_byte h l of
                None \<Rightarrow> None
              | Some b \<Rightarrow> map_option (\<lambda>(t, u). (b # t, u)) (llvm_string r))
         | _ \<Rightarrow> None)
      else map_option (\<lambda>(t, u). (c # t, u)) (llvm_string s))"

lemma of_char_hex_digit: "n < 16 \<Longrightarrow> (of_char (hex_digit n) :: nat) = (if n < 10 then 48 + n else 55 + n)"
  by (auto simp: hex_digit_def of_char_of)

lemma hex_value_digit: "n < 16 \<Longrightarrow> hex_value (hex_digit n) = Some n"
  by (simp add: hex_value_def of_char_hex_digit)

lemma hex_byte_show: "hex_byte (hex_digit (of_char c div 16)) (hex_digit (of_char c mod 16)) = Some c"
proof -
  have "(of_char c :: nat) < 256" by (rule nat_of_char_less_256)
  then have "(of_char c :: nat) div 16 < 16" by (simp add: less_mult_imp_div_less)
  then show ?thesis by (simp add: hex_byte_def hex_value_digit)
qed

lemma hex_bytes:
  "hex_byte CHR ''5'' CHR ''C'' = Some CHR 0x5C" "hex_byte CHR ''2'' CHR ''2'' = Some CHR 0x22"
  "hex_byte CHR ''0'' CHR ''A'' = Some CHR 0x0A" "hex_byte CHR ''0'' CHR ''9'' = Some CHR 0x09"
  "hex_byte CHR ''0'' CHR ''0'' = Some CHR 0x00"
  by code_simp+

lemma llvm_string_escaped:
  "llvm_string (escaped c @ s) = map_option (\<lambda>(t, u). (c # t, u)) (llvm_string s)"
  by (auto simp: escaped_def hex_bytes hex_byte_show show_hex2_def quote_char_def)

lemma constant_reads_back:
  "llvm_string (irPrintEscapedString s @ [CHR 0x5C] @ ''00'' @ [quote_char] @ rest) = Some (c_string s @ [NUL], rest)"
proof -
  have "llvm_string (concat (map escaped t) @ [CHR 0x5C] @ ''00'' @ [quote_char] @ rest) = Some (t @ [NUL], rest)" for t
  proof (induction t)
    case Nil
    show ?case by (simp add: quote_char_def hex_bytes NUL_def)
  next
    case (Cons c t)
    then show ?case by (simp add: llvm_string_escaped del: llvm_string.simps)
  qed
  then show ?thesis by (simp add: irPrintEscapedString_def del: llvm_string.simps)
qed

text \<open>C14: a printed string constant reads back as the bytes of the C string followed by a zero
  byte, whatever comes after the closing quote.\<close>

theorem string_constant_reads_back:
  "llvm_string (irPrintEscapedString s @ [CHR 0x5C] @ ''00'' @ [quote_char] @ rest) = Some (c_string s @ [NUL], rest)"
  by (rule constant_reads_back)

text \<open>C16: each string constant of a module the builder returns is printed with the type of
  exactly the bytes it reads back as.\<close>

theorem constants_have_their_type:
  "case irBuildModule program es of None \<Rightarrow> True | Some m \<Rightarrow>
     list_all (\<lambda>g. (\<exists>bytes text. llvm_string text = Some (bytes, [newline])
            \<and> gtype g = IR_TYPE_ARRAY (Some IR_TYPE_CHAR) (Some (length bytes))
            \<and> irPrintGlobal m g = Some (''@'' @ gname g @ '' = private unnamed_addr constant ''
                 @ irPrintType (Some (gtype g)) @ '' c'' @ [quote_char] @ text))) (filter is_constant (items (globals m)))"
proof (cases "irBuildModule program es")
  case (Some m)
  have "\<exists>bytes text. llvm_string text = Some (bytes, [newline])
            \<and> gtype g = IR_TYPE_ARRAY (Some IR_TYPE_CHAR) (Some (length bytes))
            \<and> irPrintGlobal m g = Some (''@'' @ gname g @ '' = private unnamed_addr constant ''
                 @ irPrintType (Some (gtype g)) @ '' c'' @ [quote_char] @ text)"
    if g: "g \<in> set (items (globals m))" "is_constant g" for g
  proof -
    obtain s where s: "initializer g = Some (IR_LITERAL_STRING s)" "NUL \<notin> set s"
        "gtype g = IR_TYPE_ARRAY (Some IR_TYPE_CHAR) (Some (length s + 1))"
      using built_module [OF Some] g by (auto simp: well_formed_module_def well_formed_globals_def well_formed_global_def)
    let ?t = "irPrintEscapedString s @ [CHR 0x5C] @ ''00'' @ [quote_char] @ [newline]"
    have "llvm_string ?t = Some (s @ [NUL], [newline])"
      using constant_reads_back [of s "[newline]"] c_string_id [OF s(2)] by simp
    moreover have "irPrintGlobal m g = Some (''@'' @ gname g @ '' = private unnamed_addr constant ''
                 @ irPrintType (Some (gtype g)) @ '' c'' @ [quote_char] @ ?t)"
      using g(2) s(1) by (simp add: irPrintGlobal_def string_of_def)
    ultimately show ?thesis using s(3) by (intro exI [of _ "s @ [NUL]"] exI [of _ ?t]) simp
  qed
  then show ?thesis using Some by (auto simp: list_all_iff)
qed simp

section \<open>Printing fails only on null literals\<close>

lemma those_None: "those xs = None \<longleftrightarrow> None \<in> set xs"
  by (induction xs) (auto split: option.splits)

lemma pieces_single [simp]: "pieces [x] = x"
  by (cases x) simp_all

lemma pieces_Cons_None: "pieces (x # xs) = None \<longleftrightarrow> x = None \<or> pieces xs = None"
  by (cases x) simp_all

lemma map_None:
  "those (map f xs) = None \<longleftrightarrow> (\<exists>x \<in> set xs. f x = None)"
  "pieces (map f xs) = None \<longleftrightarrow> (\<exists>x \<in> set xs. f x = None)"
  "listed (map f xs) = None \<longleftrightarrow> (\<exists>x \<in> set xs. f x = None)"
  by (auto simp: pieces_def listed_def those_None) (metis imageI)+

definition null_literal :: "IROperand \<Rightarrow> bool" where
  "null_literal x \<longleftrightarrow> oref x = IR_OPERAND_LITERAL None"

definition null_return :: "IRInstruction \<Rightarrow> bool" where
  "null_return i \<longleftrightarrow> (case idata i of IR_INSTR_RET (Some x) \<Rightarrow> null_literal x | _ \<Rightarrow> False)"

lemma print_operand_None: "irPrintOperand m x = None \<longleftrightarrow> null_literal x"
  by (simp add: irPrintOperand_def null_literal_def split: IROperandRef.split)

lemma typed_operand_None: "typed_operand m x = None \<longleftrightarrow> null_literal x"
  by (cases "irPrintOperand m x") (simp_all add: typed_operand_def print_operand_None [of m x, symmetric])

lemma operand_ok_not_null: "operand_ok f n x \<Longrightarrow> \<not> null_literal x"
  by (auto simp: operand_ok_def null_literal_def)

lemma print_instruction_None:
  assumes "instr_ok f n i"
  shows "irPrintInstruction m i = None \<longleftrightarrow> null_return i"
proof (cases "idata i")
  case (IR_INSTR_GEP a xs)
  have "pieces (map (\<lambda>x. pieces [Some '', '', typed_operand m x]) xs) \<noteq> None"
    using assms IR_INSTR_GEP operand_ok_not_null
    by (auto simp: map_None instr_ok_def typed_operand_None simp del: not_None_eq)
  moreover have "otype a \<noteq> None" "\<not> null_literal a"
    using assms IR_INSTR_GEP operand_ok_not_null by (auto simp: instr_ok_def points_to_def)
  ultimately show ?thesis
    using IR_INSTR_GEP
    by (simp add: irPrintInstruction_def null_return_def typed_operand_None pieces_Cons_None del: not_None_eq)
next
  case (IR_INSTR_CALL name xs)
  have "\<not> null_literal x" if "x \<in> set xs" for x
    using that assms IR_INSTR_CALL operand_ok_not_null by (auto simp: instr_ok_def)
  then have "listed (map (typed_operand m) xs) \<noteq> None" by (simp add: map_None typed_operand_None del: not_None_eq)
  then show ?thesis using IR_INSTR_CALL by (auto simp: irPrintInstruction_def null_return_def)
next
  case (IR_INSTR_RET v)
  then show ?thesis
    by (simp add: irPrintInstruction_def null_return_def typed_operand_None pieces_Cons_None split: option.split)
qed (use assms operand_ok_not_null in \<open>auto simp: irPrintInstruction_def null_return_def typed_operand_None
    print_operand_None pieces_Cons_None instr_ok_def simp del: not_None_eq\<close>)

lemma print_function_None:
  assumes "well_formed_function G f"
  shows "irPrintFunction m f = None \<longleftrightarrow> (\<exists>i \<in> code_of f. null_return i)"
proof -
  have ok: "instr_ok f G i" if "i \<in> code_of f" for i
    using assms that by (simp add: well_formed_function_def function_inv_def)
  have block: "irPrintBlock m b = None \<longleftrightarrow> (\<exists>i \<in> set (items (instructions b)). null_return i)"
    if "b \<in> set (items (blocks f))" for b
  proof -
    have "irPrintInstruction m i = None \<longleftrightarrow> null_return i" if "i \<in> set (items (instructions b))" for i
      using print_instruction_None [OF ok] that \<open>b \<in> set (items (blocks f))\<close> unfolding code_of_def by blast
    then show ?thesis by (simp add: irPrintBlock_def map_None)
  qed
  have "items (blocks f) \<noteq> []" using assms by (auto simp: well_formed_function_def block_ids_def)
  then have "irPrintFunction m f = None \<longleftrightarrow> (\<exists>b \<in> set (items (blocks f)). irPrintBlock m b = None)"
    by (simp add: irPrintFunction_def map_None pieces_Cons_None)
  also have "\<dots> \<longleftrightarrow> (\<exists>i \<in> code_of f. null_return i)" using block by (auto simp: code_of_def)
  finally show ?thesis .
qed

lemma print_global_defined:
  assumes "g \<in> set (items (globals m))" "well_formed_global n g"
  shows "irPrintGlobal m g \<noteq> None"
proof -
  have "irPrinterFindGlobalById m (gid g) \<noteq> None"
    using assms(1) by (auto simp: irPrinterFindGlobalById_def find_None_iff)
  then show ?thesis
    using assms(2) by (auto simp: irPrintGlobal_def well_formed_global_def points_to_storage_def string_of_def)
qed

definition returns_null :: "IRModule \<Rightarrow> bool" where
  "returns_null m \<longleftrightarrow> (\<exists>f \<in> set (items (mfunctions m)). \<exists>i \<in> code_of f. null_return i)"

lemma print_module_None:
  assumes "irBuildModule program es = Some m"
  shows "irPrintModuleToString m = None \<longleftrightarrow> returns_null m"
proof -
  have wf: "well_formed_module m" by (rule built_module [OF assms])
  have "irPrintGlobal m g \<noteq> None" if "g \<in> set (items (globals m))" for g
    using wf that by (intro print_global_defined [OF that, of "length (items (globals m))"]) (simp add: well_formed_module_def well_formed_globals_def)
  then have "pieces (map (irPrintGlobal m) (items (globals m))) \<noteq> None" unfolding map_None by blast
  moreover have "those (map (irPrintFunction m) (items (mfunctions m))) = None
      \<longleftrightarrow> (\<exists>f \<in> set (items (mfunctions m)). irPrintFunction m f = None)"
    by (rule map_None)
  moreover have "irPrintFunction m f = None \<longleftrightarrow> (\<exists>i \<in> code_of f. null_return i)" if "f \<in> set (items (mfunctions m))" for f
    using wf that by (intro print_function_None) (auto simp: well_formed_module_def)
  ultimately show ?thesis by (auto simp: irPrintModuleToString_def Let_def returns_null_def)
qed

text \<open>C17: the text of a module the builder returns is undefined exactly when some function ends
  in a default return of a null literal.\<close>

theorem printing_fails_on_null_return:
  "case irBuildModule program es of None \<Rightarrow> True | Some m \<Rightarrow>
     irPrintModuleToString m = None \<longleftrightarrow> returns_null m"
  using print_module_None by (simp split: option.split)

end
