(* ===== verification/DriverProps.thy ===== *)
theory DriverProps
  imports Driver ParserStmtProps FlowProps IrPrintProps
begin

text \<open>
  The compiler as a whole: what a run writes and reports.
\<close>

section \<open>A successful run\<close>

text \<open>The output of the front end on a source text: the tree, if there is no error.\<close>

definition accepted :: "string \<Rightarrow> ast \<Rightarrow> bool" where
  "accepted input root \<longleftrightarrow>
     (\<exists>ts p. tokenizeString input = Inr ts \<and> parserParseProgram (parserInit ts) = Some (root, p)
        \<and> items (perrors p) = [] \<and> valid_program root)"

lemma no_errors_yet: "items (perrors (parserInit ts)) = []" "\<not> is_panic (parserInit ts)"
  by (simp_all add: parserInit_def)

lemma parsed:
  "\<exists>root p. parserParseProgram (parserInit ts) = Some (root, p) \<and> (items (perrors p) = [] \<longrightarrow> wf_program root)"
  using parserParseProgram_ok [of ts] by (auto simp: returns_Ex so_far_def no_errors_yet)

lemma accepted_well_formed:
  assumes "accepted input root"
  shows "wf_program root"
proof -
  obtain ts p where "parserParseProgram (parserInit ts) = Some (root, p)" "items (perrors p) = []"
    using assms by (auto simp: accepted_def)
  then show ?thesis using parsed [of ts] by auto
qed

lemma accepted_unique: "accepted input root \<Longrightarrow> accepted input root' \<Longrightarrow> root' = root"
  by (auto simp: accepted_def)

text \<open>What the stages after the lexer do, by cases.\<close>

lemma tokens_cases:
  obtains (syntax_errors) root p where "parserParseProgram (parserInit ts) = Some (root, p)" "items (perrors p) \<noteq> []"
      "compileTokensToLlvmIr w ts path = Completed \<lparr>stdout = newline # printParserErrors p, stderr = [],
         output_file = Untouched, succeeded = False\<rparr>"
  | (semantic_errors) root p where "parserParseProgram (parserInit ts) = Some (root, p)" "items (perrors p) = []"
      "\<not> valid_program root"
      "compileTokensToLlvmIr w ts path = Completed \<lparr>stdout = newline # printSemanticErrors (errors (semanticAnalyze root)),
         stderr = [], output_file = Untouched, succeeded = False\<rparr>"
  | (valid) root p where "parserParseProgram (parserInit ts) = Some (root, p)" "items (perrors p) = []"
      "valid_program root" "compileTokensToLlvmIr w ts path = generate w root (errors (semanticAnalyze root)) path"
proof -
  obtain root p where p: "parserParseProgram (parserInit ts) = Some (root, p)" using parsed by blast
  show thesis
  proof (cases "items (perrors p) = []")
    case False
    then show thesis using p by (intro syntax_errors [OF p]) (simp_all add: compileTokensToLlvmIr_def)
  next
    case True
    show thesis
    proof (cases "valid_program root")
      case False
      then have "items (errors (semanticAnalyze root)) \<noteq> []" by (simp add: analyze_iff)
      then show thesis using p True False by (intro semantic_errors [OF p]) (simp_all add: compileTokensToLlvmIr_def Let_def)
    next
      case valid_root: True
      then have "items (errors (semanticAnalyze root)) = []" by (simp add: analyze_iff)
      then show thesis using p True valid_root by (intro valid [OF p]) (simp_all add: compileTokensToLlvmIr_def Let_def)
    qed
  qed
qed

lemma generate_cases:
  "generate w root es path \<in> {Undefined, generation_failed}
   \<or> (\<exists>m text. irBuildModule root es = Some m \<and> irPrintModuleToString m = Some text \<and> w path
        \<and> generate w root es path = Completed \<lparr>stdout = [], stderr = [], output_file = Written text, succeeded = True\<rparr>)"
  by (auto simp: generate_def irPrintModuleToFile_def split: option.splits)

text \<open>A module depends on the errors only through their being none.\<close>

lemma build_errors: "items es = [] \<Longrightarrow> irBuildModule root es = irBuildModule root growable_init"
  by (simp add: irBuildModule_def split: ast.split)

lemma string_Inl: "tokenizeString input = Inl e \<Longrightarrow> compileSourceStringToLlvmIr w input path = lexer_exit e"
  and string_Inr: "tokenizeString input = Inr ts \<Longrightarrow> compileSourceStringToLlvmIr w input path = compileTokensToLlvmIr w ts path"
  by (simp_all add: compileSourceStringToLlvmIr_def)

lemma generate_not_exit: "generate w root es path \<noteq> Exits s"
  by (auto simp: generate_def generation_failed_def split: option.split)

lemma exit_is_lexical:
  "compileSourceStringToLlvmIr w input path = Exits s
   \<longleftrightarrow> (\<exists>u. tokenizeString input = Inl (UnrecognizedToken u) \<and> s = ''Unrecognized token: '' @ u @ [newline])"
proof (cases "tokenizeString input")
  case (Inl e)
  then show ?thesis by (cases e) (auto simp: string_Inl lexer_exit_def)
next
  case (Inr ts)
  have "compileTokensToLlvmIr w ts path \<noteq> Exits s"
    by (cases rule: tokens_cases [of ts w path]) (simp_all add: generate_not_exit)
  then show ?thesis using Inr by (simp add: string_Inr)
qed

lemma generate_undefined:
  "generate w root es path = Undefined \<longleftrightarrow>
     build_undefined root \<or> (\<exists>m. irBuildModule root es = Some m \<and> returns_null m)"
  by (auto simp: generate_def generation_failed_def irPrintModuleToFile_def print_module_None [symmetric] split: option.split)

lemma undefined_is_generation:
  "compileSourceStringToLlvmIr w input path = Undefined \<longleftrightarrow>
     (\<exists>root. accepted input root
        \<and> (build_undefined root \<or> (\<exists>m. irBuildModule root growable_init = Some m \<and> returns_null m)))"
proof (cases "tokenizeString input")
  case (Inl e)
  then show ?thesis by (cases e) (simp add: string_Inl lexer_exit_def accepted_def)
next
  case (Inr ts)
  show ?thesis
  proof (cases rule: tokens_cases [of ts w path])
    case (syntax_errors root p)
    then show ?thesis using Inr by (simp add: string_Inr accepted_def)
  next
    case (semantic_errors root p)
    then show ?thesis using Inr by (simp add: string_Inr accepted_def)
  next
    case (valid root p)
    have "items (errors (semanticAnalyze root)) = []" using valid(3) by (simp add: analyze_iff)
    note b = build_errors [OF this, of root]
    have "accepted input root' \<longleftrightarrow> root' = root" for root' using valid Inr by (auto simp: accepted_def)
    then show ?thesis using valid(4) Inr by (simp add: string_Inr generate_undefined b)
  qed
qed

definition llvm_of :: "string \<Rightarrow> string \<Rightarrow> bool" where
  "llvm_of input text \<longleftrightarrow>
     (\<exists>root m. accepted input root \<and> wf_program root \<and> irBuildModule root growable_init = Some m
        \<and> well_formed_module m \<and> irPrintModuleToString m = Some text)"

lemma run_cases:
  assumes "compileSourceStringToLlvmIr w input path = Completed r"
  shows "(succeeded r \<and> stdout r = [] \<and> stderr r = [] \<and> (\<exists>text. output_file r = Written text \<and> llvm_of input text))
     \<or> (\<not> succeeded r \<and> (\<exists>root. accepted input root) \<and> stdout r = [] \<and> output_file r = Removed
          \<and> stderr r = ''IR generation failed'' @ [newline])
     \<or> (\<not> succeeded r \<and> (\<nexists>root. accepted input root) \<and> stdout r \<noteq> [] \<and> output_file r = Untouched \<and> stderr r = [])"
proof -
  obtain ts where ts: "tokenizeString input = Inr ts" and c: "compileTokensToLlvmIr w ts path = Completed r"
    using assms by (auto simp: compileSourceStringToLlvmIr_def lexer_exit_def split: sum.splits LexError.splits)
  show ?thesis
  proof (cases rule: tokens_cases [of ts w path])
    case (syntax_errors root p)
    then have "\<nexists>root. accepted input root" using ts by (simp add: accepted_def)
    then show ?thesis using syntax_errors(3) c by auto
  next
    case (semantic_errors root p)
    then have "\<nexists>root. accepted input root" using ts by (simp add: accepted_def)
    then show ?thesis using semantic_errors(4) c by auto
  next
    case (valid root p)
    then have a: "accepted input root" using ts by (simp add: accepted_def)
    have "items (errors (semanticAnalyze root)) = []" using valid(3) by (simp add: analyze_iff)
    note b = build_errors [OF this, of root]
    from generate_cases [of w root "errors (semanticAnalyze root)" path] show ?thesis
    proof (elim disjE exE conjE)
      assume "generate w root (errors (semanticAnalyze root)) path \<in> {Undefined, generation_failed}"
      then show ?thesis using valid(4) c a by (auto simp: generation_failed_def)
    next
      fix m t
      assume m: "irBuildModule root (errors (semanticAnalyze root)) = Some m" "irPrintModuleToString m = Some t"
        and g: "generate w root (errors (semanticAnalyze root)) path
          = Completed \<lparr>stdout = [], stderr = [], output_file = Written t, succeeded = True\<rparr>"
      have "llvm_of input t"
        using a accepted_well_formed [OF a] m built_module [OF m(1)] b by (auto simp: llvm_of_def)
      then show ?thesis using valid(4) c g by auto
    qed
  qed
qed

section \<open>Properties\<close>

text \<open>C7: a compilation that returns either succeeds silently, and then the output file holds the
  text of a well-formed module built from the one tree the text parses to, a tree without syntax
  or semantic errors; or it rejects the program with a report and leaves the output file alone,
  exactly if there is no such tree; or it removes the output file and says that the generation
  failed.\<close>

theorem compilation_result:
  "case compileSourceStringToLlvmIr w input path of
     Completed r \<Rightarrow>
       (succeeded r \<and> stdout r = [] \<and> stderr r = [] \<and> (\<exists>t. output_file r = Written t \<and> llvm_of input t))
       \<or> (\<not> succeeded r \<and> (\<exists>root. accepted input root) \<and> stdout r = [] \<and> output_file r = Removed
            \<and> stderr r = ''IR generation failed'' @ [newline])
       \<or> (\<not> succeeded r \<and> (\<nexists>root. accepted input root) \<and> stdout r \<noteq> [] \<and> output_file r = Untouched \<and> stderr r = [])
   | Exits s \<Rightarrow> (\<nexists>root. accepted input root) \<and> s \<noteq> []
   | Undefined \<Rightarrow> \<exists>root. accepted input root"
proof (cases "compileSourceStringToLlvmIr w input path")
  case (Completed r)
  then show ?thesis using run_cases [OF Completed] by simp
next
  case (Exits s)
  then obtain u where "tokenizeString input = Inl (UnrecognizedToken u)" "s = ''Unrecognized token: '' @ u @ [newline]"
    unfolding exit_is_lexical by blast
  then show ?thesis using Exits by (simp add: accepted_def)
next
  case Undefined
  then show ?thesis using undefined_is_generation [of w input path] by auto
qed

text \<open>C15: the process ends with status 0 exactly if it was given at most two arguments, could read
  the input and wrote the module of its text to the output file.\<close>

theorem exit_status_zero:
  "exit_status (main_program read w name args) = Some 0 \<longleftrightarrow>
     length args \<le> 2
     \<and> (\<exists>input r t. read (case args of [] \<Rightarrow> ''input.ps'' | a # as \<Rightarrow> a) = Some input
          \<and> main_program read w name args = Completed r \<and> output_file r = Written t \<and> llvm_of input t)"
proof -
  let ?i = "case args of [] \<Rightarrow> ''input.ps'' | a # as \<Rightarrow> a" and ?o = "case args of a # b # as \<Rightarrow> b | _ \<Rightarrow> ''build/ir/IR.ll''"
  have from_file: "compileSourceFileToLlvmIr read w ?i ?o = (case read ?i of
      None \<Rightarrow> Completed \<lparr>stdout = [], stderr = ''Error opening '' @ ?i @ [newline], output_file = Untouched, succeeded = False\<rparr>
    | Some input \<Rightarrow> compileSourceStringToLlvmIr w input ?o)"
    by (simp add: compileSourceFileToLlvmIr_def tokenizeFile_def compileSourceStringToLlvmIr_def
        split: option.split sum.split)
  show ?thesis
  proof (cases "length args \<le> 2")
    case False
    then show ?thesis by (simp add: main_program_def exit_status_def Let_def)
  next
    case True
    then have m: "main_program read w name args = compileSourceFileToLlvmIr read w ?i ?o"
      by (simp add: main_program_def Let_def)
    show ?thesis
    proof (cases "read ?i")
      case None
      then show ?thesis unfolding m from_file by (simp add: exit_status_def)
    next
      case (Some input)
      then have m': "main_program read w name args = compileSourceStringToLlvmIr w input ?o" unfolding m from_file by simp
      show ?thesis
      proof (cases "compileSourceStringToLlvmIr w input ?o")
        case (Completed r)
        from run_cases [OF this] show ?thesis using True Some Completed by (auto simp: m' exit_status_def)
      qed (use m' in \<open>simp_all add: exit_status_def\<close>)
    qed
  qed
qed

end
