(* ===== verification/IrLimits.thy ===== *)
theory IrLimits
  imports AnalyzerLimits DriverProps
begin

text \<open>
  Programs the analyser accepts that the IR phase does not translate, or not as written.  Each
  is a tree the parser builds from the text in its comment.
\<close>

abbreviation int_type :: ast where
  "int_type \<equiv> AST_TYPE_NAME (1, 1) AST_TYPE_INT_KIND ''int''"

abbreviation void_type :: ast where
  "void_type \<equiv> AST_TYPE_NAME (1, 1) AST_TYPE_VOID_KIND ''void''"

abbreviation number :: "int \<Rightarrow> ast" where
  "number v \<equiv> AST_INT_LITERAL (1, 1) v"

abbreviation name :: "string \<Rightarrow> ast" where
  "name x \<equiv> AST_IDENTIFIER (1, 1) x"

definition function_with :: "ast list \<Rightarrow> ast \<Rightarrow> ast list \<Rightarrow> ast" where
  "function_with ps r ss = AST_FUNC_DECL (1, 1) ''f'' ps (AST_BLOCK (1, 1) ss) r False"

text \<open>The globals after the declaration of one variable.\<close>

definition declared_globals :: "string \<Rightarrow> ast \<Rightarrow> ast \<Rightarrow> (string \<times> nat \<times> IRLiteral option) list" where
  "declared_globals x t i =
     map (\<lambda>g. (gname g, gid g, initializer g))
       (items (globals (module (snd (irBuilderPredeclareGlobal x t i irBuilderCreate)))))"

text \<open>\<^verbatim>\<open>func f(p::*int) -> *int { if (true) { ret p; } else { ret p; } }\<close>\<close>

definition pointer_branches :: "ast list" where
  "pointer_branches =
     [function_with [AST_PARAM (1, 1) ''p'' (AST_TYPE_POINTER (1, 1) int_type)] (AST_TYPE_POINTER (1, 1) int_type)
       [AST_IF (1, 1) (AST_BOOL_LITERAL (1, 1) True)
         (AST_BLOCK (1, 1) [AST_RETURN (1, 1) (name ''p'')]) (AST_BLOCK (1, 1) [AST_RETURN (1, 1) (name ''p'')])]]"

lemma pointer_branches_accepted: "accepts (AST_PROGRAM (1, 1) pointer_branches)"
  by code_simp

text \<open>\<^verbatim>\<open>s::*char = "a"; t::char = 'b';\<close>: the variable has the number of its text, and
  the initial character is lost.\<close>

lemma string_global_shares_number:
  "declared_globals ''s'' (AST_TYPE_POINTER (1, 1) (AST_TYPE_NAME (1, 1) AST_TYPE_CHAR_KIND ''char''))
      (AST_STRING_LITERAL (1, 1) [CHR 0x22, CHR ''a'', CHR 0x22])
   = [(''.str.1'', 1, Some (IR_LITERAL_STRING ''a'')), (''s'', 1, Some (IR_LITERAL_STRING ''a''))]"
  by code_simp

lemma char_global_not_initialized:
  "declared_globals ''t'' (AST_TYPE_NAME (1, 1) AST_TYPE_CHAR_KIND ''char'') (AST_CHAR_LITERAL (1, 1) (CHR ''b''))
   = [(''t'', 1, None)]"
  by code_simp

text \<open>\<^verbatim>\<open>func f() -> void { x::int = 1; if (true) { x::int = 2; } }\<close>\<close>

definition shadowing :: "ast list" where
  "shadowing =
     [function_with [] void_type
       [AST_VAR_DECL (1, 1) ''x'' int_type (number 1),
        AST_IF (1, 1) (AST_BOOL_LITERAL (1, 1) True)
          (AST_BLOCK (1, 1) [AST_VAR_DECL (1, 1) ''x'' int_type (number 2)]) AST_NULL]]"

lemma shadowing_accepted: "accepts (AST_PROGRAM (1, 1) shadowing)"
  by code_simp

text \<open>\<^verbatim>\<open>func f(p::*int) -> int { ret p[0]; }\<close>\<close>

definition pointer_index :: "ast list" where
  "pointer_index =
     [function_with [AST_PARAM (1, 1) ''p'' (AST_TYPE_POINTER (1, 1) int_type)] int_type
       [AST_RETURN (1, 1) (AST_ARRAY_ACCESS (1, 1) (name ''p'') [number 0])]]"

lemma pointer_index_accepted: "accepts (AST_PROGRAM (1, 1) pointer_index)"
  by code_simp

text \<open>\<^verbatim>\<open>func f() -> void { for (f(1); true; ) { } }\<close>: the call in the initializer is not
  checked, and its argument has no parameter type to read.\<close>

definition unchecked_call :: "ast list" where
  "unchecked_call =
     [function_with [] void_type
       [AST_FOR (1, 1) (AST_CALL (1, 1) (name ''f'') [number 1]) (AST_BOOL_LITERAL (1, 1) True) AST_NULL
          (AST_BLOCK (1, 1) [])]]"

lemma unchecked_call_accepted: "accepts (AST_PROGRAM (1, 1) unchecked_call)"
  by code_simp

end
