(* ===== verification/Grammar.thy ===== *)
theory Grammar
  imports ParserStmtProps
begin

text \<open>
  The grammar of \<^verbatim>\<open>GRAMMAR.md\<close>, with four additions, as relations between token lists and
  trees: what a list of tokens may be read as, whatever the parser does.  The additions are what
  the parser accepts and the document leaves out: a function declaration as a statement (rule
  \<open>Nested\<close>), a character literal as an expression (\<open>Char\<close>), a target of an assignment in
  parentheses (\<open>Assignment\<close>), and \<^verbatim>\<open>void\<close> wherever a type may stand (\<open>Named\<close>).  A repetition \<^verbatim>\<open>{ ... }\<close> is
  a relation from the tree read so far to the tree after it, which makes the binary operators and
  the suffixes associate to the left.
\<close>

section \<open>Expressions\<close>

text \<open>The levels: 0 is \<^verbatim>\<open>or-expression\<close>, 4 \<^verbatim>\<open>multiplicative-expression\<close>,
  5 \<^verbatim>\<open>unary-expression\<close> and 6 \<^verbatim>\<open>primary-expression\<close>.\<close>

definition level_ops :: "nat \<Rightarrow> TokenType list" where
  "level_ops k =
     [[TOKEN_OR_OR], [TOKEN_AND_AND],
      [TOKEN_GT, TOKEN_LT, TOKEN_GT_EQ, TOKEN_LT_EQ, TOKEN_EQ_EQ, TOKEN_NOT_EQ],
      [TOKEN_PLUS, TOKEN_MINUS], [TOKEN_STAR, TOKEN_SLASH]] ! k"

definition tloc :: "Token \<Rightarrow> loc" where
  "tloc t = (tline t, tcolumn t)"

definition number_node :: "Token \<Rightarrow> ast" where
  "number_node t =
     (if CHR ''.'' \<in> set (tvalue t) then AST_FLOAT_LITERAL (tloc t) (strtod (tvalue t))
      else AST_INT_LITERAL (tloc t) (strtol (tvalue t)))"

inductive expr :: "nat \<Rightarrow> Token list \<Rightarrow> ast \<Rightarrow> bool"
  and chain :: "nat \<Rightarrow> ast \<Rightarrow> Token list \<Rightarrow> ast \<Rightarrow> bool"
  and suffixes :: "ast \<Rightarrow> Token list \<Rightarrow> ast \<Rightarrow> bool"
  and more :: "TokenType list \<Rightarrow> Token list \<Rightarrow> ast list \<Rightarrow> bool"
where
  Level: "k < 5 \<Longrightarrow> expr (Suc k) ts a \<Longrightarrow> chain k a us c \<Longrightarrow> expr k (ts @ us) c"
| Unary: "unaryOpFromToken (ttype t) = Some u \<Longrightarrow> expr 5 ts a \<Longrightarrow> expr 5 (t # ts) (AST_UNARY (tloc t) u a)"
| Primary: "expr 6 ts a \<Longrightarrow> expr 5 ts a"
| Number: "ttype t = TOKEN_NUMBER \<Longrightarrow> expr 6 [t] (number_node t)"
| String: "ttype t = TOKEN_STRING \<Longrightarrow> expr 6 [t] (AST_STRING_LITERAL (tloc t) (tvalue t))"
| Char: "ttype t = TOKEN_CHAR_LITERAL \<Longrightarrow> expr 6 [t] (AST_CHAR_LITERAL (tloc t) (parseCharLiteralValue (tvalue t)))"
| Bool: "ttype t = TOKEN_BOOL \<Longrightarrow> expr 6 [t] (AST_BOOL_LITERAL (tloc t) (tvalue t = ''true''))"
| NoElements: "ttype l = TOKEN_LBRACE \<Longrightarrow> ttype r = TOKEN_RBRACE \<Longrightarrow> expr 6 [l, r] (AST_ARRAY_LITERAL (tloc l) [])"
| Elements: "ttype l = TOKEN_LBRACE \<Longrightarrow> expr 0 ts x \<Longrightarrow> more [TOKEN_COMMA, TOKEN_SEMICOLON] us xs \<Longrightarrow>
     vs = [] \<or> (\<exists>v. vs = [v] \<and> ttype v \<in> {TOKEN_COMMA, TOKEN_SEMICOLON}) \<Longrightarrow> ttype r = TOKEN_RBRACE \<Longrightarrow>
     expr 6 (l # ts @ us @ vs @ [r]) (AST_ARRAY_LITERAL (tloc l) (x # xs))"
| Postfix: "ttype t = TOKEN_IDENTIFIER \<Longrightarrow> suffixes (AST_IDENTIFIER (tloc t) (tvalue t)) ts a \<Longrightarrow> expr 6 (t # ts) a"
| Group: "ttype l = TOKEN_LPAREN \<Longrightarrow> expr 0 ts a \<Longrightarrow> ttype r = TOKEN_RPAREN \<Longrightarrow> expr 6 (l # ts @ [r]) a"
| ChainEnd: "chain k a [] a"
| Chain: "ttype t \<in> set (level_ops k) \<Longrightarrow> expr (Suc k) ts b \<Longrightarrow>
     chain k (AST_BINARY (tloc t) (binaryOpFromToken (ttype t)) a b) us c \<Longrightarrow> chain k a (t # ts @ us) c"
| SuffixEnd: "suffixes a [] a"
| EmptyCall: "ttype l = TOKEN_LPAREN \<Longrightarrow> ttype r = TOKEN_RPAREN \<Longrightarrow>
     suffixes (AST_CALL (ast_loc a) a []) vs c \<Longrightarrow> suffixes a (l # r # vs) c"
| Call: "ttype l = TOKEN_LPAREN \<Longrightarrow> expr 0 ts x \<Longrightarrow> more [TOKEN_COMMA] us xs \<Longrightarrow> ttype r = TOKEN_RPAREN \<Longrightarrow>
     suffixes (AST_CALL (ast_loc a) a (x # xs)) vs c \<Longrightarrow> suffixes a (l # ts @ us @ r # vs) c"
| Index: "ttype l = TOKEN_LBRACKET \<Longrightarrow> expr 0 ts x \<Longrightarrow> ttype r = TOKEN_RBRACKET \<Longrightarrow>
     suffixes (AST_ARRAY_ACCESS (ast_loc a) a [x]) vs c \<Longrightarrow> suffixes a (l # ts @ r # vs) c"
| NoMore: "more S [] []"
| More: "ttype t \<in> set S \<Longrightarrow> expr 0 ts x \<Longrightarrow> more S us xs \<Longrightarrow> more S (t # ts @ us) (x # xs)"

section \<open>Types\<close>

definition size_read :: "Token list \<Rightarrow> ast \<Rightarrow> bool" where
  "size_read ts a \<longleftrightarrow> (ts = [] \<and> a = AST_NULL) \<or> expr 0 ts a"

inductive dims :: "ast \<Rightarrow> Token list \<Rightarrow> ast \<Rightarrow> bool" where
  DimsEnd: "dims b [] b"
| Dims: "ttype l = TOKEN_LBRACKET \<Longrightarrow> size_read ts s \<Longrightarrow> ttype r = TOKEN_RBRACKET \<Longrightarrow>
     dims (AST_TYPE_ARRAY (tloc l) b s) us c \<Longrightarrow> dims b (l # ts @ r # us) c"

inductive type_read :: "Token list \<Rightarrow> ast \<Rightarrow> bool" where
  Pointer: "ttype t = TOKEN_STAR \<Longrightarrow> type_read ts a \<Longrightarrow> type_read (t # ts) (AST_TYPE_POINTER (tloc t) a)"
| Generic: "ttype t = TOKEN_TYPE_ARRAY \<Longrightarrow> ttype l = TOKEN_LT \<Longrightarrow> type_read ts e \<Longrightarrow> ttype g = TOKEN_GT \<Longrightarrow>
     dims (AST_TYPE_ARRAY (tloc t) e AST_NULL) us a \<Longrightarrow> type_read (t # l # ts @ g # us) a"
| Plain: "ttype t = TOKEN_TYPE_ARRAY \<Longrightarrow> dims (AST_TYPE_ARRAY (tloc t) AST_NULL AST_NULL) us a \<Longrightarrow> type_read (t # us) a"
| Named: "ttype t \<in> {TOKEN_TYPE_INT, TOKEN_TYPE_FLOAT, TOKEN_TYPE_CHAR, TOKEN_TYPE_BOOL, TOKEN_TYPE_VOID, TOKEN_IDENTIFIER} \<Longrightarrow>
     dims (AST_TYPE_NAME (tloc t) (typeKindFromToken (ttype t)) (tvalue t)) us a \<Longrightarrow> type_read (t # us) a"

section \<open>Statements and declarations\<close>

inductive decl :: "Token list \<Rightarrow> ast \<Rightarrow> bool" where
  Uninitialized: "ttype n = TOKEN_IDENTIFIER \<Longrightarrow> ttype c = TOKEN_DOUBLE_COLON \<Longrightarrow> type_read ts t \<Longrightarrow>
     decl (n # c # ts) (AST_VAR_DECL (tloc n) (tvalue n) t AST_NULL)"
| Initialized: "ttype n = TOKEN_IDENTIFIER \<Longrightarrow> ttype c = TOKEN_DOUBLE_COLON \<Longrightarrow> type_read ts t \<Longrightarrow>
     ttype e = TOKEN_ASSIGN \<Longrightarrow> expr 0 us i \<Longrightarrow>
     decl (n # c # ts @ e # us) (AST_VAR_DECL (tloc n) (tvalue n) t i)"

text \<open>\<^verbatim>\<open>assignment-or-declaration-or-expression\<close>; the target is an expression whose
  tree can be assigned to, which allows parentheses around it.\<close>

inductive loose :: "Token list \<Rightarrow> ast \<Rightarrow> bool" where
  Declaration: "decl ts a \<Longrightarrow> loose ts a"
| Assignment: "expr 0 ts a \<Longrightarrow> isAssignableTarget a \<Longrightarrow>
     ttype t \<in> {TOKEN_ASSIGN, TOKEN_PLUS_ASSIGN, TOKEN_MINUS_ASSIGN} \<Longrightarrow> expr 0 us v \<Longrightarrow>
     loose (ts @ t # us) (AST_ASSIGN (tloc t) (assignOpFromToken (ttype t)) a v)"
| Expression: "expr 0 ts a \<Longrightarrow> loose ts a"

inductive simple :: "Token list \<Rightarrow> ast \<Rightarrow> bool" where
  Return: "ttype t = TOKEN_KW_RET \<Longrightarrow> size_read ts a \<Longrightarrow> simple (t # ts) (AST_RETURN (tloc t) a)"
| Break: "ttype t = TOKEN_KW_BREAK \<Longrightarrow> simple [t] (AST_BREAK (tloc t))"
| Continue: "ttype t = TOKEN_KW_CONTINUE \<Longrightarrow> simple [t] (AST_CONTINUE (tloc t))"
| Loose: "loose ts a \<Longrightarrow> simple ts a"

definition clause :: "(Token list \<Rightarrow> ast \<Rightarrow> bool) \<Rightarrow> Token list \<Rightarrow> ast \<Rightarrow> bool" where
  "clause D ts a \<longleftrightarrow> (ts = [] \<and> a = AST_NULL) \<or> D ts a"

inductive parameter :: "Token list \<Rightarrow> ast \<Rightarrow> bool" where
  Parameter: "ttype n = TOKEN_IDENTIFIER \<Longrightarrow> ttype c = TOKEN_DOUBLE_COLON \<Longrightarrow> type_read ts t \<Longrightarrow>
     parameter (n # c # ts) (AST_PARAM (tloc n) (tvalue n) t)"

inductive more_params :: "Token list \<Rightarrow> ast list \<Rightarrow> bool" where
  LastParam: "more_params [] []"
| NextParam: "ttype t = TOKEN_COMMA \<Longrightarrow> parameter ts p \<Longrightarrow> more_params us ps \<Longrightarrow> more_params (t # ts @ us) (p # ps)"

inductive parameters :: "Token list \<Rightarrow> ast list \<Rightarrow> bool" where
  NoParams: "parameters [] []"
| Params: "parameter ts p \<Longrightarrow> more_params us ps \<Longrightarrow> parameters (ts @ us) (p # ps)"

text \<open>From the name of a function to its return type.\<close>

inductive signature :: "Token list \<Rightarrow> string \<Rightarrow> ast list \<Rightarrow> ast \<Rightarrow> bool" where
  Signature: "ttype n = TOKEN_IDENTIFIER \<Longrightarrow> ttype l = TOKEN_LPAREN \<Longrightarrow> parameters ts ps \<Longrightarrow> ttype r = TOKEN_RPAREN \<Longrightarrow>
     ttype w = TOKEN_ARROW \<Longrightarrow> type_read us t \<Longrightarrow> signature (n # l # ts @ r # w # us) (tvalue n) ps t"

text \<open>\<open>Nested\<close> is not in the document, whose \<^verbatim>\<open>statement\<close> has no function declaration;
  \<^verbatim>\<open>parseStatement\<close> accepts one.\<close>

inductive stmt :: "Token list \<Rightarrow> ast \<Rightarrow> bool"
  and stmts :: "Token list \<Rightarrow> ast list \<Rightarrow> bool"
  and block :: "Token list \<Rightarrow> ast \<Rightarrow> bool"
  and if_stmt :: "Token list \<Rightarrow> ast \<Rightarrow> bool"
  and func :: "Token list \<Rightarrow> ast \<Rightarrow> bool"
where
  Simple: "simple ts a \<Longrightarrow> ttype s = TOKEN_SEMICOLON \<Longrightarrow>
     stmt (ts @ [s]) (if stands_alone a then a else AST_EXPR_STMT (ast_loc a) a)"
| IfStatement: "if_stmt ts a \<Longrightarrow> stmt ts a"
| While: "ttype w = TOKEN_KW_WHILE \<Longrightarrow> ttype l = TOKEN_LPAREN \<Longrightarrow> expr 0 ts c \<Longrightarrow> ttype r = TOKEN_RPAREN \<Longrightarrow>
     block us b \<Longrightarrow> stmt (w # l # ts @ r # us) (AST_WHILE (tloc w) c b)"
| For: "ttype f = TOKEN_KW_FOR \<Longrightarrow> ttype l = TOKEN_LPAREN \<Longrightarrow> clause loose ts i \<Longrightarrow> ttype s = TOKEN_SEMICOLON \<Longrightarrow>
     clause (expr 0) us c \<Longrightarrow> ttype s' = TOKEN_SEMICOLON \<Longrightarrow> clause loose vs u \<Longrightarrow> ttype r = TOKEN_RPAREN \<Longrightarrow>
     block ws b \<Longrightarrow> stmt (f # l # ts @ s # us @ s' # vs @ r # ws) (AST_FOR (tloc f) i c u b)"
| Nested: "func ts a \<Longrightarrow> stmt ts a"
| If: "ttype i = TOKEN_KW_IF \<Longrightarrow> ttype l = TOKEN_LPAREN \<Longrightarrow> expr 0 ts c \<Longrightarrow> ttype r = TOKEN_RPAREN \<Longrightarrow>
     block us b \<Longrightarrow> if_stmt (i # l # ts @ r # us) (AST_IF (tloc i) c b AST_NULL)"
| IfElse: "ttype i = TOKEN_KW_IF \<Longrightarrow> ttype l = TOKEN_LPAREN \<Longrightarrow> expr 0 ts c \<Longrightarrow> ttype r = TOKEN_RPAREN \<Longrightarrow>
     block us b \<Longrightarrow> ttype e = TOKEN_KW_ELSE \<Longrightarrow> if_stmt vs d \<or> block vs d \<Longrightarrow>
     if_stmt (i # l # ts @ r # us @ e # vs) (AST_IF (tloc i) c b d)"
| Function: "ttype f = TOKEN_KW_FUNC \<Longrightarrow> signature ts x ps t \<Longrightarrow> block us b \<Longrightarrow>
     func (f # ts @ us) (AST_FUNC_DECL (tloc f) x ps b t False)"
| NoStatements: "stmts [] []"
| Statements: "stmt ts a \<Longrightarrow> stmts us as \<Longrightarrow> stmts (ts @ us) (a # as)"
| Block: "ttype l = TOKEN_LBRACE \<Longrightarrow> stmts ts as \<Longrightarrow> ttype r = TOKEN_RBRACE \<Longrightarrow> block (l # ts @ [r]) (AST_BLOCK (tloc l) as)"

inductive top_level :: "Token list \<Rightarrow> ast \<Rightarrow> bool" where
  TopFunction: "func ts a \<Longrightarrow> top_level ts a"
| TopExtern: "ttype e = TOKEN_KW_EXTERN \<Longrightarrow> ttype f = TOKEN_KW_FUNC \<Longrightarrow> signature ts x ps t \<Longrightarrow> ttype s = TOKEN_SEMICOLON \<Longrightarrow>
     top_level (e # f # ts @ [s]) (AST_FUNC_DECL (tloc e) x ps AST_NULL t True)"
| TopVariable: "decl ts a \<Longrightarrow> ttype s = TOKEN_SEMICOLON \<Longrightarrow> top_level (ts @ [s]) a"

inductive program :: "Token list \<Rightarrow> ast list \<Rightarrow> bool" where
  Empty: "program [] []"
| Declarations: "top_level ts d \<Longrightarrow> program us ds \<Longrightarrow> program (ts @ us) (d # ds)"

end
