(* ===== verification/GrammarSound.thy ===== *)
theory GrammarSound
  imports Grammar
begin

text \<open>
  What the parser accepts is in the grammar: a parsing function that reports nothing has consumed
  tokens that the grammar reads as the tree it returns.
\<close>

section \<open>Reading without an error\<close>

definition reads :: "Parser \<Rightarrow> (Token list \<Rightarrow> bool) \<Rightarrow> Parser \<Rightarrow> bool" where
  "reads p D q \<longleftrightarrow> prefix (items (perrors p)) (items (perrors q))
     \<and> (items (perrors q) = items (perrors p) \<and> \<not> is_panic p \<longrightarrow>
          \<not> is_panic q \<and> (\<exists>ts. current p = ts @ current q \<and> D ts))"

text \<open>Whatever the value is, if there is one.\<close>

definition yields :: "'a option \<Rightarrow> ('a \<Rightarrow> bool) \<Rightarrow> bool" where
  "yields m Q = (case m of None \<Rightarrow> True | Some x \<Rightarrow> Q x)"

lemma yields_simps [simp]:
  "yields None Q"
  "yields (Some x) Q = Q x"
  by (simp_all add: yields_def)

lemma yields_bind: "yields m P \<Longrightarrow> (\<And>x. P x \<Longrightarrow> yields (k x) Q) \<Longrightarrow> yields (m \<bind> k) Q"
  by (cases m) simp_all

lemma yields_pair_bind:
  "yields m (\<lambda>(a, p). P a p) \<Longrightarrow> (\<And>a p. P a p \<Longrightarrow> yields (k a p) Q) \<Longrightarrow> yields (m \<bind> (\<lambda>(a, p). k a p)) Q"
  by (cases m) auto

lemma yields_mono: "yields m P \<Longrightarrow> (\<And>x. P x \<Longrightarrow> Q x) \<Longrightarrow> yields m Q"
  by (cases m) simp_all

lemma yields_pair_mono:
  "yields m (\<lambda>(a, p). P a p) \<Longrightarrow> (\<And>a p. P a p \<Longrightarrow> Q (a, p)) \<Longrightarrow> yields m Q"
  by (cases m) auto

lemma reads_trans:
  assumes "reads p D q" "reads q E r" "\<And>us vs. D us \<Longrightarrow> E vs \<Longrightarrow> F (us @ vs)"
  shows "reads p F r"
proof -
  have pr: "prefix (items (perrors p)) (items (perrors r))"
    using assms(1,2) prefix_order.trans unfolding reads_def by blast
  have "\<not> is_panic r \<and> (\<exists>ts. current p = ts @ current r \<and> F ts)"
    if same: "items (perrors r) = items (perrors p)" and calm: "\<not> is_panic p"
  proof -
    have "items (perrors q) = items (perrors p)"
      using assms(1,2) same prefix_order.antisym unfolding reads_def by metis
    then obtain us where us: "\<not> is_panic q" "current p = us @ current q" "D us" "items (perrors r) = items (perrors q)"
      using assms(1) same calm unfolding reads_def by auto
    then obtain vs where "\<not> is_panic r" "current q = vs @ current r" "E vs" using assms(2) unfolding reads_def by auto
    then show ?thesis using us(2) assms(3) [OF us(3)] by auto
  qed
  with pr show ?thesis by (simp add: reads_def)
qed

lemma reads_mono: "reads p D q \<Longrightarrow> (\<And>ts. D ts \<Longrightarrow> E ts) \<Longrightarrow> reads p E q"
  unfolding reads_def by blast

lemma reads_none [simp]: "reads p (\<lambda>ts. ts = []) p"
  by (simp add: reads_def)

lemma reads_panic:
  assumes "reads p D q" "is_panic q" "items (perrors r) = items (perrors q)"
  shows "reads p E r"
  using assms unfolding reads_def by auto

lemma reads_early: "reads p D q \<Longrightarrow> is_panic q \<Longrightarrow> reads p E q"
  by (rule reads_panic) simp_all

lemma reads_error [simp]: "reads p D (parserSyntaxError p tok m)"
  by (auto simp: reads_def parserSyntaxError_def parserErrorListAppend_def split: option.splits prod.splits)

lemma reads_token: "current p = t # ts \<Longrightarrow> reads p (\<lambda>us. us = [t]) (parserAdvance p)"
  by (simp add: reads_def parserAdvance_def)

lemma reads_expect: "reads p (\<lambda>ts. \<exists>t. ts = [t] \<and> ttype t = ty) (snd (parserExpect p ty m))"
proof (cases "parserIs p ty")
  case True
  then obtain t ts where "current p = t # ts" "ttype t = ty" using parserIs_Cons by blast
  then show ?thesis using True reads_token by (auto simp: expect_ok intro: reads_mono)
next
  case False
  then show ?thesis by (simp add: expect_bad)
qed

lemma reads_then:
  assumes "reads p D q"
  shows "reads p (\<lambda>ts. \<exists>us t. ts = us @ [t] \<and> D us \<and> ttype t = ty) (snd (parserExpect q ty m))"
  by (rule reads_trans [OF assms reads_expect]) auto

lemma reads_error_after:
  assumes "reads p D q"
  shows "reads p E (parserSyntaxError q tok m)"
  by (rule reads_trans [OF assms reads_error [where D = "\<lambda>ts. False"]]) simp

lemma reads_Cons:
  assumes "current p = t # ts" "reads (parserAdvance p) D q" "\<And>us. D us \<Longrightarrow> E (t # us)"
  shows "reads p E q"
  by (rule reads_trans [OF reads_token [OF assms(1)] assms(2)]) (simp add: assms(3))

lemma current_node: "current p = t # ts \<Longrightarrow> current_loc p = tloc t \<and> currentType p = ttype t \<and> currentValue p = tvalue t"
  by (simp add: current_loc_def currentType_def currentValue_def tloc_def)

definition sound :: "(Token list \<Rightarrow> ast \<Rightarrow> bool) \<Rightarrow> parse \<Rightarrow> bool" where
  "sound D f \<longleftrightarrow> (\<forall>p. yields (f p) (\<lambda>(a, q). reads p (\<lambda>ts. D ts a) q))"

lemma soundI: "(\<And>p. yields (f p) (\<lambda>(a, q). reads p (\<lambda>ts. D ts a) q)) \<Longrightarrow> sound D f"
  by (simp add: sound_def)

lemma soundD: "sound D f \<Longrightarrow> yields (f p) (\<lambda>(a, q). reads p (\<lambda>ts. D ts a) q)"
  by (simp add: sound_def)

section \<open>Expressions\<close>

lemma parserIsAny_Cons: "parserIsAny p tys \<Longrightarrow> \<exists>t ts. current p = t # ts \<and> ttype t \<in> set tys"
  by (auto simp: parserIsAny_def list_ex_iff dest: parserIs_Cons)

lemma loop_sound:
  assumes "sound (expr (Suc k)) operand"
  shows "yields (parseBinaryLoop n (level_ops k) operand a p) (\<lambda>(c, q). reads p (\<lambda>ts. chain k a ts c) q)"
proof (induction n arbitrary: a p)
  case (Suc n)
  show ?case
  proof (cases "\<not> parserAtEnd p \<and> parserIsAny p (level_ops k)")
    case True
    then obtain t us where t: "current p = t # us" "ttype t \<in> set (level_ops k)" using parserIsAny_Cons by blast
    show ?thesis
      unfolding parseBinaryLoop.simps if_P [OF True]
    proof (rule yields_pair_bind [OF soundD [OF assms]])
      fix b q assume b: "reads (parserAdvance p) (\<lambda>ts. expr (Suc k) ts b) q"
      let ?n = "AST_BINARY (current_loc p) (binaryOpFromToken (currentType p)) a b"
      show "yields (parseBinaryLoop n (level_ops k) operand ?n q) (\<lambda>(c, q). reads p (\<lambda>ts. chain k a ts c) q)"
      proof (rule yields_pair_mono [OF Suc.IH])
        fix c r assume c: "reads q (\<lambda>ts. chain k ?n ts c) r"
        have "reads (parserAdvance p) (\<lambda>ts. \<exists>us vs. ts = us @ vs \<and> expr (Suc k) us b \<and> chain k ?n vs c) r"
          by (rule reads_trans [OF b c]) blast
        then have "reads p (\<lambda>ts. chain k a ts c) r"
        proof (rule reads_Cons [OF t(1)])
          fix ts assume "\<exists>us vs. ts = us @ vs \<and> expr (Suc k) us b \<and> chain k ?n vs c"
          then show "chain k a (t # ts) c" using Chain [OF t(2)] by (auto simp: current_node [OF t(1)])
        qed
        then show "case (c, r) of (c, q) \<Rightarrow> reads p (\<lambda>ts. chain k a ts c) q" by simp
      qed
    qed
  next
    case False
    then show ?thesis by (auto intro: reads_mono [OF reads_none] ChainEnd)
  qed
qed simp

lemma level_sound:
  assumes "k < 5" "j = Suc k" "sound (expr j) operand"
  shows "sound (expr k) (parseBinary (level_ops k) operand)"
proof (rule soundI)
  fix p show "yields (parseBinary (level_ops k) operand p) (\<lambda>(a, q). reads p (\<lambda>ts. expr k ts a) q)"
    unfolding parseBinary_def
  proof (rule yields_pair_bind [OF soundD [OF assms(3)]], rule yields_pair_mono [OF loop_sound [OF assms(3) [unfolded assms(2)]]])
    fix a q c r assume "reads p (\<lambda>ts. expr j ts a) q" "reads q (\<lambda>ts. chain k a ts c) r"
    then have "reads p (\<lambda>ts. expr k ts c) r" by (rule reads_trans) (rule Level [OF assms(1)], simp add: assms(2))
    then show "case (c, r) of (a, q) \<Rightarrow> reads p (\<lambda>ts. expr k ts a) q" by simp
  qed
qed

text \<open>Elements with separators, for any relation \<open>M\<close> closed under one more of them.\<close>

definition trailing :: "TokenType list \<Rightarrow> bool \<Rightarrow> Token list \<Rightarrow> bool" where
  "trailing S stops vs \<longleftrightarrow> vs = [] \<or> (stops \<and> (\<exists>v. vs = [v] \<and> ttype v \<in> set S))"

definition list_read :: "(Token list \<Rightarrow> ast list \<Rightarrow> bool) \<Rightarrow> TokenType list \<Rightarrow> bool \<Rightarrow> ast list \<Rightarrow> Token list \<Rightarrow> ast list \<Rightarrow> bool" where
  "list_read M S stops xs ts zs \<longleftrightarrow> (\<exists>us vs ys. ts = us @ vs \<and> zs = xs @ ys \<and> M us ys \<and> trailing S stops vs)"

lemma list_loop_sound:
  assumes pl: "sound D pl" and nonnull: "\<And>ts a. D ts a \<Longrightarrow> a \<noteq> AST_NULL"
    and M: "M [] []" "\<And>t us x vs ys. ttype t \<in> set S \<Longrightarrow> D us x \<Longrightarrow> M vs ys \<Longrightarrow> M (t # us @ vs) (x # ys)"
    and stop: "\<And>p. stop p \<Longrightarrow> stops"
  shows "yields (parseListLoop n S stop pl xs p) (\<lambda>(zs, q). reads p (\<lambda>ts. list_read M S stops xs ts zs) q)"
proof (induction n arbitrary: xs p)
  case (Suc n)
  have stay: "list_read M S stops xs [] xs" for xs using M(1) by (simp add: list_read_def trailing_def)
  show ?case
  proof (cases "parserIsAny p S")
    case False
    have "reads p (\<lambda>ts. list_read M S stops xs ts xs) p" by (rule reads_mono [OF reads_none]) (simp add: stay)
    then show ?thesis using False by simp
  next
    case True
    then obtain t us where t: "current p = t # us" "ttype t \<in> set S" using parserIsAny_Cons by blast
    show ?thesis
    proof (cases "stop (parserAdvance p)")
      case s: True
      have "reads p (\<lambda>ts. list_read M S stops xs ts xs) (parserAdvance p)"
        by (rule reads_mono [OF reads_token [OF t(1)]]) (use M(1) t(2) stop [OF s] in \<open>auto simp: list_read_def trailing_def\<close>)
      then show ?thesis using True s by (simp add: Let_def)
    next
      case s: False
      show ?thesis
        unfolding parseListLoop.simps if_P [OF True] Let_def if_not_P [OF s]
      proof (rule yields_pair_bind [OF soundD [OF pl]])
        fix x q assume x: "reads (parserAdvance p) (\<lambda>ts. D ts x) q"
        note px = reads_Cons [OF t(1) x]
        have one: "list_read M S stops xs (t # us @ vs) zs" if D: "D us x" and vs: "list_read M S stops (append_node xs x) vs zs" for us vs zs
        proof -
          have "append_node xs x = xs @ [x]" using nonnull [OF D] by (simp add: append_node_def)
          then obtain vs1 vs2 ys where "vs = vs1 @ vs2" "zs = xs @ x # ys" "M vs1 ys" "trailing S stops vs2"
            using vs by (auto simp: list_read_def)
          moreover have "M (t # us @ vs1) (x # ys)" by (rule M(2) [OF t(2) D \<open>M vs1 ys\<close>])
          ultimately show ?thesis unfolding list_read_def
            by (intro exI [of _ "t # us @ vs1"] exI [of _ vs2] exI [of _ "x # ys"]) simp
        qed
        show "yields (if is_panic q then Some (append_node xs x, q)
            else parseListLoop n S stop pl (append_node xs x) q) (\<lambda>(zs, q). reads p (\<lambda>ts. list_read M S stops xs ts zs) q)"
        proof (cases "is_panic q")
          case True
          then show ?thesis using reads_early [OF px] by simp
        next
          case False
          have "yields (parseListLoop n S stop pl (append_node xs x) q) (\<lambda>(zs, q). reads p (\<lambda>ts. list_read M S stops xs ts zs) q)"
          proof (rule yields_pair_mono [OF Suc.IH])
            fix zs r assume "reads q (\<lambda>ts. list_read M S stops (append_node xs x) ts zs) r"
            from reads_trans [OF x this, where F = "\<lambda>ts. \<exists>us vs. ts = us @ vs \<and> D us x \<and> list_read M S stops (append_node xs x) vs zs"]
            have "reads (parserAdvance p) (\<lambda>ts. \<exists>us vs. ts = us @ vs \<and> D us x \<and> list_read M S stops (append_node xs x) vs zs) r"
              by blast
            then have "reads p (\<lambda>ts. list_read M S stops xs ts zs) r" by (rule reads_Cons [OF t(1)]) (use one in blast)
            then show "case (zs, r) of (zs, q) \<Rightarrow> reads p (\<lambda>ts. list_read M S stops xs ts zs) q" by simp
          qed
          then show ?thesis using False by simp
        qed
      qed
    qed
  qed
qed simp

definition elements_read :: "(Token list \<Rightarrow> ast \<Rightarrow> bool) \<Rightarrow> (Token list \<Rightarrow> ast list \<Rightarrow> bool) \<Rightarrow> TokenType list \<Rightarrow> bool \<Rightarrow>
    Token list \<Rightarrow> ast list \<Rightarrow> bool" where
  "elements_read D M S stops ts zs \<longleftrightarrow>
     (\<exists>us vs ws x ys. ts = us @ vs @ ws \<and> zs = x # ys \<and> D us x \<and> M vs ys \<and> trailing S stops ws)"

lemma list_sound:
  assumes pl: "sound D pl" and nonnull: "\<And>ts a. D ts a \<Longrightarrow> a \<noteq> AST_NULL"
    and M: "M [] []" "\<And>t us x vs ys. ttype t \<in> set S \<Longrightarrow> D us x \<Longrightarrow> M vs ys \<Longrightarrow> M (t # us @ vs) (x # ys)"
    and stop: "\<And>p. stop p \<Longrightarrow> stops"
  shows "yields (parseList S stop pl p)
    (\<lambda>(zs, ret, q). (ret \<longrightarrow> is_panic q) \<and> reads p (\<lambda>ts. elements_read D M S stops ts zs) q)"
  unfolding parseList_def Let_def
proof (rule yields_pair_bind [OF soundD [OF pl]])
  fix x q assume x: "reads p (\<lambda>ts. D ts x) q"
  show "yields (if is_panic q then Some (append_node [] x, True, q)
      else parseListLoop (Suc (length (current q))) S stop pl (append_node [] x) q \<bind> (\<lambda>(xs, p). Some (xs, is_panic p, p)))
     (\<lambda>(zs, ret, q). (ret \<longrightarrow> is_panic q) \<and> reads p (\<lambda>ts. elements_read D M S stops ts zs) q)"
  proof (cases "is_panic q")
    case True
    then show ?thesis using reads_early [OF x] by simp
  next
    case False
    have "yields (parseListLoop (Suc (length (current q))) S stop pl (append_node [] x) q \<bind> (\<lambda>(xs, p). Some (xs, is_panic p, p)))
     (\<lambda>(zs, ret, q). (ret \<longrightarrow> is_panic q) \<and> reads p (\<lambda>ts. elements_read D M S stops ts zs) q)"
    proof (rule yields_pair_bind [OF list_loop_sound [OF pl nonnull M stop]], assumption+)
      fix zs r assume "reads q (\<lambda>ts. list_read M S stops (append_node [] x) ts zs) r"
      from reads_trans [OF x this, where F = "\<lambda>ts. elements_read D M S stops ts zs"]
      have "reads p (\<lambda>ts. elements_read D M S stops ts zs) r"
        using nonnull unfolding list_read_def elements_read_def append_node_def by fastforce
      then show "yields (Some (zs, is_panic r, r)) (\<lambda>(zs, ret, q). (ret \<longrightarrow> is_panic q) \<and> reads p (\<lambda>ts. elements_read D M S stops ts zs) q)"
        by simp
    qed
    then show ?thesis using False by simp
  qed
qed

lemma read_not_null:
  "expr k ts a \<Longrightarrow> a \<noteq> AST_NULL"
  "chain k a ts c \<Longrightarrow> a \<noteq> AST_NULL \<longrightarrow> c \<noteq> AST_NULL"
  "suffixes a ts c \<Longrightarrow> a \<noteq> AST_NULL \<longrightarrow> c \<noteq> AST_NULL"
  "more S ts xs \<Longrightarrow> True"
  by (induction rule: expr_chain_suffixes_more.inducts) (simp_all add: number_node_def)

lemmas expr_list_sound = list_sound [OF _ read_not_null(1) NoMore More]

definition args_read :: "Token list \<Rightarrow> ast list \<Rightarrow> bool" where
  "args_read ts xs \<longleftrightarrow> (ts = [] \<and> xs = []) \<or> elements_read (expr 0) (more [TOKEN_COMMA]) [TOKEN_COMMA] False ts xs"

lemma args_sound:
  assumes "sound (expr 0) pl"
  shows "yields (parseCallArgs pl p) (\<lambda>(xs, ret, q). (ret \<longrightarrow> is_panic q) \<and> reads p (\<lambda>ts. args_read ts xs) q)"
proof (cases "parserIs p TOKEN_RPAREN")
  case True
  have "reads p (\<lambda>ts. args_read ts []) p" by (rule reads_mono [OF reads_none]) (simp add: args_read_def)
  then show ?thesis using True by (simp add: parseCallArgs_def)
next
  case False
  have "yields (parseList [TOKEN_COMMA] (\<lambda>p. False) pl p)
      (\<lambda>(xs, ret, q). (ret \<longrightarrow> is_panic q) \<and> reads p (\<lambda>ts. elements_read (expr 0) (more [TOKEN_COMMA]) [TOKEN_COMMA] False ts xs) q)"
    by (rule expr_list_sound [OF assms])
  then show ?thesis using False unfolding parseCallArgs_def args_read_def
    by (auto elim!: yields_mono reads_mono)
qed

lemma args_suffix:
  assumes "ttype l = TOKEN_LPAREN" "args_read us xs" "ttype r = TOKEN_RPAREN" "suffixes (AST_CALL (ast_loc a) a xs) vs c"
  shows "suffixes a (l # us @ r # vs) c"
  using assms(2) unfolding args_read_def
proof (elim disjE conjE)
  assume "us = []" "xs = []"
  then show ?thesis using EmptyCall assms by simp
next
  assume "elements_read (expr 0) (more [TOKEN_COMMA]) [TOKEN_COMMA] False us xs"
  then obtain ts ws x ys where "us = ts @ ws" "xs = x # ys" "expr 0 ts x" "more [TOKEN_COMMA] ws ys"
    by (auto simp: elements_read_def trailing_def)
  then show ?thesis using Call assms by simp
qed

lemma postfix_sound:
  assumes pl: "sound (expr 0) pl"
  shows "yields (parsePostfix n pl a p) (\<lambda>(c, q). reads p (\<lambda>ts. suffixes a ts c) q)"
proof (induction n arbitrary: a p)
  case (Suc n)
  have stay: "reads p (\<lambda>ts. suffixes a ts a) p" by (rule reads_mono [OF reads_none]) (simp add: SuffixEnd)
  have on: "yields (parsePostfix n pl b (snd (parserExpect q ty m))) (\<lambda>(c, q). reads p (\<lambda>ts. suffixes a ts c) q)"
    if t: "current p = t # ts" and q: "reads (parserAdvance p) D q"
      and step: "\<And>us r vs c. D us \<Longrightarrow> ttype r = ty \<Longrightarrow> suffixes b vs c \<Longrightarrow> suffixes a (t # us @ r # vs) c" for t ts q b ty m D
  proof (rule yields_pair_mono [OF Suc.IH])
    fix c r assume "reads (snd (parserExpect q ty m)) (\<lambda>ts. suffixes b ts c) r"
    from reads_trans [OF reads_then [OF q] this, where F = "\<lambda>ts. \<exists>us r vs. ts = us @ r # vs \<and> D us \<and> ttype r = ty \<and> suffixes b vs c"]
    have "reads (parserAdvance p) (\<lambda>ts. \<exists>us r vs. ts = us @ r # vs \<and> D us \<and> ttype r = ty \<and> suffixes b vs c) r"
      by fastforce
    then have "reads p (\<lambda>ts. suffixes a ts c) r" by (rule reads_Cons [OF t]) (use step in blast)
    then show "case (c, r) of (c, q) \<Rightarrow> reads p (\<lambda>ts. suffixes a ts c) q" by simp
  qed
  consider "parserAtEnd p" | (call) "\<not> parserAtEnd p" "parserIs p TOKEN_LPAREN"
    | (access) "\<not> parserAtEnd p" "\<not> parserIs p TOKEN_LPAREN" "parserIs p TOKEN_LBRACKET"
    | (other) "\<not> parserAtEnd p" "\<not> parserIs p TOKEN_LPAREN" "\<not> parserIs p TOKEN_LBRACKET"
    by blast
  then show ?case
  proof cases
    case call
    obtain t ts where t: "current p = t # ts" "ttype t = TOKEN_LPAREN" using parserIs_Cons [OF call(2)] by blast
    have "yields (parseCallArgs pl (parserAdvance p) \<bind> (\<lambda>(args, ret, q).
        if ret then Some (AST_CALL (ast_loc a) a args, q)
        else parsePostfix n pl (AST_CALL (ast_loc a) a args) (snd (parserExpect q TOKEN_RPAREN m))))
      (\<lambda>(c, q). reads p (\<lambda>ts. suffixes a ts c) q)" for m
    proof (rule yields_bind [OF args_sound [OF pl]], clarify)
      fix xs ret q assume r: "ret \<longrightarrow> is_panic q" and x: "reads (parserAdvance p) (\<lambda>ts. args_read ts xs) q"
      have "reads p (\<lambda>ts. suffixes a ts c) q" if ret for c
        by (rule reads_early [OF reads_Cons [OF t(1) x, where E = "\<lambda>ts. True"]]) (use r that in simp_all)
      moreover note on [OF t(1) x args_suffix [OF t(2)]]
      ultimately show "yields (if ret then Some (AST_CALL (ast_loc a) a xs, q)
          else parsePostfix n pl (AST_CALL (ast_loc a) a xs) (snd (parserExpect q TOKEN_RPAREN m)))
        (\<lambda>(c, q). reads p (\<lambda>ts. suffixes a ts c) q)" by simp
    qed
    then show ?thesis using call by (simp add: Let_def)
  next
    case access
    obtain t ts where t: "current p = t # ts" "ttype t = TOKEN_LBRACKET" using parserIs_Cons [OF access(3)] by blast
    have "yields (pl (parserAdvance p) \<bind> (\<lambda>(index, q).
        if is_panic q then Some (AST_ARRAY_ACCESS (ast_loc a) a (append_node [] index), q)
        else parsePostfix n pl (AST_ARRAY_ACCESS (ast_loc a) a (append_node [] index)) (snd (parserExpect q TOKEN_RBRACKET m))))
      (\<lambda>(c, q). reads p (\<lambda>ts. suffixes a ts c) q)" for m
    proof (rule yields_pair_bind [OF soundD [OF pl]])
      fix i q assume x: "reads (parserAdvance p) (\<lambda>ts. expr 0 ts i) q"
      have "reads p (\<lambda>ts. suffixes a ts c) q" if "is_panic q" for c
        by (rule reads_early [OF reads_Cons [OF t(1) x, where E = "\<lambda>ts. True"]]) (use that in simp_all)
      moreover have "suffixes a (t # us @ r # vs) c"
        if "expr 0 us i" "ttype r = TOKEN_RBRACKET" "suffixes (AST_ARRAY_ACCESS (ast_loc a) a (append_node [] i)) vs c" for us r vs c
        using Index [OF t(2) that(1,2)] that(3) read_not_null(1) [OF that(1)] by (simp add: append_node_def)
      moreover note on [OF t(1) x this]
      ultimately show "yields (if is_panic q then Some (AST_ARRAY_ACCESS (ast_loc a) a (append_node [] i), q)
          else parsePostfix n pl (AST_ARRAY_ACCESS (ast_loc a) a (append_node [] i)) (snd (parserExpect q TOKEN_RBRACKET m)))
        (\<lambda>(c, q). reads p (\<lambda>ts. suffixes a ts c) q)" by simp
    qed
    then show ?thesis using access by (simp add: Let_def)
  qed (use stay in simp_all)
qed simp

lemma array_sound:
  assumes pl: "sound (expr 0) pl"
  shows "sound (expr 6) (parseArrayLiteral pl)"
proof (rule soundI)
  fix p
  show "yields (parseArrayLiteral pl p) (\<lambda>(a, q). reads p (\<lambda>ts. expr 6 ts a) q)"
  proof (cases "parserIs p TOKEN_LBRACE")
    case False
    then show ?thesis by (simp add: parseArrayLiteral_def expect_bad)
  next
    case True
    then obtain l ts where l: "current p = l # ts" "ttype l = TOKEN_LBRACE" using parserIs_Cons by blast
    let ?S = "[TOKEN_COMMA, TOKEN_SEMICOLON]"
    let ?D = "\<lambda>xs ts. (ts = [] \<and> xs = []) \<or> elements_read (expr 0) (more ?S) ?S True ts xs"
    let ?m = "\<lambda>q. if \<not> parserIs q TOKEN_RBRACE then parseList ?S (\<lambda>p. parserIs p TOKEN_RBRACE \<or> parserAtEnd p) pl q
        else Some ([], False, q)"
    have whole: "expr 6 (l # us @ [r]) (AST_ARRAY_LITERAL (tloc l) xs)" if "?D xs us" "ttype r = TOKEN_RBRACE" for us r xs
      using that(1)
    proof (elim disjE conjE)
      assume "us = []" "xs = []"
      then show ?thesis using NoElements [OF l(2) that(2)] by simp
    next
      assume "elements_read (expr 0) (more ?S) ?S True us xs"
      then obtain ts vs ws x ys where k: "us = ts @ vs @ ws" "xs = x # ys" "expr 0 ts x" "more ?S vs ys"
        "trailing ?S True ws"
        by (auto simp: elements_read_def)
      then have "ws = [] \<or> (\<exists>v. ws = [v] \<and> ttype v \<in> {TOKEN_COMMA, TOKEN_SEMICOLON})" by (auto simp: trailing_def)
      from Elements [OF l(2) k(3,4) this that(2)] show ?thesis using k(1,2) by simp
    qed
    have list: "yields (?m q) (\<lambda>(xs, ret, r). (ret \<longrightarrow> is_panic r) \<and> reads q (?D xs) r)" for q
    proof (cases "parserIs q TOKEN_RBRACE")
      case True
      have "reads q (?D []) q" by (rule reads_mono [OF reads_none]) simp
      then show ?thesis using True by simp
    next
      case False
      have "yields (parseList ?S (\<lambda>p. parserIs p TOKEN_RBRACE \<or> parserAtEnd p) pl q)
        (\<lambda>(xs, ret, r). (ret \<longrightarrow> is_panic r) \<and> reads q (\<lambda>ts. elements_read (expr 0) (more ?S) ?S True ts xs) r)"
        by (rule expr_list_sound [OF pl]) simp_all
      then show ?thesis using False by (auto elim!: yields_mono reads_mono)
    qed
    have "yields (?m (parserAdvance p) \<bind> (\<lambda>(xs, ret, q). if ret then Some (AST_ARRAY_LITERAL (tloc l) xs, q)
        else Some (AST_ARRAY_LITERAL (tloc l) xs, snd (parserExpect q TOKEN_RBRACE m)))) (\<lambda>(a, q). reads p (\<lambda>ts. expr 6 ts a) q)" for m
    proof (rule yields_bind [OF list], clarify)
      fix xs ret q assume r: "ret \<longrightarrow> is_panic q" and x: "reads (parserAdvance p) (?D xs) q"
      have "reads p (\<lambda>ts. expr 6 ts c) q" if ret for c
        by (rule reads_early [OF reads_Cons [OF l(1) x, where E = "\<lambda>ts. True"]]) (use r that in simp_all)
      moreover have "reads p (\<lambda>ts. expr 6 ts (AST_ARRAY_LITERAL (tloc l) xs)) (snd (parserExpect q TOKEN_RBRACE m))"
        by (rule reads_Cons [OF l(1) reads_then [OF x]]) (use whole in blast)
      ultimately show "yields (if ret then Some (AST_ARRAY_LITERAL (tloc l) xs, q)
        else Some (AST_ARRAY_LITERAL (tloc l) xs, snd (parserExpect q TOKEN_RBRACE m))) (\<lambda>(a, q). reads p (\<lambda>ts. expr 6 ts a) q)"
        by simp
    qed
    then show ?thesis using True current_node [OF l(1)] by (simp add: parseArrayLiteral_def expect_ok Let_def)
  qed
qed

lemma factor_sound:
  assumes pl: "sound (expr 0) pl"
  shows "sound (expr 6) (parseFactor pl)"
proof (rule soundI)
  fix p
  show "yields (parseFactor pl p) (\<lambda>(a, q). reads p (\<lambda>ts. expr 6 ts a) q)"
  proof (cases "current p")
    case Nil
    then show ?thesis by (simp add: parseFactor_def parserAtEnd_def)
  next
    case (Cons t ts)
    have next_is: "parserIs p ty \<longleftrightarrow> ttype t = ty" for ty using Cons by (simp add: parserIs_def)
    note node = current_node [OF Cons]
    have one: "reads p (\<lambda>ts. expr 6 ts a) (parserAdvance p)" if "expr 6 [t] a" for a
      by (rule reads_mono [OF reads_token [OF Cons]]) (use that in simp)
    have ident: "yields (parsePostfix n pl (AST_IDENTIFIER (tloc t) (tvalue t)) (parserAdvance p)) (\<lambda>(a, q). reads p (\<lambda>ts. expr 6 ts a) q)"
      if "ttype t = TOKEN_IDENTIFIER" for n
    proof (rule yields_pair_mono [OF postfix_sound [OF pl]])
      fix a q assume "reads (parserAdvance p) (\<lambda>ts. suffixes (AST_IDENTIFIER (tloc t) (tvalue t)) ts a) q"
      then have "reads p (\<lambda>ts. expr 6 ts a) q" by (rule reads_Cons [OF Cons]) (rule Postfix [OF that])
      then show "case (a, q) of (a, q) \<Rightarrow> reads p (\<lambda>ts. expr 6 ts a) q" by simp
    qed
    have group: "yields (pl (parserAdvance p) \<bind> (\<lambda>(node, q). if is_panic q then Some (node, q)
        else Some (node, snd (parserExpect q TOKEN_RPAREN m)))) (\<lambda>(a, q). reads p (\<lambda>ts. expr 6 ts a) q)"
      if "ttype t = TOKEN_LPAREN" for m
    proof (rule yields_pair_bind [OF soundD [OF pl]])
      fix a q assume x: "reads (parserAdvance p) (\<lambda>ts. expr 0 ts a) q"
      have "reads p (\<lambda>ts. expr 6 ts a) q" if "is_panic q"
        by (rule reads_early [OF reads_Cons [OF Cons x, where E = "\<lambda>ts. True"]]) (use that in simp_all)
      moreover have "reads p (\<lambda>ts. expr 6 ts a) (snd (parserExpect q TOKEN_RPAREN m))"
        by (rule reads_Cons [OF Cons reads_then [OF x]]) (use Group [OF that] in blast)
      ultimately show "yields (if is_panic q then Some (a, q) else Some (a, snd (parserExpect q TOKEN_RPAREN m)))
          (\<lambda>(a, q). reads p (\<lambda>ts. expr 6 ts a) q)" by simp
    qed
    have digits: "ttype t = TOKEN_NUMBER \<Longrightarrow> reads p (\<lambda>ts. expr 6 ts (number_node t)) (parserAdvance p)"
      by (rule one) (rule Number)
    have lits: "ttype t = TOKEN_NUMBER \<Longrightarrow> CHR ''.'' \<in> set (tvalue t) \<Longrightarrow>
        reads p (\<lambda>ts. expr 6 ts (AST_FLOAT_LITERAL (tloc t) (strtod (tvalue t)))) (parserAdvance p)"
      "ttype t = TOKEN_NUMBER \<Longrightarrow> CHR ''.'' \<notin> set (tvalue t) \<Longrightarrow>
        reads p (\<lambda>ts. expr 6 ts (AST_INT_LITERAL (tloc t) (strtol (tvalue t)))) (parserAdvance p)"
      using digits by (simp_all add: number_node_def)
    show ?thesis
      unfolding parseFactor_def Let_def next_is
      using lits one [OF String] one [OF Char] one [OF Bool] ident group soundD [OF array_sound [OF pl], of p] node
      by (simp del: parsePostfix.simps)
  qed
qed

lemma negation_sound:
  assumes pl: "sound (expr 0) pl"
  shows "sound (expr 5) (parseNegation pl)"
proof (rule soundI)
  fix p show "yields (parseNegation pl p) (\<lambda>(a, q). reads p (\<lambda>ts. expr 5 ts a) q)"
  proof (induction "length (current p)" arbitrary: p rule: less_induct)
    case less
    show ?case
    proof (cases "unaryOpFromToken (currentType p)")
      case None
      have "yields (parseFactor pl p) (\<lambda>(a, q). reads p (\<lambda>ts. expr 5 ts a) q)"
        by (rule yields_pair_mono [OF soundD [OF factor_sound [OF pl]]]) (auto elim: reads_mono intro: Primary)
      then show ?thesis using None by (simp add: parseNegation.simps)
    next
      case (Some u)
      then obtain t ts where t: "current p = t # ts" using unaryOp_not_EOF by blast
      note node = current_node [OF t]
      have "length (current (parserAdvance p)) < length (current p)" by (rule consumed_advance) (simp add: t)
      then have "yields (parseNegation pl (parserAdvance p)) (\<lambda>(a, q). reads (parserAdvance p) (\<lambda>ts. expr 5 ts a) q)" by (rule less)
      then have "yields (parseNegation pl (parserAdvance p) \<bind> (\<lambda>(a, q). Some (AST_UNARY (tloc t) u a, q)))
          (\<lambda>(a, q). reads p (\<lambda>ts. expr 5 ts a) q)"
      proof (rule yields_pair_bind)
        fix a q assume "reads (parserAdvance p) (\<lambda>ts. expr 5 ts a) q"
        then have "reads p (\<lambda>ts. expr 5 ts (AST_UNARY (tloc t) u a)) q"
          by (rule reads_Cons [OF t]) (rule Unary, use Some node in simp)
        then show "yields (Some (AST_UNARY (tloc t) u a, q)) (\<lambda>(a, q). reads p (\<lambda>ts. expr 5 ts a) q)" by simp
      qed
      then show ?thesis using Some node by (simp add: parseNegation.simps [of pl p])
    qed
  qed
qed

lemma level_ops_simps:
  "level_ops 0 = [TOKEN_OR_OR]" "level_ops 1 = [TOKEN_AND_AND]"
  "level_ops 2 = [TOKEN_GT, TOKEN_LT, TOKEN_GT_EQ, TOKEN_LT_EQ, TOKEN_EQ_EQ, TOKEN_NOT_EQ]"
  "level_ops 3 = [TOKEN_PLUS, TOKEN_MINUS]" "level_ops 4 = [TOKEN_STAR, TOKEN_SLASH]"
  by (simp_all add: level_ops_def)

lemma levels: "parseLogicalLevel pl = parseBinary (level_ops 0) (parseBinary (level_ops 1) (parseBinary (level_ops 2)
    (parseBinary (level_ops 3) (parseBinary (level_ops 4) (parseNegation pl)))))"
  unfolding level_ops_simps
  by (simp add: parseLogicalLevel_def parseLogicalAnd_def parseComparison_def parseExpression_def parseTerm_def)

lemma logical_sound: "sound (expr 0) parseLogical"
proof -
  have "sound (expr 0) (parseLogicalFuel n)" for n
  proof (induction n)
    case 0
    then show ?case by (simp add: sound_def)
  next
    case (Suc n)
    have "sound (expr 0) (parseLogicalLevel (parseLogicalFuel n))"
      unfolding levels
      by (rule level_sound [where j = 1], simp, simp, rule level_sound [where j = 2], simp, simp,
          rule level_sound [where j = 3], simp, simp, rule level_sound [where j = 4], simp, simp,
          rule level_sound [where j = 5], simp, simp, rule negation_sound [OF Suc])
    then show ?case by (simp add: sound_def)
  qed
  then show ?thesis unfolding sound_def parseLogical_def by blast
qed

section \<open>Types\<close>

lemma dims_sound: "yields (wrapArrayTypes n b p) (\<lambda>(c, q). reads p (\<lambda>ts. dims b ts c) q)"
proof (induction n arbitrary: b p)
  case (Suc n)
  show ?case
  proof (cases "parserIs p TOKEN_LBRACKET")
    case False
    have "reads p (\<lambda>ts. dims b ts b) p" by (rule reads_mono [OF reads_none]) (simp add: DimsEnd)
    then show ?thesis using False by simp
  next
    case True
    then obtain l us where l: "current p = l # us" "ttype l = TOKEN_LBRACKET" using parserIs_Cons by blast
    let ?m = "\<lambda>q. if \<not> parserIs q TOKEN_RBRACKET then parseLogical q else Some (AST_NULL, q)"
    have size: "yields (?m q) (\<lambda>(s, r). reads q (\<lambda>ts. size_read ts s) r)" for q
    proof (cases "parserIs q TOKEN_RBRACKET")
      case True
      have "reads q (\<lambda>ts. size_read ts AST_NULL) q" by (rule reads_mono [OF reads_none]) (simp add: size_read_def)
      then show ?thesis using True by simp
    next
      case False
      have "yields (parseLogical q) (\<lambda>(s, r). reads q (\<lambda>ts. size_read ts s) r)"
        by (rule yields_pair_mono [OF soundD [OF logical_sound]]) (auto simp: size_read_def elim: reads_mono)
      then show ?thesis using False by simp
    qed
    have "yields (?m (parserAdvance p) \<bind> (\<lambda>(s, q). wrapArrayTypes n (AST_TYPE_ARRAY (tloc l) b s)
        (snd (parserExpect q TOKEN_RBRACKET m)))) (\<lambda>(c, q). reads p (\<lambda>ts. dims b ts c) q)" for m
    proof (rule yields_pair_bind [OF size], rule yields_pair_mono [OF Suc.IH])
      fix s q c r
      assume s: "reads (parserAdvance p) (\<lambda>ts. size_read ts s) q"
        and c: "reads (snd (parserExpect q TOKEN_RBRACKET m)) (\<lambda>ts. dims (AST_TYPE_ARRAY (tloc l) b s) ts c) r"
      have "reads (parserAdvance p) (\<lambda>ts. \<exists>us e vs. ts = us @ e # vs \<and> size_read us s \<and> ttype e = TOKEN_RBRACKET
          \<and> dims (AST_TYPE_ARRAY (tloc l) b s) vs c) r"
        by (rule reads_trans [OF reads_then [OF s] c]) fastforce
      then have "reads p (\<lambda>ts. dims b ts c) r" by (rule reads_Cons [OF l(1)]) (use Dims [OF l(2)] in blast)
      then show "case (c, r) of (c, q) \<Rightarrow> reads p (\<lambda>ts. dims b ts c) q" by simp
    qed
    then show ?thesis using True current_node [OF l(1)] by (simp add: Let_def)
  qed
qed simp

lemma type_sound:
  "yields (parseType p) (\<lambda>(a, q). reads p (\<lambda>ts. type_read ts a) q)"
  "yields (parsePointerType p) (\<lambda>(a, q). reads p (\<lambda>ts. type_read ts a) q)"
proof (induction p and p rule: parseType_parsePointerType.induct)
  case (1 p)
  have wrap: "yields (wrapArrays b q) (\<lambda>(a, r). reads p (\<lambda>ts. type_read ts a) r)"
    if q: "reads p D q" and step: "\<And>us vs a. D us \<Longrightarrow> dims b vs a \<Longrightarrow> type_read (us @ vs) a" for D b q
  proof (rule yields_pair_mono [OF dims_sound])
    fix a r assume a: "reads q (\<lambda>ts. dims b ts a) r"
    have "reads p (\<lambda>ts. type_read ts a) r" by (rule reads_trans [OF q a]) (rule step)
    then show "case (a, r) of (a, r) \<Rightarrow> reads p (\<lambda>ts. type_read ts a) r" by simp
  qed
  show ?case
  proof (cases "isTypeToken p \<and> \<not> parserIs p TOKEN_STAR")
    case False
    then show ?thesis using "1.IH" by (cases "isTypeToken p") (simp_all add: parseType.simps)
  next
    case True
    then obtain t us where t: "current p = t # us" "ttype t \<in> {TOKEN_TYPE_ARRAY, TOKEN_TYPE_INT, TOKEN_TYPE_FLOAT,
        TOKEN_TYPE_CHAR, TOKEN_TYPE_BOOL, TOKEN_TYPE_VOID, TOKEN_IDENTIFIER}"
      using parserIsAny_Cons [of p] unfolding isTypeToken_def by (fastforce simp: parserIs_def)
    note node = current_node [OF t(1)]
    show ?thesis
    proof (cases "parserIs p TOKEN_TYPE_ARRAY")
      case False
      then have k: "ttype t \<in> {TOKEN_TYPE_INT, TOKEN_TYPE_FLOAT, TOKEN_TYPE_CHAR, TOKEN_TYPE_BOOL, TOKEN_TYPE_VOID, TOKEN_IDENTIFIER}"
        using t by (auto simp: parserIs_def)
      show ?thesis
        using True False wrap [OF reads_token [OF t(1)]] Named [OF k] node by (simp add: parseType.simps)
    next
      case arr: True
      then have k: "ttype t = TOKEN_TYPE_ARRAY" using t(1) by (simp add: parserIs_def)
      let ?q = "parserAdvance p"
      show ?thesis
      proof (cases "parserIs ?q TOKEN_LT")
        case False
        then show ?thesis
          using True arr wrap [OF reads_token [OF t(1)]] Plain [OF k] node by (simp add: parseType.simps Let_def)
      next
        case lt: True
        then obtain l vs where l: "current ?q = l # vs" "ttype l = TOKEN_LT" using parserIs_Cons by blast
        have "yields (parseType (parserAdvance ?q)) (\<lambda>(a, q). reads (parserAdvance ?q) (\<lambda>ts. type_read ts a) q)"
          using "1.IH"(2) True arr lt by simp
        then have "yields (parseType (parserAdvance ?q) \<bind> (\<lambda>(e, q). if is_panic q then Some (AST_TYPE_ARRAY (tloc t) e AST_NULL, q)
            else wrapArrays (AST_TYPE_ARRAY (tloc t) e AST_NULL) (snd (parserExpect q TOKEN_GT m))))
          (\<lambda>(a, r). reads p (\<lambda>ts. type_read ts a) r)" for m
        proof (rule yields_pair_bind)
          fix e q assume e: "reads (parserAdvance ?q) (\<lambda>ts. type_read ts e) q"
          have r: "reads p (\<lambda>ts. \<exists>us. ts = t # l # us \<and> type_read us e) q"
            by (rule reads_Cons [OF t(1) reads_Cons [OF l(1) e, where E = "\<lambda>ts. \<exists>us. ts = l # us \<and> type_read us e"]]) blast+
          then have "is_panic q \<Longrightarrow> reads p (\<lambda>ts. type_read ts a) q" for a by (rule reads_early)
          moreover have "yields (wrapArrays (AST_TYPE_ARRAY (tloc t) e AST_NULL) (snd (parserExpect q TOKEN_GT m)))
              (\<lambda>(a, r). reads p (\<lambda>ts. type_read ts a) r)"
            by (rule wrap [OF reads_then [OF r]]) (use Generic [OF k l(2)] in auto)
          ultimately show "yields (if is_panic q then Some (AST_TYPE_ARRAY (tloc t) e AST_NULL, q)
            else wrapArrays (AST_TYPE_ARRAY (tloc t) e AST_NULL) (snd (parserExpect q TOKEN_GT m)))
            (\<lambda>(a, r). reads p (\<lambda>ts. type_read ts a) r)" by simp
        qed
        then show ?thesis using True arr lt node by (simp add: parseType.simps [of p] Let_def)
      qed
    qed
  qed
next
  case (2 p)
  let ?m = "''expected '*' in pointer type''"
  let ?q = "snd (parserExpect p TOKEN_STAR ?m)"
  show ?case
  proof (cases "is_panic ?q")
    case True
    then show ?thesis using reads_early [OF reads_expect True] by (simp add: parsePointerType.simps)
  next
    case False
    have star: "reads p (\<lambda>ts. \<exists>t. ts = [t] \<and> ttype t = TOKEN_STAR \<and> tloc t = current_loc p) ?q"
    proof (cases "parserIs p TOKEN_STAR")
      case True
      then obtain t us where t: "current p = t # us" "ttype t = TOKEN_STAR" using parserIs_Cons by blast
      show ?thesis using True current_node [OF t(1)] t(2) by (auto simp: expect_ok intro: reads_mono [OF reads_token [OF t(1)]])
    next
      case False
      then show ?thesis by (simp add: expect_bad)
    qed
    have "yields (parseType ?q \<bind> (\<lambda>(a, q). Some (AST_TYPE_POINTER (current_loc p) a, q)))
        (\<lambda>(a, q). reads p (\<lambda>ts. type_read ts a) q)"
    proof (rule yields_pair_bind [OF "2.IH" [OF refl False]])
      fix a r assume a: "reads ?q (\<lambda>ts. type_read ts a) r"
      have "reads p (\<lambda>ts. type_read ts (AST_TYPE_POINTER (current_loc p) a)) r"
        by (rule reads_trans [OF star a]) (use Pointer in fastforce)
      then show "yields (Some (AST_TYPE_POINTER (current_loc p) a, r)) (\<lambda>(a, q). reads p (\<lambda>ts. type_read ts a) q)" by simp
    qed
    then show ?thesis using False by (simp add: parsePointerType.simps [of p] Let_def)
  qed
qed

end
