(* ===== verification/GrammarComplete.thy ===== *)
theory GrammarComplete
  imports GrammarSound
begin

text \<open>
  What is in the grammar is accepted: on tokens that the grammar reads as a tree, followed by a
  token that cannot continue it, a parsing function returns that tree without an error and stops
  before that token.  The sets of tokens a tree may start with and may be followed by decide
  every choice of the parser.
\<close>

section \<open>The parser before given tokens\<close>

abbreviation on :: "Parser \<Rightarrow> Token list \<Rightarrow> Parser" where
  "on p ts \<equiv> p\<lparr>current := ts\<rparr>"

lemma on_simps [simp]:
  "parserAdvance (on p (t # ts)) = on p ts"
  "parserIs (on p (t # ts)) ty \<longleftrightarrow> ttype t = ty"
  "\<not> parserIs (on p []) ty"
  "parserAtEnd (on p (t # ts)) \<longleftrightarrow> ttype t = TOKEN_EOF"
  "parserAtEnd (on p [])"
  "parserIsAny (on p (t # ts)) tys \<longleftrightarrow> ttype t \<in> set tys"
  "\<not> parserIsAny (on p []) tys"
  "current_loc (on p (t # ts)) = tloc t"
  "currentType (on p (t # ts)) = ttype t"
  "currentType (on p []) = TOKEN_EOF"
  "currentValue (on p (t # ts)) = tvalue t"
  by (auto simp: parserAdvance_def parserIs_def parserAtEnd_def parserIsAny_def list_ex_iff current_loc_def tloc_def
      currentType_def currentValue_def)

lemma expect_on [simp]: "ttype t = ty \<Longrightarrow> parserExpect (on p (t # ts)) ty m = (True, on p ts)"
  by (simp add: parserExpect_def)

definition stops :: "TokenType set \<Rightarrow> Token list \<Rightarrow> bool" where
  "stops S rest \<longleftrightarrow> (case rest of [] \<Rightarrow> True | t # ts \<Rightarrow> ttype t \<notin> S)"

lemma stops_simps [simp]: "stops S []" "stops S (t # ts) \<longleftrightarrow> ttype t \<notin> S"
  by (simp_all add: stops_def)

lemma stops_less: "stops S rest \<Longrightarrow> T \<subseteq> S \<Longrightarrow> stops T rest"
  by (cases rest) auto

lemma not_any_stops: "stops (set tys) rest \<Longrightarrow> \<not> parserIsAny (on p rest) tys"
  by (cases rest) simp_all

lemma not_is_stops: "stops S rest \<Longrightarrow> ty \<in> S \<Longrightarrow> \<not> parserIs (on p rest) ty"
  by (cases rest) auto

definition complete :: "(Token list \<Rightarrow> ast \<Rightarrow> bool) \<Rightarrow> TokenType set \<Rightarrow> nat \<Rightarrow> parse \<Rightarrow> bool" where
  "complete D S n f \<longleftrightarrow> (\<forall>p ts a rest. D ts a \<longrightarrow> \<not> is_panic p \<longrightarrow> stops S rest \<longrightarrow> length (ts @ rest) \<le> n \<longrightarrow>
     f (on p (ts @ rest)) = Some (a, on p rest))"

lemma completeI:
  "(\<And>p ts a rest. D ts a \<Longrightarrow> \<not> is_panic p \<Longrightarrow> stops S rest \<Longrightarrow> length ts + length rest \<le> n \<Longrightarrow>
     f (on p (ts @ rest)) = Some (a, on p rest)) \<Longrightarrow> complete D S n f"
  by (simp add: complete_def)

lemma completeD:
  "complete D S n f \<Longrightarrow> D ts a \<Longrightarrow> \<not> is_panic p \<Longrightarrow> stops S rest \<Longrightarrow> length ts + length rest \<le> n \<Longrightarrow>
     f (on p (ts @ rest)) = Some (a, on p rest)"
  by (simp add: complete_def)

section \<open>First tokens\<close>

definition primary_first :: "TokenType set" where
  "primary_first = {TOKEN_NUMBER, TOKEN_STRING, TOKEN_CHAR_LITERAL, TOKEN_BOOL, TOKEN_LBRACE, TOKEN_IDENTIFIER, TOKEN_LPAREN}"

definition expr_first :: "TokenType set" where
  "expr_first = primary_first \<union> {TOKEN_AMPERSAND, TOKEN_STAR, TOKEN_BANG, TOKEN_MINUS}"

lemma unary_token: "unaryOpFromToken ty = Some u \<Longrightarrow> ty \<in> {TOKEN_AMPERSAND, TOKEN_STAR, TOKEN_BANG, TOKEN_MINUS}"
  by (cases ty) simp_all

lemma level_tokens: "k < 5 \<Longrightarrow> ty \<in> set (level_ops k) \<Longrightarrow>
    ty \<notin> {TOKEN_DOUBLE_COLON, TOKEN_EOF, TOKEN_LPAREN, TOKEN_LBRACKET, TOKEN_COMMA, TOKEN_SEMICOLON, TOKEN_RPAREN,
      TOKEN_RBRACKET, TOKEN_RBRACE, TOKEN_ASSIGN, TOKEN_PLUS_ASSIGN, TOKEN_MINUS_ASSIGN}"
  by (auto simp: level_ops_def less_Suc_eq eval_nat_numeral)

text \<open>A read expression starts with one of these tokens and has no \<^verbatim>\<open>::\<close> in it.\<close>

definition plain :: "Token list \<Rightarrow> bool" where
  "plain ts \<longleftrightarrow> (\<forall>t \<in> set ts. ttype t \<noteq> TOKEN_DOUBLE_COLON)"

lemma plain_simps [simp]:
  "plain []" "plain (t # ts) \<longleftrightarrow> ttype t \<noteq> TOKEN_DOUBLE_COLON \<and> plain ts" "plain (ts @ us) \<longleftrightarrow> plain ts \<and> plain us"
  by (auto simp: plain_def)

lemma level_plain: "k < 5 \<Longrightarrow> TOKEN_DOUBLE_COLON \<notin> set (level_ops k)"
  using level_tokens by blast

lemma read_shape:
  "expr k ts a \<Longrightarrow> plain ts \<and> (\<exists>t us. ts = t # us \<and> ttype t \<in> (if k = 6 then primary_first else expr_first))"
  "chain k a ts c \<Longrightarrow> k < 5 \<longrightarrow> plain ts"
  "suffixes a ts c \<Longrightarrow> plain ts"
  "more S ts xs \<Longrightarrow> TOKEN_DOUBLE_COLON \<notin> set S \<longrightarrow> plain ts"
proof (induction rule: expr_chain_suffixes_more.inducts)
  case (Level k ts a us c)
  then have "plain (ts @ us)" by simp
  moreover obtain t vs where "ts = t # vs" "ttype t \<in> expr_first"
    using Level.IH by (auto simp: expr_first_def split: if_splits)
  ultimately show ?case using Level.hyps by auto
next
  case (Unary t u ts a)
  then show ?case using unary_token [OF Unary.hyps(1)] by (auto simp: expr_first_def)
next
  case (Primary ts a)
  then show ?case by (auto simp: expr_first_def)
next
  case (Chain t k ts b a us c)
  then show ?case using level_plain [of k] by auto
qed (auto simp: primary_first_def)

lemma expr_starts: "expr k ts a \<Longrightarrow> \<exists>t us. ts = t # us \<and> ttype t \<in> expr_first"
  using read_shape(1) [of k ts a] by (auto simp: expr_first_def split: if_splits)

lemma primary_starts: "expr 6 ts a \<Longrightarrow> \<exists>t us. ts = t # us \<and> ttype t \<in> primary_first"
  using read_shape(1) [of 6 ts a] by simp

section \<open>Following tokens\<close>

text \<open>The tokens that continue an expression of a level.\<close>

definition continues :: "nat \<Rightarrow> TokenType set" where
  "continues k = (\<Union>j \<in> {k..<5}. set (level_ops j)) \<union> {TOKEN_LPAREN, TOKEN_LBRACKET}"

lemma continues_Suc:
  assumes "k < 5"
  shows "continues k = set (level_ops k) \<union> continues (Suc k)"
proof -
  have "{k..<5} = insert k {Suc k..<5}" using assms by auto
  then show ?thesis by (auto simp: continues_def)
qed

lemma level_apart: "k < 5 \<Longrightarrow> ty \<in> set (level_ops k) \<Longrightarrow> ty \<notin> continues (Suc k)"
  by (auto simp: continues_def level_ops_def less_Suc_eq eval_nat_numeral)

lemma closes: "continues k \<inter> {TOKEN_COMMA, TOKEN_SEMICOLON, TOKEN_RPAREN, TOKEN_RBRACKET, TOKEN_RBRACE, TOKEN_ASSIGN,
    TOKEN_PLUS_ASSIGN, TOKEN_MINUS_ASSIGN, TOKEN_EOF} = {}"
  using level_tokens by (fastforce simp: continues_def)

lemma continues_postfix: "{TOKEN_LPAREN, TOKEN_LBRACKET} \<subseteq> continues k"
  by (simp add: continues_def)

section \<open>Binary levels\<close>

lemma chain_cases:
  assumes "chain k a us c"
  obtains "us = []" "c = a"
  | t ts b vs where "us = t # ts @ vs" "ttype t \<in> set (level_ops k)" "expr (Suc k) ts b"
      "chain k (AST_BINARY (tloc t) (binaryOpFromToken (ttype t)) a b) vs c"
  using assms by (cases rule: chain.cases) blast+

lemma chain_starts: "chain k a us c \<Longrightarrow> us \<noteq> [] \<Longrightarrow> ttype (hd us) \<in> set (level_ops k)"
  by (erule chain_cases) simp_all

lemma chain_follows:
  assumes "k < 5" "chain k a us c" "stops (continues k) rest"
  shows "stops (continues (Suc k)) (us @ rest)"
proof (cases us)
  case Nil
  then show ?thesis using stops_less [OF assms(3)] continues_Suc [OF assms(1)] by simp
next
  case (Cons t ts)
  then show ?thesis using chain_starts [OF assms(2)] level_apart [OF assms(1)] by auto
qed

lemma loop_complete:
  assumes k: "k < 5" and f: "complete (expr (Suc k)) (continues (Suc k)) n operand"
  shows "chain k a us c \<Longrightarrow> \<not> is_panic p \<Longrightarrow> stops (continues k) rest \<Longrightarrow> length us + length rest \<le> n \<Longrightarrow>
    length us + length rest < m \<Longrightarrow>
    parseBinaryLoop m (level_ops k) operand a (on p (us @ rest)) = Some (c, on p rest)"
proof (induction m arbitrary: a us)
  case (Suc m)
  from Suc.prems(1) show ?case
  proof (cases rule: chain_cases)
    case 1
    have "\<not> parserIsAny (on p rest) (level_ops k)"
      using Suc.prems(3) continues_Suc [OF k] by (intro not_any_stops) (auto elim: stops_less)
    then show ?thesis using 1 by simp
  next
    case (2 t ts b vs)
    have "stops (continues (Suc k)) (vs @ rest)" by (rule chain_follows [OF k 2(4) Suc.prems(3)])
    then have "operand (on p (ts @ vs @ rest)) = Some (b, on p (vs @ rest))"
      using Suc.prems(4) 2(1) by (intro completeD [OF f 2(3) Suc.prems(2)]) simp_all
    moreover have "ttype t \<noteq> TOKEN_EOF" using level_tokens [OF k 2(2)] by simp
    ultimately show ?thesis using Suc.IH [OF 2(4) Suc.prems(2,3)] Suc.prems(4,5) 2(1,2) by simp
  qed
qed simp

lemma level_complete:
  assumes k: "k < 5" and f: "complete (expr (Suc k)) (continues (Suc k)) n operand"
  shows "complete (expr k) (continues k) n (parseBinary (level_ops k) operand)"
proof (rule completeI)
  fix p :: Parser and ts c rest
  assume e: "expr k ts c" and p: "\<not> is_panic p" and rest: "stops (continues k) rest" and l: "length ts + length rest \<le> n"
  from e k obtain us a vs where ts: "ts = us @ vs" "expr (Suc k) us a" "chain k a vs c"
    by (cases rule: expr.cases) auto
  have "operand (on p (us @ vs @ rest)) = Some (a, on p (vs @ rest))"
    using l ts(1) by (intro completeD [OF f ts(2) p chain_follows [OF k ts(3) rest]]) simp
  moreover have "parseBinaryLoop m (level_ops k) operand a (on p (vs @ rest)) = Some (c, on p rest)"
    if "length vs + length rest < m" for m
    using l ts(1) that by (intro loop_complete [OF k f ts(3) p rest]) simp_all
  ultimately show "parseBinary (level_ops k) operand (on p (ts @ rest)) = Some (c, on p rest)"
    unfolding parseBinary_def ts(1) by (simp del: parseBinaryLoop.simps)
qed

section \<open>Lists\<close>

lemma list_loop_complete:
  assumes pl: "complete D S n pl"
    and D: "\<And>ts a. D ts a \<Longrightarrow> a \<noteq> AST_NULL \<and> (\<exists>t us. ts = t # us \<and> (\<forall>p vs. \<not> stop (on p (t # vs))))"
    and M: "\<And>us ys. M us ys \<Longrightarrow> (us = [] \<and> ys = []) \<or>
        (\<exists>t ts x vs zs. us = t # ts @ vs \<and> ys = x # zs \<and> ttype t \<in> set seps \<and> D ts x \<and> M vs zs)"
    and apart: "set seps \<inter> S = {}"
  shows "M us ys \<Longrightarrow> \<not> is_panic p \<Longrightarrow> ttype r \<notin> set seps \<union> S \<Longrightarrow>
    vs = [] \<or> (\<exists>v. vs = [v] \<and> ttype v \<in> set seps \<and> stop (on p (r # rest))) \<Longrightarrow>
    length us + length vs + length rest \<le> n \<Longrightarrow> length us + length vs + length rest < m \<Longrightarrow>
    parseListLoop m seps stop pl xs (on p (us @ vs @ r # rest)) = Some (xs @ ys, on p (r # rest))"
proof (induction m arbitrary: us ys xs)
  case (Suc m)
  from M [OF Suc.prems(1)] show ?case
  proof (elim disjE exE conjE)
    assume "us = []" "ys = []"
    then show ?thesis using Suc.prems(3,4) by auto
  next
    fix t ts x ws zs
    assume us: "us = t # ts @ ws" "ys = x # zs" "ttype t \<in> set seps" "D ts x" "M ws zs"
    obtain h hs where h: "ts = h # hs" "\<And>p vs. \<not> stop (on p (h # vs))" using D [OF us(4)] by auto
    have "stops S (ws @ vs @ r # rest)"
    proof (cases ws)
      case Nil
      then show ?thesis using Suc.prems(3,4) apart by auto
    next
      case (Cons w ws')
      then have "ttype w \<in> set seps" using M [OF us(5)] by auto
      then show ?thesis using Cons apart by auto
    qed
    then have "pl (on p (ts @ ws @ vs @ r # rest)) = Some (x, on p (ws @ vs @ r # rest))"
      using Suc.prems(5) us(1) by (intro completeD [OF pl us(4) Suc.prems(2)]) auto
    moreover have "append_node xs x = xs @ [x]" using D [OF us(4)] by (simp add: append_node_def)
    moreover have "\<not> stop (on p (ts @ ws @ vs @ r # rest))" using h by simp
    ultimately show ?thesis
      using Suc.IH [OF us(5) Suc.prems(2-4), of "xs @ [x]"] Suc.prems(2,5,6) us(1-3) by (simp add: Let_def)
  qed
qed simp

lemma list_complete:
  assumes pl: "complete D S n pl"
    and D: "\<And>ts a. D ts a \<Longrightarrow> a \<noteq> AST_NULL \<and> (\<exists>t us. ts = t # us \<and> (\<forall>p vs. \<not> stop (on p (t # vs))))"
    and M: "\<And>us ys. M us ys \<Longrightarrow> (us = [] \<and> ys = []) \<or>
        (\<exists>t ts x vs zs. us = t # ts @ vs \<and> ys = x # zs \<and> ttype t \<in> set seps \<and> D ts x \<and> M vs zs)"
    and apart: "set seps \<inter> S = {}"
    and x: "D ts x" and ys: "M us ys" and p: "\<not> is_panic p" and r: "ttype r \<notin> set seps \<union> S"
    and vs: "vs = [] \<or> (\<exists>v. vs = [v] \<and> ttype v \<in> set seps \<and> stop (on p (r # rest)))"
    and l: "length ts + length us + length vs + Suc (length rest) \<le> n"
  shows "parseList seps stop pl (on p (ts @ us @ vs @ r # rest)) = Some (x # ys, False, on p (r # rest))"
proof -
  have "stops S (us @ vs @ r # rest)"
    using M [OF ys] vs r apart by auto
  then have "pl (on p (ts @ us @ vs @ r # rest)) = Some (x, on p (us @ vs @ r # rest))"
    using l by (intro completeD [OF pl x p]) auto
  moreover have "parseListLoop m seps stop pl [x] (on p (us @ vs @ r # rest)) = Some ([x] @ ys, on p (r # rest))"
    if "length us + length vs + length rest < m" for m
    using l that by (intro list_loop_complete [where D = D and M = M, OF pl D M apart ys p r vs]) simp_all
  moreover have "append_node [] x = [x]" using D [OF x] by (simp add: append_node_def)
  ultimately show ?thesis using p unfolding parseList_def by (simp add: Let_def del: parseListLoop.simps)
qed

lemma more_cases:
  "more S us ys \<Longrightarrow> (us = [] \<and> ys = []) \<or>
     (\<exists>t ts x vs zs. us = t # ts @ vs \<and> ys = x # zs \<and> ttype t \<in> set S \<and> expr 0 ts x \<and> more S vs zs)"
  by (erule more.cases) auto

lemma expr_element: "expr 0 ts a \<Longrightarrow> a \<noteq> AST_NULL \<and> (\<exists>t us. ts = t # us \<and> (\<forall>p vs. \<not> (parserIs (on p (t # vs)) TOKEN_RBRACE \<or> parserAtEnd (on p (t # vs)))))"
  and expr_argument: "expr 0 ts a \<Longrightarrow> a \<noteq> AST_NULL \<and> (\<exists>t us. ts = t # us \<and> (\<forall>p::Parser. \<forall>vs::Token list. \<not> False))"
  using read_not_null(1) [of 0 ts a] expr_starts [of 0 ts a] by (auto simp: expr_first_def primary_first_def)

section \<open>Primaries\<close>

text \<open>A recursive entry that is complete on fewer tokens.\<close>

locale complete_entry =
  fixes pl :: parse and bound :: nat
  assumes pl_complete: "complete (expr 0) (continues 0) bound pl"
begin

lemma closed_off: "expr 0 ts a \<Longrightarrow> \<not> is_panic p \<Longrightarrow> ttype r \<in> {TOKEN_RPAREN, TOKEN_RBRACKET, TOKEN_RBRACE} \<Longrightarrow>
    length ts + Suc (length rest) \<le> bound \<Longrightarrow> pl (on p (ts @ r # rest)) = Some (a, on p (r # rest))"
  using closes by (intro completeD [OF pl_complete]) auto

lemma args_complete:
  assumes a: "args_read us xs" and p: "\<not> is_panic p" and r: "ttype r = TOKEN_RPAREN" and l: "length us + Suc (length rest) \<le> bound"
  shows "parseCallArgs pl (on p (us @ r # rest)) = Some (xs, False, on p (r # rest))"
  using a unfolding args_read_def
proof (elim disjE conjE)
  assume "us = []" "xs = []"
  then show ?thesis using r by (simp add: parseCallArgs_def)
next
  assume "elements_read (expr 0) (more [TOKEN_COMMA]) [TOKEN_COMMA] False us xs"
  then obtain ts ws x ys where k: "us = ts @ ws" "xs = x # ys" "expr 0 ts x" "more [TOKEN_COMMA] ws ys"
    by (auto simp: elements_read_def trailing_def)
  have "ttype r \<notin> set [TOKEN_COMMA] \<union> continues 0" "set [TOKEN_COMMA] \<inter> continues 0 = {}" using r closes by auto
  note list_complete [OF pl_complete expr_argument more_cases this(2) k(3,4) p this(1), where vs = "[]" and rest = rest]
  then have "parseList [TOKEN_COMMA] (\<lambda>p. False) pl (on p (us @ r # rest)) = Some (xs, False, on p (r # rest))"
    using l k(1,2) by simp
  moreover obtain h hs where "us = h # hs" "ttype h \<in> expr_first" using expr_starts [OF k(3)] k(1) by auto
  ultimately show ?thesis by (auto simp: parseCallArgs_def expr_first_def primary_first_def)
qed

lemma suffixes_cases:
  assumes "suffixes a us c"
  obtains "us = []" "c = a"
  | l ts xs r vs where "us = l # ts @ r # vs" "ttype l = TOKEN_LPAREN" "args_read ts xs" "ttype r = TOKEN_RPAREN"
      "suffixes (AST_CALL (ast_loc a) a xs) vs c"
  | l ts x r vs where "us = l # ts @ r # vs" "ttype l = TOKEN_LBRACKET" "expr 0 ts x" "ttype r = TOKEN_RBRACKET"
      "suffixes (AST_ARRAY_ACCESS (ast_loc a) a [x]) vs c"
proof -
  from assms show thesis
  proof (cases rule: suffixes.cases)
    case (EmptyCall l r vs)
    then show ?thesis using that(2) [of l "[]" r vs "[]"] by (simp add: args_read_def)
  next
    case (Call l ts x ws xs r vs)
    have "args_read (ts @ ws) (x # xs)"
      unfolding args_read_def elements_read_def trailing_def using Call(3,4)
      by (intro disjI2 exI [of _ ts] exI [of _ ws] exI [of _ "[]"] exI [of _ x] exI [of _ xs]) simp
    then show ?thesis using that(2) [of l "ts @ ws" r vs "x # xs"] Call by simp
  qed (use that(1,3) in blast)+
qed

lemma postfix_complete:
  "suffixes a us c \<Longrightarrow> \<not> is_panic p \<Longrightarrow> stops {TOKEN_LPAREN, TOKEN_LBRACKET} rest \<Longrightarrow>
   length us + length rest \<le> Suc bound \<Longrightarrow> length us + length rest < m \<Longrightarrow>
   parsePostfix m pl a (on p (us @ rest)) = Some (c, on p rest)"
proof (induction m arbitrary: a us)
  case (Suc m)
  from Suc.prems(1) show ?case
  proof (cases rule: suffixes_cases)
    case 1
    then show ?thesis using Suc.prems(3) by (cases rest) auto
  next
    case (2 l ts xs r vs)
    have "parseCallArgs pl (on p (ts @ r # vs @ rest)) = Some (xs, False, on p (r # vs @ rest))"
      using Suc.prems(4) 2(1) by (intro args_complete [OF 2(3) Suc.prems(2) 2(4)]) simp
    moreover have "parsePostfix m pl (AST_CALL (ast_loc a) a xs) (on p (vs @ rest)) = Some (c, on p rest)"
      using Suc.prems 2(1) by (intro Suc.IH [OF 2(5)]) simp_all
    ultimately show ?thesis using 2(1,2,4) by (simp add: Let_def)
  next
    case (3 l ts x r vs)
    have "pl (on p (ts @ r # vs @ rest)) = Some (x, on p (r # vs @ rest))"
      using Suc.prems(4) 3(1,4) by (intro closed_off [OF 3(3) Suc.prems(2)]) simp_all
    moreover have "parsePostfix m pl (AST_ARRAY_ACCESS (ast_loc a) a [x]) (on p (vs @ rest)) = Some (c, on p rest)"
      using Suc.prems 3(1) by (intro Suc.IH [OF 3(5)]) simp_all
    moreover have "append_node [] x = [x]" using read_not_null(1) [OF 3(3)] by (simp add: append_node_def)
    ultimately show ?thesis using 3(1,2,4) Suc.prems(2) by (simp add: Let_def)
  qed
qed simp

lemma array_complete:
  assumes l: "ttype l = TOKEN_LBRACE" and r: "ttype r = TOKEN_RBRACE" and p: "\<not> is_panic p"
    and b: "length us + Suc (length rest) \<le> bound"
    and a: "(us = [] \<and> xs = []) \<or> elements_read (expr 0) (more [TOKEN_COMMA, TOKEN_SEMICOLON]) [TOKEN_COMMA, TOKEN_SEMICOLON] True us xs"
  shows "parseArrayLiteral pl (on p (l # us @ r # rest)) = Some (AST_ARRAY_LITERAL (tloc l) xs, on p rest)"
  using a
proof (elim disjE conjE)
  assume "us = []" "xs = []"
  then show ?thesis using l r by (simp add: parseArrayLiteral_def)
next
  let ?S = "[TOKEN_COMMA, TOKEN_SEMICOLON]"
  let ?stop = "\<lambda>p. parserIs p TOKEN_RBRACE \<or> parserAtEnd p"
  assume "elements_read (expr 0) (more ?S) ?S True us xs"
  then obtain ts ws vs x ys where k: "us = ts @ ws @ vs" "xs = x # ys" "expr 0 ts x" "more ?S ws ys"
    "trailing ?S True vs"
    by (auto simp: elements_read_def)
  have sep: "vs = [] \<or> (\<exists>v. vs = [v] \<and> ttype v \<in> set ?S)" using k(5) by (auto simp: trailing_def)
  have "ttype r \<notin> set ?S \<union> continues 0" "set ?S \<inter> continues 0 = {}" using r closes by auto
  note list_complete [OF pl_complete expr_element more_cases this(2) k(3,4) p this(1), where vs = vs and rest = rest]
  then have "parseList ?S ?stop pl (on p (us @ r # rest)) = Some (xs, False, on p (r # rest))"
    using b k(1,2) sep r by simp
  moreover obtain h hs where "us = h # hs" "ttype h \<in> expr_first" using expr_starts [OF k(3)] k(1) by auto
  ultimately show ?thesis
    using l r by (auto simp: parseArrayLiteral_def expr_first_def primary_first_def)
qed

lemma factor_complete: "complete (expr 6) (continues 5) (Suc bound) (parseFactor pl)"
proof (rule completeI)
  fix p :: Parser and ts a rest
  assume e: "expr 6 ts a" and p: "\<not> is_panic p" and rest: "stops (continues 5) rest" and n: "length ts + length rest \<le> Suc bound"
  have array: "parseFactor pl (on p (l # us @ r # rest)) = Some (AST_ARRAY_LITERAL (tloc l) xs, on p rest)"
    if "ttype l = TOKEN_LBRACE" "ttype r = TOKEN_RBRACE" "length us + Suc (length rest) \<le> bound"
      "(us = [] \<and> xs = []) \<or> elements_read (expr 0) (more [TOKEN_COMMA, TOKEN_SEMICOLON]) [TOKEN_COMMA, TOKEN_SEMICOLON] True us xs"
    for l us r xs
    using array_complete [OF that(1,2) p that(3,4)] that(1) by (simp add: parseFactor_def)
  from e show "parseFactor pl (on p (ts @ rest)) = Some (a, on p rest)"
  proof (cases rule: expr.cases)
    case (NoElements l r)
    then show ?thesis using array [of l r "[]" "[]"] n by simp
  next
    case (Elements l us x ws xs vs r)
    have "elements_read (expr 0) (more [TOKEN_COMMA, TOKEN_SEMICOLON]) [TOKEN_COMMA, TOKEN_SEMICOLON] True (us @ ws @ vs) (x # xs)"
      unfolding elements_read_def trailing_def using Elements(4-6)
      by (intro exI [of _ us] exI [of _ ws] exI [of _ vs] exI [of _ x] exI [of _ xs]) auto
    then show ?thesis using array [of l r "us @ ws @ vs" "x # xs"] Elements(1-3,7) n by simp
  next
    case (Postfix t us)
    have "stops {TOKEN_LPAREN, TOKEN_LBRACKET} rest" by (rule stops_less [OF rest continues_postfix])
    then have "parsePostfix (Suc (length us + length rest)) pl (AST_IDENTIFIER (tloc t) (tvalue t)) (on p (us @ rest)) = Some (a, on p rest)"
      using Postfix(1) n by (intro postfix_complete [OF Postfix(3) p]) simp_all
    then show ?thesis using Postfix by (simp add: parseFactor_def Let_def del: parsePostfix.simps)
  next
    case (Group l us r)
    have "pl (on p (us @ r # rest)) = Some (a, on p (r # rest))"
      using Group(1,4) n by (intro closed_off [OF Group(3) p]) simp_all
    then show ?thesis using Group p by (simp add: parseFactor_def Let_def)
  qed (simp_all add: parseFactor_def number_node_def)
qed

lemma negation_complete: "complete (expr 5) (continues 5) (Suc bound) (parseNegation pl)"
proof (rule completeI)
  fix p :: Parser and ts a rest
  assume e: "expr 5 ts a" and p: "\<not> is_panic p" and rest: "stops (continues 5) rest" and n: "length ts + length rest \<le> Suc bound"
  from e n show "parseNegation pl (on p (ts @ rest)) = Some (a, on p rest)"
  proof (induction ts arbitrary: a)
    case Nil
    then show ?case using expr_starts by blast
  next
    case (Cons t us)
    from Cons.prems(1) show ?case
    proof (cases rule: expr.cases)
      case (Unary u b)
      then show ?thesis using Cons.IH [of b] Cons.prems(2) by (simp add: parseNegation.simps [of pl "on p (t # us @ rest)"])
    next
      case Primary
      then have "unaryOpFromToken (ttype t) = None"
        using primary_starts unary_token by (fastforce simp: primary_first_def)
      then show ?thesis using completeD [OF factor_complete Primary p rest Cons.prems(2)]
        by (simp add: parseNegation.simps [of pl "on p (t # us @ rest)"])
    qed simp_all
  qed
qed

lemma logical_level_complete: "complete (expr 0) (continues 0) (Suc bound) (parseLogicalLevel pl)"
proof -
  have step: "complete (expr k) (continues k) n (parseBinary (level_ops k) f)"
    if "k < 5" "j = Suc k" "complete (expr j) (continues j) n f" for k j n f
    using level_complete that by simp
  show ?thesis
    unfolding levels
    by (rule step [where j = 1], simp, simp, rule step [where j = 2], simp, simp, rule step [where j = 3], simp, simp,
        rule step [where j = 4], simp, simp, rule step [where j = 5], simp, simp, rule negation_complete)
qed

end

lemma fuel_complete: "complete (expr 0) (continues 0) n (parseLogicalFuel (Suc n))"
proof (induction n)
  case 0
  show ?case using expr_starts by (fastforce simp: complete_def)
next
  case (Suc n)
  then have "complete_entry (parseLogicalFuel (Suc n)) n" by unfold_locales
  from complete_entry.logical_level_complete [OF this]
  show ?case by (simp add: complete_def)
qed

interpretation fuel_entry: complete_entry "parseLogicalFuel (Suc n)" n for n
  by unfold_locales (rule fuel_complete)

lemma logical_complete: "complete (expr 0) (continues 0) n parseLogical"
  unfolding parseLogical_def
  by (rule completeI) (simp del: parseLogicalFuel.simps, rule completeD [OF fuel_complete], simp_all)

end
