(* ===== verification/GrammarStmtSound.thy ===== *)
theory GrammarStmtSound
  imports GrammarSound
begin

text \<open>
  Statements, declarations and programs: what the parser accepts is in the grammar.
\<close>

section \<open>The steps of the code's sequences\<close>

abbreviation tree :: "Parser \<Rightarrow> (Token list \<Rightarrow> ast \<Rightarrow> bool) \<Rightarrow> ast \<times> Parser \<Rightarrow> bool" where
  "tree p E \<equiv> (\<lambda>(a, q). reads p (\<lambda>ts. E ts a) q)"

lemma panic_sound: "reads p D q \<Longrightarrow> yields k (tree p E) \<Longrightarrow> yields (if is_panic q then Some (a, q) else k) (tree p E)"
  by (auto intro: reads_early)

lemma expect_sound:
  assumes q: "reads p D q" and D: "\<And>us t. D us \<Longrightarrow> ttype t = ty \<Longrightarrow> D' (us @ [t])"
    and k: "\<And>r. reads p D' r \<Longrightarrow> yields (k r) (tree p E)"
  shows "yields (expect_or q ty m node k) (tree p E)"
proof -
  have "reads p D' (snd (parserExpect q ty m))" by (rule reads_mono [OF reads_then [OF q]]) (use D in blast)
  then show ?thesis unfolding expect_or_def Let_def using k panic_sound by blast
qed

lemma parse_sound:
  assumes q: "reads p D q" and f: "yields m (tree q C)" and D: "\<And>a us vs. D us \<Longrightarrow> C vs a \<Longrightarrow> D' a (us @ vs)"
    and k: "\<And>a r. reads p (D' a) r \<Longrightarrow> yields (k a r) Q"
  shows "yields (m \<bind> (\<lambda>(a, r). k a r)) Q"
proof (rule yields_pair_bind [OF f])
  fix a r assume a: "reads q (\<lambda>ts. C ts a) r"
  have "reads p (D' a) r" by (rule reads_trans [OF q a]) (rule D)
  then show "yields (k a r) Q" by (rule k)
qed

lemma token_parse_sound:
  assumes q: "reads p D q" and t: "current q = t # us" and f: "yields m (tree (parserAdvance q) C)"
    and k: "\<And>a r. reads p (\<lambda>ts. \<exists>us vs. ts = us @ t # vs \<and> D us \<and> C vs a) r \<Longrightarrow> yields (k a r) Q"
  shows "yields (m \<bind> (\<lambda>(a, r). k a r)) Q"
proof (rule parse_sound [OF reads_trans [OF q reads_token [OF t], where F = "\<lambda>ts. \<exists>us. ts = us @ [t] \<and> D us"] f])
  show "D us \<Longrightarrow> vs = [t] \<Longrightarrow> \<exists>us'. us @ vs = us' @ [t] \<and> D us'" for us vs by blast
  show "\<exists>us'. us = us' @ [t] \<and> D us' \<Longrightarrow> C vs a \<Longrightarrow> \<exists>us' vs'. us @ vs = us' @ t # vs' \<and> D us' \<and> C vs' a" for a us vs
    by (metis append_Cons append_assoc self_append_conv2)
qed (rule k)

lemma sound_return: "reads p D q \<Longrightarrow> (\<And>ts. D ts \<Longrightarrow> E ts a) \<Longrightarrow> yields (Some (a, q)) (tree p E)"
  by (auto elim: reads_mono)

lemma sound_mono: "yields m (tree p D) \<Longrightarrow> (\<And>ts a. D ts a \<Longrightarrow> E ts a) \<Longrightarrow> yields m (tree p E)"
  by (erule yields_pair_mono) (auto elim: reads_mono)

lemmas logical_step = soundD [OF logical_sound]

section \<open>Simple statements\<close>

lemma declaration_start: "isDeclarationStart p \<Longrightarrow> \<exists>n c ts. current p = n # c # ts \<and> ttype n = TOKEN_IDENTIFIER \<and> ttype c = TOKEN_DOUBLE_COLON"
  by (auto simp: isDeclarationStart_def split: list.splits)

lemma declaration_sound:
  assumes "isDeclarationStart p"
  shows "yields (parseDeclaration p) (tree p decl)"
proof -
  obtain n c ts where n: "current p = n # c # ts" "ttype n = TOKEN_IDENTIFIER" "ttype c = TOKEN_DOUBLE_COLON"
    using declaration_start [OF assms] by blast
  note node = current_node [OF n(1)]
  let ?q = "snd (parserExpect (parserAdvance p) TOKEN_DOUBLE_COLON ''expected '::' after declaration name'')"
  have q: "reads p (\<lambda>ts. \<exists>c. ts = [n, c] \<and> ttype c = TOKEN_DOUBLE_COLON) ?q"
    by (rule reads_mono [OF reads_then [OF reads_token [OF n(1)]]]) auto
  have "yields (if is_panic ?q then Some (AST_VAR_DECL (tloc n) (tvalue n) AST_NULL AST_NULL, ?q)
      else parseType ?q \<bind> (\<lambda>(t, r). if is_panic r then Some (AST_VAR_DECL (tloc n) (tvalue n) t AST_NULL, r)
        else if parserIs r TOKEN_ASSIGN then
          parseLogical (parserAdvance r) \<bind> (\<lambda>(i, r). Some (AST_VAR_DECL (tloc n) (tvalue n) t i, r))
        else Some (AST_VAR_DECL (tloc n) (tvalue n) t AST_NULL, r))) (tree p decl)"
  proof (rule panic_sound [OF q], rule parse_sound [OF q type_sound(1)])
    let ?T = "\<lambda>t ts. \<exists>c us. ts = n # c # us \<and> ttype c = TOKEN_DOUBLE_COLON \<and> type_read us t"
    show "\<exists>c. us = [n, c] \<and> ttype c = TOKEN_DOUBLE_COLON \<Longrightarrow> type_read vs t \<Longrightarrow> ?T t (us @ vs)" for t us vs by auto
    fix t r assume r: "reads p (?T t) r"
    have "yields (Some (AST_VAR_DECL (tloc n) (tvalue n) t AST_NULL, r)) (tree p decl)"
      by (rule sound_return [OF r]) (use Uninitialized [OF n(2)] in auto)
    moreover have "yields (parseLogical (parserAdvance r) \<bind> (\<lambda>(i, r). Some (AST_VAR_DECL (tloc n) (tvalue n) t i, r))) (tree p decl)"
      if assign: "parserIs r TOKEN_ASSIGN"
    proof -
      obtain e vs where e: "current r = e # vs" "ttype e = TOKEN_ASSIGN" using parserIs_Cons [OF assign] by blast
      show ?thesis
      proof (rule token_parse_sound [OF r e(1) logical_step])
        fix i s assume "reads p (\<lambda>ts. \<exists>us vs. ts = us @ e # vs \<and> ?T t us \<and> expr 0 vs i) s"
        then show "yields (Some (AST_VAR_DECL (tloc n) (tvalue n) t i, s)) (tree p decl)"
          by (rule sound_return) (use Initialized [OF n(2)] e(2) in auto)
      qed
    qed
    ultimately show "yields (if is_panic r then Some (AST_VAR_DECL (tloc n) (tvalue n) t AST_NULL, r)
        else if parserIs r TOKEN_ASSIGN then
          parseLogical (parserAdvance r) \<bind> (\<lambda>(i, r). Some (AST_VAR_DECL (tloc n) (tvalue n) t i, r))
        else Some (AST_VAR_DECL (tloc n) (tvalue n) t AST_NULL, r)) (tree p decl)"
      using panic_sound [OF r] by simp
  qed
  then show ?thesis unfolding parseDeclaration_def Let_def by (simp only: node)
qed

lemma assign_sound: "yields (parseAssign p) (tree p loose)"
proof (cases "isDeclarationStart p")
  case True
  then show ?thesis using yields_pair_mono [OF declaration_sound [OF True]]
    by (simp add: parseAssign_def) (rule yields_pair_mono [OF declaration_sound [OF True]], auto elim: reads_mono intro: Declaration)
next
  case False
  let ?ops = "[TOKEN_ASSIGN, TOKEN_PLUS_ASSIGN, TOKEN_MINUS_ASSIGN]"
  show ?thesis
    unfolding parseAssign_def if_not_P [OF False]
  proof (rule yields_pair_bind [OF logical_step])
    fix a q assume a: "reads p (\<lambda>ts. expr 0 ts a) q"
    have plain: "yields (Some (a, q)) (tree p loose)" by (rule sound_return [OF a]) (rule Expression)
    have bad: "yields (Some (AST_NULL, parserSyntaxError q tok m)) (tree p loose)" for tok m
      using reads_error_after [OF a] by simp
    have good: "yields (parseLogical (parserAdvance q) \<bind> (\<lambda>(val, r).
        Some (AST_ASSIGN (current_loc q) (assignOpFromToken (currentType q)) a val, r))) (tree p loose)"
      if target: "isAssignableTarget a" and op: "parserIsAny q ?ops"
    proof -
      obtain t us where t: "current q = t # us" "ttype t \<in> {TOKEN_ASSIGN, TOKEN_PLUS_ASSIGN, TOKEN_MINUS_ASSIGN}"
        using parserIsAny_Cons [OF op] by auto
      show ?thesis
      proof (rule token_parse_sound [OF a t(1) logical_step])
        fix v r assume "reads p (\<lambda>ts. \<exists>us vs. ts = us @ t # vs \<and> expr 0 us a \<and> expr 0 vs v) r"
        then show "yields (Some (AST_ASSIGN (current_loc q) (assignOpFromToken (currentType q)) a v, r)) (tree p loose)"
          by (rule sound_return) (use Assignment [OF _ target t(2)] current_node [OF t(1)] in auto)
      qed
    qed
    from plain bad good show "yields (if is_panic q \<or> a = AST_NULL then Some (a, q)
       else if \<not> parserAtEnd q \<and> parserIsAny q ?ops
       then if \<not> isAssignableTarget a
            then Some (AST_NULL, parserSyntaxError q (current_token q) ''invalid assignment target'')
            else parseLogical (parserAdvance q) \<bind> (\<lambda>(val, p').
              Some (AST_ASSIGN (current_loc q) (assignOpFromToken (currentType q)) a val, p'))
       else Some (a, q)) (tree p loose)" by simp
  qed
qed

lemma return_sound: "yields (parseReturn p) (tree p simple)"
proof (cases "parserIs p TOKEN_KW_RET")
  case False
  then show ?thesis unfolding parseReturn_def if_not_P [OF False]
    by (rule_tac yields_pair_mono [OF assign_sound]) (auto elim: reads_mono intro: Loose)
next
  case True
  then obtain t us where t: "current p = t # us" "ttype t = TOKEN_KW_RET" using parserIs_Cons by blast
  have "yields (Some (AST_RETURN (tloc t) AST_NULL, parserAdvance p)) (tree p simple)"
    by (rule sound_return [OF reads_token [OF t(1)]]) (use Return [OF t(2), of "[]" AST_NULL] in \<open>simp add: size_read_def\<close>)
  moreover have "yields (parseLogical (parserAdvance p) \<bind> (\<lambda>(v, p). Some (AST_RETURN (tloc t) v, p))) (tree p simple)"
  proof (rule parse_sound [OF reads_token [OF t(1)] logical_step])
    show "us = [t] \<Longrightarrow> expr 0 vs v \<Longrightarrow> simple (us @ vs) (AST_RETURN (tloc t) v)" for v us vs
      using Return [OF t(2)] by (simp add: size_read_def)
    show "reads p (\<lambda>ts. simple ts (AST_RETURN (tloc t) v)) r \<Longrightarrow> yields (Some (AST_RETURN (tloc t) v, r)) (tree p simple)" for v r
      by simp
  qed
  ultimately show ?thesis using True current_node [OF t(1)] by (simp add: parseReturn_def Let_def)
qed

lemma loop_control_sound: "yields (parseLoopControl p) (tree p simple)"
proof -
  have one: "yields (Some (c (current_loc p), parserAdvance p)) (tree p simple)"
    if ty: "parserIs p ty" and c: "\<And>t. ttype t = ty \<Longrightarrow> simple [t] (c (tloc t))" for ty c
  proof -
    obtain t us where t: "current p = t # us" "ttype t = ty" using parserIs_Cons [OF ty] by blast
    show ?thesis by (rule sound_return [OF reads_token [OF t(1)]]) (use c [OF t(2)] current_node [OF t(1)] in simp)
  qed
  show ?thesis unfolding parseLoopControl_def
    using one [of TOKEN_KW_BREAK AST_BREAK] one [of TOKEN_KW_CONTINUE AST_CONTINUE] Break Continue return_sound [of p] by simp
qed

lemma loose_not_null: "loose ts a \<Longrightarrow> a \<noteq> AST_NULL"
  by (auto elim!: loose.cases decl.cases dest: read_not_null(1))

lemma simple_not_null: "simple ts a \<Longrightarrow> a \<noteq> AST_NULL"
  by (auto elim!: simple.cases dest: loose_not_null)

lemma simple_statement_sound: "yields (parseSimpleStatement p) (tree p stmt)"
  unfolding parseSimpleStatement_def
proof (rule yields_pair_bind [OF loop_control_sound])
  fix a q assume a: "reads p (\<lambda>ts. simple ts a) q"
  have early: "yields (Some (AST_NULL, q)) (tree p stmt)" if "is_panic q \<or> a = AST_NULL"
  proof (cases "is_panic q")
    case True
    then show ?thesis using reads_early [OF a] by simp
  next
    case False
    then have "reads p (\<lambda>ts. stmt ts AST_NULL) q" using a that simple_not_null unfolding reads_def by blast
    then show ?thesis by simp
  qed
  have e: "reads p (\<lambda>ts. stmt ts (if stands_alone a then a else AST_EXPR_STMT (ast_loc a) a)) (snd (parserExpect q TOKEN_SEMICOLON m))" for m
    by (rule reads_mono [OF reads_then [OF a]]) (use Simple in blast)
  show "yields (if is_panic q \<or> a = AST_NULL then Some (AST_NULL, q)
      else let (ok, p) = parserExpect q TOKEN_SEMICOLON ''expected ';' after statement''
           in if \<not> ok then Some (AST_NULL, p)
              else if stands_alone a then Some (a, p) else Some (AST_EXPR_STMT (ast_loc a) a, p)) (tree p stmt)"
  proof (cases "parserIs q TOKEN_SEMICOLON")
    case True
    then show ?thesis using early e by (auto simp: expect_ok)
  next
    case False
    then show ?thesis using early reads_error_after [OF a] by (simp add: expect_bad)
  qed
qed

section \<open>Functions\<close>

lemma parameter_sound: "sound parameter parseParameter"
proof (rule soundI)
  fix p show "yields (parseParameter p) (tree p parameter)"
  proof (cases "parserIs p TOKEN_IDENTIFIER")
    case False
    then show ?thesis by (simp add: parseParameter_def Let_def)
  next
    case True
    then obtain n us where n: "current p = n # us" "ttype n = TOKEN_IDENTIFIER" using parserIs_Cons by blast
    have "yields (expect_or (parserAdvance p) TOKEN_DOUBLE_COLON m (AST_PARAM (tloc n) (tvalue n) AST_NULL) (\<lambda>p.
        do { (t, p) \<leftarrow> parseType p; Some (AST_PARAM (tloc n) (tvalue n) t, p) })) (tree p parameter)" for m
    proof (rule expect_sound [OF reads_token [OF n(1)]])
      let ?D = "\<lambda>ts. \<exists>c. ts = [n, c] \<and> ttype c = TOKEN_DOUBLE_COLON"
      show "us = [n] \<Longrightarrow> ttype c = TOKEN_DOUBLE_COLON \<Longrightarrow> ?D (us @ [c])" for us c by simp
      fix r assume r: "reads p ?D r"
      show "yields (parseType r \<bind> (\<lambda>(t, p). Some (AST_PARAM (tloc n) (tvalue n) t, p))) (tree p parameter)"
        by (rule parse_sound [OF r type_sound(1), where D' = "\<lambda>t ts. parameter ts (AST_PARAM (tloc n) (tvalue n) t)"])
          (use Parameter [OF n(2)] in auto)
    qed
    then show ?thesis using True current_node [OF n(1)] by (simp add: parseParameter_def Let_def)
  qed
qed

lemma parameter_not_null: "parameter ts a \<Longrightarrow> a \<noteq> AST_NULL"
  by (auto elim: parameter.cases)

lemma parameters_sound:
  "yields (parseParams p) (\<lambda>(xs, ret, q). (ret \<longrightarrow> is_panic q) \<and> reads p (\<lambda>ts. parameters ts xs) q)"
proof (cases "parserIs p TOKEN_RPAREN")
  case True
  have "reads p (\<lambda>ts. parameters ts []) p" by (rule reads_mono [OF reads_none]) (simp add: NoParams)
  then show ?thesis using True by (simp add: parseParams_def)
next
  case False
  have "yields (parseList [TOKEN_COMMA] (\<lambda>p. False) parseParameter p) (\<lambda>(xs, ret, q). (ret \<longrightarrow> is_panic q)
      \<and> reads p (\<lambda>ts. elements_read parameter more_params [TOKEN_COMMA] False ts xs) q)"
    by (rule list_sound [OF parameter_sound parameter_not_null LastParam NextParam]) simp_all
  moreover have "elements_read parameter more_params [TOKEN_COMMA] False ts xs \<Longrightarrow> parameters ts xs" for ts xs
    by (auto simp: elements_read_def trailing_def intro: Params)
  ultimately show ?thesis using False unfolding parseParams_def by (auto elim!: yields_mono reads_mono)
qed

lemma signature_sound:
  assumes f: "reads p F q"
    and k: "\<And>x ps t r. reads p (\<lambda>ts. \<exists>us vs. ts = us @ vs \<and> F us \<and> signature vs x ps t) r \<Longrightarrow> yields (k x ps t r) (tree p E)"
  shows "yields (parseSignature l ext k q) (tree p E)"
proof (cases "parserIs q TOKEN_IDENTIFIER")
  case False
  then show ?thesis using reads_error_after [OF f] by (simp add: parseSignature_def Let_def)
next
  case True
  then obtain n us where n: "current q = n # us" "ttype n = TOKEN_IDENTIFIER" using parserIs_Cons by blast
  let ?node = "\<lambda>ps r. AST_FUNC_DECL l (tvalue n) ps AST_NULL r ext"
  have q: "reads p (\<lambda>ts. \<exists>us. ts = us @ [n] \<and> F us) (parserAdvance q)"
    by (rule reads_trans [OF f reads_token [OF n(1)]]) blast
  let ?L = "\<lambda>ts. \<exists>us l. ts = us @ [n, l] \<and> F us \<and> ttype l = TOKEN_LPAREN"
  let ?P = "\<lambda>ps ts. \<exists>us l vs. ts = us @ n # l # vs \<and> F us \<and> ttype l = TOKEN_LPAREN \<and> parameters vs ps"
  let ?R = "\<lambda>ps ts. \<exists>us l vs r. ts = us @ n # l # vs @ [r] \<and> F us \<and> ttype l = TOKEN_LPAREN \<and> parameters vs ps \<and> ttype r = TOKEN_RPAREN"
  let ?W = "\<lambda>ps ts. \<exists>us l vs r w. ts = us @ n # l # vs @ [r, w] \<and> F us \<and> ttype l = TOKEN_LPAREN \<and> parameters vs ps
      \<and> ttype r = TOKEN_RPAREN \<and> ttype w = TOKEN_ARROW"
  have types: "yields (parseType s \<bind> (\<lambda>(t, r). if is_panic r then Some (?node ps t, r) else k (tvalue n) ps t r)) (tree p E)"
    if s: "reads p (?W ps) s" for ps s
  proof (rule parse_sound [OF s type_sound(1)])
    let ?S = "\<lambda>t ts. \<exists>us vs. ts = us @ vs \<and> F us \<and> signature vs (tvalue n) ps t"
    show "?W ps us \<Longrightarrow> type_read vs t \<Longrightarrow> ?S t (us @ vs)" for t us vs
      using Signature [OF n(2)] by fastforce
    show "reads p (?S t) r \<Longrightarrow> yields (if is_panic r then Some (?node ps t, r) else k (tvalue n) ps t r) (tree p E)" for t r
      using panic_sound k by blast
  qed
  have "yields (expect_or (parserAdvance q) TOKEN_LPAREN m1 (?node [] AST_NULL) (\<lambda>p.
      do { (params, ret, p) \<leftarrow> parseParams p;
           if ret then Some (?node params AST_NULL, p)
           else expect_or p TOKEN_RPAREN m2 (?node params AST_NULL) (\<lambda>p.
                expect_or p TOKEN_ARROW m3 (?node params AST_NULL) (\<lambda>p.
                do { (t, p) \<leftarrow> parseType p;
                     if is_panic p then Some (?node params t, p) else k (tvalue n) params t p })) })) (tree p E)" for m1 m2 m3
  proof (rule expect_sound [OF q])
    show "\<exists>us'. us = us' @ [n] \<and> F us' \<Longrightarrow> ttype l = TOKEN_LPAREN \<Longrightarrow> ?L (us @ [l])" for us l by auto
    fix s assume s: "reads p ?L s"
    show "yields (parseParams s \<bind> (\<lambda>(params, ret, p).
           if ret then Some (?node params AST_NULL, p)
           else expect_or p TOKEN_RPAREN m2 (?node params AST_NULL) (\<lambda>p.
                expect_or p TOKEN_ARROW m3 (?node params AST_NULL) (\<lambda>p.
                do { (t, p) \<leftarrow> parseType p;
                     if is_panic p then Some (?node params t, p) else k (tvalue n) params t p })))) (tree p E)"
    proof (rule yields_bind [OF parameters_sound], clarify)
      fix ps ret u assume ret: "ret \<longrightarrow> is_panic u" and ps: "reads s (\<lambda>ts. parameters ts ps) u"
      have u: "reads p (?P ps) u" by (rule reads_trans [OF s ps]) force
      have "yields (expect_or u TOKEN_RPAREN m2 (?node ps AST_NULL) (\<lambda>p.
                expect_or p TOKEN_ARROW m3 (?node ps AST_NULL) (\<lambda>p.
                do { (t, p) \<leftarrow> parseType p;
                     if is_panic p then Some (?node ps t, p) else k (tvalue n) ps t p }))) (tree p E)"
      proof (rule expect_sound [OF u], rule_tac [2] expect_sound [where D = "?R ps"])
        show "?P ps us \<Longrightarrow> ttype r = TOKEN_RPAREN \<Longrightarrow> ?R ps (us @ [r])" for us r by fastforce
        show "?R ps us \<Longrightarrow> ttype r = TOKEN_ARROW \<Longrightarrow> ?W ps (us @ [r])" for us r by fastforce
      qed (assumption, rule types)
      then show "yields (if ret then Some (?node ps AST_NULL, u)
          else expect_or u TOKEN_RPAREN m2 (?node ps AST_NULL) (\<lambda>p.
                expect_or p TOKEN_ARROW m3 (?node ps AST_NULL) (\<lambda>p.
                do { (t, p) \<leftarrow> parseType p;
                     if is_panic p then Some (?node ps t, p) else k (tvalue n) ps t p }))) (tree p E)"
        using ret reads_early [OF u] by simp
    qed
  qed
  then show ?thesis using True current_node [OF n(1)] by (simp only: parseSignature_def Let_def not_True_eq_False if_False)
qed

section \<open>Compound statements\<close>

lemma snocI: "P us \<Longrightarrow> ttype t = ty \<Longrightarrow> \<exists>us' s. us @ [t] = us' @ [s] \<and> P us' \<and> ttype s = ty"
  and joinI: "P us \<Longrightarrow> C vs \<Longrightarrow> \<exists>us' ts. us @ vs = us' @ ts \<and> P us' \<and> C ts"
  by auto

text \<open>The condition in parentheses after a keyword.\<close>

definition headed :: "TokenType \<Rightarrow> loc \<Rightarrow> ast \<Rightarrow> Token list \<Rightarrow> bool" where
  "headed ty x c ts \<longleftrightarrow> (\<exists>w l us r. ts = w # l # us @ [r] \<and> ttype w = ty \<and> tloc w = x \<and> ttype l = TOKEN_LPAREN
     \<and> expr 0 us c \<and> ttype r = TOKEN_RPAREN)"

lemma header_sound:
  assumes w: "parserIs p ty" and k: "\<And>c r. reads p (headed ty (current_loc p) c) r \<Longrightarrow> yields (k c r) (tree p E)"
  shows "yields (expect_or (parserAdvance p) TOKEN_LPAREN m node (\<lambda>p.
      do { (c, p) \<leftarrow> parseLogical p;
           if is_panic p then Some (node' c, p) else expect_or p TOKEN_RPAREN m' (node' c) (k c) })) (tree p E)"
proof -
  obtain w us where w: "current p = w # us" "ttype w = ty" using parserIs_Cons [OF w] by blast
  let ?L = "\<lambda>ts. \<exists>l. ts = [w, l] \<and> ttype l = TOKEN_LPAREN"
  let ?C = "\<lambda>c ts. \<exists>l us. ts = w # l # us \<and> ttype l = TOKEN_LPAREN \<and> expr 0 us c"
  show ?thesis
  proof (rule expect_sound [OF reads_token [OF w(1)]])
    show "us = [w] \<Longrightarrow> ttype l = TOKEN_LPAREN \<Longrightarrow> ?L (us @ [l])" for us l by simp
    fix s assume s: "reads p ?L s"
    show "yields (parseLogical s \<bind> (\<lambda>(c, p). if is_panic p then Some (node' c, p)
        else expect_or p TOKEN_RPAREN m' (node' c) (k c))) (tree p E)"
    proof (rule parse_sound [OF s logical_step])
      show "?L us \<Longrightarrow> expr 0 vs c \<Longrightarrow> ?C c (us @ vs)" for c us vs by auto
      fix c r assume r: "reads p (?C c) r"
      have "yields (expect_or r TOKEN_RPAREN m' (node' c) (k c)) (tree p E)"
      proof (rule expect_sound [OF r])
        show "?C c us \<Longrightarrow> ttype r = TOKEN_RPAREN \<Longrightarrow> headed ty (current_loc p) c (us @ [r])" for us r
          using current_node [OF w(1)] w(2) by (auto simp: headed_def)
      qed (rule k)
      then show "yields (if is_panic r then Some (node' c, r) else expect_or r TOKEN_RPAREN m' (node' c) (k c)) (tree p E)"
        by (rule panic_sound [OF r])
    qed
  qed
qed

lemma while_sound:
  assumes pb: "sound block pb" and w: "parserIs p TOKEN_KW_WHILE"
  shows "yields (parseWhile pb p) (tree p stmt)"
  unfolding parseWhile_def Let_def
proof (rule header_sound [OF w])
  fix c r assume r: "reads p (headed TOKEN_KW_WHILE (current_loc p) c) r"
  show "yields (pb r \<bind> (\<lambda>(b, p'). Some (AST_WHILE (current_loc p) c b, p'))) (tree p stmt)"
  proof (rule parse_sound [OF r soundD [OF pb]])
    show "headed TOKEN_KW_WHILE (current_loc p) c us \<Longrightarrow> block vs b \<Longrightarrow> stmt (us @ vs) (AST_WHILE (current_loc p) c b)" for b us vs
      unfolding headed_def using stmt_stmts_block_if_stmt_func.While by fastforce
  qed simp
qed

lemma if_sound:
  assumes pb: "sound block pb"
  shows "parserIs p TOKEN_KW_IF \<Longrightarrow> yields (parseIf n pb p) (tree p if_stmt)"
proof (induction n arbitrary: p)
  case (Suc n)
  let ?H = "headed TOKEN_KW_IF (current_loc p)"
  show ?case
    unfolding parseIf.simps Let_def
  proof (rule header_sound [OF Suc.prems])
    fix c r assume r: "reads p (?H c) r"
    show "yields (pb r \<bind> (\<lambda>(t, p'). if parserIs p' TOKEN_KW_ELSE
          then (if parserIs (parserAdvance p') TOKEN_KW_IF then parseIf n pb (parserAdvance p') else pb (parserAdvance p'))
            \<bind> (\<lambda>(e, p'). Some (AST_IF (current_loc p) c t e, p'))
          else Some (AST_IF (current_loc p) c t AST_NULL, p'))) (tree p if_stmt)"
    proof (rule parse_sound [OF r soundD [OF pb]])
      let ?T = "\<lambda>t ts. \<exists>us vs. ts = us @ vs \<and> ?H c us \<and> block vs t"
      show "?H c us \<Longrightarrow> block vs t \<Longrightarrow> ?T t (us @ vs)" for t us vs by blast
      fix t s assume s: "reads p (?T t) s"
      have "yields (Some (AST_IF (current_loc p) c t AST_NULL, s)) (tree p if_stmt)"
        by (rule sound_return [OF s]) (use If in \<open>fastforce simp: headed_def\<close>)
      moreover have "yields ((if parserIs (parserAdvance s) TOKEN_KW_IF then parseIf n pb (parserAdvance s) else pb (parserAdvance s))
            \<bind> (\<lambda>(e, p'). Some (AST_IF (current_loc p) c t e, p'))) (tree p if_stmt)" if else_next: "parserIs s TOKEN_KW_ELSE"
      proof -
        obtain e vs where e: "current s = e # vs" "ttype e = TOKEN_KW_ELSE" using parserIs_Cons [OF else_next] by blast
        let ?E = "\<lambda>ts d. if_stmt ts d \<or> block ts d"
        have "yields (if parserIs (parserAdvance s) TOKEN_KW_IF then parseIf n pb (parserAdvance s) else pb (parserAdvance s))
            (tree (parserAdvance s) ?E)"
          using sound_mono [OF Suc.IH, where E = ?E] sound_mono [OF soundD [OF pb], where E = ?E] by simp
        then show ?thesis
        proof (rule token_parse_sound [OF s e(1)])
          fix d u assume u: "reads p (\<lambda>ts. \<exists>us vs. ts = us @ e # vs \<and> ?T t us \<and> ?E vs d) u"
          show "yields (Some (AST_IF (current_loc p) c t d, u)) (tree p if_stmt)"
          proof (rule sound_return [OF u], elim exE conjE)
            fix ts us vs us1 us2 assume k: "ts = us @ e # vs" "us = us1 @ us2" "?H c us1" "block us2 t" "?E vs d"
            from k(3) obtain w l xs x where h: "us1 = w # l # xs @ [x]" "ttype w = TOKEN_KW_IF" "tloc w = current_loc p"
              "ttype l = TOKEN_LPAREN" "expr 0 xs c" "ttype x = TOKEN_RPAREN" by (auto simp: headed_def)
            have "if_stmt (w # l # xs @ x # us2 @ e # vs) (AST_IF (tloc w) c t d)" by (rule IfElse [OF h(2,4-6) k(4) e(2) k(5)])
            then show "if_stmt ts (AST_IF (current_loc p) c t d)" using k(1,2) h(1,3) by simp
          qed
        qed
      qed
      ultimately show "yields (if parserIs s TOKEN_KW_ELSE
          then (if parserIs (parserAdvance s) TOKEN_KW_IF then parseIf n pb (parserAdvance s) else pb (parserAdvance s))
            \<bind> (\<lambda>(e, p'). Some (AST_IF (current_loc p) c t e, p'))
          else Some (AST_IF (current_loc p) c t AST_NULL, s)) (tree p if_stmt)" by simp
    qed
  qed
qed simp

lemma clause_sound:
  assumes "yields (f q) (tree q D)"
  shows "yields (parseClause stop f q) (tree q (clause D))"
proof (cases "parserIs q stop")
  case True
  have "reads q (\<lambda>ts. clause D ts AST_NULL) q" by (rule reads_mono [OF reads_none]) (simp add: clause_def)
  then show ?thesis using True by (simp add: parseClause_def)
next
  case False
  have "yields (f q) (tree q (clause D))" by (rule yields_pair_mono [OF assms]) (auto simp: clause_def elim: reads_mono)
  then show ?thesis using False by (simp add: parseClause_def)
qed

lemma for_sound:
  assumes pb: "sound block pb" and f: "parserIs p TOKEN_KW_FOR"
  shows "yields (parseFor pb p) (tree p stmt)"
proof -
  obtain f ts where f: "current p = f # ts" "ttype f = TOKEN_KW_FOR" using parserIs_Cons [OF f] by blast
  let ?l = "current_loc p"
  let ?A = "\<lambda>us. \<exists>l. us = [f, l] \<and> ttype l = TOKEN_LPAREN"
  let ?I = "\<lambda>i us. \<exists>us' ts. us = us' @ ts \<and> ?A us' \<and> clause loose ts i"
  let ?I' = "\<lambda>i us. \<exists>us' s. us = us' @ [s] \<and> ?I i us' \<and> ttype s = TOKEN_SEMICOLON"
  let ?C = "\<lambda>i c us. \<exists>us' ts. us = us' @ ts \<and> ?I' i us' \<and> clause (expr 0) ts c"
  let ?C' = "\<lambda>i c us. \<exists>us' s. us = us' @ [s] \<and> ?C i c us' \<and> ttype s = TOKEN_SEMICOLON"
  let ?U = "\<lambda>i c u us. \<exists>us' ts. us = us' @ ts \<and> ?C' i c us' \<and> clause loose ts u"
  let ?U' = "\<lambda>i c u us. \<exists>us' s. us = us' @ [s] \<and> ?U i c u us' \<and> ttype s = TOKEN_RPAREN"
  have whole: "stmt (us @ vs) (AST_FOR ?l i c u b)" if us: "?U' i c u us" and b: "block vs b" for i c u b us vs
    using us
  proof (elim exE conjE)
    fix us1 r us2 ts3 us3 s2 us4 ts2 us5 s1 us6 ts1 l
    assume k: "us = us1 @ [r]" "us1 = us2 @ ts3" "us2 = us3 @ [s2]" "us3 = us4 @ ts2" "us4 = us5 @ [s1]" "us5 = us6 @ ts1"
      "us6 = [f, l]" and d: "ttype l = TOKEN_LPAREN" "clause loose ts1 i" "ttype s1 = TOKEN_SEMICOLON"
      "clause (expr 0) ts2 c" "ttype s2 = TOKEN_SEMICOLON" "clause loose ts3 u" "ttype r = TOKEN_RPAREN"
    show ?thesis using stmt_stmts_block_if_stmt_func.For [OF f(2) d b] current_node [OF f(1)] k by simp
  qed
  have body: "yields (pb r \<bind> (\<lambda>(b, p'). Some (AST_FOR ?l i c u b, p'))) (tree p stmt)" if "reads p (?U' i c u) r" for i c u r
    by (rule parse_sound [OF that soundD [OF pb], where D' = "\<lambda>b ts. stmt ts (AST_FOR ?l i c u b)"]) (erule (1) whole, simp)
  have update: "yields (parseClause TOKEN_RPAREN parseAssign r \<bind> (\<lambda>(u, p').
      if is_panic p' then Some (AST_FOR ?l i c u AST_NULL, p')
      else expect_or p' TOKEN_RPAREN m (AST_FOR ?l i c u AST_NULL) (\<lambda>p'.
        pb p' \<bind> (\<lambda>(b, p'). Some (AST_FOR ?l i c u b, p'))))) (tree p stmt)" if r: "reads p (?C' i c) r" for i c r m
  proof (rule parse_sound [OF r clause_sound [where f = parseAssign, OF assign_sound], where D' = "?U i c"])
    fix u s assume r1: "reads p (?U i c u) s"
    show "yields (if is_panic s then Some (AST_FOR ?l i c u AST_NULL, s)
      else expect_or s TOKEN_RPAREN m (AST_FOR ?l i c u AST_NULL) (\<lambda>p'.
        pb p' \<bind> (\<lambda>(b, p'). Some (AST_FOR ?l i c u b, p')))) (tree p stmt)"
      by (rule panic_sound [OF r1], rule expect_sound [OF r1, where D' = "?U' i c u"]) (rule snocI, assumption+, rule body)
  qed (rule joinI)
  have cond: "yields (parseClause TOKEN_SEMICOLON parseLogical r \<bind> (\<lambda>(c, p').
      if is_panic p' then Some (AST_FOR ?l i c AST_NULL AST_NULL, p')
      else expect_or p' TOKEN_SEMICOLON m (AST_FOR ?l i c AST_NULL AST_NULL) (\<lambda>p'.
        parseClause TOKEN_RPAREN parseAssign p' \<bind> (\<lambda>(u, p').
          if is_panic p' then Some (AST_FOR ?l i c u AST_NULL, p')
          else expect_or p' TOKEN_RPAREN m' (AST_FOR ?l i c u AST_NULL) (\<lambda>p'.
            pb p' \<bind> (\<lambda>(b, p'). Some (AST_FOR ?l i c u b, p'))))))) (tree p stmt)" if r: "reads p (?I' i) r" for i r m m'
  proof (rule parse_sound [OF r clause_sound [where f = parseLogical, OF logical_step], where D' = "?C i"])
    fix c s assume r1: "reads p (?C i c) s"
    show "yields (if is_panic s then Some (AST_FOR ?l i c AST_NULL AST_NULL, s)
      else expect_or s TOKEN_SEMICOLON m (AST_FOR ?l i c AST_NULL AST_NULL) (\<lambda>p'.
        parseClause TOKEN_RPAREN parseAssign p' \<bind> (\<lambda>(u, p').
          if is_panic p' then Some (AST_FOR ?l i c u AST_NULL, p')
          else expect_or p' TOKEN_RPAREN m' (AST_FOR ?l i c u AST_NULL) (\<lambda>p'.
            pb p' \<bind> (\<lambda>(b, p'). Some (AST_FOR ?l i c u b, p')))))) (tree p stmt)"
      by (rule panic_sound [OF r1], rule expect_sound [OF r1, where D' = "?C' i c"]) (rule snocI, assumption+, rule update)
  qed (rule joinI)
  show ?thesis
    unfolding parseFor_def Let_def
  proof (rule expect_sound [OF reads_token [OF f(1)], where D' = ?A])
    fix r assume r: "reads p ?A r"
    show "yields (parseClause TOKEN_SEMICOLON parseAssign r \<bind> (\<lambda>(i, p').
      if is_panic p' then Some (AST_FOR ?l i AST_NULL AST_NULL AST_NULL, p')
      else expect_or p' TOKEN_SEMICOLON ''expected ';' after for init'' (AST_FOR ?l i AST_NULL AST_NULL AST_NULL) (\<lambda>p'.
        parseClause TOKEN_SEMICOLON parseLogical p' \<bind> (\<lambda>(c, p').
        if is_panic p' then Some (AST_FOR ?l i c AST_NULL AST_NULL, p')
        else expect_or p' TOKEN_SEMICOLON ''expected ';' after for condition'' (AST_FOR ?l i c AST_NULL AST_NULL) (\<lambda>p'.
          parseClause TOKEN_RPAREN parseAssign p' \<bind> (\<lambda>(u, p').
            if is_panic p' then Some (AST_FOR ?l i c u AST_NULL, p')
            else expect_or p' TOKEN_RPAREN ''expected ')' after for update'' (AST_FOR ?l i c u AST_NULL) (\<lambda>p'.
              pb p' \<bind> (\<lambda>(b, p'). Some (AST_FOR ?l i c u b, p'))))))))) (tree p stmt)"
    proof (rule parse_sound [OF r clause_sound [where f = parseAssign, OF assign_sound], where D' = ?I])
      fix i s assume r1: "reads p (?I i) s"
      show "yields (if is_panic s then Some (AST_FOR ?l i AST_NULL AST_NULL AST_NULL, s)
      else expect_or s TOKEN_SEMICOLON ''expected ';' after for init'' (AST_FOR ?l i AST_NULL AST_NULL AST_NULL) (\<lambda>p'.
        parseClause TOKEN_SEMICOLON parseLogical p' \<bind> (\<lambda>(c, p').
        if is_panic p' then Some (AST_FOR ?l i c AST_NULL AST_NULL, p')
        else expect_or p' TOKEN_SEMICOLON ''expected ';' after for condition'' (AST_FOR ?l i c AST_NULL AST_NULL) (\<lambda>p'.
          parseClause TOKEN_RPAREN parseAssign p' \<bind> (\<lambda>(u, p').
            if is_panic p' then Some (AST_FOR ?l i c u AST_NULL, p')
            else expect_or p' TOKEN_RPAREN ''expected ')' after for update'' (AST_FOR ?l i c u AST_NULL) (\<lambda>p'.
              pb p' \<bind> (\<lambda>(b, p'). Some (AST_FOR ?l i c u b, p')))))))) (tree p stmt)"
        by (rule panic_sound [OF r1], rule expect_sound [OF r1, where D' = "?I' i"]) (rule snocI, assumption+, rule cond)
    qed (rule joinI)
  qed simp
qed

lemma function_sound:
  assumes pb: "sound block pb" and f: "parserIs p TOKEN_KW_FUNC"
  shows "yields (parseFunction pb p) (tree p func)"
proof -
  obtain f ts where f: "current p = f # ts" "ttype f = TOKEN_KW_FUNC" using parserIs_Cons [OF f] by blast
  show ?thesis
    unfolding parseFunction_def Let_def
  proof (rule signature_sound [OF reads_token [OF f(1)]])
    fix x ps t r assume r: "reads p (\<lambda>ts. \<exists>us vs. ts = us @ vs \<and> us = [f] \<and> signature vs x ps t) r"
    show "yields (pb r \<bind> (\<lambda>(b, p'). Some (AST_FUNC_DECL (current_loc p) x ps b t False, p'))) (tree p func)"
      by (rule parse_sound [OF r soundD [OF pb], where D' = "\<lambda>b ts. func ts (AST_FUNC_DECL (current_loc p) x ps b t False)"])
        (use stmt_stmts_block_if_stmt_func.Function [OF f(2)] current_node [OF f(1)] in auto)
  qed
qed

lemma extern_sound:
  assumes e: "parserIs p TOKEN_KW_EXTERN"
  shows "yields (parseExternFunction p) (tree p top_level)"
proof -
  obtain e ts where e: "current p = e # ts" "ttype e = TOKEN_KW_EXTERN" using parserIs_Cons [OF e] by blast
  let ?F = "\<lambda>ts. \<exists>f. ts = [e, f] \<and> ttype f = TOKEN_KW_FUNC"
  show ?thesis
    unfolding parseExternFunction_def Let_def
  proof (rule expect_sound [OF reads_token [OF e(1)], where D' = ?F])
    fix r assume r: "reads p ?F r"
    let ?k = "\<lambda>x ps t p'. Some (AST_FUNC_DECL (current_loc p) x ps AST_NULL t True,
        snd (parserExpect p' TOKEN_SEMICOLON ''expected ';' after extern function declaration''))"
    show "yields (parseSignature (current_loc p) True ?k r) (tree p top_level)"
    proof (rule signature_sound [OF r])
      fix x ps t s assume s: "reads p (\<lambda>ts. \<exists>us vs. ts = us @ vs \<and> ?F us \<and> signature vs x ps t) s"
      show "yields (?k x ps t s) (tree p top_level)"
        by (rule sound_return [OF reads_then [OF s]]) (use TopExtern [OF e(2)] current_node [OF e(1)] in auto)
    qed
  qed simp
qed

section \<open>Blocks\<close>

lemma statement_sound:
  assumes pb: "sound block pb" and p: "\<not> parserAtEnd p"
  shows "yields (parseStatement pb p) (tree p stmt)"
proof -
  have "parserIs p TOKEN_KW_IF \<Longrightarrow> yields (parseIf n pb p) (tree p stmt)" for n
    by (rule sound_mono [OF if_sound [OF pb]]) (simp_all add: IfStatement)
  moreover have "parserIs p TOKEN_KW_FUNC \<Longrightarrow> yields (parseFunction pb p) (tree p stmt)"
    by (rule sound_mono [OF function_sound [OF pb]]) (simp_all add: Nested)
  ultimately show ?thesis
    using p while_sound [OF pb] for_sound [OF pb] simple_statement_sound unfolding parseStatement_def by (simp del: parseIf.simps)
qed

lemma statement_not_null: "stmt ts a \<Longrightarrow> a \<noteq> AST_NULL"
  by (auto elim!: stmt.cases if_stmt.cases func.cases dest: simple_not_null split: if_splits)

lemma skip_errors: "perrors (parserSkipTo f p) = perrors p"
proof (induction f p rule: parserSkipTo.induct)
  case (1 f p)
  then show ?case by (subst parserSkipTo.simps) (simp add: parserAdvance_def)
qed

lemma synchronized [simp]: "perrors (parserSynchronizeStatement p) = perrors p" "perrors (parserSynchronizeTopLevel p) = perrors p"
  by (simp_all add: parserSynchronizeStatement_def parserSynchronizeTopLevel_def skip_errors)

lemma statements_sound:
  assumes ps: "\<And>p. \<not> parserAtEnd p \<Longrightarrow> yields (ps p) (tree p stmt)"
  shows "yields (parseStatements n ps ss p) (\<lambda>(zs, q). reads p (\<lambda>ts. \<exists>ys. zs = ss @ ys \<and> stmts ts ys) q)"
proof (induction n arbitrary: ss p)
  case (Suc n)
  show ?case
  proof (cases "\<not> parserAtEnd p \<and> \<not> parserIs p TOKEN_RBRACE")
    case False
    have "reads p (\<lambda>ts. \<exists>ys. ss = ss @ ys \<and> stmts ts ys) p" by (rule reads_mono [OF reads_none]) (simp add: NoStatements)
    with False show ?thesis by auto
  next
    case True
    show ?thesis
      unfolding parseStatements.simps if_P [OF True]
    proof (rule yields_pair_bind [OF ps])
      show "\<not> parserAtEnd p" using True by simp
      fix a q assume a: "reads p (\<lambda>ts. stmt ts a) q"
      let ?Q = "\<lambda>(zs, r). reads p (\<lambda>ts. \<exists>ys. zs = ss @ ys \<and> stmts ts ys) r"
      show "yields (if is_panic q then parseStatements n ps ss (parserSynchronizeStatement q)
          else parseStatements n ps (append_node ss a) q) ?Q"
      proof (cases "is_panic q")
        case True
        have "yields (parseStatements n ps ss (parserSynchronizeStatement q)) ?Q"
        proof (rule yields_pair_mono [OF Suc.IH])
          fix zs r assume r: "reads (parserSynchronizeStatement q) (\<lambda>ts. \<exists>ys. zs = ss @ ys \<and> stmts ts ys) r"
          have "reads p (\<lambda>ts. False) (parserSynchronizeStatement q)" by (rule reads_panic [OF a True]) simp
          from reads_trans [OF this r] show "?Q (zs, r)" by simp
        qed
        then show ?thesis using True by simp
      next
        case False
        have "yields (parseStatements n ps (append_node ss a) q) ?Q"
        proof (rule yields_pair_mono [OF Suc.IH])
          fix zs r assume r: "reads q (\<lambda>ts. \<exists>ys. zs = append_node ss a @ ys \<and> stmts ts ys) r"
          have "reads p (\<lambda>ts. \<exists>ys. zs = ss @ ys \<and> stmts ts ys) r"
          proof (rule reads_trans [OF a r], elim exE conjE)
            fix us vs ys assume k: "stmt us a" "zs = append_node ss a @ ys" "stmts vs ys"
            then show "\<exists>ys. zs = ss @ ys \<and> stmts (us @ vs) ys"
              using Statements [OF k(1,3)] statement_not_null [OF k(1)] by (simp add: append_node_def)
          qed
          then show "?Q (zs, r)" by simp
        qed
        then show ?thesis using False by simp
      qed
    qed
  qed
qed simp

lemma reset_error:
  assumes "reads p D q"
  shows "reads p E ((parserSyntaxError q tok m)\<lparr>is_panic := False\<rparr>)"
proof (cases "is_panic q")
  case True
  then have "parserSyntaxError q tok m = q" by (simp add: parserSyntaxError_def)
  then show ?thesis using reads_panic [OF assms True] by simp
next
  case False
  then obtain e where e: "items (perrors (parserSyntaxError q tok m)) = items (perrors q) @ [e]"
    by (cases tok; cases "token_loc (current q)") (auto simp: parserSyntaxError_def parserErrorListAppend_def)
  have "prefix (items (perrors p)) (items (perrors q))" using assms by (simp add: reads_def)
  then show ?thesis unfolding reads_def using e prefix_length_le by (fastforce simp: prefix_def)
qed

lemma block_level_sound:
  assumes pb: "sound block pb"
  shows "sound block (parseBlockLevel pb)"
proof (rule soundI)
  fix p show "yields (parseBlockLevel pb p) (tree p block)"
  proof (cases "parserIs p TOKEN_LBRACE")
    case False
    then show ?thesis by (simp add: parseBlockLevel_def expect_bad Let_def)
  next
    case True
    then obtain l us where l: "current p = l # us" "ttype l = TOKEN_LBRACE" using parserIs_Cons by blast
    let ?q = "parserAdvance p"
    have "yields (parseStatements n (parseStatement pb) [] ?q \<bind> (\<lambda>(ss, p).
        let (ok, p) = parserExpect p TOKEN_RBRACE m in Some (AST_BLOCK (tloc l) ss, if ok then p else p\<lparr>is_panic := False\<rparr>))) (tree p block)" for n m
    proof (rule yields_pair_bind [OF statements_sound])
      show "\<not> parserAtEnd p \<Longrightarrow> yields (parseStatement pb p) (tree p stmt)" for p by (rule statement_sound [OF pb])
      fix ss q assume ss: "reads ?q (\<lambda>ts. \<exists>ys. ss = [] @ ys \<and> stmts ts ys) q"
      show "yields (let (ok, p) = parserExpect q TOKEN_RBRACE m in Some (AST_BLOCK (tloc l) ss, if ok then p else p\<lparr>is_panic := False\<rparr>)) (tree p block)"
      proof (cases "parserIs q TOKEN_RBRACE")
        case True
        have "reads p (\<lambda>ts. block ts (AST_BLOCK (tloc l) ss)) (snd (parserExpect q TOKEN_RBRACE m))"
          by (rule reads_Cons [OF l(1) reads_then [OF ss]]) (use Block [OF l(2)] in auto)
        then show ?thesis using True by (simp add: expect_ok)
      next
        case False
        then show ?thesis using reset_error [OF reads_Cons [OF l(1) ss, where E = "\<lambda>ts. True"]] by (simp add: expect_bad)
      qed
    qed
    then show ?thesis using True current_node [OF l(1)]
      by (simp add: parseBlockLevel_def expect_ok Let_def del: parseStatements.simps)
  qed
qed

lemma block_sound: "sound block parseBlock"
proof -
  have "sound block (parseBlockFuel n)" for n
    by (induction n) (simp_all add: sound_def, use block_level_sound in \<open>simp add: sound_def\<close>)
  then show ?thesis unfolding sound_def parseBlock_def by blast
qed

section \<open>Programs\<close>

lemma top_level_not_null: "top_level ts a \<Longrightarrow> a \<noteq> AST_NULL"
  by (auto elim!: top_level.cases func.cases decl.cases)

lemma global_sound:
  assumes "isDeclarationStart p"
  shows "yields (parseAssign p \<bind> (\<lambda>(a, p). if is_panic p then Some (a, p)
      else let (ok, p) = parserExpect p TOKEN_SEMICOLON m in Some (if ok then a else AST_NULL, p))) (tree p top_level)"
proof -
  have "parseAssign p = parseDeclaration p" using assms by (simp add: parseAssign_def)
  then have "yields (parseAssign p) (tree p decl)" using declaration_sound [OF assms] by simp
  then show ?thesis
  proof (rule yields_pair_bind)
    fix a q assume a: "reads p (\<lambda>ts. decl ts a) q"
    have "reads p (\<lambda>ts. top_level ts a) (snd (parserExpect q TOKEN_SEMICOLON m))"
      by (rule reads_mono [OF reads_then [OF a]]) (use TopVariable in blast)
    then have "yields (let (ok, p) = parserExpect q TOKEN_SEMICOLON m in Some (if ok then a else AST_NULL, p)) (tree p top_level)"
      using reads_error_after [OF a] by (cases "parserIs q TOKEN_SEMICOLON") (simp_all add: expect_ok expect_bad)
    then show "yields (if is_panic q then Some (a, q)
        else let (ok, p) = parserExpect q TOKEN_SEMICOLON m in Some (if ok then a else AST_NULL, p)) (tree p top_level)"
      by (rule panic_sound [OF a])
  qed
qed

lemma top_level_sound:
  assumes "\<not> parserAtEnd p"
  shows "yields (parseTopLevel p) (tree p top_level)"
proof -
  let ?m = "if parserIs p TOKEN_KW_FUNC then parseFunction parseBlock p
    else if parserIs p TOKEN_KW_EXTERN then parseExternFunction p
    else if isDeclarationStart p then
      do { (node, p) \<leftarrow> parseAssign p;
           if is_panic p then Some (node, p)
           else let (ok, p) = parserExpect p TOKEN_SEMICOLON ''expected ';' after global declaration''
                in Some (if ok then node else AST_NULL, p) }
    else Some (AST_NULL, parserSyntaxError p (current_token p) ''expected top-level declaration'')"
  have "parserIs p TOKEN_KW_FUNC \<Longrightarrow> yields (parseFunction parseBlock p) (tree p top_level)"
    by (rule sound_mono [OF function_sound [OF block_sound]]) (simp_all add: TopFunction)
  then have m: "yields ?m (tree p top_level)" using extern_sound global_sound by simp
  have "yields (?m \<bind> (\<lambda>(node, p). if is_panic p then Some (AST_NULL, parserSynchronizeTopLevel p) else Some (node, p)))
      (tree p top_level)"
  proof (rule yields_pair_bind [OF m])
    fix a q assume a: "reads p (\<lambda>ts. top_level ts a) q"
    show "yields (if is_panic q then Some (AST_NULL, parserSynchronizeTopLevel q) else Some (a, q)) (tree p top_level)"
      using a reads_panic [OF a] by simp
  qed
  then show ?thesis using assms unfolding parseTopLevel_def by simp
qed

lemma program_loop_sound:
  "yields (parseProgramLoop n ds p) (\<lambda>(zs, q). parserAtEnd q \<and> reads p (\<lambda>ts. \<exists>ys. zs = ds @ ys \<and> program ts ys) q)"
proof (induction n arbitrary: ds p)
  case (Suc n)
  show ?case
  proof (cases "parserAtEnd p")
    case True
    have "reads p (\<lambda>ts. \<exists>ys. ds = ds @ ys \<and> program ts ys) p" by (rule reads_mono [OF reads_none]) (simp add: Empty)
    then show ?thesis using True by simp
  next
    case False
    have "yields (parseTopLevel p \<bind> (\<lambda>(item, p). parseProgramLoop n (append_node ds item) p))
        (\<lambda>(zs, q). parserAtEnd q \<and> reads p (\<lambda>ts. \<exists>ys. zs = ds @ ys \<and> program ts ys) q)"
    proof (rule yields_pair_bind [OF top_level_sound [OF False]], rule yields_pair_mono [OF Suc.IH])
      fix a q zs r assume a: "reads p (\<lambda>ts. top_level ts a) q"
        and r: "parserAtEnd r \<and> reads q (\<lambda>ts. \<exists>ys. zs = append_node ds a @ ys \<and> program ts ys) r"
      have "reads p (\<lambda>ts. \<exists>ys. zs = ds @ ys \<and> program ts ys) r"
      proof (rule reads_trans [OF a conjunct2 [OF r]], elim exE conjE)
        fix us vs ys assume k: "top_level us a" "zs = append_node ds a @ ys" "program vs ys"
        then show "\<exists>ys. zs = ds @ ys \<and> program (us @ vs) ys"
          using Declarations [OF k(1,3)] top_level_not_null [OF k(1)] by (simp add: append_node_def)
      qed
      then show "case (zs, r) of (zs, q) \<Rightarrow> parserAtEnd q \<and> reads p (\<lambda>ts. \<exists>ys. zs = ds @ ys \<and> program ts ys) q" using r by simp
    qed
    then show ?thesis using False by simp
  qed
qed simp

lemma program_sound:
  assumes "parserParseProgram (parserInit ts) = Some (AST_PROGRAM l ds, q)" "items (perrors q) = []"
  shows "\<exists>us. ts = us @ current q \<and> parserAtEnd q \<and> program us ds"
proof -
  have "parseProgramLoop (Suc (length ts)) [] (parserInit ts) = Some (ds, q)"
    using assms(1) by (auto simp: parserParseProgram_def parserInit_def bind_eq_Some_conv simp del: parseProgramLoop.simps)
  then have "parserAtEnd q \<and> reads (parserInit ts) (\<lambda>us. program us ds) q"
    using program_loop_sound [of "Suc (length ts)" "[]" "parserInit ts"] by (simp del: parseProgramLoop.simps)
  then show ?thesis using assms(2) unfolding reads_def by (auto simp: parserInit_def)
qed

end
