(* ===== verification/GrammarStmtComplete.thy ===== *)
theory GrammarStmtComplete
  imports GrammarComplete GrammarStmtSound
begin

text \<open>
  Types, statements, declarations and programs: what is in the grammar is accepted.
\<close>

section \<open>Types\<close>

lemma logical_on: "expr 0 ts a \<Longrightarrow> \<not> is_panic p \<Longrightarrow> stops (continues 0) rest \<Longrightarrow> parseLogical (on p (ts @ rest)) = Some (a, on p rest)"
  by (rule completeD [OF logical_complete]) auto

lemma logical_closed:
  "expr 0 ts a \<Longrightarrow> \<not> is_panic p \<Longrightarrow>
   ttype r \<in> {TOKEN_RPAREN, TOKEN_RBRACKET, TOKEN_SEMICOLON, TOKEN_ASSIGN, TOKEN_PLUS_ASSIGN, TOKEN_MINUS_ASSIGN} \<Longrightarrow>
   parseLogical (on p (ts @ r # rest)) = Some (a, on p (r # rest))"
  using closes by (intro logical_on) auto

lemma dims_cases:
  assumes "dims b us c"
  obtains "us = []" "c = b"
  | l ts s r vs where "us = l # ts @ r # vs" "ttype l = TOKEN_LBRACKET" "size_read ts s" "ttype r = TOKEN_RBRACKET"
      "dims (AST_TYPE_ARRAY (tloc l) b s) vs c"
  using assms by (cases rule: dims.cases) blast+

lemma dims_complete:
  "dims b us c \<Longrightarrow> \<not> is_panic p \<Longrightarrow> stops {TOKEN_LBRACKET} rest \<Longrightarrow> length us + length rest < m \<Longrightarrow>
   wrapArrayTypes m b (on p (us @ rest)) = Some (c, on p rest)"
proof (induction m arbitrary: b us)
  case (Suc m)
  from Suc.prems(1) show ?case
  proof (cases rule: dims_cases)
    case 1
    then show ?thesis using Suc.prems(3) by (cases rest) auto
  next
    case (2 l ts s r vs)
    have "(if \<not> parserIs (on p (ts @ r # vs @ rest)) TOKEN_RBRACKET then parseLogical (on p (ts @ r # vs @ rest))
        else Some (AST_NULL, on p (ts @ r # vs @ rest))) = Some (s, on p (r # vs @ rest))"
    proof (cases "ts = []")
      case True
      then have "s = AST_NULL" using 2(3) expr_starts by (fastforce simp: size_read_def)
      then show ?thesis using True 2(4) by simp
    next
      case False
      then have e: "expr 0 ts s" using 2(3) by (simp add: size_read_def)
      then obtain h hs where "ts = h # hs" "ttype h \<in> expr_first" using expr_starts by blast
      then show ?thesis using logical_closed [OF e Suc.prems(2), of r] 2(4) by (auto simp: expr_first_def primary_first_def)
    qed
    moreover have "wrapArrayTypes m (AST_TYPE_ARRAY (tloc l) b s) (on p (vs @ rest)) = Some (c, on p rest)"
      using Suc.prems 2(1) by (intro Suc.IH [OF 2(5)]) simp_all
    ultimately show ?thesis using 2(1,2,4) by (simp add: Let_def)
  qed
qed simp

lemma wrap_on:
  "dims b us c \<Longrightarrow> \<not> is_panic p \<Longrightarrow> stops {TOKEN_LBRACKET, TOKEN_LT} rest \<Longrightarrow> wrapArrays b (on p (us @ rest)) = Some (c, on p rest)"
  by (rule dims_complete) (auto elim: stops_less)

lemma isTypeToken_on [simp]: "isTypeToken (on p (t # ts)) \<longleftrightarrow> ttype t \<in> {TOKEN_STAR, TOKEN_TYPE_ARRAY, TOKEN_TYPE_INT, TOKEN_TYPE_FLOAT,
    TOKEN_TYPE_CHAR, TOKEN_TYPE_BOOL, TOKEN_TYPE_VOID, TOKEN_IDENTIFIER}"
  by (simp add: isTypeToken_def)

lemma type_on:
  "type_read ts a \<Longrightarrow> \<not> is_panic p \<Longrightarrow> stops {TOKEN_LBRACKET, TOKEN_LT} rest \<Longrightarrow> parseType (on p (ts @ rest)) = Some (a, on p rest)"
proof (induction arbitrary: rest rule: type_read.induct)
  case (Pointer t ts a)
  then show ?case by (simp add: parseType.simps [of "on p (t # ts @ rest)"] parsePointerType.simps)
next
  case (Generic t l ts e g us a)
  have "parseType (on p (ts @ g # us @ rest)) = Some (e, on p (g # us @ rest))" using Generic by simp
  then show ?case using Generic wrap_on [OF Generic.hyps(5)]
    by (simp add: parseType.simps [of "on p (t # l # ts @ g # us @ rest)"] del: wrapArrayTypes.simps)
next
  case (Plain t us a)
  have "\<not> parserIs (on p (us @ rest)) TOKEN_LT"
    using Plain.hyps(2) Plain.prems(2) by (cases us; cases rest) (auto elim: dims.cases)
  then show ?case using Plain wrap_on [OF Plain.hyps(2)]
    by (simp add: parseType.simps [of "on p (t # us @ rest)"] Let_def del: wrapArrayTypes.simps)
next
  case (Named t us a)
  then show ?case using wrap_on [OF Named.hyps(2)]
    by (auto simp: parseType.simps [of "on p (t # us @ rest)"] simp del: wrapArrayTypes.simps)
qed

section \<open>Simple statements\<close>

definition closing :: "Token list \<Rightarrow> bool" where
  "closing rest \<longleftrightarrow> (\<exists>t ts. rest = t # ts \<and> ttype t \<in> {TOKEN_SEMICOLON, TOKEN_RPAREN})"

lemma closing_stops: "closing rest \<Longrightarrow> stops (continues 0) rest" "closing rest \<Longrightarrow> stops {TOKEN_LBRACKET, TOKEN_LT} rest"
  using closes by (auto simp: closing_def)

lemma declaration_start_on: "isDeclarationStart (on p ts) \<longleftrightarrow>
    (case ts of t # u # ts \<Rightarrow> ttype t = TOKEN_IDENTIFIER \<and> ttype u = TOKEN_DOUBLE_COLON | _ \<Rightarrow> False)"
  by (simp add: isDeclarationStart_def)

lemma decl_on:
  assumes "decl ts a" "\<not> is_panic p" "closing rest"
  shows "isDeclarationStart (on p (ts @ rest)) \<and> parseDeclaration (on p (ts @ rest)) = Some (a, on p rest)"
  using assms(1)
proof (cases rule: decl.cases)
  case (Uninitialized n c us t)
  have "\<not> parserIs (on p rest) TOKEN_ASSIGN" using assms(3) by (auto simp: closing_def)
  then show ?thesis using Uninitialized assms(2) type_on [OF Uninitialized(5) assms(2) closing_stops(2) [OF assms(3)]]
    by (simp add: parseDeclaration_def declaration_start_on)
next
  case (Initialized n c us t e vs i)
  have "parseType (on p (us @ e # vs @ rest)) = Some (t, on p (e # vs @ rest))"
    using Initialized(6) by (intro type_on [OF Initialized(5) assms(2)]) simp
  then show ?thesis using Initialized assms(2) logical_on [OF Initialized(7) assms(2) closing_stops(1) [OF assms(3)]]
    by (simp add: parseDeclaration_def declaration_start_on)
qed

lemma not_declaration:
  assumes "expr k ts a" "rest = t # us" "ttype t \<noteq> TOKEN_DOUBLE_COLON"
  shows "\<not> isDeclarationStart (on p (ts @ rest))"
proof -
  obtain h hs where "ts = h # hs" "plain ts" using read_shape(1) [OF assms(1)] by auto
  then show ?thesis using assms(2,3) by (cases hs) (auto simp: declaration_start_on)
qed

lemma loose_on:
  assumes "loose ts a" "\<not> is_panic p" "closing rest"
  shows "parseAssign (on p (ts @ rest)) = Some (a, on p rest)"
proof -
  obtain r rs where r: "rest = r # rs" "ttype r \<in> {TOKEN_SEMICOLON, TOKEN_RPAREN}" using assms(3) by (auto simp: closing_def)
  from assms(1) show ?thesis
  proof (cases rule: loose.cases)
    case Declaration
    then show ?thesis using decl_on [OF Declaration assms(2,3)] by (simp add: parseAssign_def)
  next
    case (Assignment us b t vs v)
    have "\<not> isDeclarationStart (on p (us @ t # vs @ rest))" using Assignment(5) by (intro not_declaration [OF Assignment(3) refl]) auto
    moreover have "parseLogical (on p (us @ t # vs @ rest)) = Some (b, on p (t # vs @ rest))"
      using Assignment(5) by (intro logical_closed [OF Assignment(3) assms(2)]) auto
    moreover have "ttype t \<noteq> TOKEN_EOF" using Assignment(5) by auto
    ultimately show ?thesis
      using Assignment assms(2) logical_on [OF Assignment(6) assms(2) closing_stops(1) [OF assms(3)]] read_not_null(1) [OF Assignment(3)]
      by (simp add: parseAssign_def)
  next
    case Expression
    have "\<not> isDeclarationStart (on p (ts @ rest))" using r(2) by (intro not_declaration [OF Expression r(1)]) auto
    moreover have "\<not> parserIsAny (on p rest) [TOKEN_ASSIGN, TOKEN_PLUS_ASSIGN, TOKEN_MINUS_ASSIGN]" using r by auto
    ultimately show ?thesis
      using logical_on [OF Expression assms(2) closing_stops(1) [OF assms(3)]] by (simp add: parseAssign_def)
  qed
qed

lemma decl_starts: "decl ts a \<Longrightarrow> \<exists>t us. ts = t # us \<and> ttype t = TOKEN_IDENTIFIER"
  by (erule decl.cases) auto

lemma loose_starts: "loose ts a \<Longrightarrow> \<exists>t us. ts = t # us \<and> ttype t \<in> expr_first"
  by (erule loose.cases)
    (use expr_starts decl_starts in \<open>fastforce simp: expr_first_def primary_first_def\<close>)+

definition simple_first :: "TokenType set" where
  "simple_first = expr_first \<union> {TOKEN_KW_RET, TOKEN_KW_BREAK, TOKEN_KW_CONTINUE}"

lemma simple_starts: "simple ts a \<Longrightarrow> \<exists>t us. ts = t # us \<and> ttype t \<in> simple_first"
  by (erule simple.cases) (use loose_starts in \<open>fastforce simp: simple_first_def\<close>)+

lemma simple_on:
  assumes "simple ts a" "\<not> is_panic p" "ttype s = TOKEN_SEMICOLON"
  shows "parseLoopControl (on p (ts @ s # rest)) = Some (a, on p (s # rest))"
  using assms(1)
proof (cases rule: simple.cases)
  case (Return t us v)
  show ?thesis
  proof (cases "us = []")
    case True
    then have "v = AST_NULL" using Return(4) expr_starts by (fastforce simp: size_read_def)
    then show ?thesis using Return True assms(3) by (simp add: parseLoopControl_def parseReturn_def Let_def)
  next
    case False
    then have e: "expr 0 us v" using Return(4) by (simp add: size_read_def)
    then obtain h hs where "us = h # hs" "ttype h \<in> expr_first" using expr_starts by blast
    then show ?thesis using Return logical_closed [OF e assms(2), of s] assms(3)
      by (auto simp: parseLoopControl_def parseReturn_def Let_def expr_first_def primary_first_def)
  qed
next
  case Loose
  obtain h hs where "ts = h # hs" "ttype h \<in> expr_first" using loose_starts [OF Loose] by blast
  then show ?thesis using loose_on [OF Loose assms(2), of "s # rest"] assms(3)
    by (auto simp: parseLoopControl_def parseReturn_def closing_def expr_first_def primary_first_def)
qed (simp_all add: parseLoopControl_def)

lemma simple_statement_on:
  assumes "simple ts a" "\<not> is_panic p" "ttype s = TOKEN_SEMICOLON"
  shows "parseSimpleStatement (on p (ts @ s # rest)) = Some (if stands_alone a then a else AST_EXPR_STMT (ast_loc a) a, on p rest)"
  using simple_on [OF assms] simple_not_null [OF assms(1)] assms(2,3) by (simp add: parseSimpleStatement_def)

section \<open>Functions\<close>

lemma parameter_complete: "complete parameter {TOKEN_LBRACKET, TOKEN_LT} n parseParameter"
proof (rule completeI)
  fix p :: Parser and ts a rest
  assume e: "parameter ts a" and p: "\<not> is_panic p" and rest: "stops {TOKEN_LBRACKET, TOKEN_LT} rest"
  from e show "parseParameter (on p (ts @ rest)) = Some (a, on p rest)"
  proof (cases rule: parameter.cases)
    case (Parameter m c us t)
    then show ?thesis using type_on [OF Parameter(5) p rest] p by (simp add: parseParameter_def expect_or_def Let_def)
  qed
qed

lemma parameters_on:
  assumes "parameters ts ps" "\<not> is_panic p" "ttype r = TOKEN_RPAREN"
  shows "parseParams (on p (ts @ r # rest)) = Some (ps, False, on p (r # rest))"
  using assms(1)
proof (cases rule: parameters.cases)
  case NoParams
  then show ?thesis using assms(3) by (simp add: parseParams_def)
next
  case (Params us x vs xs)
  have D: "parameter ts a \<Longrightarrow> a \<noteq> AST_NULL \<and> (\<exists>t us. ts = t # us \<and> (\<forall>p::Parser. \<forall>vs::Token list. \<not> False))" for ts a
    by (auto elim: parameter.cases)
  have M: "more_params us ys \<Longrightarrow> (us = [] \<and> ys = []) \<or> (\<exists>t ts x vs zs. us = t # ts @ vs \<and> ys = x # zs
      \<and> ttype t \<in> set [TOKEN_COMMA] \<and> parameter ts x \<and> more_params vs zs)" for us ys
    by (erule more_params.cases) auto
  have "ttype r \<notin> set [TOKEN_COMMA] \<union> {TOKEN_LBRACKET, TOKEN_LT}" "set [TOKEN_COMMA] \<inter> {TOKEN_LBRACKET, TOKEN_LT} = {}"
    using assms(3) by auto
  note list_complete [OF parameter_complete [of "length us + length vs + Suc (length rest)"] D M this(2) Params(3,4) assms(2) this(1), where vs = "[]" and rest = rest]
  then have "parseList [TOKEN_COMMA] (\<lambda>p. False) parseParameter (on p (ts @ r # rest)) = Some (ps, False, on p (r # rest))"
    using Params(1,2) by simp
  moreover obtain h hs where "ts = h # hs" "ttype h = TOKEN_IDENTIFIER" using Params(1,3) by (auto elim: parameter.cases)
  ultimately show ?thesis by (simp add: parseParams_def)
qed

lemma signature_on:
  assumes "signature ts x ps t" "\<not> is_panic p" "stops {TOKEN_LBRACKET, TOKEN_LT} rest"
  shows "parseSignature l ext k (on p (ts @ rest)) = k x ps t (on p rest)"
  using assms(1)
proof (cases rule: signature.cases)
  case (Signature n o' us r w vs)
  have "parseParams (on p (us @ r # w # vs @ rest)) = Some (ps, False, on p (r # w # vs @ rest))"
    by (rule parameters_on [OF Signature(5) assms(2) Signature(6)])
  then show ?thesis using Signature type_on [OF Signature(8) assms(2,3)] assms(2)
    by (simp add: parseSignature_def expect_or_def Let_def)
qed

section \<open>Compound statements\<close>

definition stmt_first :: "TokenType set" where
  "stmt_first = simple_first \<union> {TOKEN_KW_IF, TOKEN_KW_WHILE, TOKEN_KW_FOR, TOKEN_KW_FUNC}"

lemmas first_defs = stmt_first_def simple_first_def expr_first_def primary_first_def

lemma func_starts: "func ts a \<Longrightarrow> \<exists>t us. ts = t # us \<and> ttype t = TOKEN_KW_FUNC"
  and if_starts: "if_stmt ts a \<Longrightarrow> \<exists>t us. ts = t # us \<and> ttype t = TOKEN_KW_IF"
  and block_starts: "block ts a \<Longrightarrow> \<exists>t us. ts = t # us \<and> ttype t = TOKEN_LBRACE"
  by (auto elim: func.cases if_stmt.cases block.cases)

lemma stmt_starts: "stmt ts a \<Longrightarrow> \<exists>t us. ts = t # us \<and> ttype t \<in> stmt_first"
  by (erule stmt.cases) (use simple_starts func_starts if_starts in \<open>fastforce simp: stmt_first_def\<close>)+

lemma clause_on:
  assumes c: "clause D ts a" and s: "ttype s = stop" "stop \<notin> expr_first"
    and D: "D ts a \<Longrightarrow> f (on p (ts @ s # rest)) = Some (a, on p (s # rest)) \<and> (\<exists>t us. ts = t # us \<and> ttype t \<in> expr_first)"
  shows "parseClause stop f (on p (ts @ s # rest)) = Some (a, on p (s # rest))"
proof (cases "D ts a")
  case True
  then show ?thesis using D s by (auto simp: parseClause_def)
next
  case False
  then show ?thesis using c s by (simp add: clause_def parseClause_def)
qed

lemma clauses_on:
  assumes "\<not> is_panic p"
  shows "clause loose ts i \<Longrightarrow> ttype s \<in> {TOKEN_SEMICOLON, TOKEN_RPAREN} \<Longrightarrow>
      parseClause (ttype s) parseAssign (on p (ts @ s # rest)) = Some (i, on p (s # rest))"
    and "clause (expr 0) ts i \<Longrightarrow> ttype s = TOKEN_SEMICOLON \<Longrightarrow>
      parseClause TOKEN_SEMICOLON parseLogical (on p (ts @ s # rest)) = Some (i, on p (s # rest))"
  by (rule clause_on, assumption, rule refl, force simp: expr_first_def primary_first_def, rule conjI,
      rule loose_on, assumption, rule assms, force simp: closing_def, erule loose_starts)
    (rule clause_on, assumption, assumption, simp add: expr_first_def primary_first_def, rule conjI,
      rule logical_closed, assumption, rule assms, simp, erule expr_starts)

text \<open>A block parser that is complete on few tokens.\<close>

locale complete_blocks =
  fixes pb :: parse and bound :: nat
  assumes pb_complete: "complete block {} bound pb"
begin

lemma block_on: "block ts b \<Longrightarrow> \<not> is_panic p \<Longrightarrow> length ts + length rest \<le> bound \<Longrightarrow> pb (on p (ts @ rest)) = Some (b, on p rest)"
  by (rule completeD [OF pb_complete]) (simp_all add: stops_def split: list.split)

lemma if_on:
  "if_stmt ts a \<Longrightarrow> \<not> is_panic p \<Longrightarrow> stops {TOKEN_KW_ELSE} rest \<Longrightarrow> length ts + length rest \<le> bound \<Longrightarrow>
   length ts + length rest < m \<Longrightarrow> parseIf m pb (on p (ts @ rest)) = Some (a, on p rest)"
proof (induction m arbitrary: ts a)
  case (Suc m)
  note p = Suc.prems(2)
  from Suc.prems(1) show ?case
  proof (cases rule: if_stmt.cases)
    case (If i l us c r vs b)
    have "pb (on p (vs @ rest)) = Some (b, on p rest)" using Suc.prems(4) If(1) by (intro block_on [OF If(7) p]) simp
    moreover have "\<not> parserIs (on p rest) TOKEN_KW_ELSE" by (rule not_is_stops [OF Suc.prems(3)]) simp
    ultimately show ?thesis using If logical_closed [OF If(5) p, of r "vs @ rest"] p by (simp add: expect_or_def Let_def)
  next
    case (IfElse i l us c r vs b e ws d)
    have b: "pb (on p (vs @ e # ws @ rest)) = Some (b, on p (e # ws @ rest))"
      using Suc.prems(4) IfElse(1) by (intro block_on [OF IfElse(7) p]) simp
    have "(if parserIs (on p (ws @ rest)) TOKEN_KW_IF then parseIf m pb (on p (ws @ rest)) else pb (on p (ws @ rest)))
        = Some (d, on p rest)"
    proof (cases "if_stmt ws d")
      case True
      then show ?thesis using Suc.IH [OF True p Suc.prems(3)] Suc.prems(4,5) IfElse(1) if_starts [OF True] by auto
    next
      case False
      then have d: "block ws d" using IfElse(9) by simp
      then show ?thesis using block_on [OF d p] Suc.prems(4) IfElse(1) block_starts [OF d] by auto
    qed
    then show ?thesis using IfElse b logical_closed [OF IfElse(5) p, of r "vs @ e # ws @ rest"] p
      by (simp add: expect_or_def Let_def)
  qed
qed simp

lemma func_on:
  assumes "func ts a" "\<not> is_panic p" "length ts + length rest \<le> bound"
  shows "parseFunction pb (on p (ts @ rest)) = Some (a, on p rest)"
  using assms(1)
proof (cases rule: func.cases)
  case (Function f us x ps t vs b)
  have "stops {TOKEN_LBRACKET, TOKEN_LT} (vs @ rest)" using block_starts [OF Function(5)] by auto
  from signature_on [OF Function(4) assms(2) this]
  show ?thesis using Function assms(3) block_on [OF Function(5) assms(2), of rest] by (simp add: parseFunction_def Let_def)
qed

lemma for_on:
  assumes f: "ttype f = TOKEN_KW_FOR" "ttype l = TOKEN_LPAREN" "clause loose ts i" "ttype s = TOKEN_SEMICOLON"
    "clause (expr 0) us c" "ttype s' = TOKEN_SEMICOLON" "clause loose vs u" "ttype r = TOKEN_RPAREN" "block ws b"
    and p: "\<not> is_panic p" and n: "length ws + length rest \<le> bound"
  shows "parseFor pb (on p (f # l # ts @ s # us @ s' # vs @ r # ws @ rest)) = Some (AST_FOR (tloc f) i c u b, on p rest)"
proof -
  have "parseClause TOKEN_SEMICOLON parseAssign (on p (ts @ s # us @ s' # vs @ r # ws @ rest)) = Some (i, on p (s # us @ s' # vs @ r # ws @ rest))"
    using clauses_on(1) [OF p f(3), of s] f(4) by simp
  moreover have "parseClause TOKEN_SEMICOLON parseLogical (on p (us @ s' # vs @ r # ws @ rest)) = Some (c, on p (s' # vs @ r # ws @ rest))"
    by (rule clauses_on(2) [OF p f(5,6)])
  moreover have "parseClause TOKEN_RPAREN parseAssign (on p (vs @ r # ws @ rest)) = Some (u, on p (r # ws @ rest))"
    using clauses_on(1) [OF p f(7), of r] f(8) by simp
  ultimately show ?thesis using f(2,4,6,8) p block_on [OF f(9) p n] by (simp add: parseFor_def expect_or_def Let_def)
qed

lemma statement_complete: "complete stmt {TOKEN_KW_ELSE} bound (parseStatement pb)"
proof (rule completeI)
  fix p :: Parser and ts a rest
  assume e: "stmt ts a" and p: "\<not> is_panic p" and rest: "stops {TOKEN_KW_ELSE} rest" and n: "length ts + length rest \<le> bound"
  from e show "parseStatement pb (on p (ts @ rest)) = Some (a, on p rest)"
  proof (cases rule: stmt.cases)
    case (Simple us b s)
    obtain h hs where "us = h # hs" "ttype h \<in> simple_first" using simple_starts [OF Simple(3)] by blast
    then show ?thesis using Simple simple_statement_on [OF Simple(3) p Simple(4), of rest]
      by (auto simp: parseStatement_def first_defs simp del: parseIf.simps)
  next
    case IfStatement
    then show ?thesis using if_starts [OF IfStatement] if_on [OF IfStatement p rest n]
      by (auto simp: parseStatement_def simp del: parseIf.simps)
  next
    case (While w l us c r vs b)
    have "pb (on p (vs @ rest)) = Some (b, on p rest)" using n While(1) by (intro block_on [OF While(7) p]) simp
    then show ?thesis using While logical_closed [OF While(5) p, of r "vs @ rest"] p
      by (simp add: parseStatement_def parseWhile_def expect_or_def Let_def)
  next
    case (For f l us i s vs c s' ws u r xs b)
    have "length xs + length rest \<le> bound" using n For(1) by simp
    from for_on [OF For(3-11) p this] show ?thesis using For(1-3) by (simp add: parseStatement_def)
  next
    case Nested
    then show ?thesis using func_starts [OF Nested] func_on [OF Nested p n] by (auto simp: parseStatement_def)
  qed
qed

lemma stmts_starts: "stmts ts as \<Longrightarrow> ts \<noteq> [] \<Longrightarrow> ttype (hd ts) \<in> stmt_first"
  by (erule stmts.cases) (use stmt_starts in fastforce)+

lemma statements_on:
  "stmts ts as \<Longrightarrow> \<not> is_panic p \<Longrightarrow> ttype r = TOKEN_RBRACE \<Longrightarrow> length ts + Suc (length rest) \<le> bound \<Longrightarrow> length ts < m \<Longrightarrow>
   parseStatements m (parseStatement pb) ss (on p (ts @ r # rest)) = Some (ss @ as, on p (r # rest))"
proof (induction m arbitrary: ts as ss)
  case (Suc m)
  from Suc.prems(1) show ?case
  proof (cases rule: stmts.cases)
    case NoStatements
    then show ?thesis using Suc.prems(3) by simp
  next
    case (Statements us a vs bs)
    obtain h hs where h: "us = h # hs" "ttype h \<in> stmt_first" using stmt_starts [OF Statements(3)] by blast
    have "stops {TOKEN_KW_ELSE} (vs @ r # rest)"
      using stmts_starts [OF Statements(4)] Suc.prems(3) by (cases vs) (auto simp: first_defs)
    then have "parseStatement pb (on p (us @ vs @ r # rest)) = Some (a, on p (vs @ r # rest))"
      using Suc.prems(4) Statements(1) by (intro completeD [OF statement_complete Statements(3) Suc.prems(2)]) simp_all
    moreover have "append_node ss a = ss @ [a]" using statement_not_null [OF Statements(3)] by (simp add: append_node_def)
    moreover have "ttype h \<noteq> TOKEN_EOF" "ttype h \<noteq> TOKEN_RBRACE" using h(2) by (auto simp: first_defs)
    moreover have "parseStatements m (parseStatement pb) (ss @ [a]) (on p (vs @ r # rest)) = Some ((ss @ [a]) @ bs, on p (r # rest))"
      using Suc.prems(4,5) Statements(1) h(1) by (intro Suc.IH [OF Statements(4) Suc.prems(2,3)]) simp_all
    ultimately show ?thesis using Statements(1,2) h(1) Suc.prems(2) by simp
  qed
qed simp

lemma block_level_complete: "complete block {} (Suc bound) (parseBlockLevel pb)"
proof (rule completeI)
  fix p :: Parser and ts a and rest :: "Token list"
  assume e: "block ts a" and p: "\<not> is_panic p" and n: "length ts + length rest \<le> Suc bound"
  from e show "parseBlockLevel pb (on p (ts @ rest)) = Some (a, on p rest)"
  proof (cases rule: block.cases)
    case (Block l us as r)
    have "parseStatements (Suc (length us + Suc (length rest))) (parseStatement pb) [] (on p (us @ r # rest)) = Some ([] @ as, on p (r # rest))"
      using n Block(1) by (intro statements_on [OF Block(4) p Block(5)]) simp_all
    then show ?thesis using Block by (simp add: parseBlockLevel_def Let_def del: parseStatements.simps)
  qed
qed

end

lemma block_fuel_complete: "complete block {} n (parseBlockFuel (Suc n))"
proof (induction n)
  case 0
  show ?case using block_starts by (fastforce simp: complete_def)
next
  case (Suc n)
  then have "complete_blocks (parseBlockFuel (Suc n)) n" by unfold_locales
  from complete_blocks.block_level_complete [OF this]
  show ?case by (simp add: complete_def)
qed

interpretation blocks: complete_blocks parseBlock n for n
  unfolding parseBlock_def
  by unfold_locales (rule completeI, simp del: parseBlockFuel.simps, rule completeD [OF block_fuel_complete], simp_all)

end
