(* ===== verification/ParserGrammar.thy ===== *)
theory ParserGrammar
  imports GrammarStmtComplete DriverProps
begin

text \<open>
  The parser decides the grammar: it accepts exactly the token lists the grammar reads as a
  program, and returns the tree the grammar gives them.
\<close>

section \<open>Programs\<close>

lemma top_level_on:
  assumes "top_level ts d" "\<not> is_panic p"
  shows "parseTopLevel (on p (ts @ rest)) = Some (d, on p rest)"
  using assms(1)
proof (cases rule: top_level.cases)
  case TopFunction
  then show ?thesis using func_starts [OF TopFunction] blocks.func_on [OF TopFunction assms(2) order_refl, of rest] assms(2)
    by (auto simp: parseTopLevel_def)
next
  case (TopExtern e f us x ps t s)
  have "stops {TOKEN_LBRACKET, TOKEN_LT} (s # rest)" using TopExtern(6) by simp
  from signature_on [OF TopExtern(5) assms(2) this] show ?thesis
    using TopExtern assms(2) by (simp add: parseTopLevel_def parseExternFunction_def expect_or_def Let_def)
next
  case (TopVariable us s)
  have "closing (s # rest)" using TopVariable(3) by (simp add: closing_def)
  from decl_on [OF TopVariable(2) assms(2) this] decl_starts [OF TopVariable(2)] show ?thesis
    using TopVariable assms(2) by (auto simp: parseTopLevel_def parseAssign_def)
qed

lemma top_level_starts: "top_level ts d \<Longrightarrow> \<exists>t us. ts = t # us \<and> ttype t \<in> {TOKEN_KW_FUNC, TOKEN_KW_EXTERN, TOKEN_IDENTIFIER}"
  by (erule top_level.cases) (use func_starts decl_starts in fastforce)+

text \<open>The end of the tokens: none left, or the end marker.\<close>

definition at_end :: "Token list \<Rightarrow> bool" where
  "at_end ts \<longleftrightarrow> ts = [] \<or> ttype (hd ts) = TOKEN_EOF"

lemma program_on:
  "program us ds \<Longrightarrow> \<not> is_panic p \<Longrightarrow> at_end rest \<Longrightarrow> length us < m \<Longrightarrow>
   parseProgramLoop m zs (on p (us @ rest)) = Some (zs @ ds, on p rest)"
proof (induction m arbitrary: us ds zs)
  case (Suc m)
  from Suc.prems(1) show ?case
  proof (cases rule: program.cases)
    case Empty
    then show ?thesis using Suc.prems(3) by (cases rest) (simp_all add: at_end_def)
  next
    case (Declarations ts d vs bs)
    obtain h hs where h: "ts = h # hs" "ttype h \<in> {TOKEN_KW_FUNC, TOKEN_KW_EXTERN, TOKEN_IDENTIFIER}"
      using top_level_starts [OF Declarations(3)] by blast
    have "parseProgramLoop m (zs @ [d]) (on p (vs @ rest)) = Some ((zs @ [d]) @ bs, on p rest)"
      using Suc.prems(4) Declarations(1) h(1) by (intro Suc.IH [OF Declarations(4) Suc.prems(2,3)]) simp
    moreover have "append_node zs d = zs @ [d]" using top_level_not_null [OF Declarations(3)] by (simp add: append_node_def)
    moreover have "ttype h \<noteq> TOKEN_EOF" using h(2) by auto
    ultimately show ?thesis
      using top_level_on [OF Declarations(3) Suc.prems(2), of "vs @ rest"] Declarations(1,2) h(1) by simp
  qed
qed simp

lemma program_parses:
  assumes "program us ds" "at_end rest"
  shows "parserParseProgram (parserInit (us @ rest)) = Some (AST_PROGRAM (token_loc (us @ rest)) ds, on (parserInit (us @ rest)) rest)"
proof -
  let ?p = "parserInit (us @ rest)"
  have "parseProgramLoop (Suc (length (us @ rest))) [] (on ?p (us @ rest)) = Some ([] @ ds, on ?p rest)"
    by (rule program_on [OF assms(1) _ assms(2)]) (simp_all add: no_errors_yet)
  moreover have "on ?p (us @ rest) = ?p" by (simp add: parserInit_def)
  ultimately show ?thesis
    by (simp add: parserParseProgram_def current_loc_def parserInit_def del: parseProgramLoop.simps)
qed

lemma program_starts: "program us ds \<Longrightarrow> us \<noteq> [] \<Longrightarrow> ttype (hd us) \<noteq> TOKEN_EOF"
  by (erule program.cases) (use top_level_starts in fastforce)+

lemma accepted_program:
  "parserParseProgram (parserInit ts) = Some (root, p) \<Longrightarrow> items (perrors p) = [] \<Longrightarrow>
   \<exists>us rest ds. ts = us @ rest \<and> at_end rest \<and> program us ds \<and> root = AST_PROGRAM (token_loc ts) ds"
proof -
  assume a: "parserParseProgram (parserInit ts) = Some (root, p)" "items (perrors p) = []"
  then obtain ds where root: "root = AST_PROGRAM (token_loc ts) ds"
    by (auto simp: parserParseProgram_def bind_eq_Some_conv current_loc_def parserInit_def simp del: parseProgramLoop.simps)
  from program_sound [OF a(1) [unfolded root] a(2)] obtain us where
    "ts = us @ current p" "parserAtEnd p" "program us ds" by blast
  moreover from this(2) have "at_end (current p)" by (simp add: at_end_def parserAtEnd_def split: list.splits)
  ultimately show ?thesis using root by blast
qed

lemma parser_iff:
  "(\<exists>p. parserParseProgram (parserInit ts) = Some (root, p) \<and> items (perrors p) = [])
   \<longleftrightarrow> (\<exists>us rest ds. ts = us @ rest \<and> at_end rest \<and> program us ds \<and> root = AST_PROGRAM (token_loc ts) ds)"
  using accepted_program program_parses by (fastforce simp: no_errors_yet)

text \<open>The grammar is unambiguous.\<close>

lemma program_unique:
  assumes "program us ds" "at_end rest" "program us' ds'" "at_end rest'" "us @ rest = us' @ rest'"
  shows "us' = us \<and> ds' = ds"
proof -
  note a = program_parses [OF assms(1,2)] and b = program_parses [OF assms(3,4), folded assms(5)]
  have "on (parserInit (us @ rest)) rest = on (parserInit (us @ rest)) rest'" "ds' = ds" using a b by auto
  then have "current (on (parserInit (us @ rest)) rest) = current (on (parserInit (us @ rest)) rest')" by simp
  then have "rest = rest'" by simp
  then show ?thesis using assms(5) \<open>ds' = ds\<close> by simp
qed

section \<open>Readings that \<^verbatim>\<open>GRAMMAR.md\<close> leaves out\<close>

lemma primary_expr: "expr 6 ts a \<Longrightarrow> k \<le> 5 \<Longrightarrow> expr k ts a"
proof (induction "5 - k" arbitrary: k)
  case 0
  then show ?case using Primary by simp
next
  case (Suc n)
  then have "expr (Suc k) ts a" "k < 5" by simp_all
  then show ?case using Level [OF _ _ ChainEnd] by fastforce
qed

text \<open>An assignment target in parentheses, and a character literal as an operand.\<close>

lemma parenthesized_target:
  assumes "ttype l = TOKEN_LPAREN" "ttype x = TOKEN_IDENTIFIER" "ttype r = TOKEN_RPAREN" "ttype e = TOKEN_ASSIGN"
    and "ttype c = TOKEN_CHAR_LITERAL"
  shows "loose [l, x, r, e, c] (AST_ASSIGN (tloc e) AST_ASSIGN_SET (AST_IDENTIFIER (tloc x) (tvalue x))
     (AST_CHAR_LITERAL (tloc c) (parseCharLiteralValue (tvalue c))))"
proof -
  have "expr 6 [x] (AST_IDENTIFIER (tloc x) (tvalue x))" by (rule Postfix [OF assms(2) SuffixEnd])
  then have "expr 6 (l # [x] @ [r]) (AST_IDENTIFIER (tloc x) (tvalue x))"
    by (rule_tac Group [OF assms(1) primary_expr assms(3)]) simp_all
  from loose.Assignment [OF primary_expr [OF this] _ _ primary_expr [OF expr_chain_suffixes_more.Char [OF assms(5)]], of e] show ?thesis
    using assms(4) by simp
qed

text \<open>\<^verbatim>\<open>func f() -> void { func g() -> void { } }\<close>: a function declaration among the
  statements of a block.\<close>

definition nested_tokens :: "Token list" where
  "nested_tokens =
     (let tok = (\<lambda>k. \<lparr>ttype = k, tvalue = ''f'', tline = 1, tcolumn = 1\<rparr>);
          head = map tok [TOKEN_KW_FUNC, TOKEN_IDENTIFIER, TOKEN_LPAREN, TOKEN_RPAREN, TOKEN_ARROW, TOKEN_TYPE_VOID, TOKEN_LBRACE]
      in head @ head @ map tok [TOKEN_RBRACE, TOKEN_RBRACE, TOKEN_EOF])"

lemma nested_function_parsed:
  "map_option (\<lambda>(root, p). length (items (perrors p))) (parserParseProgram (parserInit nested_tokens)) = Some 0"
  by code_simp

section \<open>Source programs\<close>

text \<open>Stated without the phases of the compiler: the text splits into lexemes of the token table,
  its tokens are a program of the grammar, and its tree obeys the rules for declarations,
  statements and types.\<close>

definition source_program :: "string \<Rightarrow> ast \<Rightarrow> bool" where
  "source_program input root \<longleftrightarrow>
     (\<exists>ls us rest ds. lexed (c_string input) ls \<and> located (1, 1) ls = us @ rest \<and> at_end rest \<and> program us ds
        \<and> root = AST_PROGRAM (token_loc (us @ rest)) ds \<and> valid_program root)"

lemma accepted_source: "accepted input root \<longleftrightarrow> source_program input root"
proof -
  have "accepted input root \<longleftrightarrow> (\<exists>ts. tokenizeString input = Inr ts
      \<and> (\<exists>p. parserParseProgram (parserInit ts) = Some (root, p) \<and> items (perrors p) = []) \<and> valid_program root)"
    by (auto simp: accepted_def)
  also have "\<dots> \<longleftrightarrow> source_program input root"
    unfolding parser_iff tokenizeString_iff source_program_def by metis
  finally show ?thesis .
qed

text \<open>A run that ends with the reports of the lexer, the parser or the analyser, before the output
  file is touched.\<close>

definition rejected :: "run_result \<Rightarrow> bool" where
  "rejected r = (case r of
     Completed c \<Rightarrow> \<not> succeeded c \<and> stdout c \<noteq> [] \<and> output_file c = Untouched
   | Exits s \<Rightarrow> s \<noteq> []
   | Undefined \<Rightarrow> False)"

lemma rejected_iff:
  "rejected (compileSourceStringToLlvmIr w input path) \<longleftrightarrow> (\<nexists>root. accepted input root)"
proof (cases "compileSourceStringToLlvmIr w input path")
  case (Completed r)
  from run_cases [OF this] show ?thesis
    unfolding rejected_def Completed run_result.case by (auto simp: llvm_of_def)
next
  case (Exits s)
  then obtain u where "tokenizeString input = Inl (UnrecognizedToken u)" "s \<noteq> []"
    unfolding exit_is_lexical by auto
  then show ?thesis by (simp add: rejected_def Exits accepted_def)
next
  case Undefined
  then have "\<exists>root. accepted input root" using undefined_is_generation [of w input path] by blast
  then show ?thesis by (simp add: rejected_def Undefined)
qed

section \<open>Properties\<close>

text \<open>C3: the parser reports no error exactly on the token lists that the grammar reads, up to the end
  marker, as a program; and the tree it then returns is the one the grammar gives.  The grammar is
  that of \<^verbatim>\<open>GRAMMAR.md\<close> with four additions that the parser makes: function declarations as
  statements, character literals, targets in parentheses, \<^verbatim>\<open>void\<close> as any type.\<close>

theorem parser_decides_grammar:
  "(\<exists>p. parserParseProgram (parserInit ts) = Some (root, p) \<and> items (perrors p) = [])
   \<longleftrightarrow> (\<exists>us rest ds. ts = us @ rest \<and> at_end rest \<and> program us ds \<and> root = AST_PROGRAM (token_loc ts) ds)"
  by (rule parser_iff)

text \<open>C4: the compiler goes on to generate code exactly for the texts that are source programs, and
  such a text is one in one way only; every other text it rejects, by the lexer, the parser or
  \<^verbatim>\<open>semanticAnalyze\<close>, with a report and before it touches the output file.  A source program is
  stated without these phases: lexemes of the token table, a program of the grammar (with its four
  additions), valid declarations, statements and types.\<close>

theorem front_end_accepts:
  "if rejected (compileSourceStringToLlvmIr w input path) then \<nexists>root. source_program input root
   else \<exists>!root. source_program input root"
  unfolding rejected_iff using accepted_unique [of input] by (auto simp: accepted_source [symmetric])

end
