(* ===== verification/Values.thy ===== *)
theory Values
  imports IrCore "HOL-Library.Signed_Division"
begin

text \<open>
  The values programs compute with, and memory.  What source and translation share: an
  \<^verbatim>\<open>int\<close> is a 32-bit word, a \<^verbatim>\<open>char\<close> a signed 8-bit word, a
  pointer the address of a cell with the type it holds.  Memory is the list of the cells allocated
  so far; a cell has a type and, once it was written, a value.
\<close>

datatype ty = T_INT | T_CHAR | T_BOOL | T_POINTER ty

datatype val = VInt "32 word" | VChar "8 word" | VBool bool | VPointer ty nat

fun type_of :: "val \<Rightarrow> ty" where
  "type_of (VInt a) = T_INT"
| "type_of (VChar a) = T_CHAR"
| "type_of (VBool a) = T_BOOL"
| "type_of (VPointer t a) = T_POINTER t"

type_synonym heap = "(ty \<times> val option) list"

definition allocate :: "ty \<Rightarrow> heap \<Rightarrow> nat \<times> heap" where
  "allocate t h = (length h, h @ [(t, None)])"

definition read_cell :: "ty \<Rightarrow> nat \<Rightarrow> heap \<Rightarrow> val option" where
  "read_cell t a h =
     (if a < length h \<and> fst (h ! a) = t then Option.bind (snd (h ! a)) (\<lambda>v. if type_of v = t then Some v else None)
      else None)"

definition write_cell :: "nat \<Rightarrow> val \<Rightarrow> heap \<Rightarrow> heap option" where
  "write_cell a v h =
     (if a < length h \<and> fst (h ! a) = type_of v then Some (h[a := (type_of v, Some v)]) else None)"

lemma read_cell_type: "read_cell t a h = Some v \<Longrightarrow> type_of v = t"
  by (auto simp: read_cell_def bind_eq_Some_conv split: if_splits)

text \<open>The surroundings of a program: the cells of its globals by name, and what a function it
  does not define does to memory and returns.\<close>

record world =
  cells :: "string \<Rightarrow> nat option"
  extern :: "string \<Rightarrow> val list \<Rightarrow> heap \<Rightarrow> (val option \<times> heap) option"

section \<open>Operators of the source\<close>

text \<open>Arithmetic is that of the integers, reduced to the width; a quotient is rounded towards
  zero, and undefined for a divisor of zero or where it is not representable.\<close>

fun arith :: "int \<Rightarrow> AstBinaryOp \<Rightarrow> int \<Rightarrow> int \<Rightarrow> int option" where
  "arith limit AST_BINARY_ADD a b = Some (a + b)"
| "arith limit AST_BINARY_SUB a b = Some (a - b)"
| "arith limit AST_BINARY_MUL a b = Some (a * b)"
| "arith limit AST_BINARY_DIV a b = (if b = 0 \<or> limit \<le> a sdiv b then None else Some (a sdiv b))"
| "arith limit _ a b = None"

fun compare_ints :: "AstBinaryOp \<Rightarrow> int \<Rightarrow> int \<Rightarrow> bool option" where
  "compare_ints AST_BINARY_GT a b = Some (a > b)"
| "compare_ints AST_BINARY_LT a b = Some (a < b)"
| "compare_ints AST_BINARY_GTE a b = Some (a \<ge> b)"
| "compare_ints AST_BINARY_LTE a b = Some (a \<le> b)"
| "compare_ints AST_BINARY_EQ a b = Some (a = b)"
| "compare_ints AST_BINARY_NEQ a b = Some (a \<noteq> b)"
| "compare_ints _ a b = None"

fun combine_bools :: "AstBinaryOp \<Rightarrow> bool \<Rightarrow> bool \<Rightarrow> bool option" where
  "combine_bools AST_BINARY_AND a b = Some (a \<and> b)"
| "combine_bools AST_BINARY_OR a b = Some (a \<or> b)"
| "combine_bools AST_BINARY_EQ a b = Some (a = b)"
| "combine_bools AST_BINARY_NEQ a b = Some (a \<noteq> b)"
| "combine_bools _ a b = None"

fun binary_value :: "AstBinaryOp \<Rightarrow> val \<Rightarrow> val \<Rightarrow> val option" where
  "binary_value op (VInt a) (VInt b) =
     (case compare_ints op (sint a) (sint b) of
        Some c \<Rightarrow> Some (VBool c)
      | None \<Rightarrow> map_option (\<lambda>i. VInt (word_of_int i)) (arith (2 ^ 31) op (sint a) (sint b)))"
| "binary_value op (VChar a) (VChar b) = map_option VBool (compare_ints op (sint a) (sint b))"
| "binary_value op (VBool a) (VBool b) = map_option VBool (combine_bools op a b)"
| "binary_value op _ _ = None"

fun unary_value :: "AstUnaryOp \<Rightarrow> val \<Rightarrow> val option" where
  "unary_value AST_UNARY_NEGATE (VInt a) = Some (VInt (word_of_int (- sint a)))"
| "unary_value AST_UNARY_NOT (VBool a) = Some (VBool (\<not> a))"
| "unary_value op _ = None"

section \<open>Instructions of the translation\<close>

text \<open>The integer instructions of LLVM: two's complement, signed division and comparisons.\<close>

fun ir_arith :: "IRBinaryKind \<Rightarrow> 'a::len word \<Rightarrow> 'a word \<Rightarrow> 'a word option" where
  "ir_arith IR_INSTR_ADD a b = Some (a + b)"
| "ir_arith IR_INSTR_SUB a b = Some (a - b)"
| "ir_arith IR_INSTR_MUL a b = Some (a * b)"
| "ir_arith IR_INSTR_DIV a b =
     (if b = 0 \<or> 2 ^ (LENGTH('a) - 1) \<le> sint a sdiv sint b then None else Some (word_of_int (sint a sdiv sint b)))"
| "ir_arith IR_INSTR_AND a b = Some (and a b)"
| "ir_arith IR_INSTR_OR a b = Some (or a b)"
| "ir_arith _ a b = None"

fun ir_compare :: "IRBinaryKind \<Rightarrow> 'a::len word \<Rightarrow> 'a word \<Rightarrow> bool option" where
  "ir_compare IR_INSTR_CMP_EQ a b = Some (a = b)"
| "ir_compare IR_INSTR_CMP_NE a b = Some (a \<noteq> b)"
| "ir_compare IR_INSTR_CMP_LT a b = Some (word_sless a b)"
| "ir_compare IR_INSTR_CMP_LE a b = Some (word_sle a b)"
| "ir_compare IR_INSTR_CMP_GT a b = Some (word_sless b a)"
| "ir_compare IR_INSTR_CMP_GE a b = Some (word_sle b a)"
| "ir_compare _ a b = None"

definition bit_of :: "bool \<Rightarrow> 1 word" where
  "bit_of b = of_bool b"

definition ir_words :: "('a::len word \<Rightarrow> val) \<Rightarrow> IRBinaryKind \<Rightarrow> 'a word \<Rightarrow> 'a word \<Rightarrow> val option" where
  "ir_words f k a b = (case ir_compare k a b of Some c \<Rightarrow> Some (VBool c) | None \<Rightarrow> map_option f (ir_arith k a b))"

fun ir_binary :: "IRBinaryKind \<Rightarrow> val \<Rightarrow> val \<Rightarrow> val option" where
  "ir_binary k (VInt a) (VInt b) = ir_words VInt k a b"
| "ir_binary k (VChar a) (VChar b) = ir_words VChar k a b"
| "ir_binary k (VBool a) (VBool b) = ir_words (\<lambda>w. VBool (w \<noteq> 0)) k (bit_of a) (bit_of b)"
| "ir_binary k _ _ = None"

fun ir_unary :: "IRUnaryKind \<Rightarrow> val \<Rightarrow> val option" where
  "ir_unary IR_INSTR_NEG (VInt a) = Some (VInt (- a))"
| "ir_unary IR_INSTR_NEG (VChar a) = Some (VChar (- a))"
| "ir_unary IR_INSTR_NOT (VBool a) = Some (VBool (\<not> a))"
| "ir_unary k _ = None"

fun ir_ty :: "IRType \<Rightarrow> ty option" where
  "ir_ty IR_TYPE_INT = Some T_INT"
| "ir_ty IR_TYPE_CHAR = Some T_CHAR"
| "ir_ty IR_TYPE_BOOL = Some T_BOOL"
| "ir_ty (IR_TYPE_POINTER t) = map_option T_POINTER (ir_ty t)"
| "ir_ty _ = None"

text \<open>A constant of a type, where its digits fit.\<close>

definition ir_literal :: "IRType option \<Rightarrow> IRLiteral option \<Rightarrow> val option" where
  "ir_literal t l =
     (case (t, l) of
        (Some IR_TYPE_INT, Some (IR_LITERAL_INT v)) \<Rightarrow>
          if - (2 ^ 31) \<le> v \<and> v < 2 ^ 31 then Some (VInt (word_of_int v)) else None
      | (Some IR_TYPE_CHAR, Some (IR_LITERAL_INT v)) \<Rightarrow>
          if - (2 ^ 7) \<le> v \<and> v < 2 ^ 7 then Some (VChar (word_of_int v)) else None
      | (Some IR_TYPE_BOOL, Some (IR_LITERAL_BOOL b)) \<Rightarrow> Some (VBool b)
      | _ \<Rightarrow> None)"

end
