(* ===== verification/Machine.thy ===== *)
theory Machine
  imports Values IrInv
begin

text \<open>
  What a module means: running the instructions of a function.  Registers hold the results of the
  instructions by their number; an \<^verbatim>\<open>alloca\<close> takes a new cell.  There is no rule
  where an operand is undefined, a cell has another type, or control runs off a block, and no
  rule for the address computations and casts.
\<close>

record activation =
  amodule :: IRModule
  aworld :: world
  afun :: IRFunction
  aargs :: "val list"

type_synonym regs = "nat \<Rightarrow> val option"

text \<open>A global stands for the cell of the name it is printed with.\<close>

definition global_pointer :: "IRModule \<Rightarrow> world \<Rightarrow> nat \<Rightarrow> val option" where
  "global_pointer m w i =
     (case find (\<lambda>g. gid g = i) (items (globals m)) of
        None \<Rightarrow> None
      | Some g \<Rightarrow>
          (case (ir_ty (gtype g), cells w (gname g)) of
             (Some t, Some a) \<Rightarrow> Some (VPointer t a)
           | _ \<Rightarrow> None))"

definition operand_value :: "activation \<Rightarrow> regs \<Rightarrow> IROperand \<Rightarrow> val option" where
  "operand_value A r x =
     (case oref x of
        IR_OPERAND_LOCAL i \<Rightarrow> r i
      | IR_OPERAND_PARAM i \<Rightarrow> if 1 \<le> i \<and> i \<le> length (aargs A) then Some (aargs A ! (i - 1)) else None
      | IR_OPERAND_GLOBAL i \<Rightarrow> global_pointer (amodule A) (aworld A) i
      | IR_OPERAND_LITERAL l \<Rightarrow> ir_literal (otype x) l
      | IR_OPERAND_BLOCK i \<Rightarrow> None)"

text \<open>An instruction that only computes: the value of its result, and memory.\<close>

definition computed :: "activation \<Rightarrow> IRType \<Rightarrow> IRInstructionData \<Rightarrow> regs \<Rightarrow> heap \<Rightarrow> (val \<times> heap) option" where
  "computed A t d r h =
     (case d of
        IR_INSTR_ALLOCA u \<Rightarrow>
          map_option (\<lambda>c. let (a, h) = allocate c h in (VPointer c a, h)) (ir_ty u)
      | IR_INSTR_LOAD x \<Rightarrow>
          (case (operand_value A r x, ir_ty t) of
             (Some (VPointer c a), Some c') \<Rightarrow> if c = c' then map_option (\<lambda>v. (v, h)) (read_cell c a h) else None
           | _ \<Rightarrow> None)
      | IR_INSTR_BINARY k x y \<Rightarrow>
          (case (operand_value A r x, operand_value A r y) of
             (Some v, Some w) \<Rightarrow> map_option (\<lambda>u. (u, h)) (ir_binary k v w)
           | _ \<Rightarrow> None)
      | IR_INSTR_UNARY k x \<Rightarrow>
          (case operand_value A r x of
             Some v \<Rightarrow> map_option (\<lambda>u. (u, h)) (ir_unary k v)
           | _ \<Rightarrow> None)
      | _ \<Rightarrow> None)"

definition stored :: "activation \<Rightarrow> IROperand \<Rightarrow> IROperand \<Rightarrow> regs \<Rightarrow> heap \<Rightarrow> heap option" where
  "stored A x y r h =
     (case (operand_value A r x, operand_value A r y) of
        (Some (VPointer c a), Some v) \<Rightarrow> if type_of v = c then write_cell a v h else None
      | _ \<Rightarrow> None)"

definition result_register :: "(nat \<times> IRType) option \<Rightarrow> val option \<Rightarrow> regs \<Rightarrow> regs option" where
  "result_register d v r =
     (case (d, v) of
        (None, _) \<Rightarrow> Some r
      | (Some (k, t), Some v) \<Rightarrow> if ir_ty t = Some (type_of v) then Some (r(k := Some v)) else None
      | _ \<Rightarrow> None)"

definition returned_value :: "activation \<Rightarrow> IROperand option \<Rightarrow> regs \<Rightarrow> val option option" where
  "returned_value A x r =
     (case x of
        None \<Rightarrow> if return_type (afun A) = IR_TYPE_VOID then Some None else None
      | Some x \<Rightarrow>
          (case operand_value A r x of
             Some v \<Rightarrow> if ir_ty (return_type (afun A)) = Some (type_of v) then Some (Some v) else None
           | None \<Rightarrow> None))"

definition function_named :: "IRModule \<Rightarrow> string \<Rightarrow> IRFunction option" where
  "function_named m name = find (\<lambda>f. fname f = name) (items (mfunctions m))"

definition entry_code :: "IRFunction \<Rightarrow> IRInstruction list" where
  "entry_code f = (case items (blocks f) of [] \<Rightarrow> [] | bb # bbs \<Rightarrow> items (instructions bb))"

inductive runs ::
  "activation \<Rightarrow> IRInstruction list \<Rightarrow> regs \<Rightarrow> heap \<Rightarrow> val option \<Rightarrow> heap \<Rightarrow> bool"
and returns :: "IRModule \<Rightarrow> world \<Rightarrow> string \<Rightarrow> val list \<Rightarrow> heap \<Rightarrow> val option \<Rightarrow> heap \<Rightarrow> bool"
where
  run_compute:
    "iresult i = Some (k, t) \<Longrightarrow> computed A t (idata i) r h = Some (v, h1) \<Longrightarrow>
     runs A is (r(k := Some v)) h1 q g \<Longrightarrow> runs A (i # is) r h q g"
| run_store:
    "idata i = IR_INSTR_STORE x y \<Longrightarrow> stored A x y r h = Some h1 \<Longrightarrow>
     runs A is r h1 q g \<Longrightarrow> runs A (i # is) r h q g"
| run_call:
    "idata i = IR_INSTR_CALL name xs \<Longrightarrow> those (map (operand_value A r) xs) = Some vs \<Longrightarrow>
     returns (amodule A) (aworld A) name vs h v h1 \<Longrightarrow> result_register (iresult i) v r = Some r1 \<Longrightarrow>
     runs A is r1 h1 q g \<Longrightarrow> runs A (i # is) r h q g"
| run_branch:
    "idata i = IR_INSTR_BR k \<Longrightarrow> runs A (block_code (afun A) k) r h q g \<Longrightarrow> runs A (i # is) r h q g"
| run_cond_branch:
    "idata i = IR_INSTR_COND_BR x k l \<Longrightarrow> operand_value A r x = Some (VBool c) \<Longrightarrow>
     runs A (block_code (afun A) (if c then k else l)) r h q g \<Longrightarrow> runs A (i # is) r h q g"
| run_return:
    "idata i = IR_INSTR_RET x \<Longrightarrow> returned_value A x r = Some q \<Longrightarrow> runs A (i # is) r h q h"
| call_defined:
    "function_named m name = Some f \<Longrightarrow> map (\<lambda>p. ir_ty (ptype p)) (params f) = map (\<lambda>v. Some (type_of v)) vs \<Longrightarrow>
     runs \<lparr>amodule = m, aworld = w, afun = f, aargs = vs\<rparr> (entry_code f) Map.empty h q g \<Longrightarrow>
     returns m w name vs h q g"
| call_extern:
    "function_named m name = None \<Longrightarrow> extern w name vs h = Some (q, g) \<Longrightarrow> returns m w name vs h q g"

inductive_cases runs_ConsE: "runs A (i # is) r h q g"
inductive_cases runs_NilE: "runs A [] r h q g"
inductive_cases returnsE: "returns m w name vs h q g"

text \<open>Execution is deterministic.\<close>

lemma computed_kinds: "computed A t d r h = Some p \<Longrightarrow>
   (\<exists>u. d = IR_INSTR_ALLOCA u) \<or> (\<exists>x. d = IR_INSTR_LOAD x) \<or> (\<exists>k x y. d = IR_INSTR_BINARY k x y) \<or> (\<exists>k x. d = IR_INSTR_UNARY k x)"
  by (cases d) (simp_all add: computed_def)

lemma runs_computeD:
  assumes "runs A (i # is) r h q g" "iresult i = Some (k, t)" "computed A t (idata i) r h = Some (v, h1)"
  shows "runs A is (r(k := Some v)) h1 q g"
  using computed_kinds [OF assms(3)] assms by (elim runs_ConsE) auto

lemma runs_storeD:
  assumes "runs A (i # is) r h q g" "idata i = IR_INSTR_STORE x y" "stored A x y r h = Some h1"
  shows "runs A is r h1 q g"
  using assms by (elim runs_ConsE) (simp_all add: computed_def)

lemma runs_callE:
  assumes "runs A (i # is) r h q g" "idata i = IR_INSTR_CALL name xs"
  obtains vs v h1 r1 where "those (map (operand_value A r) xs) = Some vs"
    "returns (amodule A) (aworld A) name vs h v h1" "result_register (iresult i) v r = Some r1" "runs A is r1 h1 q g"
  using assms by (elim runs_ConsE) (auto simp: computed_def)

lemma runs_branchD:
  assumes "runs A (i # is) r h q g" "idata i = IR_INSTR_BR k"
  shows "runs A (block_code (afun A) k) r h q g"
  using assms by (elim runs_ConsE) (simp_all add: computed_def)

lemma runs_cond_branchD:
  assumes "runs A (i # is) r h q g" "idata i = IR_INSTR_COND_BR x k l" "operand_value A r x = Some (VBool c)"
  shows "runs A (block_code (afun A) (if c then k else l)) r h q g"
  using assms by (elim runs_ConsE) (simp_all add: computed_def)

lemma runs_returnD:
  assumes "runs A (i # is) r h q g" "idata i = IR_INSTR_RET x"
  shows "returned_value A x r = Some q \<and> g = h"
  using assms by (elim runs_ConsE) (simp_all add: computed_def)

lemma runs_deterministic:
  "runs A is r h q g \<Longrightarrow> runs A is r h q' g' \<Longrightarrow> q' = q \<and> g' = g"
  "returns m w name vs h q g \<Longrightarrow> returns m w name vs h q' g' \<Longrightarrow> q' = q \<and> g' = g"
proof (induction arbitrary: q' g' and q' g' rule: runs_returns.inducts)
  case (run_compute i k t A r h v h1 js q g)
  show ?case using run_compute.IH runs_computeD [OF run_compute.prems run_compute.hyps(1,2)] .
next
  case (run_store i x y A r h h1 js q g)
  show ?case using run_store.IH runs_storeD [OF run_store.prems run_store.hyps(1,2)] .
next
  case (run_call i name xs A r vs h v h1 r1 js q g)
  obtain vs' v' h1' r1' where c: "those (map (operand_value A r) xs) = Some vs'"
    "returns (amodule A) (aworld A) name vs' h v' h1'" "result_register (iresult i) v' r = Some r1'" "runs A js r1' h1' q' g'"
    using runs_callE [OF run_call.prems run_call.hyps(1)] by metis
  have "vs' = vs" using run_call.hyps(2) c(1) by simp
  then have "v' = v \<and> h1' = h1" using run_call.IH(1) c(2) by simp
  moreover from this have "r1' = r1" using run_call.hyps(4) c(3) by simp
  ultimately show ?case using run_call.IH(2) c(4) by simp
next
  case (run_branch i k A r h q g js)
  show ?case using run_branch.IH runs_branchD [OF run_branch.prems run_branch.hyps(1)] .
next
  case (run_cond_branch i x k l A r c h q g js)
  show ?case using run_cond_branch.IH runs_cond_branchD [OF run_cond_branch.prems run_cond_branch.hyps(1,2)] .
next
  case (run_return i x A r q h js)
  show ?case using runs_returnD [OF run_return.prems run_return.hyps(1)] run_return.hyps(2) by simp
next
  case (call_defined m name f vs w h q g)
  have "runs \<lparr>amodule = m, aworld = w, afun = f, aargs = vs\<rparr> (entry_code f) Map.empty h q' g'"
    using call_defined.prems call_defined.hyps(1) by (elim returnsE) simp_all
  then show ?case by (rule call_defined.IH)
next
  case (call_extern m name w vs h q g)
  from call_extern.prems call_extern.hyps show ?case by (elim returnsE) simp_all
qed

end
