(* ===== verification/Meaning.thy ===== *)
theory Meaning
  imports Values
begin

text \<open>
  What a source program means, for programs over \<^verbatim>\<open>int\<close>,
  \<^verbatim>\<open>char\<close>, \<^verbatim>\<open>bool\<close> and pointers to variables: the README's
  account of the language as an evaluator.  Operands and arguments are evaluated from left to
  right, both operands of \<^verbatim>\<open>&&\<close> and \<^verbatim>\<open>||\<close> always are, and a block has
  a scope of its own.  The result is \<open>None\<close> where the program has no meaning (an undefined
  quotient, a variable read before it is set, a value of another type) and for arrays, floats,
  strings and pointer arithmetic, which are left out.
\<close>

type_synonym env = "string \<Rightarrow> (nat \<times> ty) option"

type_synonym caller = "string \<Rightarrow> val list \<Rightarrow> heap \<Rightarrow> (val option \<times> heap) option"

fun node_ty :: "ast \<Rightarrow> ty option" where
  "node_ty (AST_TYPE_NAME l k x) =
     (case k of AST_TYPE_INT_KIND \<Rightarrow> Some T_INT | AST_TYPE_CHAR_KIND \<Rightarrow> Some T_CHAR
      | AST_TYPE_BOOL_KIND \<Rightarrow> Some T_BOOL | _ \<Rightarrow> None)"
| "node_ty (AST_TYPE_POINTER l t) = map_option T_POINTER (node_ty t)"
| "node_ty _ = None"

definition is_void :: "ast \<Rightarrow> bool" where
  "is_void t = (case t of AST_TYPE_NAME l k x \<Rightarrow> k = AST_TYPE_VOID_KIND | _ \<Rightarrow> False)"

section \<open>Expressions\<close>

definition int_literal :: "int \<Rightarrow> val option" where
  "int_literal v = (if 0 \<le> v \<and> v < 2 ^ 31 then Some (VInt (word_of_int v)) else None)"

function eval :: "caller \<Rightarrow> env \<Rightarrow> ast \<Rightarrow> heap \<Rightarrow> (val \<times> heap) option"
and eval_place :: "caller \<Rightarrow> env \<Rightarrow> ast \<Rightarrow> heap \<Rightarrow> ((nat \<times> ty) \<times> heap) option"
and eval_args :: "caller \<Rightarrow> env \<Rightarrow> ast list \<Rightarrow> heap \<Rightarrow> (val list \<times> heap) option"
where
  "eval call \<rho> e h = (case e of
     AST_INT_LITERAL l v \<Rightarrow> map_option (\<lambda>v. (v, h)) (int_literal v)
   | AST_CHAR_LITERAL l c \<Rightarrow> Some (VChar (of_char c), h)
   | AST_BOOL_LITERAL l c \<Rightarrow> Some (VBool c, h)
   | AST_IDENTIFIER l x \<Rightarrow>
       (case \<rho> x of None \<Rightarrow> None | Some (a, t) \<Rightarrow> map_option (\<lambda>v. (v, h)) (read_cell t a h))
   | AST_UNARY l op x \<Rightarrow>
       if op = AST_UNARY_ADDRESS_OF then
         (case eval_place call \<rho> x h of None \<Rightarrow> None | Some ((a, t), h) \<Rightarrow> Some (VPointer t a, h))
       else
         (case eval call \<rho> x h of
            None \<Rightarrow> None
          | Some (v, h) \<Rightarrow>
              if op = AST_UNARY_DEREF then
                (case v of VPointer t a \<Rightarrow> map_option (\<lambda>v. (v, h)) (read_cell t a h) | _ \<Rightarrow> None)
              else map_option (\<lambda>v. (v, h)) (unary_value op v))
   | AST_BINARY l op x y \<Rightarrow>
       (case eval call \<rho> x h of
          None \<Rightarrow> None
        | Some (v, h) \<Rightarrow>
            (case eval call \<rho> y h of
               None \<Rightarrow> None
             | Some (w, h) \<Rightarrow> map_option (\<lambda>v. (v, h)) (binary_value op v w)))
   | AST_CALL l f args \<Rightarrow>
       (case f of
          AST_IDENTIFIER m name \<Rightarrow>
            (case eval_args call \<rho> args h of
               None \<Rightarrow> None
             | Some (vs, h) \<Rightarrow> (case call name vs h of Some (Some v, h) \<Rightarrow> Some (v, h) | _ \<Rightarrow> None))
        | _ \<Rightarrow> None)
   | _ \<Rightarrow> None)"
| "eval_place call \<rho> e h = (case e of
     AST_IDENTIFIER l x \<Rightarrow> map_option (\<lambda>p. (p, h)) (\<rho> x)
   | AST_UNARY l op x \<Rightarrow>
       if op = AST_UNARY_DEREF then
         (case eval call \<rho> x h of Some (VPointer t a, h) \<Rightarrow> Some ((a, t), h) | _ \<Rightarrow> None)
       else None
   | _ \<Rightarrow> None)"
| "eval_args call \<rho> [] h = Some ([], h)"
| "eval_args call \<rho> (e # es) h =
     (case eval call \<rho> e h of
        None \<Rightarrow> None
      | Some (v, h) \<Rightarrow>
          (case eval_args call \<rho> es h of None \<Rightarrow> None | Some (vs, h) \<Rightarrow> Some (v # vs, h)))"
  by pat_completeness auto
termination
  by (relation "measure (\<lambda>x. case x of
        Inl (c, r, e, h) \<Rightarrow> 2 * size e + 1
      | Inr (Inl (c, r, e, h)) \<Rightarrow> 2 * size e
      | Inr (Inr (c, r, es, h)) \<Rightarrow> 2 * size_list size es)") auto

lemmas eval_unfold = eval.simps eval_place.simps

declare eval_unfold [simp del]

text \<open>An expression as a statement; a call need not return a value.\<close>

definition eval_effect :: "caller \<Rightarrow> env \<Rightarrow> ast \<Rightarrow> heap \<Rightarrow> heap option" where
  "eval_effect call \<rho> e h =
     (case e of
        AST_CALL l (AST_IDENTIFIER m name) args \<Rightarrow>
          (case eval_args call \<rho> args h of None \<Rightarrow> None | Some (vs, h) \<Rightarrow> map_option snd (call name vs h))
      | _ \<Rightarrow> map_option snd (eval call \<rho> e h))"

section \<open>Statements\<close>

datatype flow = Next | Broke | Continued | Left "val option"

fun statements_of :: "ast \<Rightarrow> ast list option" where
  "statements_of AST_NULL = Some []"
| "statements_of (AST_BLOCK l ss) = Some ss"
| "statements_of _ = None"

text \<open>The nodes a loop header may hold besides expressions.\<close>

fun is_header_statement :: "ast \<Rightarrow> bool" where
  "is_header_statement (AST_VAR_DECL l x t i) = True"
| "is_header_statement (AST_ASSIGN l op t v) = True"
| "is_header_statement _ = False"

definition assign :: "caller \<Rightarrow> env \<Rightarrow> AstAssignOp \<Rightarrow> ast \<Rightarrow> ast \<Rightarrow> heap \<Rightarrow> heap option" where
  "assign call \<rho> op target e h =
     (case eval_place call \<rho> target h of
        None \<Rightarrow> None
      | Some ((a, t), h) \<Rightarrow>
          if op = AST_ASSIGN_SET then
            (case eval call \<rho> e h of
               None \<Rightarrow> None
             | Some (v, h) \<Rightarrow> if type_of v = t then write_cell a v h else None)
          else
            (case read_cell t a h of
               None \<Rightarrow> None
             | Some v \<Rightarrow>
                 (case eval call \<rho> e h of
                    None \<Rightarrow> None
                  | Some (w, h) \<Rightarrow>
                      (case binary_value (if op = AST_ASSIGN_ADD then AST_BINARY_ADD else AST_BINARY_SUB) v w of
                         None \<Rightarrow> None
                       | Some u \<Rightarrow> if type_of u = t then write_cell a u h else None))))"

text \<open>A declared variable has a new cell; its initializer is evaluated outside its scope.\<close>

definition declare_variable :: "caller \<Rightarrow> env \<Rightarrow> string \<Rightarrow> ast \<Rightarrow> ast \<Rightarrow> heap \<Rightarrow> (env \<times> heap) option" where
  "declare_variable call \<rho> x t e h =
     (case node_ty t of
        None \<Rightarrow> None
      | Some c \<Rightarrow>
          (let (a, h) = allocate c h; \<rho>' = \<rho>(x := Some (a, c))
           in if e = AST_NULL then Some (\<rho>', h)
              else (case eval call \<rho> e h of
                      None \<Rightarrow> None
                    | Some (v, h) \<Rightarrow>
                        if type_of v = c then map_option (\<lambda>h. (\<rho>', h)) (write_cell a v h) else None)))"

definition condition :: "caller \<Rightarrow> env \<Rightarrow> ast \<Rightarrow> heap \<Rightarrow> (bool \<times> heap) option" where
  "condition call \<rho> e h = (case eval call \<rho> e h of Some (VBool c, h) \<Rightarrow> Some (c, h) | _ \<Rightarrow> None)"

text \<open>The fuel bounds the nesting of statements and the rounds of loops.\<close>

function exec :: "caller \<Rightarrow> nat \<Rightarrow> env \<Rightarrow> ast \<Rightarrow> heap \<Rightarrow> (flow \<times> env \<times> heap) option"
and exec_items :: "caller \<Rightarrow> nat \<Rightarrow> env \<Rightarrow> ast list \<Rightarrow> heap \<Rightarrow> (flow \<times> env \<times> heap) option"
and exec_body :: "caller \<Rightarrow> nat \<Rightarrow> env \<Rightarrow> ast \<Rightarrow> heap \<Rightarrow> (flow \<times> heap) option"
and exec_header :: "caller \<Rightarrow> nat \<Rightarrow> env \<Rightarrow> ast \<Rightarrow> heap \<Rightarrow> (env \<times> heap) option"
and exec_for :: "caller \<Rightarrow> nat \<Rightarrow> env \<Rightarrow> ast \<Rightarrow> ast \<Rightarrow> ast \<Rightarrow> heap \<Rightarrow> (flow \<times> heap) option"
where
  "exec call 0 \<rho> s h = None"
| "exec call (Suc n) \<rho> s h =
     (case s of
        AST_VAR_DECL l x t e \<Rightarrow> map_option (\<lambda>(\<rho>, h). (Next, \<rho>, h)) (declare_variable call \<rho> x t e h)
      | AST_ASSIGN l op target e \<Rightarrow> map_option (\<lambda>h. (Next, \<rho>, h)) (assign call \<rho> op target e h)
      | AST_EXPR_STMT l e \<Rightarrow> map_option (\<lambda>h. (Next, \<rho>, h)) (eval_effect call \<rho> e h)
      | AST_RETURN l e \<Rightarrow>
          if e = AST_NULL then Some (Left None, \<rho>, h)
          else map_option (\<lambda>(v, h). (Left (Some v), \<rho>, h)) (eval call \<rho> e h)
      | AST_BREAK l \<Rightarrow> Some (Broke, \<rho>, h)
      | AST_CONTINUE l \<Rightarrow> Some (Continued, \<rho>, h)
      | AST_IF l c t e \<Rightarrow>
          (case condition call \<rho> c h of
             None \<Rightarrow> None
           | Some (b, h) \<Rightarrow> map_option (\<lambda>(q, h). (q, \<rho>, h)) (exec_body call n \<rho> (if b then t else e) h))
      | AST_WHILE l c b \<Rightarrow>
          map_option (\<lambda>(q, h). (q, \<rho>, h)) (exec_for call n \<rho> c AST_NULL b h)
      | AST_FOR l i c u b \<Rightarrow>
          (case exec_header call n \<rho> i h of
             None \<Rightarrow> None
           | Some (\<rho>', h) \<Rightarrow> map_option (\<lambda>(q, h). (q, \<rho>, h)) (exec_for call n \<rho>' c u b h))
      | _ \<Rightarrow> None)"
| "exec_items call 0 \<rho> ss h = None"
| "exec_items call (Suc n) \<rho> ss h =
     (case ss of
        [] \<Rightarrow> Some (Next, \<rho>, h)
      | s # ss \<Rightarrow>
          (case exec call n \<rho> s h of
             None \<Rightarrow> None
           | Some (q, \<rho>, h) \<Rightarrow> if q = Next then exec_items call n \<rho> ss h else Some (q, \<rho>, h)))"
| "exec_body call 0 \<rho> s h = None"
| "exec_body call (Suc n) \<rho> s h =
     (case statements_of s of
        Some ss \<Rightarrow> map_option (\<lambda>(q, \<rho>, h). (q, h)) (exec_items call n \<rho> ss h)
      | None \<Rightarrow> map_option (\<lambda>(q, \<rho>, h). (q, h)) (exec call n \<rho> s h))"
| "exec_header call 0 \<rho> s h = None"
| "exec_header call (Suc n) \<rho> s h =
     (if s = AST_NULL then Some (\<rho>, h)
      else if is_header_statement s then
        (case exec call n \<rho> s h of Some (Next, \<rho>, h) \<Rightarrow> Some (\<rho>, h) | _ \<Rightarrow> None)
      else map_option (\<lambda>h. (\<rho>, h)) (eval_effect call \<rho> s h))"
| "exec_for call 0 \<rho> c u b h = None"
| "exec_for call (Suc n) \<rho> c u b h =
     (case (if c = AST_NULL then Some (True, h) else condition call \<rho> c h) of
        None \<Rightarrow> None
      | Some (False, h) \<Rightarrow> Some (Next, h)
      | Some (True, h) \<Rightarrow>
          (if statements_of b = None then None
           else case exec_body call n \<rho> b h of
                  None \<Rightarrow> None
                | Some (Broke, h) \<Rightarrow> Some (Next, h)
                | Some (Left v, h) \<Rightarrow> Some (Left v, h)
                | Some (_, h) \<Rightarrow>
                    (case exec_header call n \<rho> u h of
                       None \<Rightarrow> None
                     | Some (\<rho>', h) \<Rightarrow> exec_for call n \<rho> c u b h)))"
  by pat_completeness auto
termination
  by (relation "measure (\<lambda>x. case x of
        Inl (Inl (c, n, r, s, h)) \<Rightarrow> n
      | Inl (Inr (c, n, r, ss, h)) \<Rightarrow> n
      | Inr (Inl (c, n, r, s, h)) \<Rightarrow> n
      | Inr (Inr (Inl (c, n, r, s, h))) \<Rightarrow> n
      | Inr (Inr (Inr (c, n, r, e, u, b, h))) \<Rightarrow> n)") auto

section \<open>Programs\<close>

fun function_node :: "string \<Rightarrow> ast list \<Rightarrow> (ast list \<times> ast \<times> ast \<times> bool) option" where
  "function_node f [] = None"
| "function_node f (d # ds) =
     (case d of
        AST_FUNC_DECL l x ps b r ext \<Rightarrow> if x = f then Some (ps, b, r, ext) else function_node f ds
      | _ \<Rightarrow> function_node f ds)"

text \<open>The variables of file scope that have one of the types treated here.\<close>

fun file_scope :: "world \<Rightarrow> ast list \<Rightarrow> env" where
  "file_scope w [] x = None"
| "file_scope w (d # ds) x =
     (case d of
        AST_VAR_DECL l y t i \<Rightarrow>
          if x = y then (case (node_ty t, cells w x) of (Some c, Some a) \<Rightarrow> Some (a, c) | _ \<Rightarrow> None)
          else file_scope w ds x
      | _ \<Rightarrow> file_scope w ds x)"

text \<open>Parameters are variables that start with the arguments.\<close>

fun bind_params :: "ast list \<Rightarrow> val list \<Rightarrow> env \<Rightarrow> heap \<Rightarrow> (env \<times> heap) option" where
  "bind_params [] [] \<rho> h = Some (\<rho>, h)"
| "bind_params (AST_PARAM l x t # ps) (v # vs) \<rho> h =
     (if node_ty t = Some (type_of v) then
        (let (a, h) = allocate (type_of v) h
         in case write_cell a v h of
              None \<Rightarrow> None
            | Some h \<Rightarrow> bind_params ps vs (\<rho>(x := Some (a, type_of v))) h)
      else None)"
| "bind_params _ _ \<rho> h = None"

definition result_fits :: "ast \<Rightarrow> val option \<Rightarrow> bool" where
  "result_fits r q = (case q of None \<Rightarrow> is_void r | Some v \<Rightarrow> node_ty r = Some (type_of v))"

definition param_types_fit :: "ast list \<Rightarrow> val list \<Rightarrow> bool" where
  "param_types_fit ps vs = (bind_params ps vs Map.empty [] \<noteq> None)"

text \<open>A call of a function of the program; the fuel bounds the nesting of calls as well.\<close>

fun invoke :: "ast list \<Rightarrow> world \<Rightarrow> nat \<Rightarrow> caller" where
  "invoke ds w 0 f vs h = None"
| "invoke ds w (Suc n) f vs h =
     (case function_node f ds of
        None \<Rightarrow> None
      | Some (ps, b, r, ext) \<Rightarrow>
          if ext then
            (case extern w f vs h of
               None \<Rightarrow> None
             | Some (q, h) \<Rightarrow> if param_types_fit ps vs \<and> result_fits r q then Some (q, h) else None)
          else
            (case bind_params ps vs (file_scope w ds) h of
               None \<Rightarrow> None
             | Some (\<rho>, h) \<Rightarrow>
                 (case exec_body (invoke ds w n) n \<rho> b h of
                    Some (Left q, h) \<Rightarrow> if result_fits r q then Some (q, h) else None
                  | Some (Next, h) \<Rightarrow> if is_void r then Some (None, h) else None
                  | _ \<Rightarrow> None)))"

end
