(* ===== verification/ExprMeaning.thy ===== *)
theory ExprMeaning
  imports Machine Meaning IrStmtProps
begin

text \<open>
  Lowered expressions compute the value of the expression, with its effects on memory.
\<close>

section \<open>Operators\<close>

lemma arith_refines:
  fixes a b :: "32 word"
  shows "arith (2 ^ 31) op (sint a) (sint b) = Some i \<Longrightarrow> ir_arith (binary_instr op) a b = Some (word_of_int i)"
  by (cases op) (auto split: if_splits)

lemma arith_None_compare: "arith l op a b = Some i \<Longrightarrow> ir_compare (binary_instr op) (c::'a::len word) d = None"
  by (cases op) auto

lemma compare_refines:
  "compare_ints op (sint a) (sint b) = Some c \<Longrightarrow> ir_compare (binary_instr op) a b = Some c"
  by (cases op) (auto simp: word_sless_alt word_sle_eq signed_word_eqI)

lemma bools_refine:
  "combine_bools op a b = Some c \<Longrightarrow> ir_binary (binary_instr op) (VBool a) (VBool b) = Some (VBool c)"
  by (cases op; cases a; cases b) (auto simp: ir_words_def bit_of_def)

lemma binary_refines: "binary_value op v w = Some u \<Longrightarrow> ir_binary (binary_instr op) v w = Some u"
proof (induction op v w rule: binary_value.induct)
  case (1 op a b)
  show ?case
  proof (cases "compare_ints op (sint a) (sint b)")
    case None
    then obtain i where "arith (2 ^ 31) op (sint a) (sint b) = Some i" "u = VInt (word_of_int i)"
      using 1 by auto
    moreover from this have "ir_compare (binary_instr op) a b = None" by (intro arith_None_compare)
    ultimately show ?thesis using arith_refines by (simp add: ir_words_def)
  next
    case (Some c)
    then show ?thesis using 1 compare_refines [OF Some] by (simp add: ir_words_def)
  qed
next
  case (2 op a b)
  then obtain c where "compare_ints op (sint a) (sint b) = Some c" "u = VBool c" by auto
  then show ?case using compare_refines [of op a b c] by (simp add: ir_words_def)
next
  case (3 op a b)
  then show ?case using bools_refine by (auto simp del: ir_binary.simps)
qed simp_all

lemma ir_ty_scalar: "ir_ty t = Some c \<Longrightarrow> is_pointer_type t \<longleftrightarrow> (\<exists>c'. c = T_POINTER c')"
  by (cases t) auto

abbreviation arithmetic :: "AstBinaryOp set" where
  "arithmetic \<equiv> {AST_BINARY_ADD, AST_BINARY_SUB, AST_BINARY_MUL, AST_BINARY_DIV}"

lemma compare_not_arithmetic: "compare_ints op a b = Some c \<Longrightarrow> op \<notin> arithmetic"
  and arith_arithmetic: "arith l op a b = Some i \<Longrightarrow> op \<in> arithmetic"
  and combine_not_arithmetic: "combine_bools op p q = Some c \<Longrightarrow> op \<notin> arithmetic"
  by (cases op; simp)+

lemma binary_type:
  "binary_value op v w = Some u \<Longrightarrow>
   type_of v \<in> {T_INT, T_CHAR, T_BOOL} \<and> type_of u = (if op \<in> arithmetic then type_of v else T_BOOL)"
proof (induction op v w rule: binary_value.induct)
  case (1 op a b)
  then show ?case
    using compare_not_arithmetic [of op "sint a" "sint b"] arith_arithmetic [of "2 ^ 31" op "sint a" "sint b"]
    by (cases "compare_ints op (sint a) (sint b)") (auto simp del: insert_iff)
next
  case (2 op a b)
  then show ?case using compare_not_arithmetic [of op "sint a" "sint b"] by (auto simp del: insert_iff)
next
  case (3 op a b)
  then show ?case using combine_not_arithmetic [of op a b] by (auto simp del: insert_iff)
qed simp_all

lemma binary_type_of:
  assumes "binary_value op v w = Some u" "ir_ty t = Some (type_of v)"
  shows "ir_ty (binary_type op t) = Some (type_of u)" "\<not> is_pointer_type t"
  using binary_type [OF assms(1)] assms(2) by (auto simp: binary_type_def ir_ty_scalar)

section \<open>Where execution stands\<close>

text \<open>The code of the finished function from where the builder appends.\<close>

abbreviation slots :: "IRBuilder \<Rightarrow> nat" where
  "slots b \<equiv> next_local_id (current_fun b)"

definition rest_of :: "IRFunction \<Rightarrow> IRBuilder \<Rightarrow> IRInstruction list" where
  "rest_of f b = drop (length (block_code (current_fun b) (current_block b))) (block_code f (current_block b))"

definition embedded :: "IRFunction \<Rightarrow> IRBuilder \<Rightarrow> bool" where
  "embedded f b \<longleftrightarrow> (\<forall>k. prefix (block_code (current_fun b) k) (block_code f k))"

lemma embedded_before: "embedded f c \<Longrightarrow> builder_ext b c \<Longrightarrow> embedded f b"
  by (auto simp: embedded_def builder_ext_def extends_def intro: prefix_order.trans)

definition agree :: "nat \<Rightarrow> regs \<Rightarrow> regs \<Rightarrow> bool" where
  "agree n r r' \<longleftrightarrow> (\<forall>k < n. r' k = r k)"

lemma agree_refl [simp]: "agree n r r"
  by (simp add: agree_def)

lemma agree_trans: "agree n r r' \<Longrightarrow> agree m r' r'' \<Longrightarrow> n \<le> m \<Longrightarrow> agree n r r''"
  by (simp add: agree_def)

lemma slots_mono: "builder_ext b c \<Longrightarrow> slots b \<le> slots c"
  by (simp add: builder_ext_def extends_def)

text \<open>From builder \<open>b\<close> to builder \<open>c\<close> execution takes registers \<open>r\<close> and memory \<open>h\<close> to \<open>r'\<close> and
  \<open>h'\<close>, keeping the registers there were.\<close>

definition goes ::
  "activation \<Rightarrow> IRBuilder \<Rightarrow> regs \<Rightarrow> heap \<Rightarrow> IRBuilder \<Rightarrow> regs \<Rightarrow> heap \<Rightarrow> bool" where
  "goes A b r h c r' h' \<longleftrightarrow> agree (slots b) r r'
     \<and> (\<forall>q g. runs A (rest_of (afun A) c) r' h' q g \<longrightarrow> runs A (rest_of (afun A) b) r h q g)"

lemma goes_refl [simp]: "goes A b r h b r h"
  by (simp add: goes_def)

lemma goes_trans:
  "goes A b r h c r1 h1 \<Longrightarrow> goes A c r1 h1 d r2 h2 \<Longrightarrow> builder_ext b c \<Longrightarrow> goes A b r h d r2 h2"
  using agree_trans [of "slots b" r r1 "slots c" r2] slots_mono [of b c] by (simp add: goes_def)

text \<open>Appending an instruction.\<close>

lemma rest_of_append:
  assumes "builder_inv b" "embedded f (irBuilderAppendInstruction i b)"
  shows "rest_of f b = i # rest_of f (irBuilderAppendInstruction i b)"
proof -
  let ?k = "current_block b"
  have k: "?k \<in> set (block_ids (current_fun b))" using assms(1) by (simp add: builder_inv_def)
  have c: "block_code (current_fun (irBuilderAppendInstruction i b)) ?k = block_code (current_fun b) ?k @ [i]"
    using k by (simp add: irBuilderAppendInstruction_def block_code_append)
  then have "prefix (block_code (current_fun b) ?k @ [i]) (block_code f ?k)"
    using assms(2) by (simp only: embedded_def) metis
  then obtain zs where "block_code f ?k = (block_code (current_fun b) ?k @ [i]) @ zs" by (auto simp: prefix_def)
  moreover have "current_block (irBuilderAppendInstruction i b) = ?k" by (simp add: irBuilderAppendInstruction_def)
  ultimately show ?thesis using c by (simp add: rest_of_def)
qed

lemma slots_append [simp]: "slots (irBuilderAppendInstruction i b) = slots b"
  by (simp add: irBuilderAppendInstruction_def)

lemma goes_append:
  assumes "builder_inv b" "embedded (afun A) (irBuilderAppendInstruction i b)"
    and "\<And>is q g. runs A is r' h' q g \<Longrightarrow> runs A (i # is) r h q g" "agree (slots b) r r'"
  shows "goes A b r h (irBuilderAppendInstruction i b) r' h'"
  using assms by (simp add: goes_def rest_of_append)

lemma reserve_parts:
  "irBuilderReserveResult b = (slots b, b\<lparr>current_fun := (current_fun b)\<lparr>next_local_id := Suc (slots b)\<rparr>\<rparr>)"
  by (simp add: irBuilderReserveResult_def irFunctionReserveLocalId_def)

lemma rest_of_reserve [simp]: "rest_of f (b\<lparr>current_fun := (current_fun b)\<lparr>next_local_id := k\<rparr>\<rparr>) = rest_of f b"
  by (simp add: rest_of_def)

lemma agree_new: "n \<le> k \<Longrightarrow> agree n r (r(k := v))"
  by (simp add: agree_def)

lemma emit_result_parts:
  "emit_result t d b = (slots b, irBuilderAppendInstruction (instr (Some (slots b, t)) d)
     (b\<lparr>current_fun := (current_fun b)\<lparr>next_local_id := Suc (slots b)\<rparr>\<rparr>))"
  by (simp add: emit_result_def reserve_parts)

lemma emit_result_goes:
  assumes inv: "builder_inv b" and e: "emit_result t d b = (k, c)" "embedded (afun A) c"
    and v: "computed A t d r h = Some (v, h')"
  shows "goes A b r h c (r(k := Some v)) h'" "k = slots b"
proof -
  let ?b = "b\<lparr>current_fun := (current_fun b)\<lparr>next_local_id := Suc (slots b)\<rparr>\<rparr>"
  show k: "k = slots b" using e(1) by (simp add: emit_result_parts)
  have c: "c = irBuilderAppendInstruction (instr (Some (k, t)) d) ?b" using e(1) k by (simp add: emit_result_parts)
  have i: "builder_inv ?b" using reserve_step(2) [OF inv reserve_parts] .
  have "runs A is (r(k := Some v)) h' q g \<Longrightarrow> runs A (instr (Some (k, t)) d # is) r h q g" for "is" q g
    by (rule run_compute [of "instr (Some (k, t)) d" k t]) (simp_all add: instr_def v)
  then have "\<forall>q g. runs A (rest_of (afun A) c) (r(k := Some v)) h' q g \<longrightarrow> runs A (rest_of (afun A) ?b) r h q g"
    using rest_of_append [OF i] e(2) by (simp add: c)
  then show "goes A b r h c (r(k := Some v)) h'" by (simp add: goes_def agree_new k)
qed

section \<open>Variables and calls\<close>

definition symbol_ok :: "activation \<Rightarrow> nat \<Rightarrow> regs \<Rightarrow> IRSymbol \<Rightarrow> nat \<Rightarrow> ty \<Rightarrow> bool" where
  "symbol_ok A n r s a t =
     (case irdata s of
        IR_SYMBOL_LOCAL k \<Rightarrow> k < n \<and> r k = Some (VPointer t a) \<and> ir_ty (irtype s) = Some (T_POINTER t)
      | IR_SYMBOL_GLOBAL i \<Rightarrow>
          ir_ty (irtype s) = Some t \<and> global_pointer (amodule A) (aworld A) i = Some (VPointer t a)
      | IR_SYMBOL_FUNCTION u ps \<Rightarrow> False)"

text \<open>Every variable of the source is found in the scopes, with a register or global that points
  to its cell.\<close>

definition env_ok :: "activation \<Rightarrow> nat \<Rightarrow> IRScope \<Rightarrow> regs \<Rightarrow> env \<Rightarrow> bool" where
  "env_ok A n sc r \<rho> \<longleftrightarrow> (\<forall>x a t. \<rho> x = Some (a, t) \<longrightarrow>
     (\<exists>s. irScopeLookup sc x = Some s \<and> symbol_ok A n r s a t))"

lemma symbol_ok_mono: "symbol_ok A n r s a t \<Longrightarrow> agree n r r' \<Longrightarrow> n \<le> m \<Longrightarrow> symbol_ok A m r' s a t"
  by (auto simp: symbol_ok_def agree_def split: IRSymbolData.splits)

lemma env_ok_mono: "env_ok A n sc r \<rho> \<Longrightarrow> agree n r r' \<Longrightarrow> n \<le> m \<Longrightarrow> env_ok A m sc r' \<rho>"
  unfolding env_ok_def by (meson symbol_ok_mono)

text \<open>A call of the source is one of the translation, and its symbol fits.\<close>

definition call_ok :: "activation \<Rightarrow> IRSymbolTable \<Rightarrow> string \<Rightarrow> val list \<Rightarrow> heap \<Rightarrow> val option \<Rightarrow> heap \<Rightarrow> bool" where
  "call_ok A sc f vs h q h' \<longleftrightarrow> (\<exists>s. irScopeLookup [sc] f = Some s \<and> length (symbol_params s) = length vs
     \<and> (case q of None \<Rightarrow> irtype s = IR_TYPE_VOID | Some v \<Rightarrow> ir_ty (irtype s) = Some (type_of v))
     \<and> returns (amodule A) (aworld A) f vs h q h')"

definition calls_ok :: "activation \<Rightarrow> IRSymbolTable \<Rightarrow> caller \<Rightarrow> bool" where
  "calls_ok A sc call \<longleftrightarrow> (\<forall>f vs h q h'. call f vs h = Some (q, h') \<longrightarrow> call_ok A sc f vs h q h')"

definition at :: "activation \<Rightarrow> caller \<Rightarrow> env \<Rightarrow> IRBuilder \<Rightarrow> regs \<Rightarrow> bool" where
  "at A call \<rho> b r \<longleftrightarrow> builder_inv b \<and> env_ok A (slots b) (current_scope b) r \<rho>
     \<and> calls_ok A (mscope (module b)) call"

lemma at_inv: "at A call \<rho> b r \<Longrightarrow> builder_inv b"
  by (simp add: at_def)

lemma at_step:
  assumes "at A call \<rho> b r" "stays b c" "builder_inv c" "agree (slots b) r r'"
  shows "at A call \<rho> c r'"
proof -
  have "current_scope c = current_scope b" "mscope (module c) = mscope (module b)" "builder_ext b c"
    using assms(2) by (simp_all add: stays_def builder_ext_def)
  then show ?thesis
    using assms env_ok_mono [of A "slots b" "current_scope b" r \<rho> r' "slots c"] slots_mono [of b c]
    by (simp add: at_def)
qed

section \<open>Values\<close>

definition holds_value :: "activation \<Rightarrow> regs \<Rightarrow> IRValue \<Rightarrow> val \<Rightarrow> bool" where
  "holds_value A r x v \<longleftrightarrow> (\<exists>y t. vvalue x = Some y \<and> vtype x = Some t \<and> ir_ty t = Some (type_of v)
     \<and> operand_value A r y = Some v)"

definition holds_place :: "activation \<Rightarrow> regs \<Rightarrow> IRValue \<Rightarrow> nat \<Rightarrow> ty \<Rightarrow> bool" where
  "holds_place A r x a t \<longleftrightarrow> (\<exists>y u. vaddress x = Some y \<and> vtype x = Some u \<and> ir_ty u = Some t
     \<and> operand_value A r y = Some (VPointer t a))"

text \<open>An operand keeps its value, since its register is kept.\<close>

lemma operand_slot:
  "builder_inv b \<Longrightarrow> op_ok b x \<Longrightarrow> oref x = IR_OPERAND_LOCAL k \<Longrightarrow> k < slots b"
proof -
  assume *: "builder_inv b" "op_ok b x" "oref x = IR_OPERAND_LOCAL k"
  then obtain t where "(k, t) \<in> defs (current_fun b)" by (auto simp: operand_ok_def)
  then have "k \<in> set (def_ids (current_fun b))" by (force simp: def_ids_defs)
  then show "k < slots b" using *(1) by (simp add: builder_inv_def function_inv_def)
qed

lemma operand_kept:
  "builder_inv b \<Longrightarrow> op_ok b x \<Longrightarrow> agree (slots b) r r' \<Longrightarrow> operand_value A r' x = operand_value A r x"
  using operand_slot [of b x] by (auto simp: operand_value_def agree_def split: IROperandRef.split)

lemma holds_value_kept:
  "builder_inv b \<Longrightarrow> value_ok b x \<Longrightarrow> agree (slots b) r r' \<Longrightarrow> holds_value A r x v \<Longrightarrow> holds_value A r' x v"
  unfolding holds_value_def using operand_kept [of b _ r r' A] value_of [of b x] by fastforce

lemma holds_place_kept:
  "builder_inv b \<Longrightarrow> value_ok b x \<Longrightarrow> agree (slots b) r r' \<Longrightarrow> holds_place A r x a t \<Longrightarrow> holds_place A r' x a t"
  unfolding holds_place_def using operand_kept [of b _ r r' A] by (fastforce simp: value_ok_def)

text \<open>What is shown of a lowering step: execution gets through its code to registers that satisfy
  the postcondition with its result, and to memory \<open>h'\<close>.\<close>

definition gives ::
  "activation \<Rightarrow> IRBuilder \<Rightarrow> regs \<Rightarrow> heap \<Rightarrow> 'a \<times> IRBuilder \<Rightarrow> (regs \<Rightarrow> 'a \<Rightarrow> bool) \<Rightarrow> heap \<Rightarrow> bool" where
  "gives A b r h p Q h' \<longleftrightarrow>
     (embedded (afun A) (snd p) \<longrightarrow> (\<exists>r'. goes A b r h (snd p) r' h' \<and> Q r' (fst p)))"

abbreviation gives_value where
  "gives_value A b r h p v h' \<equiv> gives A b r h p (\<lambda>r x. holds_value A r x v) h'"

abbreviation gives_place where
  "gives_place A b r h p a t h' \<equiv> gives A b r h p (\<lambda>r x. holds_place A r x a t) h'"

lemma gives_return: "Q r x \<Longrightarrow> gives A b r h (x, b) Q h"
  using goes_refl [of A b r h] by (auto simp: gives_def simp del: goes_refl)

lemma gives_mono: "gives A b r h p P h' \<Longrightarrow> (\<And>r x. P r x \<Longrightarrow> Q r x) \<Longrightarrow> gives A b r h p Q h'"
  by (auto simp: gives_def)

lemma gives_bind:
  assumes "at A call \<rho> b r" "reaches b m I" "gives A b r h m P h1"
    and "\<And>x c. builder_inv c \<Longrightarrow> I c x \<Longrightarrow> stays b c \<Longrightarrow> reaches c (k x c) J"
    and "\<And>x c r1. m = (x, c) \<Longrightarrow> at A call \<rho> c r1 \<Longrightarrow> I c x \<Longrightarrow> P r1 x \<Longrightarrow>
          stays b c \<Longrightarrow> agree (slots b) r r1 \<Longrightarrow> gives A c r1 h1 (k x c) Q h2"
  shows "gives A b r h (let (x, c) = m in k x c) Q h2"
  unfolding gives_def
proof
  obtain x c where m: "m = (x, c)" by (cases m)
  obtain y d where k: "k x c = (y, d)" by (cases "k x c")
  have c: "stays b c" "builder_inv c" "I c x" using assms(1,2) m by (simp_all add: reaches_def at_def)
  have d: "stays c d" using assms(4) [OF c(2,3,1)] c(2) k by (simp add: reaches_def)
  assume "embedded (afun A) (snd (let (x, c) = m in k x c))"
  then have e: "embedded (afun A) d" by (simp add: m k)
  then have "embedded (afun A) c" using d embedded_before by (auto simp: stays_def)
  then obtain r1 where r1: "goes A b r h c r1 h1" "P r1 x" using assms(3) m by (auto simp: gives_def)
  have "at A call \<rho> c r1" using at_step [OF assms(1) c(1,2)] r1(1) by (simp add: goes_def)
  then have "gives A c r1 h1 (y, d) Q h2" using assms(5) [OF m _ c(3) r1(2) c(1)] r1(1) k by (simp add: goes_def)
  then obtain r2 where r2: "goes A c r1 h1 d r2 h2" "Q r2 y" using e by (auto simp: gives_def)
  have "goes A b r h d r2 h2" using goes_trans [OF r1(1) r2(1)] c(1) by (simp add: stays_def)
  then show "\<exists>r'. goes A b r h (snd (let (x, c) = m in k x c)) r' h2 \<and> Q r' (fst (let (x, c) = m in k x c))"
    using r2(2) by (auto simp: m k)
qed

section \<open>The steps of an expression\<close>

lemma literal_gives:
  "ir_literal (Some t) (Some l) = Some v \<Longrightarrow> ir_ty t = Some (type_of v) \<Longrightarrow>
   gives_value A b r h (irBuilderLiteralValue t l, b) v h"
  by (rule gives_return)
    (simp add: holds_value_def irBuilderLiteralValue_def a_value_def operand_value_def irOperandCreateLiteral_def)

lemma identifier_holds:
  assumes "at A call \<rho> b r" "\<rho> x = Some (a, t)"
  shows "holds_place A r (irBuilderLowerIdentifier x b) a t"
proof -
  obtain s where s: "irScopeLookup (current_scope b) x = Some s" "symbol_ok A (slots b) r s a t"
    using assms unfolding at_def env_ok_def by metis
  show ?thesis
  proof (cases "irdata s")
    case (IR_SYMBOL_GLOBAL i)
    then show ?thesis
      using s by (simp add: symbol_ok_def irBuilderLowerIdentifier_def holds_place_def an_address_def
          operand_value_def irOperandCreateGlobal_def)
  next
    case (IR_SYMBOL_LOCAL k)
    then have "ir_ty (irtype s) = Some (T_POINTER t)" using s by (simp add: symbol_ok_def)
    then obtain u where "irtype s = IR_TYPE_POINTER u" "ir_ty u = Some t" by (cases "irtype s") auto
    then show ?thesis
      using s IR_SYMBOL_LOCAL by (simp add: symbol_ok_def irBuilderLowerIdentifier_def holds_place_def an_address_def
          operand_value_def irOperandCreateLocal_def)
  qed (use s in \<open>simp add: symbol_ok_def\<close>)
qed

lemma emit_gives:
  assumes "builder_inv b" "computed A t d r h = Some (v, h')" "type_of v = c" "ir_ty t = Some c"
  shows "gives_value A b r h (let (i, b) = emit_result t d b in (a_value t (irOperandCreateLocal t i), b)) v h'"
  unfolding gives_def
proof
  obtain i c where e: "emit_result t d b = (i, c)" by (cases "emit_result t d b")
  assume "embedded (afun A) (snd (let (i, b) = emit_result t d b in (a_value t (irOperandCreateLocal t i), b)))"
  then have "goes A b r h c (r(i := Some v)) h'" using emit_result_goes(1) [OF assms(1) e _ assms(2)] by (simp add: e)
  moreover have "holds_value A (r(i := Some v)) (a_value t (irOperandCreateLocal t i)) v"
    using assms(3,4) by (simp add: holds_value_def a_value_def operand_value_def irOperandCreateLocal_def)
  ultimately show "\<exists>r'. goes A b r h (snd (let (i, b) = emit_result t d b in (a_value t (irOperandCreateLocal t i), b))) r' h'
      \<and> holds_value A r' (fst (let (i, b) = emit_result t d b in (a_value t (irOperandCreateLocal t i), b))) v"
    by (auto simp: e)
qed

lemma load_gives:
  assumes "builder_inv b" "holds_place A r x a t" "read_cell t a h = Some v"
  shows "gives_value A b r h (load_value (x, b)) v h"
proof -
  obtain y u where y: "vaddress x = Some y" "vtype x = Some u" "ir_ty u = Some t"
    "operand_value A r y = Some (VPointer t a)" using assms(2) by (auto simp: holds_place_def)
  have "computed A u (IR_INSTR_LOAD y) r h = Some (v, h)" using y assms(3) by (simp add: computed_def)
  then show ?thesis
    using emit_gives [OF assms(1) _ read_cell_type [OF assms(3)] y(3)] y
    by (simp add: load_value_def irBuilderEmitLoad_def)
qed

lemma binary_gives:
  assumes "builder_inv b" "holds_value A r x v" "holds_value A r y w" "binary_value op v w = Some u"
  shows "gives_value A b r h (lower_binary op x y b) u h"
proof -
  obtain l t where l: "vvalue x = Some l" "vtype x = Some t" "ir_ty t = Some (type_of v)" "operand_value A r l = Some v"
    using assms(2) by (auto simp: holds_value_def)
  obtain m where m: "vvalue y = Some m" "operand_value A r m = Some w" using assms(3) by (auto simp: holds_value_def)
  have "computed A (binary_type op t) (IR_INSTR_BINARY (binary_instr op) l m) r h = Some (u, h)"
    using l m binary_refines [OF assms(4)] by (simp add: computed_def)
  then show ?thesis
    using emit_gives [OF assms(1) _ refl binary_type_of(1) [OF assms(4) l(3)]] binary_type_of(2) [OF assms(4) l(3)] l m
    by (simp add: lower_binary_def irBuilderEmitBinary_def)
qed

lemma unary_gives:
  assumes "builder_inv b" "holds_value A r x v" "unary_value op v = Some u"
  shows "gives_value A b r h (lower_unary op x b) u h"
proof -
  obtain l t where l: "vvalue x = Some l" "vtype x = Some t" "ir_ty t = Some (type_of v)" "operand_value A r l = Some v"
    using assms(2) by (auto simp: holds_value_def)
  show ?thesis
  proof (cases op)
    case AST_UNARY_NEGATE
    then obtain i where i: "v = VInt i" "u = VInt (- i)" using assms(3) by (cases v) auto
    then have "computed A t (IR_INSTR_UNARY IR_INSTR_NEG l) r h = Some (u, h)" using l by (simp add: computed_def)
    then show ?thesis
      using emit_gives [OF assms(1) _ refl, of A t _ r h u h] l i AST_UNARY_NEGATE
      by (simp add: lower_unary_def irBuilderEmitUnary_def)
  next
    case AST_UNARY_NOT
    then obtain i where i: "v = VBool i" "u = VBool (\<not> i)" using assms(3) by (cases v) auto
    then have "computed A IR_TYPE_BOOL (IR_INSTR_UNARY IR_INSTR_NOT l) r h = Some (u, h)" using l by (simp add: computed_def)
    then show ?thesis
      using emit_gives [OF assms(1) _ refl, of A IR_TYPE_BOOL _ r h u h] l i AST_UNARY_NOT
      by (simp add: lower_unary_def irBuilderEmitUnary_def)
  qed (use assms(3) in simp_all)
qed

lemma pointee_holds: "holds_value A r x (VPointer t a) \<Longrightarrow> holds_place A r (pointee x) a t"
proof -
  assume "holds_value A r x (VPointer t a)"
  then obtain y u where y: "vvalue x = Some y" "vtype x = Some u" "ir_ty u = Some (T_POINTER t)"
    "operand_value A r y = Some (VPointer t a)" by (auto simp: holds_value_def)
  moreover from this obtain w where "u = IR_TYPE_POINTER w" "ir_ty w = Some t" by (cases u) auto
  ultimately show ?thesis by (simp add: pointee_def holds_place_def an_address_def)
qed

lemma address_holds:
  assumes "value_ok b x" "holds_place A r x a t"
  shows "holds_value A r (address_as_value x) (VPointer t a)"
proof -
  obtain y u where y: "vaddress x = Some y" "vtype x = Some u" "ir_ty u = Some t"
    "operand_value A r y = Some (VPointer t a)" using assms(2) by (auto simp: holds_place_def)
  moreover have "otype y = Some (IR_TYPE_POINTER u)" using assms(1) y by (auto simp: value_ok_def points_to_def)
  ultimately show ?thesis by (simp add: address_as_value_def holds_value_def a_value_def)
qed

section \<open>Expressions\<close>

text \<open>An operand that may be lowered twice: the code for a value of pointer type lowers the operand
  of a dereference for its address and again for its value, so it must not call.\<close>

fun calm :: "ast \<Rightarrow> bool" where
  "calm (AST_CALL l f args) = False"
| "calm (AST_BINARY l op x y) = (calm x \<and> calm y)"
| "calm (AST_UNARY l op x) = calm x"
| "calm _ = True"

fun repeatable :: "ast \<Rightarrow> bool" where
  "repeatable (AST_CALL l f args) = (\<forall>a \<in> set args. repeatable a)"
| "repeatable (AST_BINARY l op x y) = (repeatable x \<and> repeatable y)"
| "repeatable (AST_UNARY l op x) = (repeatable x \<and> (op = AST_UNARY_DEREF \<longrightarrow> calm x))"
| "repeatable _ = True"

lemmas eval_int = eval.simps [of _ _ "AST_INT_LITERAL _ _", unfolded ast.case]
  and eval_char = eval.simps [of _ _ "AST_CHAR_LITERAL _ _", unfolded ast.case]
  and eval_bool = eval.simps [of _ _ "AST_BOOL_LITERAL _ _", unfolded ast.case]
  and eval_identifier = eval.simps [of _ _ "AST_IDENTIFIER _ _", unfolded ast.case]
  and eval_unary = eval.simps [of _ _ "AST_UNARY _ _ _", unfolded ast.case]
  and eval_binary = eval.simps [of _ _ "AST_BINARY _ _ _ _", unfolded ast.case]
  and eval_calls = eval.simps [of _ _ "AST_CALL _ _ _", unfolded ast.case]
  and place_identifier = eval_place.simps [of _ _ "AST_IDENTIFIER _ _", unfolded ast.case]
  and place_unary = eval_place.simps [of _ _ "AST_UNARY _ _ _", unfolded ast.case]

lemma calm_keeps:
  "calm e \<Longrightarrow> (eval call \<rho> e h = Some (v, h') \<longrightarrow> h' = h) \<and> (eval_place call \<rho> e h = Some (p, h') \<longrightarrow> h' = h)"
proof (induction e arbitrary: h h' v p)
  case (AST_UNARY l op x)
  have v: "h1 = h" if "eval call \<rho> x h = Some (w, h1)" for w h1
    using AST_UNARY.IH [of h w h1] AST_UNARY.prems that by simp
  have p: "h1 = h" if "eval_place call \<rho> x h = Some (w, h1)" for w h1
    using AST_UNARY.IH [of h _ h1 w] AST_UNARY.prems that by simp
  show ?case
    by (auto simp: eval_unary place_unary dest: v p split: if_splits option.splits val.splits)
next
  case (AST_BINARY l op x y)
  have 1: "h1 = h" if "eval call \<rho> x h = Some (w, h1)" for w h1
    using AST_BINARY.IH(1) [of h w h1] AST_BINARY.prems that by simp
  have 2: "h2 = h1" if "eval call \<rho> y h1 = Some (w, h2)" for w h1 h2
    using AST_BINARY.IH(2) [of h1 w h2] AST_BINARY.prems that by simp
  show ?case
    by (auto simp: eval_binary eval_place.simps [of _ _ "AST_BINARY _ _ _ _"] dest: 1 2 split: option.splits)
qed (auto simp: eval_unfold split: option.splits)

text \<open>What is shown of an expression.\<close>

definition simulated :: "ast \<Rightarrow> bool" where
  "simulated e \<longleftrightarrow> (\<forall>A call \<rho> b r h. at A call \<rho> b r \<longrightarrow> repeatable e \<longrightarrow>
     (\<forall>v h'. eval call \<rho> e h = Some (v, h') \<longrightarrow> gives_value A b r h (irBuilderLowerRValue e b) v h')
     \<and> (\<forall>a t h'. eval_place call \<rho> e h = Some ((a, t), h') \<longrightarrow> gives_place A b r h (irBuilderLowerLValue e b) a t h'))"

lemma simulated_value: "simulated e \<Longrightarrow> at A call \<rho> b r \<Longrightarrow> repeatable e \<Longrightarrow>
    eval call \<rho> e h = Some (v, h') \<Longrightarrow> gives_value A b r h (irBuilderLowerRValue e b) v h'"
  and simulated_place: "simulated e \<Longrightarrow> at A call \<rho> b r \<Longrightarrow> repeatable e \<Longrightarrow>
    eval_place call \<rho> e h = Some ((a, t), h') \<Longrightarrow> gives_place A b r h (irBuilderLowerLValue e b) a t h'"
  unfolding simulated_def by metis+

lemma scalar_not_array: "holds_place A r x a t \<Longrightarrow> \<not> has_array_address x"
proof -
  assume "holds_place A r x a t"
  then obtain u where "vtype x = Some u" "ir_ty u = Some t" by (auto simp: holds_place_def)
  then show ?thesis by (cases u) (auto simp: has_array_address_def)
qed

text \<open>Lowering the address first does no harm.\<close>

lemma address_first:
  assumes "simulated e" "at A call \<rho> b r" "repeatable e" "eval call \<rho> e h = Some (v, h')"
  shows "gives A b r h (irBuilderLowerLValue e b) (\<lambda>r x. \<not> has_array_address x) h"
proof -
  have empty: "gives A b r h (irValueEmpty, b) (\<lambda>r x. \<not> has_array_address x) h"
    by (rule gives_return) (simp add: has_array_address_def)
  show ?thesis
  proof (cases e)
    case (AST_IDENTIFIER l x)
    then obtain a t where "\<rho> x = Some (a, t)" using assms(4) by (auto simp: eval_identifier split: option.splits)
    then have "\<not> has_array_address (irBuilderLowerIdentifier x b)"
      using scalar_not_array [OF identifier_holds [OF assms(2)]] by blast
    then show ?thesis
      using gives_return [of "\<lambda>r x. \<not> has_array_address x"] by (simp add: AST_IDENTIFIER irBuilderLowerLValue.simps [of "AST_IDENTIFIER _ _"])
  next
    case (AST_UNARY l op x)
    show ?thesis
    proof (cases "op = AST_UNARY_DEREF")
      case True
      then obtain t a h1 where p: "eval call \<rho> x h = Some (VPointer t a, h1)"
        using assms(4) by (auto simp: AST_UNARY eval_unary split: option.splits val.splits)
      moreover have "calm x" using assms(3) True by (simp add: AST_UNARY)
      ultimately have "h1 = h" using calm_keeps by blast
      then have "eval_place call \<rho> e h = Some ((a, t), h)" using p True by (simp add: AST_UNARY place_unary)
      then have "gives_place A b r h (irBuilderLowerLValue e b) a t h" by (rule simulated_place [OF assms(1-3)])
      then show ?thesis by (rule gives_mono) (rule scalar_not_array)
    next
      case False
      then show ?thesis using empty by (simp add: AST_UNARY irBuilderLowerLValue.simps [of "AST_UNARY _ _ _"])
    qed
  next
    case (AST_ARRAY_ACCESS l x xs)
    then show ?thesis using assms(4) by (simp add: eval.simps)
  qed (use empty in \<open>simp_all add: irBuilderLowerLValue.simps\<close>)
qed

lemma expected_gives:
  assumes "simulated e" "at A call \<rho> b r" "repeatable e" "eval call \<rho> e h = Some (v, h')"
  shows "gives_value A b r h (irBuilderLowerValueForExpectedType e t b) v h'"
proof -
  have s: "\<not> is_string_literal e" using assms(4) by (cases e) (auto simp: eval.simps)
  have "gives_value A b r h (let (x, b) = irBuilderLowerLValue e b
      in if has_array_address x then irBuilderDecayArrayToPointer x b else irBuilderLowerRValue e b) v h'"
  proof (rule gives_bind [OF assms(2) lvalue_reaches address_first [OF assms]])
    fix x c assume "builder_inv c" "value_ok c x"
    then show "reaches c (if has_array_address x then irBuilderDecayArrayToPointer x c else irBuilderLowerRValue e c) value_ok"
      by (simp add: decay_reaches rvalue_reaches)
  next
    fix x c r1 assume "at A call \<rho> c r1" "\<not> has_array_address x"
    then show "gives_value A c r1 h (if has_array_address x then irBuilderDecayArrayToPointer x c else irBuilderLowerRValue e c) v h'"
      using simulated_value [OF assms(1) _ assms(3,4)] by simp
  qed
  then show ?thesis
    using simulated_value [OF assms] s by (simp add: irBuilderLowerValueForExpectedType.simps [of e t b])
qed

text \<open>Arguments.\<close>

lemma args_gives:
  assumes "\<forall>e \<in> set es. simulated e" "\<forall>e \<in> set es. repeatable e" "at A call \<rho> b r"
    and "eval_args call \<rho> es h = Some (vs, h')" "length ts = length es"
  shows "gives A b r h (lower_args es ts b)
    (\<lambda>r xs. \<exists>ys. xs = Some ys \<and> map (operand_value A r) ys = map Some vs) h'"
  using assms
proof (induction es arbitrary: ts b r h vs)
  case Nil
  then show ?case by (simp add: gives_return)
next
  case (Cons e es)
  obtain t ts' where ts: "ts = t # ts'" using Cons.prems(5) by (cases ts) auto
  obtain v h1 ws where v: "eval call \<rho> e h = Some (v, h1)" "eval_args call \<rho> es h1 = Some (ws, h')" "vs = v # ws"
    using Cons.prems(4) by (auto split: option.splits prod.splits)
  have "gives A b r h (let (x, c) = irBuilderLowerValueForExpectedType e t b
      in case vvalue x of None \<Rightarrow> (None, c)
         | Some y \<Rightarrow> let (ys, c) = lower_args es ts' c in (map_option (\<lambda>ys. y # ys) ys, c))
    (\<lambda>r xs. \<exists>ys. xs = Some ys \<and> map (operand_value A r) ys = map Some vs) h'"
  proof (rule gives_bind [OF Cons.prems(3) value_for_reaches expected_gives [of e A call \<rho> b r h v h1]])
    fix x c assume "builder_inv c" "value_ok c x"
    then show "reaches c (case vvalue x of None \<Rightarrow> (None, c)
         | Some y \<Rightarrow> let (ys, c) = lower_args es ts' c in (map_option (\<lambda>ys. y # ys) ys, c)) (\<lambda>c xs. True)"
      by (intro reaches_option reaches_bind [OF args_reach]) (simp_all add: every_expression_lowers)
  next
    fix x c r1 assume c: "at A call \<rho> c r1" "value_ok c x" "holds_value A r1 x v"
    obtain y where y: "vvalue x = Some y" "operand_value A r1 y = Some v" using c(3) by (auto simp: holds_value_def)
    have "gives A c r1 h1 (let (ys, c) = lower_args es ts' c in (map_option (\<lambda>ys. y # ys) ys, c))
       (\<lambda>r xs. \<exists>ys. xs = Some ys \<and> map (operand_value A r) ys = map Some vs) h'"
    proof (rule gives_bind [OF c(1) args_reach])
      show "gives A c r1 h1 (lower_args es ts' c)
          (\<lambda>r xs. \<exists>ys. xs = Some ys \<and> map (operand_value A r) ys = map Some ws) h'"
        by (rule Cons.IH) (use Cons.prems ts v c in simp_all)
    next
      fix xs d r2 assume r2: "\<exists>ys. xs = Some ys \<and> map (operand_value A r2) ys = map Some ws" "agree (slots c) r1 r2"
      have "operand_value A r2 y = Some v"
        using operand_kept [OF at_inv [OF c(1)] value_of [OF c(2) y(1)] r2(2), of A] y(2) by simp
      then show "gives A d r2 h' (map_option (\<lambda>ys. y # ys) xs, d)
          (\<lambda>r xs. \<exists>ys. xs = Some ys \<and> map (operand_value A r) ys = map Some vs) h'"
        using r2(1) by (intro gives_return) (auto simp: v(3))
    qed (simp_all add: every_expression_lowers)
    then show "gives A c r1 h1 (case vvalue x of None \<Rightarrow> (None, c)
         | Some y \<Rightarrow> let (ys, c) = lower_args es ts' c in (map_option (\<lambda>ys. y # ys) ys, c))
       (\<lambda>r xs. \<exists>ys. xs = Some ys \<and> map (operand_value A r) ys = map Some vs) h'"
      by (simp only: y option.case)
  qed (use Cons.prems v in simp_all)
  then show ?case by (simp only: ts lower_args.simps)
qed

text \<open>A call, whether or not its value is used.\<close>

definition returned :: "activation \<Rightarrow> regs \<Rightarrow> IRValue \<Rightarrow> val option \<Rightarrow> bool" where
  "returned A r x q = (case q of None \<Rightarrow> True | Some v \<Rightarrow> holds_value A r x v)"

lemma those_map_Some [simp]: "those (map Some vs) = Some vs"
  by (induction vs) simp_all

lemma emit_call_gives:
  assumes "builder_inv b" "map (operand_value A r) ys = map Some vs"
    and "case q of None \<Rightarrow> t = IR_TYPE_VOID | Some v \<Rightarrow> ir_ty t = Some (type_of v)"
    and call: "returns (amodule A) (aworld A) f vs h q h'"
  shows "gives A b r h (emit_call f ys t b) (\<lambda>r x. returned A r x q) h'"
proof (cases q)
  case None
  let ?i = "instr None (IR_INSTR_CALL f ys)"
  have "runs A (?i # is) r h u g" if "runs A is r h' u g" for "is" u g
    by (rule run_call [of ?i f ys A r vs h q h' r]) (use assms None that in \<open>simp_all add: instr_def result_register_def\<close>)
  then show ?thesis
    using None assms(3) goes_append [OF assms(1), of A ?i r h' r h]
    by (auto simp: gives_def emit_call_def returned_def)
next
  case (Some v)
  have t: "t \<noteq> IR_TYPE_VOID" using assms(3) Some by auto
  let ?b = "b\<lparr>current_fun := (current_fun b)\<lparr>next_local_id := Suc (slots b)\<rparr>\<rparr>"
  let ?i = "instr (Some (slots b, t)) (IR_INSTR_CALL f ys)" and ?r = "r(slots b := Some v)"
  have "runs A (?i # is) r h u g" if "runs A is ?r h' u g" for "is" u g
    by (rule run_call [of ?i f ys A r vs h q h' ?r]) (use assms Some that in \<open>simp_all add: instr_def result_register_def\<close>)
  note run = this
  show ?thesis unfolding gives_def
  proof
    have e: "emit_call f ys t b = (a_value t (irOperandCreateLocal t (slots b)), irBuilderAppendInstruction ?i ?b)"
      using t by (simp add: emit_call_def emit_result_parts)
    assume "embedded (afun A) (snd (emit_call f ys t b))"
    then have "\<forall>u g. runs A (rest_of (afun A) (irBuilderAppendInstruction ?i ?b)) ?r h' u g \<longrightarrow> runs A (rest_of (afun A) ?b) r h u g"
      using rest_of_append [OF reserve_step(2) [OF assms(1) reserve_parts]] run by (simp add: e)
    then have "goes A b r h (irBuilderAppendInstruction ?i ?b) ?r h'" by (simp add: goes_def agree_new)
    moreover have "returned A ?r (a_value t (irOperandCreateLocal t (slots b))) q"
      using assms(3) Some by (simp add: returned_def holds_value_def a_value_def operand_value_def irOperandCreateLocal_def)
    ultimately show "\<exists>r'. goes A b r h (snd (emit_call f ys t b)) r' h' \<and> returned A r' (fst (emit_call f ys t b)) q"
      by (auto simp: e)
  qed
qed

lemma call_gives:
  assumes "\<forall>e \<in> set es. simulated e" "\<forall>e \<in> set es. repeatable e" "at A call \<rho> b r"
    and "eval_args call \<rho> es h = Some (vs, h1)" "call f vs h1 = Some (q, h')"
  shows "gives A b r h (irBuilderLowerRValue (AST_CALL l (AST_IDENTIFIER m f) es) b) (\<lambda>r x. returned A r x q) h'"
proof -
  have c: "call_ok A (mscope (module b)) f vs h1 q h'" using assms(3,5) by (simp add: at_def calls_ok_def)
  then obtain s where s: "irScopeLookup [mscope (module b)] f = Some s" "length (symbol_params s) = length vs"
    "case q of None \<Rightarrow> irtype s = IR_TYPE_VOID | Some v \<Rightarrow> ir_ty (irtype s) = Some (type_of v)"
    "returns (amodule A) (aworld A) f vs h1 q h'" by (auto simp: call_ok_def)
  have "length vs = length es" using assms(4)
  proof (induction es arbitrary: vs h)
    case (Cons e es)
    then show ?case by (auto split: option.splits prod.splits)
  qed simp
  then have n: "length (symbol_params s) = length es" using s(2) by simp
  have "gives A b r h (let (ops, b) = lower_args es (symbol_params s) b
      in case ops of None \<Rightarrow> (irValueEmpty, b) | Some ops \<Rightarrow> emit_call f ops (irtype s) b) (\<lambda>r x. returned A r x q) h'"
  proof (rule gives_bind [OF assms(3) args_reach args_gives [OF assms(1-4) n]])
    fix x c assume "builder_inv c" "args_ok c x"
    then show "reaches c (case x of None \<Rightarrow> (irValueEmpty, c) | Some ops \<Rightarrow> emit_call f ops (irtype s) c) value_ok"
      by (intro reaches_option) (simp_all add: args_ok_def ops_ok_def emit_call_reaches)
  next
    fix x c r1 assume "at A call \<rho> c r1" "\<exists>ys. x = Some ys \<and> map (operand_value A r1) ys = map Some vs"
    then show "gives A c r1 h1 (case x of None \<Rightarrow> (irValueEmpty, c) | Some ops \<Rightarrow> emit_call f ops (irtype s) c)
       (\<lambda>r x. returned A r x q) h'"
      using emit_call_gives [OF at_inv _ s(3,4)] by auto
  qed (simp add: every_expression_lowers)
  then show ?thesis
    by (simp only: s(1) irBuilderLowerRValue.simps [of "AST_CALL _ _ _"] ast.case option.case)
qed

lemma binary_simulated:
  assumes "simulated x" "simulated y"
  shows "simulated (AST_BINARY l op x y)"
  unfolding simulated_def
proof (intro allI impI conjI)
  fix A call \<rho> b r h u h'
  assume at: "at A call \<rho> b r" and rep: "repeatable (AST_BINARY l op x y)"
    and "eval call \<rho> (AST_BINARY l op x y) h = Some (u, h')"
  then obtain v h1 w where v: "eval call \<rho> x h = Some (v, h1)" "eval call \<rho> y h1 = Some (w, h')" "binary_value op v w = Some u"
    by (auto simp: eval_binary split: option.splits)
  have "gives_value A b r h (let (l, b) = irBuilderLowerRValue x b; (m, b) = irBuilderLowerRValue y b in lower_binary op l m b) u h'"
  proof (rule gives_bind [OF at rvalue_reaches simulated_value [OF assms(1) at _ v(1)]])
    fix m c assume "value_ok c m"
    then show "reaches c (let (k, b) = irBuilderLowerRValue y c in lower_binary op m k b) value_ok"
      by (intro reaches_bind [OF rvalue_reaches] lower_binary_reaches) (simp_all add: stays_value)
  next
    fix m c r1 assume c: "at A call \<rho> c r1" "value_ok c m" "holds_value A r1 m v"
    show "gives_value A c r1 h1 (let (k, b) = irBuilderLowerRValue y c in lower_binary op m k b) u h'"
    proof (rule gives_bind [OF c(1) rvalue_reaches simulated_value [OF assms(2) c(1) _ v(2)]])
      fix k d assume "stays c d" "value_ok d k" "builder_inv d"
      then show "reaches d (lower_binary op m k d) value_ok" by (simp add: lower_binary_reaches stays_value [OF c(2)])
    next
      fix k d r2 assume d: "at A call \<rho> d r2" "holds_value A r2 k w" "agree (slots c) r1 r2"
      have "holds_value A r2 m v" by (rule holds_value_kept [OF at_inv [OF c(1)] c(2) d(3) c(3)])
      then show "gives_value A d r2 h' (lower_binary op m k d) u h'" by (rule binary_gives [OF at_inv [OF d(1)] _ d(2) v(3)])
    qed (use rep in simp)
  qed (use rep in simp)
  then show "gives_value A b r h (irBuilderLowerRValue (AST_BINARY l op x y) b) u h'"
    by (simp only: irBuilderLowerRValue.simps [of "AST_BINARY _ _ _ _"] ast.case)
qed (simp add: eval_place.simps [of _ _ "AST_BINARY _ _ _ _"])

lemma dereference_place:
  assumes "simulated x" "at A call \<rho> b r" "repeatable x" "eval call \<rho> x h = Some (VPointer t a, h')"
  shows "gives_place A b r h (irBuilderLowerLValue (AST_UNARY l AST_UNARY_DEREF x) b) a t h'"
proof -
  have "gives_place A b r h (let (p, b) = irBuilderLowerRValue x b in (pointee p, b)) a t h'"
    by (rule gives_bind [OF assms(2) rvalue_reaches simulated_value [OF assms], where J = value_ok])
      (simp_all add: pointee_ok gives_return pointee_holds)
  then show ?thesis by (simp only: irBuilderLowerLValue.simps [of "AST_UNARY _ _ _"] ast.case simp_thms if_True)
qed

lemma loaded_gives:
  assumes "at A call \<rho> b r" "reaches b m value_ok" "gives_place A b r h m a t h1" "read_cell t a h1 = Some v"
  shows "gives_value A b r h (load_value m) v h1"
proof -
  have "gives_value A b r h (let (x, b) = m in load_value (x, b)) v h1"
  proof (rule gives_bind [OF assms(1-3)])
    fix x c assume "builder_inv c" "value_ok c x"
    then show "reaches c (load_value (x, c)) value_ok" by (intro load_value_reaches) simp
  next
    fix x c r1 assume "at A call \<rho> c r1" "holds_place A r1 x a t"
    then show "gives_value A c r1 h1 (load_value (x, c)) v h1" using load_gives [OF at_inv _ assms(4)] by blast
  qed
  then show ?thesis by simp
qed

lemma unary_simulated:
  assumes "simulated x"
  shows "simulated (AST_UNARY l op x)"
  unfolding simulated_def
proof (intro allI impI conjI)
  fix A call \<rho> b r h u h'
  assume at: "at A call \<rho> b r" and rep: "repeatable (AST_UNARY l op x)"
    and ev: "eval call \<rho> (AST_UNARY l op x) h = Some (u, h')"
  have rx: "repeatable x" using rep by simp
  consider "op = AST_UNARY_ADDRESS_OF" | "op = AST_UNARY_DEREF" | "op \<noteq> AST_UNARY_ADDRESS_OF" "op \<noteq> AST_UNARY_DEREF" by blast
  then show "gives_value A b r h (irBuilderLowerRValue (AST_UNARY l op x) b) u h'"
  proof cases
    case 1
    then obtain t a where p: "eval_place call \<rho> x h = Some ((a, t), h')" "u = VPointer t a"
      using ev by (auto simp: eval_unary split: option.splits)
    have "gives_value A b r h (let (v, b) = irBuilderLowerLValue x b in (address_as_value v, b)) u h'"
      by (rule gives_bind [OF at lvalue_reaches simulated_place [OF assms at rx p(1)], where J = value_ok])
        (simp_all add: address_as_value_ok gives_return address_holds p(2))
    then show ?thesis by (simp only: 1 irBuilderLowerRValue.simps [of "AST_UNARY _ _ _"] ast.case simp_thms if_True)
  next
    case 2
    then obtain t a where p: "eval call \<rho> x h = Some (VPointer t a, h')" "read_cell t a h' = Some u"
      using ev by (auto simp: eval_unary split: option.splits val.splits)
    have "gives_value A b r h (load_value (irBuilderLowerLValue (AST_UNARY l AST_UNARY_DEREF x) b)) u h'"
      by (rule loaded_gives [OF at lvalue_reaches dereference_place [OF assms at rx p(1)] p(2)])
    then show ?thesis by (simp add: 2 irBuilderLowerRValue.simps [of "AST_UNARY _ _ _"])
  next
    case 3
    then obtain v where v: "eval call \<rho> x h = Some (v, h')" "unary_value op v = Some u"
      using ev by (auto simp: eval_unary split: option.splits)
    have "gives_value A b r h (let (v, b) = irBuilderLowerRValue x b in lower_unary op v b) u h'"
    proof (rule gives_bind [OF at rvalue_reaches simulated_value [OF assms at rx v(1)]])
      fix y c r1 assume "at A call \<rho> c r1" "holds_value A r1 y v"
      then show "gives_value A c r1 h' (lower_unary op y c) u h'" using unary_gives [OF at_inv _ v(2)] by blast
    qed (rule lower_unary_reaches)
    then show ?thesis by (simp add: 3 irBuilderLowerRValue.simps [of "AST_UNARY _ _ _"])
  qed
next
  fix A call \<rho> b r h a t h'
  assume at: "at A call \<rho> b r" and rep: "repeatable (AST_UNARY l op x)"
    and ev: "eval_place call \<rho> (AST_UNARY l op x) h = Some ((a, t), h')"
  then have "op = AST_UNARY_DEREF" "eval call \<rho> x h = Some (VPointer t a, h')"
    by (auto simp: place_unary split: if_splits option.splits val.splits)
  then show "gives_place A b r h (irBuilderLowerLValue (AST_UNARY l op x) b) a t h'"
    using dereference_place [OF assms at] rep by simp
qed

lemma identifier_simulated: "simulated (AST_IDENTIFIER l x)"
  unfolding simulated_def
proof (intro allI impI conjI)
  fix A call \<rho> b r h a t h'
  assume at: "at A call \<rho> b r" and "eval_place call \<rho> (AST_IDENTIFIER l x) h = Some ((a, t), h')"
  then have p: "\<rho> x = Some (a, t)" "h' = h" by (auto simp: place_identifier)
  then show "gives_place A b r h (irBuilderLowerLValue (AST_IDENTIFIER l x) b) a t h'"
    using identifier_holds [OF at p(1)] by (simp add: irBuilderLowerLValue.simps [of "AST_IDENTIFIER _ _"] gives_return)
next
  fix A call \<rho> b r h v h'
  assume at: "at A call \<rho> b r" and "eval call \<rho> (AST_IDENTIFIER l x) h = Some (v, h')"
  then obtain a t where p: "\<rho> x = Some (a, t)" "h' = h" "read_cell t a h = Some v"
    by (auto simp: eval_identifier split: option.splits)
  then show "gives_value A b r h (irBuilderLowerRValue (AST_IDENTIFIER l x) b) v h'"
    using load_gives [OF at_inv [OF at] identifier_holds [OF at p(1)] p(3)]
    by (simp add: irBuilderLowerRValue.simps [of "AST_IDENTIFIER _ _"])
qed

lemma call_simulated:
  assumes "\<forall>e \<in> set es. simulated e"
  shows "simulated (AST_CALL l f es)"
  unfolding simulated_def
proof (intro allI impI conjI)
  fix A call \<rho> b r h v h'
  assume at: "at A call \<rho> b r" and rep: "repeatable (AST_CALL l f es)"
    and "eval call \<rho> (AST_CALL l f es) h = Some (v, h')"
  then obtain m name vs h1 where f: "f = AST_IDENTIFIER m name" "eval_args call \<rho> es h = Some (vs, h1)"
    "call name vs h1 = Some (Some v, h')"
    by (auto simp: eval_calls split: ast.splits option.splits)
  have "gives A b r h (irBuilderLowerRValue (AST_CALL l f es) b) (\<lambda>r x. returned A r x (Some v)) h'"
    unfolding f(1) by (rule call_gives [OF assms _ at f(2,3)]) (use rep in simp)
  then show "gives_value A b r h (irBuilderLowerRValue (AST_CALL l f es) b) v h'"
    by (rule gives_mono) (simp add: returned_def)
qed (simp add: eval_place.simps [of _ _ "AST_CALL _ _ _"])

lemma char_constant:
  "ir_literal (Some IR_TYPE_CHAR) (Some (IR_LITERAL_INT (char_to_long c))) = Some (VChar (of_char c))"
proof -
  have "of_char c < (256 :: nat)" by simp
  then have "int (of_char c) < 256" by linarith
  then have n: "0 \<le> (of_char c :: int) \<and> (of_char c :: int) < 256" by (metis of_nat_of_char of_nat_0_le_iff)
  have w: "(of_int (of_char c) :: 8 word) = of_char c" by (rule of_int_of_char)
  have "(of_int (of_char c - 256) :: 8 word) = of_char c" by (simp add: w)
  then show ?thesis using n w by (simp add: ir_literal_def char_to_long_def)
qed

theorem every_expression_simulated: "simulated e"
proof (induction e)
  case (AST_BINARY l op x y)
  then show ?case by (rule binary_simulated)
next
  case (AST_UNARY l op x)
  then show ?case by (rule unary_simulated)
next
  case (AST_CALL l f es)
  then show ?case by (intro call_simulated) simp
next
  case (AST_IDENTIFIER l x)
  then show ?case by (rule identifier_simulated)
next
  case (AST_INT_LITERAL l v)
  show ?case
    by (auto simp: simulated_def eval_int int_literal_def eval_place.simps irBuilderLowerRValue.simps ir_literal_def
        intro!: literal_gives split: if_splits)
next
  case (AST_CHAR_LITERAL l c)
  show ?case
    by (auto simp: simulated_def eval_char eval_place.simps irBuilderLowerRValue.simps char_constant intro!: literal_gives)
next
  case (AST_BOOL_LITERAL l c)
  show ?case
    by (auto simp: simulated_def eval_bool eval_place.simps irBuilderLowerRValue.simps ir_literal_def intro!: literal_gives)
qed (simp_all add: simulated_def eval.simps eval_place.simps)

end
