(* ===== verification/StmtTidy.thy ===== *)
theory StmtTidy
  imports ExprMeaning
begin

text \<open>
  The shape of lowered statements: the builders between their parts, and where they append.
\<close>

section \<open>Steps of the builder\<close>

definition follows :: "IRBuilder \<Rightarrow> IRBuilder \<Rightarrow> bool" where
  "follows b c \<longleftrightarrow> builder_inv c \<and> extends (current_fun b) (current_fun c)
     \<and> mscope (module c) = mscope (module b)"

lemma follows_refl: "builder_inv b \<Longrightarrow> follows b b"
  by (simp add: follows_def)

lemma follows_trans: "follows b c \<Longrightarrow> follows c d \<Longrightarrow> follows b d"
  using extends_trans [of "current_fun b" "current_fun c" "current_fun d"] by (simp add: follows_def)

lemma follows_inv: "follows b c \<Longrightarrow> builder_inv c"
  by (simp add: follows_def)

lemma follows_ext: "builder_inv c \<Longrightarrow> builder_ext b c \<Longrightarrow> follows b c"
  by (simp add: follows_def builder_ext_def)

lemma follows_slots: "follows b c \<Longrightarrow> slots b \<le> slots c"
  by (simp add: follows_def extends_def)

lemma follows_known: "follows b c \<Longrightarrow> known b k \<Longrightarrow> known c k"
  by (auto simp: follows_def extends_def)

lemma embedded_follows: "embedded f c \<Longrightarrow> follows b c \<Longrightarrow> embedded f b"
  by (auto simp: embedded_def follows_def extends_def intro: prefix_order.trans)

lemma ready_follows: "ready b S c \<Longrightarrow> follows b c"
  by (simp add: ready_def follows_ext)

lemma steps_follows: "builder_inv b \<Longrightarrow> steps b r \<Longrightarrow> r = (True, c) \<Longrightarrow> follows b c"
  by (rule ready_follows) (simp add: steps_def)

lemma follows_stays: "builder_inv c \<Longrightarrow> stays b c \<Longrightarrow> follows b c"
  by (simp add: stays_def follows_ext)

lemma follows_jump:
  "builder_inv b \<Longrightarrow> known b k \<Longrightarrow> known b m \<Longrightarrow>
   follows b (enter_block (irBasicBlockCreate m) (branch_unless_terminated (irBasicBlockCreate k) b))"
  by (rule ready_follows, rule ready_jump [OF ready_refl]) simp_all

lemma follows_branch:
  "builder_inv b \<Longrightarrow> known b k \<Longrightarrow> follows b (branch_unless_terminated (irBasicBlockCreate k) b)"
  using left_ready [OF left_branch_unless [OF ready_refl]] by (intro ready_follows [of b "pending b"]) simp

lemma follows_cond_branch:
  "builder_inv b \<Longrightarrow> op_ok b x \<Longrightarrow> known b k \<Longrightarrow> known b m \<Longrightarrow> follows b (irBuilderEmitCondBranch x k m b)"
  using left_ready [OF left_cond_branch [OF ready_refl]] by (intro ready_follows [of b "pending b"]) simp

lemma follows_enter: "builder_inv b \<Longrightarrow> known b k \<Longrightarrow> follows b (enter_block (irBasicBlockCreate k) b)"
  by (simp add: follows_def enter_block_def builder_inv_def)

text \<open>Where the builder appends: to the current block, and to blocks it has added.\<close>

definition moves :: "IRBuilder \<Rightarrow> IRBuilder \<Rightarrow> bool" where
  "moves b c \<longleftrightarrow> (\<forall>k. known b k \<longrightarrow> k \<noteq> current_block b \<longrightarrow>
       block_code (current_fun c) k = block_code (current_fun b) k)
     \<and> (current_block c = current_block b \<or> \<not> known b (current_block c))
     \<and> set (block_ids (current_fun b)) \<subseteq> set (block_ids (current_fun c))"

lemma moves_refl [simp]: "moves b b"
  by (simp add: moves_def)

lemma moves_trans: "moves b c \<Longrightarrow> moves c d \<Longrightarrow> moves b d"
  unfolding moves_def by (metis subset_iff)

lemma moves_stays: "stays b c \<Longrightarrow> moves b c"
  by (simp add: stays_def moves_def builder_ext_def extends_def)

lemma moves_append: "moves b (irBuilderAppendInstruction i b)"
  by (simp add: moves_def irBuilderAppendInstruction_def block_code_append)

lemma moves_branch: "moves b (branch_unless_terminated k b)"
  by (simp add: branch_unless_terminated_def irBuilderEmitBranch_def moves_append)

lemma moves_enter: "moves b c \<Longrightarrow> \<not> known b k \<Longrightarrow> moves b (enter_block (irBasicBlockCreate k) c)"
  by (simp add: moves_def enter_block_def)

lemma open_blocks_code [simp]: "block_code (current_fun (open_blocks m b)) = block_code (current_fun b)"
  "current_block (open_blocks m b) = current_block b" "current_scope (open_blocks m b) = current_scope b"
  "slots (open_blocks m b) = slots b" "loop_targets (open_blocks m b) = loop_targets b"
proof -
  have f: "block_code (current_fun (fold (\<lambda>k. append_block (irBasicBlockCreate k)) ks c)) = block_code (current_fun c)
     \<and> current_block (fold (\<lambda>k. append_block (irBasicBlockCreate k)) ks c) = current_block c
     \<and> current_scope (fold (\<lambda>k. append_block (irBasicBlockCreate k)) ks c) = current_scope c
     \<and> loop_targets (fold (\<lambda>k. append_block (irBasicBlockCreate k)) ks c) = loop_targets c
     \<and> slots (fold (\<lambda>k. append_block (irBasicBlockCreate k)) ks c) = slots c" for ks c
    by (induction ks arbitrary: c) (simp_all add: append_block_def append_block_code append_block_contents(8) [OF refl])
  then show "block_code (current_fun (open_blocks m b)) = block_code (current_fun b)"
    "current_block (open_blocks m b) = current_block b" "current_scope (open_blocks m b) = current_scope b"
    "slots (open_blocks m b) = slots b" "loop_targets (open_blocks m b) = loop_targets b"
    by (simp_all add: open_blocks_def Let_def)
qed

lemma unknown_code: "\<not> known b k \<Longrightarrow> block_code (current_fun b) k = []"
  by (auto simp: block_code_def block_of_def block_ids_def find_None_iff split: option.split)
    (auto simp: find_Some_iff)

lemma new_blocks:
  assumes "builder_inv b" "n = next_block_id (current_fun b)"
  shows "follows b (open_blocks m b)" "moves b (open_blocks m b)" "k < m \<Longrightarrow> known (open_blocks m b) (n + k)"
    "\<not> known b (n + k)" "block_code (current_fun (open_blocks m b)) (n + k) = []"
proof -
  note o = open_blocks_ready [OF ready_refl [OF assms(1)] assms(2)]
  show f: "follows b (open_blocks m b)" using o(1) by (rule ready_follows)
  then show "moves b (open_blocks m b)" by (simp add: moves_def follows_def extends_def)
  show "k < m \<Longrightarrow> known (open_blocks m b) (n + k)" using o(2) [of "n + k"] by simp
  show n: "\<not> known b (n + k)" using assms by (auto simp: builder_inv_def function_inv_def)
  show "block_code (current_fun (open_blocks m b)) (n + k) = []" using unknown_code [OF n] by simp
qed

section \<open>The parts of compound statements\<close>

lemmas statement_follows = steps_follows [OF _ every_statement_lowers [unfolded lowers_well_def, THEN conjunct1, rule_format]]
  and block_follows = steps_follows [OF _ every_statement_lowers [unfolded lowers_well_def, THEN conjunct2, rule_format]]
  and items_follow = steps_follows [OF _ items_steps [OF ballI [OF every_statement_lowers]]]
  and branch_follows = steps_follows [OF _ if_branch_steps [OF every_statement_lowers]]
  and loose_follows = steps_follows [OF _ loose_steps [OF every_statement_lowers]]

lemma value_stays:
  "builder_inv b \<Longrightarrow> irBuilderLowerRValue e b = (x, c) \<Longrightarrow> stays b c \<and> builder_inv c \<and> value_ok c x"
  using rvalue_reaches [of b e] by (simp add: reaches_def)

lemma if_builders:
  assumes inv: "builder_inv b" and low: "irBuilderLowerIfStatement c t e b = (True, d)"
  obtains n cond b1 x bt b2 be b3 where
    "\<And>k. \<not> known b (n + k)" "\<And>k. block_code (current_fun (open_blocks 3 b)) (n + k) = []"
    "\<And>k. k < 3 \<Longrightarrow> known (open_blocks 3 b) (n + k)"
    "irBuilderLowerRValue c (open_blocks 3 b) = (cond, b1)" "vvalue cond = Some x"
    "bt = enter_block (irBasicBlockCreate n) (irBuilderEmitCondBranch x n (Suc n) b1)"
    "irBuilderLowerIfBranch t bt = (True, b2)"
    "be = enter_block (irBasicBlockCreate (Suc n)) (branch_unless_terminated (irBasicBlockCreate (Suc (Suc n))) b2)"
    "irBuilderLowerIfBranch e be = (True, b3)"
    "d = enter_block (irBasicBlockCreate (Suc (Suc n))) (branch_unless_terminated (irBasicBlockCreate (Suc (Suc n))) b3)"
    "follows b (open_blocks 3 b)" "moves b (open_blocks 3 b)" "stays (open_blocks 3 b) b1" "builder_inv b1" "value_ok b1 cond"
    "follows b1 (irBuilderEmitCondBranch x n (Suc n) b1)" "follows b1 bt" "follows bt b2"
    "follows b2 (branch_unless_terminated (irBasicBlockCreate (Suc (Suc n))) b2)" "follows b2 be" "follows be b3"
    "follows b3 (branch_unless_terminated (irBasicBlockCreate (Suc (Suc n))) b3)" "follows b3 d"
proof -
  define n where "n = next_block_id (current_fun b)"
  note o = new_blocks [OF inv n_def]
  obtain cond b1 x b2 b3 where 1: "irBuilderLowerRValue c (open_blocks 3 b) = (cond, b1)" and x: "vvalue cond = Some x"
    and 2: "irBuilderLowerIfBranch t (enter_block (irBasicBlockCreate n) (irBuilderEmitCondBranch x n (Suc n) b1)) = (True, b2)"
    and 3: "irBuilderLowerIfBranch e (enter_block (irBasicBlockCreate (Suc n))
       (branch_unless_terminated (irBasicBlockCreate (Suc (Suc n))) b2)) = (True, b3)"
    and d: "d = enter_block (irBasicBlockCreate (Suc (Suc n))) (branch_unless_terminated (irBasicBlockCreate (Suc (Suc n))) b3)"
    by (rule if_parts [OF low n_def])
  let ?bt = "enter_block (irBasicBlockCreate n) (irBuilderEmitCondBranch x n (Suc n) b1)"
  let ?be = "enter_block (irBasicBlockCreate (Suc n)) (branch_unless_terminated (irBasicBlockCreate (Suc (Suc n))) b2)"
  have v: "stays (open_blocks 3 b) b1" "builder_inv b1" "value_ok b1 cond"
    using value_stays [OF follows_inv [OF o(1)] 1] by simp_all
  have k1: "known b1 (n + k)" if "k < 3" for k
    using follows_known [OF follows_stays [OF v(2,1)] o(3) [OF that]] .
  have f1: "follows b1 (irBuilderEmitCondBranch x n (Suc n) b1)"
    using follows_cond_branch [OF v(2) value_of [OF v(3) x]] k1 [of 0] k1 [of 1] by simp
  have ft: "follows b1 ?bt"
    by (rule follows_trans [OF f1 follows_enter [OF follows_inv [OF f1] follows_known [OF f1]]]) (use k1 [of 0] in simp)
  have f2: "follows ?bt b2" by (rule branch_follows [OF follows_inv [OF ft] 2])
  have k2: "known b2 (n + k)" if "k < 3" for k
    using follows_known [OF f2 follows_known [OF ft k1 [OF that]]] .
  have f2': "follows b2 (branch_unless_terminated (irBasicBlockCreate (Suc (Suc n))) b2)"
    by (rule follows_branch [OF follows_inv [OF f2]]) (use k2 [of 2] in simp)
  have fe: "follows b2 ?be" by (rule follows_jump [OF follows_inv [OF f2]]) (use k2 [of 1] k2 [of 2] in simp_all)
  have f3: "follows ?be b3" by (rule branch_follows [OF follows_inv [OF fe] 3])
  have k3: "known b3 (n + k)" if "k < 3" for k
    using follows_known [OF f3 follows_known [OF fe k2 [OF that]]] .
  have f3': "follows b3 (branch_unless_terminated (irBasicBlockCreate (Suc (Suc n))) b3)"
    by (rule follows_branch [OF follows_inv [OF f3]]) (use k3 [of 2] in simp)
  have fd: "follows b3 d" unfolding d by (rule follows_jump [OF follows_inv [OF f3]]) (use k3 [of 2] in simp_all)
  show thesis
    by (rule that [OF o(4,5,3) 1 x refl 2 refl 3 d o(1,2) v f1 ft f2 f2' fe f3 f3' fd])
qed

text \<open>Around the body of a loop its targets are pushed.\<close>

lemma follows_push:
  "builder_inv b \<Longrightarrow> known b x \<Longrightarrow> known b y \<Longrightarrow> follows b (irBuilderPushLoopTarget x y b)"
  by (auto simp: follows_def irBuilderPushLoopTarget_def builder_inv_def)

lemma follows_pop: "builder_inv b \<Longrightarrow> follows b (irBuilderPopLoopTarget b)"
  by (auto simp: follows_def irBuilderPopLoopTarget_def builder_inv_def dest: in_set_butlastD)

lemma loop_body_builders:
  assumes inv: "builder_inv b" and k: "known b k" "known b brk" "known b cont" and p: "p = enter_block (irBasicBlockCreate k) (irBuilderPushLoopTarget brk cont b)"
    and low: "irBuilderLowerBlockNode body p = (True, c)"
  shows "follows b p" "follows p c" "follows c (irBuilderPopLoopTarget c)"
proof -
  have q: "follows b (irBuilderPushLoopTarget brk cont b)" by (rule follows_push [OF inv k(2,3)])
  show p': "follows b p" unfolding p
    by (rule follows_trans [OF q follows_enter [OF follows_inv [OF q] follows_known [OF q k(1)]]])
  show c: "follows p c" by (rule block_follows [OF follows_inv [OF p'] low])
  show "follows c (irBuilderPopLoopTarget c)" by (rule follows_pop [OF follows_inv [OF c]])
qed

lemma while_builders:
  assumes inv: "builder_inv b" and low: "irBuilderLowerWhileStatement c body b = (True, d)"
  obtains n c0 cond b1 x b1' p b2 where
    "\<And>k. \<not> known b (n + k)" "\<And>k. block_code (current_fun (open_blocks 3 b)) (n + k) = []"
    "\<And>k. k < 3 \<Longrightarrow> known (open_blocks 3 b) (n + k)"
    "c0 = enter_block (irBasicBlockCreate n) (branch_unless_terminated (irBasicBlockCreate n) (open_blocks 3 b))"
    "irBuilderLowerRValue c c0 = (cond, b1)" "vvalue cond = Some x"
    "b1' = irBuilderEmitCondBranch x (Suc n) (Suc (Suc n)) b1"
    "p = enter_block (irBasicBlockCreate (Suc n)) (irBuilderPushLoopTarget (Suc (Suc n)) n b1')"
    "irBuilderLowerBlockNode body p = (True, b2)"
    "d = enter_block (irBasicBlockCreate (Suc (Suc n))) (branch_unless_terminated (irBasicBlockCreate n) (irBuilderPopLoopTarget b2))"
    "follows b (open_blocks 3 b)" "moves b (open_blocks 3 b)"
    "follows (open_blocks 3 b) (branch_unless_terminated (irBasicBlockCreate n) (open_blocks 3 b))"
    "follows (open_blocks 3 b) c0" "stays c0 b1" "builder_inv b1" "value_ok b1 cond"
    "follows b1 b1'" "follows b1' p" "follows p b2" "follows b2 (irBuilderPopLoopTarget b2)"
    "follows (irBuilderPopLoopTarget b2) (branch_unless_terminated (irBasicBlockCreate n) (irBuilderPopLoopTarget b2))"
    "follows (irBuilderPopLoopTarget b2) d"
proof -
  define n where "n = next_block_id (current_fun b)"
  define c0 where "c0 = enter_block (irBasicBlockCreate n) (branch_unless_terminated (irBasicBlockCreate n) (open_blocks 3 b))"
  note o = new_blocks [OF inv n_def]
  obtain cond b1 x b2 where 1: "irBuilderLowerRValue c c0 = (cond, b1)" and x: "vvalue cond = Some x"
    and 2: "irBuilderLowerBlockNode body (enter_block (irBasicBlockCreate (Suc n)) (irBuilderPushLoopTarget (Suc (Suc n)) n
       (irBuilderEmitCondBranch x (Suc n) (Suc (Suc n)) b1))) = (True, b2)"
    and d: "d = enter_block (irBasicBlockCreate (Suc (Suc n))) (branch_unless_terminated (irBasicBlockCreate n) (irBuilderPopLoopTarget b2))"
    unfolding c0_def by (rule while_parts [OF low n_def])
  let ?b1 = "irBuilderEmitCondBranch x (Suc n) (Suc (Suc n)) b1"
  have k0: "known (open_blocks 3 b) n" "known (open_blocks 3 b) (Suc n)" "known (open_blocks 3 b) (Suc (Suc n))"
    using o(3) [of 0 3] o(3) [of 1 3] o(3) [of 2 3] by simp_all
  have fb: "follows (open_blocks 3 b) (branch_unless_terminated (irBasicBlockCreate n) (open_blocks 3 b))"
    by (rule follows_branch [OF follows_inv [OF o(1)] k0(1)])
  have fc: "follows (open_blocks 3 b) c0" unfolding c0_def by (rule follows_jump [OF follows_inv [OF o(1)] k0(1,1)])
  have v: "stays c0 b1" "builder_inv b1" "value_ok b1 cond" using value_stays [OF follows_inv [OF fc] 1] by simp_all
  have k1: "known b1 k" if "known (open_blocks 3 b) k" for k
    by (rule follows_known [OF follows_stays [OF v(2,1)] follows_known [OF fc that]])
  have f1: "follows b1 ?b1" by (rule follows_cond_branch [OF v(2) value_of [OF v(3) x] k1 k1]) (rule k0)+
  have k1': "known ?b1 k" if "known (open_blocks 3 b) k" for k by (rule follows_known [OF f1 k1 [OF that]])
  note l = loop_body_builders [OF follows_inv [OF f1] k1' [OF k0(2)] k1' [OF k0(3)] k1' [OF k0(1)] refl 2]
  have k2: "known (irBuilderPopLoopTarget b2) k" if "known (open_blocks 3 b) k" for k
    by (rule follows_known [OF follows_trans [OF follows_trans [OF l(1,2)] l(3)] k1' [OF that]])
  have fd: "follows (irBuilderPopLoopTarget b2) (branch_unless_terminated (irBasicBlockCreate n) (irBuilderPopLoopTarget b2))"
    by (rule follows_branch [OF follows_inv [OF l(3)] k2 [OF k0(1)]])
  have fd': "follows (irBuilderPopLoopTarget b2) d"
    unfolding d by (rule follows_jump [OF follows_inv [OF l(3)] k2 [OF k0(1)] k2 [OF k0(3)]])
  show thesis
    by (rule that [OF o(4,5,3) c0_def 1 x refl refl 2 d o(1,2) fb fc v f1 l fd fd'])
qed

text \<open>The branch at the head of a for loop.\<close>

definition loop_head :: "ast \<Rightarrow> nat \<Rightarrow> nat \<Rightarrow> IRBuilder \<Rightarrow> IRBuilder \<Rightarrow> bool" where
  "loop_head c k m b d = (if c = AST_NULL then d = irBuilderEmitBranch k b
     else (\<exists>cond b1 x. irBuilderLowerRValue c b = (cond, b1) \<and> vvalue cond = Some x
       \<and> d = irBuilderEmitCondBranch x k m b1))"

lemma loop_head_follows:
  assumes "builder_inv b" "known b k" "known b m" "loop_head c k m b d"
  shows "follows b d" "moves b d"
proof -
  have "follows b d \<and> moves b d"
  proof (cases "c = AST_NULL")
    case True
    then have d: "d = irBuilderEmitBranch k b" using assms(4) by (simp add: loop_head_def)
    have "ready b (pending b) d" unfolding d by (rule left_ready [OF left_branch [OF ready_refl [OF assms(1)] assms(2)]])
    then show ?thesis using ready_follows by (auto simp: d irBuilderEmitBranch_def moves_append)
  next
    case False
    then obtain cond b1 x where v: "irBuilderLowerRValue c b = (cond, b1)" "vvalue cond = Some x"
      and d: "d = irBuilderEmitCondBranch x k m b1" using assms(4) by (auto simp: loop_head_def)
    have s: "stays b b1" "builder_inv b1" "value_ok b1 cond" using value_stays [OF assms(1) v(1)] by simp_all
    note f = follows_stays [OF s(2,1)]
    have "follows b1 d" unfolding d
      by (rule follows_cond_branch [OF s(2) value_of [OF s(3) v(2)]]) (rule follows_known [OF f], rule assms)+
    moreover have "moves b d"
      by (rule moves_trans [OF moves_stays [OF s(1)]]) (simp add: d irBuilderEmitCondBranch_def moves_append)
    ultimately show ?thesis using follows_trans [OF f] by blast
  qed
  then show "follows b d" "moves b d" by simp_all
qed

lemma for_builders:
  assumes inv: "builder_inv b" and low: "lower_for i c u body b = (True, d)"
  obtains b0 n c0 b1 p b2 b2' e0 b3 where
    "irBuilderLowerLooseNode i b = (True, b0)" "follows b b0"
    "\<And>k. \<not> known b0 (n + k)" "\<And>k. block_code (current_fun (open_blocks 4 b0)) (n + k) = []"
    "\<And>k. k < 4 \<Longrightarrow> known (open_blocks 4 b0) (n + k)"
    "c0 = enter_block (irBasicBlockCreate n) (branch_unless_terminated (irBasicBlockCreate n) (open_blocks 4 b0))"
    "loop_head c (Suc n) (Suc (Suc (Suc n))) c0 b1"
    "p = enter_block (irBasicBlockCreate (Suc n)) (irBuilderPushLoopTarget (Suc (Suc (Suc n))) (Suc (Suc n)) b1)"
    "irBuilderLowerBlockNode body p = (True, b2)" "b2' = irBuilderPopLoopTarget b2"
    "e0 = enter_block (irBasicBlockCreate (Suc (Suc n))) (branch_unless_terminated (irBasicBlockCreate (Suc (Suc n))) b2')"
    "irBuilderLowerLooseNode u e0 = (True, b3)"
    "d = enter_block (irBasicBlockCreate (Suc (Suc (Suc n)))) (branch_unless_terminated (irBasicBlockCreate n) b3)"
    "follows b0 (open_blocks 4 b0)" "moves b0 (open_blocks 4 b0)"
    "follows (open_blocks 4 b0) (branch_unless_terminated (irBasicBlockCreate n) (open_blocks 4 b0))"
    "follows (open_blocks 4 b0) c0" "follows c0 b1" "follows b1 p" "follows p b2" "follows b2 b2'"
    "follows b2' (branch_unless_terminated (irBasicBlockCreate (Suc (Suc n))) b2')" "follows b2' e0" "follows e0 b3"
    "follows b3 (branch_unless_terminated (irBasicBlockCreate n) b3)" "follows b3 d"
proof -
  obtain b0 n b1 b2 b3 where 0: "irBuilderLowerLooseNode i b = (True, b0)" and n: "n = next_block_id (current_fun b0)"
    and 1: "(let k = enter_block (irBasicBlockCreate n) (branch_unless_terminated (irBasicBlockCreate n) (open_blocks 4 b0))
      in if c \<noteq> AST_NULL then
           (let (cond, b) = irBuilderLowerRValue c k
            in case vvalue cond of None \<Rightarrow> (False, b)
               | Some x \<Rightarrow> (True, irBuilderEmitCondBranch x (Suc n) (Suc (Suc (Suc n))) b))
         else (True, irBuilderEmitBranch (Suc n) k)) = (True, b1)"
    and 2: "irBuilderLowerBlockNode body (enter_block (irBasicBlockCreate (Suc n))
       (irBuilderPushLoopTarget (Suc (Suc (Suc n))) (Suc (Suc n)) b1)) = (True, b2)"
    and 3: "irBuilderLowerLooseNode u (enter_block (irBasicBlockCreate (Suc (Suc n)))
       (branch_unless_terminated (irBasicBlockCreate (Suc (Suc n))) (irBuilderPopLoopTarget b2))) = (True, b3)"
    and d: "d = enter_block (irBasicBlockCreate (Suc (Suc (Suc n)))) (branch_unless_terminated (irBasicBlockCreate n) b3)"
    by (rule for_parts [OF low])
  define c0 where "c0 = enter_block (irBasicBlockCreate n) (branch_unless_terminated (irBasicBlockCreate n) (open_blocks 4 b0))"
  have f0: "follows b b0" by (rule loose_follows [OF inv 0])
  note o = new_blocks [OF follows_inv [OF f0] n]
  have k0: "known (open_blocks 4 b0) n" "known (open_blocks 4 b0) (Suc n)" "known (open_blocks 4 b0) (Suc (Suc n))"
    "known (open_blocks 4 b0) (Suc (Suc (Suc n)))"
    using o(3) [of 0 4] o(3) [of 1 4] o(3) [of 2 4] o(3) [of 3 4] by (simp_all add: numeral_3_eq_3)
  have fb: "follows (open_blocks 4 b0) (branch_unless_terminated (irBasicBlockCreate n) (open_blocks 4 b0))"
    by (rule follows_branch [OF follows_inv [OF o(1)] k0(1)])
  have fc: "follows (open_blocks 4 b0) c0" unfolding c0_def by (rule follows_jump [OF follows_inv [OF o(1)] k0(1,1)])
  have h: "loop_head c (Suc n) (Suc (Suc (Suc n))) c0 b1"
    using 1 unfolding c0_def [symmetric] Let_def by (auto simp: loop_head_def split: prod.splits option.splits if_splits)
  have f1: "follows c0 b1" by (rule loop_head_follows [OF follows_inv [OF fc] follows_known [OF fc k0(2)] follows_known [OF fc k0(4)] h])
  have k1: "known b1 k" if "known (open_blocks 4 b0) k" for k by (rule follows_known [OF f1 follows_known [OF fc that]])
  note l = loop_body_builders [OF follows_inv [OF f1] k1 [OF k0(2)] k1 [OF k0(4)] k1 [OF k0(3)] refl 2]
  have k2: "known (irBuilderPopLoopTarget b2) k" if "known (open_blocks 4 b0) k" for k
    by (rule follows_known [OF follows_trans [OF follows_trans [OF l(1,2)] l(3)] k1 [OF that]])
  have fu: "follows (irBuilderPopLoopTarget b2) (branch_unless_terminated (irBasicBlockCreate (Suc (Suc n))) (irBuilderPopLoopTarget b2))"
    by (rule follows_branch [OF follows_inv [OF l(3)] k2 [OF k0(3)]])
  have fe: "follows (irBuilderPopLoopTarget b2) (enter_block (irBasicBlockCreate (Suc (Suc n)))
      (branch_unless_terminated (irBasicBlockCreate (Suc (Suc n))) (irBuilderPopLoopTarget b2)))"
    by (rule follows_jump [OF follows_inv [OF l(3)] k2 [OF k0(3)] k2 [OF k0(3)]])
  have f3: "follows (enter_block (irBasicBlockCreate (Suc (Suc n)))
      (branch_unless_terminated (irBasicBlockCreate (Suc (Suc n))) (irBuilderPopLoopTarget b2))) b3"
    by (rule loose_follows [OF follows_inv [OF fe] 3])
  have k3: "known b3 k" if "known (open_blocks 4 b0) k" for k
    by (rule follows_known [OF follows_trans [OF fe f3] k2 [OF that]])
  have fd: "follows b3 (branch_unless_terminated (irBasicBlockCreate n) b3)"
    by (rule follows_branch [OF follows_inv [OF f3] k3 [OF k0(1)]])
  have fd': "follows b3 d" unfolding d by (rule follows_jump [OF follows_inv [OF f3] k3 [OF k0(1)] k3 [OF k0(4)]])
  show thesis
    by (rule that [OF 0 f0 o(4,5,3) c0_def h refl 2 refl refl 3 d o(1,2) fb fc f1 l fu fe f3 fd fd'])
qed

section \<open>Names\<close>

text \<open>What keeps the symbols of the visible names.\<close>

definition keeps :: "string set \<Rightarrow> IRBuilder \<Rightarrow> IRBuilder \<Rightarrow> bool" where
  "keeps V b c \<longleftrightarrow> (\<forall>x \<in> V. irScopeLookup (current_scope c) x = irScopeLookup (current_scope b) x)"

lemma keeps_same: "current_scope c = current_scope b \<Longrightarrow> keeps V b c"
  by (simp add: keeps_def)

lemma keeps_trans: "keeps V b c \<Longrightarrow> keeps V c d \<Longrightarrow> keeps V b d"
  by (simp add: keeps_def)

lemma keeps_mono: "keeps V b c \<Longrightarrow> U \<subseteq> V \<Longrightarrow> keeps U b c"
  by (auto simp: keeps_def)

text \<open>
  The programs whose translation is shown to be right.  Blocks open no scope in the translation,
  so a block must not declare a name that is visible around it; types are those of the evaluator;
  and what is lowered twice must not call.
\<close>

fun declared :: "ast \<Rightarrow> string set" where
  "declared (AST_VAR_DECL l x t i) = {x}"
| "declared _ = {}"

fun clean :: "string set \<Rightarrow> ast \<Rightarrow> bool"
and clean_items :: "string set \<Rightarrow> ast list \<Rightarrow> bool"
where
  "clean V (AST_VAR_DECL l x t i) = (x \<notin> V \<and> node_ty t \<noteq> None \<and> repeatable i)"
| "clean V (AST_ASSIGN l op t e) = (repeatable t \<and> repeatable e \<and> (op = AST_ASSIGN_SET \<or> calm e))"
| "clean V (AST_IF l c t e) = (repeatable c \<and> clean V t \<and> clean V e)"
| "clean V (AST_WHILE l c b) = (repeatable c \<and> clean V b)"
| "clean V (AST_FOR l i c u b) =
     (clean V i \<and> repeatable c \<and> clean (V \<union> declared i) b \<and> clean (V \<union> declared i) u)"
| "clean V (AST_BLOCK l ss) = clean_items V ss"
| "clean V (AST_EXPR_STMT l e) = repeatable e"
| "clean V (AST_RETURN l e) = repeatable e"
| "clean V e = repeatable e"
| "clean_items V [] = True"
| "clean_items V (s # ss) = (clean V s \<and> clean_items (V \<union> declared s) ss)"

section \<open>Stack slots\<close>

lemma slot_parts:
  assumes inv: "builder_inv b" and slot: "stack_slot x t b = Some (k, d)"
  obtains sc where "k = slots b" "current_scope d = sc"
    "\<And>y. irScopeLookup sc y = (if y = x then Some (irSymbolCreateLocal x (IR_TYPE_POINTER t) k) else irScopeLookup (current_scope b) y)"
    "d = (irBuilderAppendInstruction (instr (Some (k, IR_TYPE_POINTER t)) (IR_INSTR_ALLOCA t))
        (b\<lparr>current_fun := (current_fun b)\<lparr>next_local_id := Suc k\<rparr>\<rparr>))\<lparr>current_scope := sc\<rparr>"
    "follows b d" "moves b d" "\<not> closed d"
proof -
  let ?s = "irSymbolCreateLocal x (IR_TYPE_POINTER t) k"
  have k: "k = slots b" using slot by (auto simp: stack_slot_def reserve_parts split: prod.splits if_splits)
  obtain sc where sc: "irScopeDeclare (current_scope b) ?s = (True, sc)"
    and d: "d = irBuilderAppendInstruction (instr (Some (k, IR_TYPE_POINTER t)) (IR_INSTR_ALLOCA t))
        (b\<lparr>current_fun := (current_fun b)\<lparr>next_local_id := Suc k\<rparr>, current_scope := sc\<rparr>)"
    using slot by (auto simp: stack_slot_def reserve_parts irTypeCreatePointer_def split: prod.splits if_splits)
  obtain ta ts where ts: "current_scope b = ta # ts" using inv by (cases "current_scope b") (simp_all add: builder_inv_def)
  obtain ta' where ta': "bucketDeclare irname ta ?s = (True, ta')" "sc = ta' # ts"
    using sc by (auto simp: ts irScopeDeclare_def split: prod.splits)
  have "buckets_ok irname ta" using inv by (simp add: builder_inv_def ts table_ok_def)
  from ir_table.declare_lookup [OF this, of ?s]
  have l: "bucketLookup irname ta' y = (if y = x then Some ?s else bucketLookup irname ta y)" for y
    using ta'(1) by (simp add: irSymbolCreateLocal_def)
  have lookup: "irScopeLookup sc y = (if y = x then Some ?s else irScopeLookup (current_scope b) y)" for y
    by (simp add: ta'(2) ts irScopeLookupCurrent_def l)
  have k': "current_block b \<in> set (block_ids (current_fun b))" using inv by (simp add: builder_inv_def)
  show thesis
  proof (rule that [OF k _ lookup])
    show "current_scope d = sc" by (simp add: d irBuilderAppendInstruction_def)
    show "d = (irBuilderAppendInstruction (instr (Some (k, IR_TYPE_POINTER t)) (IR_INSTR_ALLOCA t))
        (b\<lparr>current_fun := (current_fun b)\<lparr>next_local_id := Suc k\<rparr>\<rparr>))\<lparr>current_scope := sc\<rparr>"
      by (simp add: d irBuilderAppendInstruction_def)
    show "follows b d" by (rule ready_follows [OF stack_slot_ready(1) [OF inv slot]])
    show "moves b d" by (simp add: d moves_def irBuilderAppendInstruction_def block_code_append)
    show "\<not> closed d" using k' by (simp add: d closed_def irBuilderAppendInstruction_def block_code_append instr_def is_terminator_def)
  qed
qed

text \<open>Types of the evaluator are translated to themselves.\<close>

lemma node_type: "node_ty t = Some c \<Longrightarrow> \<exists>u. irBuilderTypeFromAst t = Some u \<and> ir_ty u = Some c"
proof (induction t arbitrary: c rule: node_ty.induct)
  case (2 l t)
  then show ?case
    by (auto simp: irBuilderTypeFromAst.simps [of "AST_TYPE_POINTER _ _"] irTypeCreatePointer_def)
qed (auto simp: irBuilderTypeFromAst.simps [of "AST_TYPE_NAME _ _ _"] split: AstTypeKind.splits)

lemma scalar_type: "ir_ty u = Some c \<Longrightarrow> \<not> is_array_type u"
  by (cases u) auto

definition scalar_decl :: "string \<Rightarrow> IRType \<Rightarrow> ast \<Rightarrow> IRBuilder \<Rightarrow> bool \<times> IRBuilder" where
  "scalar_decl x u i b =
    (case stack_slot x u b of
       None \<Rightarrow> (False, snd (irBuilderReserveResult b))
     | Some (k, d) \<Rightarrow>
         if i = AST_NULL then (True, d)
         else (let (r, b) = irBuilderLowerValueForExpectedType i u d
               in case vvalue r of
                    None \<Rightarrow> (False, b)
                  | Some y \<Rightarrow> (True, irBuilderEmitStore (irOperandCreateLocal (IR_TYPE_POINTER u) k) y b)))"

lemma var_decl_scalar:
  assumes "node_ty t = Some c"
  shows "\<exists>u. ir_ty u = Some c \<and> (\<forall>x i b. irBuilderLowerVarDecl x t i b = scalar_decl x u i b)"
proof -
  obtain u where u: "irBuilderTypeFromAst t = Some u" "ir_ty u = Some c" using node_type [OF assms] by blast
  have a: "\<not> is_array_type u" by (rule scalar_type [OF u(2)])
  have "irBuilderLowerVarDecl x t i b = scalar_decl x u i b" for x i b
    by (simp add: scalar_decl_def var_decl_slot u(1) inferred_type_def store_initializer_def a irTypeCreatePointer_def
        split: option.split prod.split)
  then show ?thesis using u(2) by blast
qed

section \<open>Every statement keeps names and other blocks\<close>

definition orderly :: "string set \<Rightarrow> IRBuilder \<Rightarrow> IRBuilder \<Rightarrow> bool" where
  "orderly V b c \<longleftrightarrow> moves b c \<and> keeps V b c"

lemma orderly_trans: "orderly V b c \<Longrightarrow> orderly V c d \<Longrightarrow> orderly V b d"
  using moves_trans keeps_trans by (simp add: orderly_def) blast

lemma orderly_mono: "orderly V b c \<Longrightarrow> U \<subseteq> V \<Longrightarrow> orderly U b c"
  using keeps_mono by (simp add: orderly_def) blast

lemma orderly_refl [simp]: "orderly V b b"
  by (simp add: orderly_def keeps_same)

lemma orderly_stays: "stays b c \<Longrightarrow> orderly V b c"
  by (simp add: orderly_def moves_stays keeps_same stays_def)

lemma orderly_append: "orderly V b (irBuilderAppendInstruction i b)"
proof -
  have "current_scope (irBuilderAppendInstruction i b) = current_scope b" by (simp add: irBuilderAppendInstruction_def)
  then show ?thesis by (simp add: orderly_def moves_append keeps_same)
qed

lemma orderly_branch: "orderly V b (branch_unless_terminated k b)"
  by (simp add: branch_unless_terminated_def irBuilderEmitBranch_def orderly_append)

lemma orderly_enter: "orderly V b c \<Longrightarrow> \<not> known b k \<Longrightarrow> orderly V b (enter_block (irBasicBlockCreate k) c)"
  using moves_enter by (simp add: orderly_def keeps_def enter_block_def)

lemma orderly_push: "orderly V b c \<Longrightarrow> orderly V b (irBuilderPushLoopTarget x y c)"
  by (simp add: orderly_def moves_def keeps_def irBuilderPushLoopTarget_def)

lemma orderly_pop: "orderly V b c \<Longrightarrow> orderly V b (irBuilderPopLoopTarget c)"
  by (simp add: orderly_def moves_def keeps_def irBuilderPopLoopTarget_def)

lemma orderly_cond_branch: "stays b c \<Longrightarrow> orderly V b (irBuilderEmitCondBranch x k m c)"
  using orderly_trans [OF orderly_stays orderly_append] by (simp add: irBuilderEmitCondBranch_def)

lemma orderly_open: "builder_inv b \<Longrightarrow> orderly V b (open_blocks m b)"
  using new_blocks(2) [OF _ refl] by (simp add: orderly_def keeps_same)

definition tidy :: "ast \<Rightarrow> bool" where
  "tidy s \<longleftrightarrow> (\<forall>V b c. builder_inv b \<longrightarrow> clean V s \<longrightarrow>
     (irBuilderLowerStatement s b = (True, c) \<longrightarrow> orderly V b c)
     \<and> (irBuilderLowerBlockNode s b = (True, c) \<longrightarrow> orderly V b c))"

lemma tidy_statement: "tidy s \<Longrightarrow> builder_inv b \<Longrightarrow> clean V s \<Longrightarrow> irBuilderLowerStatement s b = (True, c) \<Longrightarrow> orderly V b c"
  and tidy_block: "tidy s \<Longrightarrow> builder_inv b \<Longrightarrow> clean V s \<Longrightarrow> irBuilderLowerBlockNode s b = (True, c) \<Longrightarrow> orderly V b c"
  unfolding tidy_def by metis+

lemma tidy_items:
  "\<forall>s \<in> set ss. tidy s \<Longrightarrow> builder_inv b \<Longrightarrow> clean_items V ss \<Longrightarrow> lower_items ss b = (True, c) \<Longrightarrow> orderly V b c"
proof (induction ss arbitrary: V b)
  case (Cons s ss)
  obtain d where d: "irBuilderLowerStatement s b = (True, d)" "lower_items ss d = (True, c)"
    using Cons.prems(4) by (auto split: prod.splits if_splits)
  have "orderly V b d" using tidy_statement [OF _ Cons.prems(2) _ d(1)] Cons.prems by simp
  moreover have "orderly (V \<union> declared s) d c"
    by (rule Cons.IH [OF _ follows_inv [OF statement_follows [OF Cons.prems(2) d(1)]] _ d(2)]) (use Cons.prems in simp_all)
  ultimately show ?case using orderly_mono [of "V \<union> declared s" d c V] orderly_trans by blast
qed simp

lemma tidy_branch:
  "tidy s \<Longrightarrow> builder_inv b \<Longrightarrow> clean V s \<Longrightarrow> irBuilderLowerIfBranch s b = (True, c) \<Longrightarrow> orderly V b c"
  using tidy_statement [of s b V c] tidy_block [of s b V c]
  by (auto simp: irBuilderLowerIfBranch.simps [of s] split: if_splits)

lemma tidy_loose:
  assumes "tidy s" "builder_inv b" "clean V s" "irBuilderLowerLooseNode s b = (True, c)"
  shows "orderly V b c"
proof -
  have "c = b \<or> irBuilderLowerStatement s b = (True, c) \<or> c = snd (irBuilderLowerRValue s b)"
    using assms(4) by (auto simp: irBuilderLowerLooseNode.simps [of s] split: if_splits)
  moreover have "orderly V b (snd (irBuilderLowerRValue s b))"
    using value_stays [OF assms(2), of s] by (cases "irBuilderLowerRValue s b") (simp add: orderly_stays)
  ultimately show ?thesis using tidy_statement [OF assms(1-3)] by auto
qed

lemma if_tidy:
  assumes t: "tidy t" "clean V t" and e: "tidy e" "clean V e"
    and inv: "builder_inv b" and low: "irBuilderLowerIfStatement c t e b = (True, d)"
  shows "orderly V b d"
  using if_builders [OF inv low]
proof cases
  case (1 n cond b1 x bt b2 be b3)
  have "orderly V b (irBuilderEmitCondBranch x n (Suc n) b1)"
    using orderly_trans [OF orderly_open [OF inv] orderly_cond_branch [OF 1(13)]] .
  then have "orderly V b bt" unfolding 1(6) by (rule orderly_enter) (use 1(1) [of 0] in simp)
  moreover have "orderly V bt b2" by (rule tidy_branch [OF t(1) follows_inv [OF 1(17)] t(2) 1(7)])
  ultimately have "orderly V b b2" by (rule orderly_trans)
  then have "orderly V b (branch_unless_terminated (irBasicBlockCreate (Suc (Suc n))) b2)"
    using orderly_branch by (rule orderly_trans)
  then have "orderly V b be" unfolding 1(8) by (rule orderly_enter) (use 1(1) [of 1] in simp)
  moreover have "orderly V be b3" by (rule tidy_branch [OF e(1) follows_inv [OF 1(20)] e(2) 1(9)])
  ultimately have "orderly V b b3" by (rule orderly_trans)
  then have "orderly V b (branch_unless_terminated (irBasicBlockCreate (Suc (Suc n))) b3)"
    using orderly_branch by (rule orderly_trans)
  then show ?thesis unfolding 1(10) by (rule orderly_enter) (use 1(1) [of 2] in simp)
qed

lemma while_tidy:
  assumes body: "tidy body" "clean V body"
    and inv: "builder_inv b" and low: "irBuilderLowerWhileStatement c body b = (True, d)"
  shows "orderly V b d"
  using while_builders [OF inv low]
proof cases
  case (1 n c0 cond b1 x b1' p b2)
  have "orderly V b (branch_unless_terminated (irBasicBlockCreate n) (open_blocks 3 b))"
    by (rule orderly_trans [OF orderly_open [OF inv] orderly_branch])
  then have "orderly V b c0" unfolding 1(4) by (rule orderly_enter) (use 1(1) [of 0] in simp)
  then have "orderly V b b1'" unfolding 1(7) by (rule orderly_trans [OF _ orderly_cond_branch [OF 1(15)]])
  then have "orderly V b p" unfolding 1(8) by (intro orderly_enter orderly_push) (use 1(1) [of 1] in simp_all)
  moreover have "orderly V p b2" by (rule tidy_block [OF body(1) follows_inv [OF 1(19)] body(2) 1(9)])
  ultimately have "orderly V b (irBuilderPopLoopTarget b2)" by (rule orderly_pop [OF orderly_trans])
  then have "orderly V b (branch_unless_terminated (irBasicBlockCreate n) (irBuilderPopLoopTarget b2))"
    using orderly_branch by (rule orderly_trans)
  then show ?thesis unfolding 1(10) by (rule orderly_enter) (use 1(1) [of 2] in simp)
qed

lemma loop_head_orderly: "builder_inv b \<Longrightarrow> loop_head c k m b d \<Longrightarrow> orderly V b d"
proof (cases "c = AST_NULL")
  case False
  assume "builder_inv b" "loop_head c k m b d"
  then obtain cond b1 x where "irBuilderLowerRValue c b = (cond, b1)" "d = irBuilderEmitCondBranch x k m b1" "stays b b1"
    using value_stays False by (auto simp: loop_head_def)
  then show ?thesis by (simp add: orderly_cond_branch)
qed (simp add: loop_head_def irBuilderEmitBranch_def orderly_append)

lemma for_tidy:
  assumes i: "tidy i" "clean V i" and u: "tidy u" "clean (V \<union> declared i) u"
    and body: "tidy body" "clean (V \<union> declared i) body"
    and inv: "builder_inv b" and low: "lower_for i c u body b = (True, d)"
  shows "orderly V b d"
  using for_builders [OF inv low]
proof cases
  case (1 b0 n c0 b1 p b2 b2' e0 b3)
  let ?V = "V \<union> declared i"
  note inv0 = follows_inv [OF 1(2)]
  have "orderly ?V b0 (branch_unless_terminated (irBasicBlockCreate n) (open_blocks 4 b0))"
    by (rule orderly_trans [OF orderly_open [OF inv0] orderly_branch])
  then have "orderly ?V b0 c0" unfolding 1(6) by (rule orderly_enter) (use 1(3) [of 0] in simp)
  then have "orderly ?V b0 b1" by (rule orderly_trans [OF _ loop_head_orderly [OF follows_inv [OF 1(17)] 1(7)]])
  then have "orderly ?V b0 p" unfolding 1(8) by (intro orderly_enter orderly_push) (use 1(3) [of 1] in simp_all)
  moreover have "orderly ?V p b2" by (rule tidy_block [OF body(1) follows_inv [OF 1(19)] body(2) 1(9)])
  ultimately have "orderly ?V b0 b2'" unfolding 1(10) by (rule orderly_pop [OF orderly_trans])
  then have "orderly ?V b0 (branch_unless_terminated (irBasicBlockCreate (Suc (Suc n))) b2')"
    using orderly_branch by (rule orderly_trans)
  then have "orderly ?V b0 e0" unfolding 1(11) by (rule orderly_enter) (use 1(3) [of 2] in simp)
  moreover have "orderly ?V e0 b3" by (rule tidy_loose [OF u(1) follows_inv [OF 1(23)] u(2) 1(12)])
  ultimately have "orderly ?V b0 b3" by (rule orderly_trans)
  then have "orderly ?V b0 (branch_unless_terminated (irBasicBlockCreate n) b3)"
    using orderly_branch by (rule orderly_trans)
  then have "orderly ?V b0 d" unfolding 1(13) by (rule orderly_enter) (use 1(3) [of 3] in \<open>simp add: numeral_3_eq_3\<close>)
  then have "orderly V b0 d" by (rule orderly_mono) simp
  then show ?thesis by (rule orderly_trans [OF tidy_loose [OF i(1) inv i(2) 1(1)]])
qed

lemma enter_scope_inv: "builder_inv b \<Longrightarrow> builder_inv (enter_scope b)"
  by (auto simp: builder_inv_def enter_scope_def irScopeCreate_def table_ok_def)

lemma enter_scope_same [simp]:
  "current_fun (enter_scope b) = current_fun b" "current_block (enter_scope b) = current_block b"
  "module (enter_scope b) = module b" "loop_targets (enter_scope b) = loop_targets b"
  "irScopeLookup (current_scope (enter_scope b)) x = irScopeLookup (current_scope b) x"
  by (simp_all add: enter_scope_def irScopeCreate_def irScopeLookupCurrent_def)

lemma for_statement_parts:
  assumes "irBuilderLowerForStatement i c u body b = (True, d)"
  obtains e where "lower_for i c u body (enter_scope b) = (True, e)" "d = e\<lparr>current_scope := current_scope b\<rparr>"
  using assms by (auto simp: irBuilderLowerForStatement.simps [of i c u body b] split: prod.splits)

lemma var_decl_tidy:
  assumes inv: "builder_inv b" and c: "clean V (AST_VAR_DECL l x t i)" and low: "irBuilderLowerVarDecl x t i b = (True, d)"
  shows "orderly V b d"
proof -
  obtain c' where "node_ty t = Some c'" using c by auto
  then obtain u where u: "irBuilderLowerVarDecl x t i b = scalar_decl x u i b" using var_decl_scalar by blast
  obtain k e where slot: "stack_slot x u b = Some (k, e)"
    using low unfolding u scalar_decl_def by (cases "stack_slot x u b") auto
  have o: "orderly V b e"
  proof (rule slot_parts [OF inv slot])
    fix sc assume "moves b e" "current_scope e = sc"
      "\<And>y. irScopeLookup sc y = (if y = x then Some (irSymbolCreateLocal x (IR_TYPE_POINTER u) k) else irScopeLookup (current_scope b) y)"
    moreover have "x \<notin> V" using c by simp
    ultimately show "orderly V b e" by (auto simp: orderly_def keeps_def)
  qed
  show ?thesis
  proof (cases "i = AST_NULL")
    case True
    then show ?thesis using low [unfolded u] slot o True by (simp add: scalar_decl_def)
  next
    case False
    have "op_ok e (irOperandCreateLocal (IR_TYPE_POINTER u) k)" "points_to (irOperandCreateLocal (IR_TYPE_POINTER u) k) u"
      using stack_slot_ready(2) [OF inv slot] by (simp_all add: irTypeCreatePointer_def points_to_def)
    from set_reaches [OF this, of i u] stack_slot_ready(1) [OF inv slot]
    have "stays e d" using low [unfolded u] slot False by (simp add: scalar_decl_def reaches_def ready_def)
    then show ?thesis using orderly_trans [OF o orderly_stays] by blast
  qed
qed

lemma loop_jump_orderly:
  "irBuilderLowerBreakStatement b = (True, c) \<Longrightarrow> orderly V b c"
  "irBuilderLowerContinueStatement b = (True, c) \<Longrightarrow> orderly V b c"
  by (auto simp: irBuilderLowerBreakStatement_def irBuilderLowerContinueStatement_def irBuilderEmitBranch_def
      orderly_append split: option.splits)

lemma return_orderly: "builder_inv b \<Longrightarrow> irBuilderLowerReturn e b = (True, c) \<Longrightarrow> orderly V b c"
  using orderly_trans [OF orderly_stays orderly_append] value_stays [of b e]
  by (fastforce simp: irBuilderLowerReturn_def orderly_append split: prod.splits option.splits if_splits)

theorem every_statement_tidy: "tidy s"
proof (induction s)
  case AST_NULL
  show ?case by (simp add: tidy_def statement_unfold [of AST_NULL] block_items_def)
next
  case (AST_BLOCK l ss)
  then have "orderly V b c" if "builder_inv b" "clean_items V ss" "lower_items ss b = (True, c)" for V b c
    using tidy_items that by blast
  then show ?case
    by (simp add: tidy_def [of "AST_BLOCK _ _"] statement_unfold [of "AST_BLOCK _ _"] block_items_def)
next
  case (AST_VAR_DECL l x t i)
  show ?case
    using var_decl_tidy by (simp add: tidy_def statement_unfold [of "AST_VAR_DECL _ _ _ _"] block_items_def del: clean.simps)
next
  case (AST_ASSIGN l op t e)
  have "orderly V b c" if "builder_inv b" "irBuilderLowerAssign op t e b = (True, c)" for V b c
    using assign_reaches [of b op t e] that by (simp add: reaches_def orderly_stays)
  then show ?case by (simp add: tidy_def statement_unfold [of "AST_ASSIGN _ _ _ _"] block_items_def)
next
  case (AST_EXPR_STMT l e)
  have "orderly V b c" if "builder_inv b" "irBuilderLowerExprStatement e b = (True, c)" for V b c
    using rvalue_reaches [of b e] that by (simp add: irBuilderLowerExprStatement_def reaches_def orderly_stays)
  then show ?case by (simp add: tidy_def statement_unfold [of "AST_EXPR_STMT _ _"] block_items_def)
next
  case (AST_IF l c t e)
  have "orderly V b d" if "builder_inv b" "clean V t" "clean V e" "irBuilderLowerIfStatement c t e b = (True, d)" for V b d
    by (rule if_tidy [OF AST_IF.IH(2) that(2) AST_IF.IH(3) that(3,1,4)])
  then show ?case by (simp add: tidy_def [of "AST_IF _ _ _ _"] irBuilderLowerStatement.simps irBuilderLowerBlockNode.simps block_items_def)
next
  case (AST_WHILE l c body)
  have "orderly V b d" if "builder_inv b" "clean V body" "irBuilderLowerWhileStatement c body b = (True, d)" for V b d
    by (rule while_tidy [OF AST_WHILE.IH(2) that(2,1,3)])
  then show ?case by (simp add: tidy_def [of "AST_WHILE _ _ _"] irBuilderLowerStatement.simps irBuilderLowerBlockNode.simps block_items_def)
next
  case (AST_FOR l i c u body)
  have "orderly V b d" if "builder_inv b" "clean V (AST_FOR l i c u body)" "irBuilderLowerForStatement i c u body b = (True, d)" for V b d
  proof -
    note h = that
    obtain e where e: "lower_for i c u body (enter_scope b) = (True, e)" "d = e\<lparr>current_scope := current_scope b\<rparr>"
      by (rule for_statement_parts [OF h(3)])
    have "orderly V (enter_scope b) e"
      by (rule for_tidy [OF AST_FOR.IH(1) _ AST_FOR.IH(3) _ AST_FOR.IH(4) _ enter_scope_inv [OF h(1)] e(1)])
        (use h(2) in simp_all)
    then show ?thesis by (simp add: orderly_def moves_def keeps_def e(2))
  qed
  then show ?case
    by (simp add: tidy_def [of "AST_FOR _ _ _ _ _"] irBuilderLowerStatement.simps irBuilderLowerBlockNode.simps block_items_def del: clean.simps)
qed (simp_all add: tidy_def statement_unfold block_items_def loop_jump_orderly return_orderly)

end
