(* ===== verification/StmtMeaning.thy ===== *)
theory StmtMeaning
  imports StmtTidy
begin

text \<open>
  Lowered statements do what the statement does: from registers that hold the variables, the code
  of a statement gets to where the flow of the statement goes on, with the memory of the source.
\<close>

section \<open>Where the flow of a statement goes on\<close>

definition leads ::
  "activation \<Rightarrow> IRInstruction list \<Rightarrow> regs \<Rightarrow> heap \<Rightarrow> IRInstruction list \<Rightarrow> regs \<Rightarrow> heap \<Rightarrow> bool" where
  "leads A is r h js r' h' \<longleftrightarrow> (\<forall>q g. runs A js r' h' q g \<longrightarrow> runs A is r h q g)"

lemma leads_refl [simp]: "leads A is r h is r h"
  by (simp add: leads_def)

lemma leads_trans: "leads A is r h js r1 h1 \<Longrightarrow> leads A js r1 h1 ks r2 h2 \<Longrightarrow> leads A is r h ks r2 h2"
  by (simp add: leads_def)

lemma leads_runs: "leads A is r h js r' h' \<Longrightarrow> runs A js r' h' q g \<Longrightarrow> runs A is r h q g"
  by (simp add: leads_def)

lemma goes_leads: "goes A b r h c r' h' \<longleftrightarrow>
    agree (slots b) r r' \<and> leads A (rest_of (afun A) b) r h (rest_of (afun A) c) r' h'"
  by (simp add: goes_def leads_def)

definition fits :: "IRFunction \<Rightarrow> val option \<Rightarrow> bool" where
  "fits f q \<longleftrightarrow> (case q of None \<Rightarrow> return_type f = IR_TYPE_VOID
     | Some v \<Rightarrow> ir_ty (return_type f) = Some (type_of v))"

text \<open>From code \<open>is\<close>; \<open>next\<close> is the code after the statement, \<open>t\<close> the blocks a loop is left and
  continued in.\<close>

fun flows ::
  "activation \<Rightarrow> IRInstruction list \<Rightarrow> regs \<Rightarrow> heap \<Rightarrow> (nat \<times> nat) option \<Rightarrow> IRInstruction list \<Rightarrow>
   flow \<Rightarrow> regs \<Rightarrow> heap \<Rightarrow> bool" where
  "flows A is r h t js Next r' h' = leads A is r h js r' h'"
| "flows A is r h t js Broke r' h' = (\<forall>k l. t = Some (k, l) \<longrightarrow> leads A is r h (block_code (afun A) k) r' h')"
| "flows A is r h t js Continued r' h' = (\<forall>k l. t = Some (k, l) \<longrightarrow> leads A is r h (block_code (afun A) l) r' h')"
| "flows A is r h t js (Left v) r' h' = (fits (afun A) v \<longrightarrow> runs A is r h v h')"

lemma flows_from: "leads A is r h js r1 h1 \<Longrightarrow> flows A js r1 h1 t ks q r2 h2 \<Longrightarrow> flows A is r h t ks q r2 h2"
  by (cases q) (auto intro: leads_trans leads_runs)

lemma flows_on: "flows A is r h t js q r' h' \<Longrightarrow> leads A js r' h' ks r' h' \<Longrightarrow> flows A is r h t ks q r' h'"
  by (cases q) (auto intro: leads_trans)

lemma flows_away: "flows A is r h t js q r' h' \<Longrightarrow> q \<noteq> Next \<Longrightarrow> flows A is r h t ks q r' h'"
  by (cases q) simp_all

section \<open>Where a step of the builder ends\<close>

lemma at_move:
  assumes "at A call \<rho> b r" "follows b c" "keeps V b c" "dom \<rho> \<subseteq> V" "agree (slots b) r r'"
  shows "at A call \<rho> c r'"
proof -
  have "env_ok A (slots c) (current_scope b) r' \<rho>"
    using env_ok_mono [OF _ assms(5) follows_slots [OF assms(2)]] assms(1) by (simp add: at_def)
  then have "env_ok A (slots c) (current_scope c) r' \<rho>"
    using assms(3,4) unfolding env_ok_def keeps_def by (metis domI subset_iff)
  then show ?thesis using assms(1,2) by (simp add: at_def follows_def)
qed

lemma at_stays: "at A call \<rho> b r \<Longrightarrow> stays b c \<Longrightarrow> builder_inv c \<Longrightarrow> goes A b r h c r' h' \<Longrightarrow> at A call \<rho> c r'"
  using at_step by (simp add: goes_def)

text \<open>Appending a jump, and entering a block.\<close>

lemma rest_of_enter:
  "block_code (current_fun c) k = [] \<Longrightarrow> rest_of f (enter_block (irBasicBlockCreate k) c) = block_code f k"
  by (simp add: rest_of_def enter_block_def)

lemma closed_enter: "block_code (current_fun c) k = [] \<Longrightarrow> \<not> closed (enter_block (irBasicBlockCreate k) c)"
  by (simp add: closed_def enter_block_def)

lemma embedded_append: "embedded f (irBuilderAppendInstruction i b) \<Longrightarrow> embedded f b"
  unfolding embedded_def by (auto simp: irBuilderAppendInstruction_def block_code_append dest: append_prefixD)

lemma branch_leads:
  assumes "builder_inv b" "embedded (afun A) (irBuilderEmitBranch k b)"
  shows "leads A (rest_of (afun A) b) r h (block_code (afun A) k) r h"
proof -
  let ?i = "instr None (IR_INSTR_BR k)"
  have "rest_of (afun A) b = ?i # rest_of (afun A) (irBuilderAppendInstruction ?i b)"
    by (rule rest_of_append [OF assms(1)]) (use assms(2) in \<open>simp add: irBuilderEmitBranch_def\<close>)
  moreover have "runs A (?i # is) r h q g" if "runs A (block_code (afun A) k) r h q g" for "is" q g
    by (rule run_branch [of ?i k]) (simp_all add: instr_def that)
  ultimately show ?thesis by (simp add: leads_def)
qed

lemma branch_unless_leads:
  assumes "builder_inv b" "embedded (afun A) (branch_unless_terminated (irBasicBlockCreate k) b)" "\<not> closed b"
  shows "leads A (rest_of (afun A) b) r h (block_code (afun A) k) r h"
  using branch_leads [OF assms(1)] assms(2,3) by (simp add: branch_unless_terminated_def has_terminator_closed)

lemma cond_branch_leads:
  assumes "builder_inv b" "embedded (afun A) (irBuilderEmitCondBranch x k m b)" "operand_value A r x = Some (VBool c)"
  shows "leads A (rest_of (afun A) b) r h (block_code (afun A) (if c then k else m)) r h"
proof -
  let ?i = "instr None (IR_INSTR_COND_BR x k m)"
  have "rest_of (afun A) b = ?i # rest_of (afun A) (irBuilderAppendInstruction ?i b)"
    by (rule rest_of_append [OF assms(1)]) (use assms(2) in \<open>simp add: irBuilderEmitCondBranch_def\<close>)
  moreover have "runs A (?i # is) r h q g" if "runs A (block_code (afun A) (if c then k else m)) r h q g" for "is" q g
    by (rule run_cond_branch [of ?i x k m A r c]) (use that assms(3) in \<open>simp_all add: instr_def\<close>)
  ultimately show ?thesis by (simp add: leads_def)
qed

lemma condition_leads:
  assumes at: "at A call \<rho> b r" and c: "repeatable e" "condition call \<rho> e h = Some (t, h')"
    and low: "irBuilderLowerRValue e b = (cond, d)" "vvalue cond = Some x"
    and emb: "embedded (afun A) (irBuilderEmitCondBranch x k m d)"
  shows "\<exists>r'. agree (slots b) r r' \<and> at A call \<rho> d r' \<and>
    leads A (rest_of (afun A) b) r h (block_code (afun A) (if t then k else m)) r' h'"
proof -
  have v: "stays b d" "builder_inv d" "value_ok d cond" using value_stays [OF at_inv [OF at] low(1)] by simp_all
  have "embedded (afun A) d" using emb embedded_append by (simp add: irBuilderEmitCondBranch_def)
  moreover have "eval call \<rho> e h = Some (VBool t, h')" using c(2) by (auto simp: condition_def split: option.splits val.splits)
  then have "gives_value A b r h (cond, d) (VBool t) h'"
    using simulated_value [OF every_expression_simulated at c(1)] by (simp only: low(1))
  ultimately obtain r' where r': "goes A b r h d r' h'" "holds_value A r' cond (VBool t)"
    by (auto simp: gives_def)
  then have "operand_value A r' x = Some (VBool t)" using low(2) by (auto simp: holds_value_def)
  then have "leads A (rest_of (afun A) d) r' h' (block_code (afun A) (if t then k else m)) r' h'"
    by (rule cond_branch_leads [OF v(2) emb])
  moreover have "agree (slots b) r r'" "leads A (rest_of (afun A) b) r h (rest_of (afun A) d) r' h'"
    using r'(1) by (simp_all add: goes_leads)
  ultimately show ?thesis using leads_trans at_stays [OF at v(1,2) r'(1)] by blast
qed

section \<open>Assignments and expressions\<close>

lemma store_gives:
  assumes "builder_inv b" "operand_value A r y = Some (VPointer (type_of v) a)" "operand_value A r x = Some v"
    and "write_cell a v h = Some h'"
  shows "gives A b r h (True, irBuilderEmitStore y x b) (\<lambda>r k. k) h'"
proof -
  let ?i = "instr None (IR_INSTR_STORE y x)"
  have "runs A (?i # is) r h q g" if "runs A is r h' q g" for "is" q g
    by (rule run_store [of ?i y x]) (use assms that in \<open>simp_all add: instr_def stored_def\<close>)
  then show ?thesis
    using goes_append [OF assms(1), of A ?i r h' r h] by (auto simp: gives_def irBuilderEmitStore_def)
qed

lemma set_gives:
  assumes at: "at A call \<rho> b r" and y: "op_ok b y" "points_to y u" "operand_value A r y = Some (VPointer (type_of v) a)"
    and e: "repeatable e" "eval call \<rho> e h = Some (v, h1)" "write_cell a v h1 = Some h'"
  shows "gives A b r h (let (k, b) = irBuilderLowerValueForExpectedType e t b
      in case vvalue k of None \<Rightarrow> (False, b) | Some x \<Rightarrow> (True, irBuilderEmitStore y x b)) (\<lambda>r k. k) h'"
proof (rule gives_bind [OF at value_for_reaches expected_gives [OF every_expression_simulated at e(1,2)]])
  fix k c assume "value_ok c k" "stays b c"
  then show "reaches c (case vvalue k of None \<Rightarrow> (False, c) | Some x \<Rightarrow> (True, irBuilderEmitStore y x c)) (\<lambda>c x. True)"
    by (intro reaches_option store_reaches [OF stays_op [OF y(1)] y(2) value_of]) simp_all
next
  fix k c r1 assume c: "at A call \<rho> c r1" "holds_value A r1 k v" "agree (slots b) r r1"
  obtain x where x: "vvalue k = Some x" "operand_value A r1 x = Some v" using c(2) by (auto simp: holds_value_def)
  have "operand_value A r1 y = Some (VPointer (type_of v) a)" using operand_kept [OF at_inv [OF at] y(1) c(3)] y(3) by metis
  then show "gives A c r1 h1 (case vvalue k of None \<Rightarrow> (False, c) | Some x \<Rightarrow> (True, irBuilderEmitStore y x c)) (\<lambda>r k. k) h'"
    unfolding x(1) option.case by (rule store_gives [OF at_inv [OF c(1)] _ x(2) e(3)])
qed

text \<open>A compound assignment lowers its target twice.\<close>

lemma emit_binary_gives:
  assumes "builder_inv b" "operand_value A r x = Some v" "operand_value A r y = Some w"
    and "binary_value op v w = Some u" "binary_instr op = k" "ir_ty t = Some (type_of u)"
  shows "gives_value A b r h (irBuilderEmitBinary k x y (Some t) b) u h"
proof -
  have "ir_binary k v w = Some u" using binary_refines [OF assms(4)] by (simp only: assms(5))
  then have "computed A t (IR_INSTR_BINARY k x y) r h = Some (u, h)" by (simp add: computed_def assms(2,3))
  from emit_gives [OF assms(1) this refl assms(6)] show ?thesis by (simp add: irBuilderEmitBinary_def)
qed

lemma store_again_gives:
  assumes at: "at A call \<rho> b r" and z: "op_ok b z" "operand_value A r z = Some u"
    and p: "repeatable target" "eval_place call \<rho> target h = Some ((a, type_of u), h)" "write_cell a u h = Some h'"
  shows "gives A b r h (let (again, b) = irBuilderLowerLValue target b
       in case vaddress again of None \<Rightarrow> (False, b) | Some y \<Rightarrow> (True, irBuilderEmitStore y z b)) (\<lambda>r k. k) h'"
proof (rule gives_bind [OF at lvalue_reaches simulated_place [OF every_expression_simulated at p(1,2)]])
  fix w c assume w: "value_ok c w" "stays b c"
  have "reaches c (True, irBuilderEmitStore y z c) (\<lambda>c x. True)" if adr: "vaddress w = Some y" for y
  proof -
    obtain t where "op_ok c y" "points_to y t" using address_of [OF w(1) adr] by blast
    then show ?thesis by (rule store_reaches [OF _ _ stays_op [OF z(1) w(2)]])
  qed
  then show "reaches c (case vaddress w of None \<Rightarrow> (False, c) | Some y \<Rightarrow> (True, irBuilderEmitStore y z c)) (\<lambda>c x. True)"
    by (intro reaches_option) simp_all
next
  fix w c r1 assume c: "at A call \<rho> c r1" "holds_place A r1 w a (type_of u)" "agree (slots b) r r1"
  obtain y where y: "vaddress w = Some y" "operand_value A r1 y = Some (VPointer (type_of u) a)"
    using c(2) by (auto simp: holds_place_def)
  have "operand_value A r1 z = Some u" using operand_kept [OF at_inv [OF at] z(1) c(3)] z(2) by metis
  then show "gives A c r1 h (case vaddress w of None \<Rightarrow> (False, c) | Some y \<Rightarrow> (True, irBuilderEmitStore y z c)) (\<lambda>r k. k) h'"
    unfolding y(1) option.case by (rule store_gives [OF at_inv [OF c(1)] y(2) _ p(3)])
qed

lemma combine_gives:
  assumes at: "at A call \<rho> b r" and x: "op_ok b x" "operand_value A r x = Some v" and y: "op_ok b y" "operand_value A r y = Some w"
    and u: "binary_value op v w = Some u" "binary_instr op = k" "ir_ty t = Some (type_of u)"
    and p: "repeatable target" "eval_place call \<rho> target h = Some ((a, type_of u), h)" "write_cell a u h = Some h'"
  shows "gives A b r h (let (s, b) = irBuilderEmitBinary k x y (Some t) b
       in case vvalue s of None \<Rightarrow> (False, b)
          | Some z \<Rightarrow> (let (again, b) = irBuilderLowerLValue target b
               in case vaddress again of None \<Rightarrow> (False, b) | Some a \<Rightarrow> (True, irBuilderEmitStore a z b))) (\<lambda>r k. k) h'"
proof (rule gives_bind [OF at binary_reaches [OF at_inv [OF at] x(1) y(1)] emit_binary_gives [OF at_inv [OF at] x(2) y(2) u]])
  fix s c assume "value_ok c s"
  then show "reaches c (case vvalue s of None \<Rightarrow> (False, c)
          | Some z \<Rightarrow> (let (again, b) = irBuilderLowerLValue target c
               in case vaddress again of None \<Rightarrow> (False, b) | Some a \<Rightarrow> (True, irBuilderEmitStore a z b))) (\<lambda>c x. True)"
    by (intro reaches_option store_again_reaches value_of) simp_all
next
  fix s c r1 assume c: "at A call \<rho> c r1" "value_ok c s" "holds_value A r1 s u"
  obtain z where z: "vvalue s = Some z" "operand_value A r1 z = Some u" using c(3) by (auto simp: holds_value_def)
  show "gives A c r1 h (case vvalue s of None \<Rightarrow> (False, c)
          | Some z \<Rightarrow> (let (again, b) = irBuilderLowerLValue target c
               in case vaddress again of None \<Rightarrow> (False, b) | Some a \<Rightarrow> (True, irBuilderEmitStore a z b))) (\<lambda>r k. k) h'"
    unfolding z(1) option.case by (rule store_again_gives [OF c(1) value_of [OF c(2) z(1)] z(2) p])
qed

lemma gives_also: "gives A b r h p P h' \<Longrightarrow> Q (fst p) \<Longrightarrow> gives A b r h p (\<lambda>r x. P r x \<and> Q x) h'"
  by (auto simp: gives_def)

lemma emit_load_gives:
  assumes "builder_inv b" "operand_value A r y = Some (VPointer t a)" "ir_ty u = Some t" "read_cell t a h = Some v"
  shows "gives A b r h (irBuilderEmitLoad y (Some u) b) (\<lambda>r x. holds_value A r x v \<and> vtype x = Some u) h"
proof (rule gives_also)
  have "computed A u (IR_INSTR_LOAD y) r h = Some (v, h)" using assms by (simp add: computed_def)
  from emit_gives [OF assms(1) this read_cell_type [OF assms(4)] assms(3)]
  show "gives_value A b r h (irBuilderEmitLoad y (Some u) b) v h" by (simp add: irBuilderEmitLoad_def)
  show "vtype (fst (irBuilderEmitLoad y (Some u) b)) = Some u"
    by (simp add: irBuilderEmitLoad_def a_value_def split: prod.split)
qed

lemma change_gives:
  assumes at: "at A call \<rho> b r" and x: "op_ok b x" "operand_value A r x = Some v" "ir_ty t = Some (type_of v)"
    and e: "repeatable e" "eval call \<rho> e h = Some (w, h)"
    and u: "binary_value op v w = Some u" "binary_instr op = k" "type_of u = type_of v"
    and p: "repeatable target" "eval_place call \<rho> target h = Some ((a, type_of v), h)" "write_cell a u h = Some h'"
  shows "gives A b r h (let (m, b) = irBuilderLowerRValue e b
      in case (Some x, vvalue m) of
           (Some y, Some x) \<Rightarrow>
             (let (s, b) = irBuilderEmitBinary k y x (Some t) b
              in case vvalue s of
                   None \<Rightarrow> (False, b)
                 | Some z \<Rightarrow>
                     (let (again, b) = irBuilderLowerLValue target b
                      in case vaddress again of None \<Rightarrow> (False, b) | Some a \<Rightarrow> (True, irBuilderEmitStore a z b)))
         | _ \<Rightarrow> (False, b)) (\<lambda>r k. k) h'"
  unfolding prod.case option.case
proof (rule gives_bind [OF at rvalue_reaches simulated_value [OF every_expression_simulated at e]])
  fix m c assume m: "builder_inv c" "value_ok c m" "stays b c"
  show "reaches c (case vvalue m of None \<Rightarrow> (False, c) | Some z \<Rightarrow>
             (let (s, b) = irBuilderEmitBinary k x z (Some t) c
              in case vvalue s of
                   None \<Rightarrow> (False, b)
                 | Some z \<Rightarrow>
                     (let (again, b) = irBuilderLowerLValue target b
                      in case vaddress again of None \<Rightarrow> (False, b) | Some a \<Rightarrow> (True, irBuilderEmitStore a z b)))) (\<lambda>c x. True)"
    by (intro reaches_option combine_reaches [OF m(1) stays_op [OF x(1) m(3)] value_of [OF m(2)]]) simp_all
next
  fix m c r1 assume c: "at A call \<rho> c r1" "value_ok c m" "holds_value A r1 m w" "stays b c" "agree (slots b) r r1"
  obtain z where z: "vvalue m = Some z" "operand_value A r1 z = Some w" using c(3) by (auto simp: holds_value_def)
  have "operand_value A r1 x = Some v" using operand_kept [OF at_inv [OF at] x(1) c(5)] x(2) by metis
  then show "gives A c r1 h (case vvalue m of None \<Rightarrow> (False, c) | Some z \<Rightarrow>
             (let (s, b) = irBuilderEmitBinary k x z (Some t) c
              in case vvalue s of
                   None \<Rightarrow> (False, b)
                 | Some z \<Rightarrow>
                     (let (again, b) = irBuilderLowerLValue target b
                      in case vaddress again of None \<Rightarrow> (False, b) | Some a \<Rightarrow> (True, irBuilderEmitStore a z b)))) (\<lambda>r k. k) h'"
    unfolding z(1) option.case
    by (rule combine_gives [OF c(1) stays_op [OF x(1) c(4)] _ value_of [OF c(2) z(1)] z(2) u(1,2) _ p(1)])
      (use x(3) u(3) p(2,3) in simp_all)
qed

lemma compound_gives:
  assumes at: "at A call \<rho> b r" and y: "op_ok b y" "points_to y t" "operand_value A r y = Some (VPointer (type_of v) a)"
    and t: "ir_ty t = Some (type_of v)" and v: "read_cell (type_of v) a h = Some v"
    and e: "repeatable e" "eval call \<rho> e h = Some (w, h)"
    and u: "binary_value op v w = Some u" "binary_instr op = k" "type_of u = type_of v"
    and p: "repeatable target" "eval_place call \<rho> target h = Some ((a, type_of v), h)" "write_cell a u h = Some h'"
  shows "gives A b r h (let (cur, b) = irBuilderEmitLoad y (Some t) b; (m, b) = irBuilderLowerRValue e b
      in case (vvalue cur, vvalue m) of
           (Some y, Some x) \<Rightarrow>
             (let (s, b) = irBuilderEmitBinary k y x (vtype cur) b
              in case vvalue s of
                   None \<Rightarrow> (False, b)
                 | Some z \<Rightarrow>
                     (let (again, b) = irBuilderLowerLValue target b
                      in case vaddress again of None \<Rightarrow> (False, b) | Some a \<Rightarrow> (True, irBuilderEmitStore a z b)))
         | _ \<Rightarrow> (False, b)) (\<lambda>r k. k) h'"
proof (rule gives_bind [OF at load_reaches [OF at_inv [OF at] y(1,2)] emit_load_gives [OF at_inv [OF at] y(3) t v]])
  fix cur c assume c: "builder_inv c" "value_ok c cur" "stays b c"
  show "reaches c (let (m, b) = irBuilderLowerRValue e c
      in case (vvalue cur, vvalue m) of
           (Some y, Some x) \<Rightarrow>
             (let (s, b) = irBuilderEmitBinary k y x (vtype cur) b
              in case vvalue s of
                   None \<Rightarrow> (False, b)
                 | Some z \<Rightarrow>
                     (let (again, b) = irBuilderLowerLValue target b
                      in case vaddress again of None \<Rightarrow> (False, b) | Some a \<Rightarrow> (True, irBuilderEmitStore a z b)))
         | _ \<Rightarrow> (False, b)) (\<lambda>c x. True)"
    unfolding prod.case
  proof (intro reaches_bind [OF rvalue_reaches] reaches_option combine_reaches)
    fix d m x z assume *: "stays c d" "value_ok d m" "vvalue cur = Some x" "vvalue m = Some z"
    show "op_ok d x" by (rule stays_op [OF value_of [OF c(2) *(3)] *(1)])
    show "op_ok d z" by (rule value_of [OF *(2,4)])
  qed simp_all
next
  fix cur c r1 assume c: "at A call \<rho> c r1" "value_ok c cur" "holds_value A r1 cur v \<and> vtype cur = Some t"
  then obtain x where x: "vvalue cur = Some x" "operand_value A r1 x = Some v" "vtype cur = Some t"
    by (auto simp: holds_value_def)
  show "gives A c r1 h (let (m, b) = irBuilderLowerRValue e c
      in case (vvalue cur, vvalue m) of
           (Some y, Some x) \<Rightarrow>
             (let (s, b) = irBuilderEmitBinary k y x (vtype cur) b
              in case vvalue s of
                   None \<Rightarrow> (False, b)
                 | Some z \<Rightarrow>
                     (let (again, b) = irBuilderLowerLValue target b
                      in case vaddress again of None \<Rightarrow> (False, b) | Some a \<Rightarrow> (True, irBuilderEmitStore a z b)))
         | _ \<Rightarrow> (False, b)) (\<lambda>r k. k) h'"
    unfolding x(1,3) by (rule change_gives [OF c(1) value_of [OF c(2) x(1)] x(2) t e u p])
qed

lemma place_calm:
  assumes "repeatable target" "eval_place call \<rho> target h = Some (p, h')"
  shows "h' = h"
  using assms calm_keeps [of _ call \<rho> h _ h']
  by (cases target) (auto simp: eval_place.simps split: if_splits option.splits val.splits)

lemma assign_gives:
  assumes at: "at A call \<rho> b r" and c: "clean V (AST_ASSIGN l op target e)"
    and ev: "assign call \<rho> op target e h = Some h'"
  shows "gives A b r h (irBuilderLowerAssign op target e b) (\<lambda>r k. k) h'"
proof -
  have rep: "repeatable target" "repeatable e" and calm: "op \<noteq> AST_ASSIGN_SET \<Longrightarrow> calm e" using c by auto
  obtain a t h0 where "eval_place call \<rho> target h = Some ((a, t), h0)" using ev by (auto simp: assign_def split: option.splits)
  moreover from this have "h0 = h" by (rule place_calm [OF rep(1)])
  ultimately have p: "eval_place call \<rho> target h = Some ((a, t), h)" by simp
  show ?thesis
    unfolding assign_unfold
  proof (rule gives_bind [OF at lvalue_reaches simulated_place [OF every_expression_simulated at rep(1) p] assign_to_reaches])
    fix tv c r1 assume c: "at A call \<rho> c r1" "value_ok c tv" "holds_place A r1 tv a t"
    obtain y u where y: "vaddress tv = Some y" "vtype tv = Some u" "ir_ty u = Some t" "operand_value A r1 y = Some (VPointer t a)"
      using c(3) by (auto simp: holds_place_def)
    have yo: "op_ok c y" "points_to y u" using c(2) y by (simp_all add: value_ok_def)
    show "gives A c r1 h (assign_to op target e tv c) (\<lambda>r k. k) h'"
    proof (cases "op = AST_ASSIGN_SET")
      case True
      then obtain v h1 where v: "eval call \<rho> e h = Some (v, h1)" "type_of v = t" "write_cell a v h1 = Some h'"
        using ev p by (auto simp: assign_def split: option.splits if_splits)
      show ?thesis
        using set_gives [OF c(1) yo _ rep(2) v(1,3), of u] y(4) v(2) by (simp add: assign_to_def y(1,2) True)
    next
      case False
      then obtain v w h1 x where v: "read_cell t a h = Some v" "eval call \<rho> e h = Some (w, h1)"
        "binary_value (if op = AST_ASSIGN_ADD then AST_BINARY_ADD else AST_BINARY_SUB) v w = Some x" "type_of x = t"
        "write_cell a x h1 = Some h'"
        using ev p by (auto simp: assign_def split: option.splits if_splits)
      have "h1 = h" using calm_keeps [OF calm [OF False]] v(2) by blast
      moreover have "type_of v = t" by (rule read_cell_type [OF v(1)])
      moreover have "binary_instr (if op = AST_ASSIGN_ADD then AST_BINARY_ADD else AST_BINARY_SUB) = assign_instr op"
        by (simp add: assign_instr_def)
      ultimately show ?thesis
        using compound_gives [OF c(1) yo _ _ _ rep(2) _ v(3) _ _ rep(1)] y(3,4) v p by (simp add: assign_to_def y(1,2) False)
    qed
  qed
qed

section \<open>What is shown of a statement\<close>

definition arrives ::
  "activation \<Rightarrow> caller \<Rightarrow> IRBuilder \<Rightarrow> regs \<Rightarrow> heap \<Rightarrow> IRBuilder \<Rightarrow> flow \<Rightarrow> env \<Rightarrow> heap \<Rightarrow> bool" where
  "arrives A call b r h c q \<rho> h' \<longleftrightarrow> (\<exists>r'. agree (slots b) r r' \<and> (q = Next \<longrightarrow> \<not> closed c \<and> at A call \<rho> c r')
     \<and> flows A (rest_of (afun A) b) r h (irBuilderCurrentLoopTarget b) (rest_of (afun A) c) q r' h')"

lemma arrives_goes:
  "goes A b r h c r' h' \<Longrightarrow> at A call \<rho> c r' \<Longrightarrow> \<not> closed c \<Longrightarrow> arrives A call b r h c Next \<rho> h'"
  unfolding arrives_def goes_leads by (rule exI [of _ r']) simp

lemma arrives_gives:
  assumes at: "at A call \<rho> b r" and n: "\<not> closed b" and p: "reaches b (k, c) I" "gives A b r h (k, c) P h'"
    and emb: "embedded (afun A) c"
  shows "arrives A call b r h c Next \<rho> h'"
proof -
  have c: "stays b c" "builder_inv c" using p(1) at_inv [OF at] by (simp_all add: reaches_def)
  obtain r' where r': "goes A b r h c r' h'" using p(2) emb by (auto simp: gives_def)
  show ?thesis
    by (rule arrives_goes [OF r' at_stays [OF at c r']]) (use c(1) n in \<open>simp add: stays_def\<close>)
qed

section \<open>Declarations\<close>

lemma slot_goes:
  assumes inv: "builder_inv b" and slot: "stack_slot x u b = Some (k, d)" and emb: "embedded (afun A) d" and u: "ir_ty u = Some c"
  shows "goes A b r h d (r(k := Some (VPointer c (length h)))) (h @ [(c, None)])"
proof (rule slot_parts [OF inv slot])
  fix sc assume k: "k = slots b"
    and d: "d = (irBuilderAppendInstruction (instr (Some (k, IR_TYPE_POINTER u)) (IR_INSTR_ALLOCA u))
        (b\<lparr>current_fun := (current_fun b)\<lparr>next_local_id := Suc k\<rparr>\<rparr>))\<lparr>current_scope := sc\<rparr>"
  let ?e = "irBuilderAppendInstruction (instr (Some (k, IR_TYPE_POINTER u)) (IR_INSTR_ALLOCA u))
        (b\<lparr>current_fun := (current_fun b)\<lparr>next_local_id := Suc k\<rparr>\<rparr>)"
  have e: "emit_result (IR_TYPE_POINTER u) (IR_INSTR_ALLOCA u) b = (k, ?e)" by (simp add: emit_result_parts k)
  have "embedded (afun A) ?e" using emb by (simp add: d embedded_def)
  moreover have "computed A (IR_TYPE_POINTER u) (IR_INSTR_ALLOCA u) r h = Some (VPointer c (length h), h @ [(c, None)])"
    by (simp add: computed_def u allocate_def)
  ultimately have "goes A b r h ?e (r(k := Some (VPointer c (length h)))) (h @ [(c, None)])"
    by (rule emit_result_goes(1) [OF inv e])
  then show ?thesis by (simp add: d goes_def rest_of_def)
qed

lemma slot_at:
  assumes at: "at A call \<rho> b r" and slot: "stack_slot x u b = Some (k, d)" and u: "ir_ty u = Some c"
    and r': "agree (slots b) r r'" "r' k = Some (VPointer c a)"
  shows "at A call (\<rho>(x := Some (a, c))) d r'"
proof (rule slot_parts [OF at_inv [OF at] slot])
  fix sc assume k: "k = slots b" and sc: "current_scope d = sc" and f: "follows b d"
    and l: "\<And>y. irScopeLookup sc y = (if y = x then Some (irSymbolCreateLocal x (IR_TYPE_POINTER u) k) else irScopeLookup (current_scope b) y)"
    and d: "d = (irBuilderAppendInstruction (instr (Some (k, IR_TYPE_POINTER u)) (IR_INSTR_ALLOCA u))
        (b\<lparr>current_fun := (current_fun b)\<lparr>next_local_id := Suc k\<rparr>\<rparr>))\<lparr>current_scope := sc\<rparr>"
  have n: "slots d = Suc k" by (simp add: d k irBuilderAppendInstruction_def)
  have e: "env_ok A (slots d) (current_scope b) r' \<rho>"
    using env_ok_mono [OF _ r'(1) follows_slots [OF f]] at by (simp add: at_def)
  have "symbol_ok A (slots d) r' (irSymbolCreateLocal x (IR_TYPE_POINTER u) k) a c"
    using r'(2) u by (simp add: symbol_ok_def irSymbolCreateLocal_def n)
  then have "env_ok A (slots d) sc r' (\<rho>(x := Some (a, c)))"
    using e unfolding env_ok_def by (auto simp: l)
  then show ?thesis using at f by (simp add: at_def follows_def sc)
qed

lemma declaration_arrives:
  assumes at: "at A call \<rho> b r" and V: "clean V (AST_VAR_DECL l x t i)" "dom \<rho> \<subseteq> V" and n: "\<not> closed b"
    and low: "irBuilderLowerVarDecl x t i b = (True, d)" and emb: "embedded (afun A) d"
    and ev: "declare_variable call \<rho> x t i h = Some (\<rho>', h')"
  shows "arrives A call b r h d Next \<rho>' h'"
proof -
  obtain c where c: "node_ty t = Some c" using V(1) by auto
  then obtain u where u: "ir_ty u = Some c" "irBuilderLowerVarDecl x t i b = scalar_decl x u i b" using var_decl_scalar by blast
  obtain k e where slot: "stack_slot x u b = Some (k, e)"
    using low unfolding u scalar_decl_def by (cases "stack_slot x u b") auto
  let ?r = "r(k := Some (VPointer c (length h)))" and ?h = "h @ [(c, None)]"
  have \<rho>': "\<rho>' = \<rho>(x := Some (length h, c))"
    using ev c by (auto simp: declare_variable_def allocate_def Let_def split: if_splits option.splits)
  have k: "agree (slots b) r ?r" using slot_parts [OF at_inv [OF at] slot] agree_new by (metis order_refl)
  have ne: "\<not> closed e" "follows b e" using slot_parts [OF at_inv [OF at] slot] by metis+
  have at': "at A call \<rho>' e ?r" unfolding \<rho>' by (rule slot_at [OF at slot u(1) k]) simp
  note slot' = stack_slot_ready [OF at_inv [OF at] slot]
  show ?thesis
  proof (cases "i = AST_NULL")
    case True
    then have "d = e" "h' = ?h" using low [unfolded u(2)] slot ev c by (auto simp: scalar_decl_def declare_variable_def allocate_def Let_def)
    then show ?thesis using arrives_goes [OF slot_goes [OF at_inv [OF at] slot _ u(1)] _ ne(1)] emb at' by simp
  next
    case False
    then obtain v h1 where v: "eval call \<rho> i ?h = Some (v, h1)" "type_of v = c" "write_cell (length h) v h1 = Some h'"
      using ev c by (auto simp: declare_variable_def allocate_def Let_def split: option.splits if_splits)
    let ?y = "irOperandCreateLocal (IR_TYPE_POINTER u) k"
    have y: "op_ok e ?y" "points_to ?y u" "operand_value A ?r ?y = Some (VPointer (type_of v) (length h))"
      using slot'(2) v(2) by (simp_all add: irTypeCreatePointer_def points_to_def operand_value_def irOperandCreateLocal_def)
    have "x \<notin> V" "repeatable i" using V(1) by simp_all
    then have "keeps V b e" by (metis slot_parts [OF at_inv [OF at] slot] keeps_def)
    then have "at A call \<rho> e ?r" by (rule at_move [OF at ne(2) _ V(2) k])
    note g = set_gives [OF this y \<open>repeatable i\<close> v(1,3), of u]
    note s = set_reaches [OF y(1,2), of i u]
    have d: "(let (k, b) = irBuilderLowerValueForExpectedType i u e
        in case vvalue k of None \<Rightarrow> (False, b) | Some x \<Rightarrow> (True, irBuilderEmitStore ?y x b)) = (True, d)"
      using low [unfolded u(2)] slot False by (simp add: scalar_decl_def)
    have st: "stays e d" "builder_inv d" using s [unfolded d] follows_inv [OF ne(2)] by (simp_all add: reaches_def)
    obtain r' where r': "goes A e ?r ?h d r' h'" using g [unfolded d] emb by (auto simp: gives_def)
    have "embedded (afun A) e" using embedded_follows [OF emb follows_stays [OF st(2,1)]] .
    then have "goes A b r h e ?r ?h" by (rule slot_goes [OF at_inv [OF at] slot _ u(1)])
    then have "goes A b r h d r' h'" by (rule goes_trans [OF _ r']) (use slot'(1) in \<open>simp add: ready_def\<close>)
    then show ?thesis
      by (rule arrives_goes [OF _ at_stays [OF at' st r']]) (use st(1) ne(1) in \<open>simp add: stays_def\<close>)
  qed
qed

section \<open>Expressions as statements, jumps, returns\<close>

lemma effect_gives:
  assumes at: "at A call \<rho> b r" and e: "repeatable e" "eval_effect call \<rho> e h = Some h'"
  shows "gives A b r h (irBuilderLowerRValue e b) (\<lambda>r x. True) h'"
proof (cases "\<exists>l m f es. e = AST_CALL l (AST_IDENTIFIER m f) es")
  case True
  then obtain l m f es where c: "e = AST_CALL l (AST_IDENTIFIER m f) es" by blast
  then obtain vs h1 q where v: "eval_args call \<rho> es h = Some (vs, h1)" "call f vs h1 = Some (q, h')"
    using e(2) by (auto simp: eval_effect_def split: option.splits)
  have "gives A b r h (irBuilderLowerRValue e b) (\<lambda>r x. returned A r x q) h'"
    unfolding c by (rule call_gives [OF _ _ at v]) (use e(1) c in \<open>simp_all add: every_expression_simulated\<close>)
  then show ?thesis by (rule gives_mono) simp
next
  case False
  then have "eval_effect call \<rho> e h = map_option snd (eval call \<rho> e h)"
    by (auto simp: eval_effect_def split: ast.splits)
  then obtain v where "eval call \<rho> e h = Some (v, h')" using e(2) by (cases "eval call \<rho> e h") auto
  from simulated_value [OF every_expression_simulated at e(1) this] show ?thesis by (rule gives_mono) simp
qed

lemma effect_arrives:
  assumes at: "at A call \<rho> b r" and n: "\<not> closed b" and e: "repeatable e" "eval_effect call \<rho> e h = Some h'"
    and emb: "embedded (afun A) (snd (irBuilderLowerRValue e b))"
  shows "arrives A call b r h (snd (irBuilderLowerRValue e b)) Next \<rho> h'"
  using arrives_gives [OF at n, of "fst (irBuilderLowerRValue e b)" "snd (irBuilderLowerRValue e b)"]
    rvalue_reaches [of b e] effect_gives [OF at e] emb by simp

lemma append_away:
  assumes at: "at A call \<rho> b r" and emb: "embedded (afun A) (irBuilderAppendInstruction i b)" and q: "q \<noteq> Next"
    and f: "\<And>is. flows A (i # is) r h (irBuilderCurrentLoopTarget b) [] q r h"
  shows "arrives A call b r h (irBuilderAppendInstruction i b) q \<rho>' h"
proof -
  have "flows A (rest_of (afun A) b) r h (irBuilderCurrentLoopTarget b) [] q r h"
    unfolding rest_of_append [OF at_inv [OF at] emb] by (rule f)
  then show ?thesis unfolding arrives_def using flows_away [OF _ q] q by (intro exI [of _ r]) simp
qed

lemma jump_arrives:
  assumes at: "at A call \<rho> b r" and emb: "embedded (afun A) c"
  shows "irBuilderLowerBreakStatement b = (True, c) \<Longrightarrow> arrives A call b r h c Broke \<rho>' h"
    and "irBuilderLowerContinueStatement b = (True, c) \<Longrightarrow> arrives A call b r h c Continued \<rho>' h"
proof -
  have jump: "leads A (instr None (IR_INSTR_BR k) # is) r h (block_code (afun A) k) r h" for k "is"
  proof -
    have "runs A (instr None (IR_INSTR_BR k) # is) r h q g" if "runs A (block_code (afun A) k) r h q g" for q g
      by (rule run_branch [of _ k]) (use that in \<open>simp_all add: instr_def\<close>)
    then show ?thesis by (simp add: leads_def)
  qed
  show "arrives A call b r h c Broke \<rho>' h" if low: "irBuilderLowerBreakStatement b = (True, c)"
  proof -
    obtain k l where t: "irBuilderCurrentLoopTarget b = Some (k, l)" "c = irBuilderAppendInstruction (instr None (IR_INSTR_BR k)) b"
      using low by (auto simp: irBuilderLowerBreakStatement_def irBuilderEmitBranch_def split: option.splits)
    show ?thesis unfolding t(2) by (rule append_away [OF at emb [unfolded t(2)]]) (simp_all add: t(1) jump)
  qed
  show "arrives A call b r h c Continued \<rho>' h" if low: "irBuilderLowerContinueStatement b = (True, c)"
  proof -
    obtain k l where t: "irBuilderCurrentLoopTarget b = Some (k, l)" "c = irBuilderAppendInstruction (instr None (IR_INSTR_BR l)) b"
      using low by (auto simp: irBuilderLowerContinueStatement_def irBuilderEmitBranch_def split: option.splits)
    show ?thesis unfolding t(2) by (rule append_away [OF at emb [unfolded t(2)]]) (simp_all add: t(1) jump)
  qed
qed

lemma arrives_via:
  assumes g: "goes A b r h c r1 h1" "builder_ext b c" and a: "arrives A call c r1 h1 d q \<rho> h'"
  shows "arrives A call b r h d q \<rho> h'"
proof -
  obtain r' where r': "agree (slots c) r1 r'" "q = Next \<longrightarrow> \<not> closed d \<and> at A call \<rho> d r'"
    "flows A (rest_of (afun A) c) r1 h1 (irBuilderCurrentLoopTarget c) (rest_of (afun A) d) q r' h'"
    using a by (auto simp: arrives_def)
  have t: "irBuilderCurrentLoopTarget c = irBuilderCurrentLoopTarget b"
    using g(2) by (simp add: irBuilderCurrentLoopTarget_def builder_ext_def)
  have "agree (slots b) r r'" using agree_trans [OF _ r'(1) slots_mono [OF g(2)]] g(1) by (simp add: goes_def)
  then show ?thesis
    unfolding arrives_def using r'(2) flows_from [OF _ r'(3)] g(1) by (intro exI [of _ r']) (simp add: goes_leads t)
qed

lemma return_arrives:
  assumes at: "at A call \<rho> b r" and e: "repeatable e"
    and low: "irBuilderLowerReturn e b = (True, c)" and emb: "embedded (afun A) c"
    and ev: "if e = AST_NULL then q = None \<and> h' = h else \<exists>v. q = Some v \<and> eval call \<rho> e h = Some (v, h')"
  shows "arrives A call b r h c (Left q) \<rho>' h'"
proof (cases "e = AST_NULL")
  case True
  let ?i = "instr None (IR_INSTR_RET None)"
  have c: "c = irBuilderAppendInstruction ?i b" using low True by (simp add: irBuilderLowerReturn_def)
  have "runs A (?i # is) r h None h" if "fits (afun A) None" for "is"
    by (rule run_return [of ?i None]) (use that in \<open>simp_all add: instr_def returned_value_def fits_def\<close>)
  then show ?thesis using append_away [OF at, of ?i "Left q" h] emb ev True by (simp add: c)
next
  case False
  then obtain v where v: "q = Some v" "eval call \<rho> e h = Some (v, h')" using ev by auto
  obtain k d where d: "irBuilderLowerRValue e b = (k, d)" by (cases "irBuilderLowerRValue e b")
  then obtain x where x: "vvalue k = Some x" and c: "c = irBuilderAppendInstruction (instr None (IR_INSTR_RET (Some x))) d"
    using low False by (auto simp: irBuilderLowerReturn_def split: option.splits)
  have st: "stays b d" "builder_inv d" using value_stays [OF at_inv [OF at] d] by simp_all
  have "embedded (afun A) d" using embedded_append emb by (simp add: c)
  then obtain r' where r': "goes A b r h d r' h'" "holds_value A r' k v"
    using simulated_value [OF every_expression_simulated at e v(2)] by (auto simp: gives_def d)
  have x': "operand_value A r' x = Some v" using r'(2) x by (auto simp: holds_value_def)
  let ?i = "instr None (IR_INSTR_RET (Some x))"
  have "runs A (?i # is) r' h' q h'" if "fits (afun A) q" for "is"
    by (rule run_return [of ?i "Some x"]) (use that x' v(1) in \<open>simp_all add: instr_def returned_value_def fits_def\<close>)
  then have "arrives A call d r' h' c (Left q) \<rho>' h'"
    unfolding c by (intro append_away [OF at_stays [OF at st r'(1)]]) (use emb c in simp_all)
  from arrives_via [OF r'(1) _ this] st(1) show ?thesis by (simp add: stays_def)
qed

section \<open>Sequences\<close>

lemma arrives_here: "at A call \<rho> b r \<Longrightarrow> \<not> closed b \<Longrightarrow> arrives A call b r h b Next \<rho> h"
  by (rule arrives_goes [OF goes_refl])

lemma arrives_elsewhere: "arrives A call b r h c q \<rho> h' \<Longrightarrow> q \<noteq> Next \<Longrightarrow> arrives A call b r h d q \<rho>' h'"
  unfolding arrives_def using flows_away by blast

lemma arrives_nextE:
  assumes "arrives A call b r h c Next \<rho> h'"
  obtains r' where "goes A b r h c r' h'" "at A call \<rho> c r'" "\<not> closed c"
  using assms by (auto simp: arrives_def goes_leads)

lemma arrives_bind:
  assumes "arrives A call b r h c Next \<rho> h1" "builder_ext b c"
    and "\<And>r1. at A call \<rho> c r1 \<Longrightarrow> \<not> closed c \<Longrightarrow> arrives A call c r1 h1 d q \<rho>' h'"
  shows "arrives A call b r h d q \<rho>' h'"
  using assms(1) by (rule arrives_nextE) (rule arrives_via [OF _ assms(2,3)])

text \<open>Variables that go out of scope.\<close>

lemma arrives_back:
  assumes "arrives A call b r h c q \<rho>' h'" "at A call \<rho> b r" "follows b c" "keeps V b c" "dom \<rho> \<subseteq> V"
  shows "arrives A call b r h c q \<rho> h'"
  using assms(1) at_move [OF assms(2-5)] unfolding arrives_def by blast

definition statement_ok :: "nat \<Rightarrow> bool" where
  "statement_ok n \<longleftrightarrow> (\<forall>A call \<rho> V s b c r h q \<rho>' h'. at A call \<rho> b r \<longrightarrow> clean V s \<longrightarrow> dom \<rho> \<subseteq> V \<longrightarrow> \<not> closed b \<longrightarrow>
     irBuilderLowerStatement s b = (True, c) \<longrightarrow> embedded (afun A) c \<longrightarrow> exec call n \<rho> s h = Some (q, \<rho>', h') \<longrightarrow>
     arrives A call b r h c q \<rho>' h')"

definition items_ok :: "nat \<Rightarrow> bool" where
  "items_ok n \<longleftrightarrow> (\<forall>A call \<rho> V ss b c r h q \<rho>' h'. at A call \<rho> b r \<longrightarrow> clean_items V ss \<longrightarrow> dom \<rho> \<subseteq> V \<longrightarrow> \<not> closed b \<longrightarrow>
     lower_items ss b = (True, c) \<longrightarrow> embedded (afun A) c \<longrightarrow> exec_items call n \<rho> ss h = Some (q, \<rho>', h') \<longrightarrow>
     arrives A call b r h c q \<rho>' h')"

definition body_ok :: "nat \<Rightarrow> bool" where
  "body_ok n \<longleftrightarrow> (\<forall>A call \<rho> V s b c r h q h'. at A call \<rho> b r \<longrightarrow> clean V s \<longrightarrow> dom \<rho> \<subseteq> V \<longrightarrow> \<not> closed b \<longrightarrow>
     irBuilderLowerIfBranch s b = (True, c) \<longrightarrow> embedded (afun A) c \<longrightarrow> exec_body call n \<rho> s h = Some (q, h') \<longrightarrow>
     arrives A call b r h c q \<rho> h')"

definition header_ok :: "nat \<Rightarrow> bool" where
  "header_ok n \<longleftrightarrow> (\<forall>A call \<rho> V s b c r h \<rho>' h'. at A call \<rho> b r \<longrightarrow> clean V s \<longrightarrow> dom \<rho> \<subseteq> V \<longrightarrow> \<not> closed b \<longrightarrow>
     irBuilderLowerLooseNode s b = (True, c) \<longrightarrow> embedded (afun A) c \<longrightarrow> exec_header call n \<rho> s h = Some (\<rho>', h') \<longrightarrow>
     arrives A call b r h c Next \<rho>' h')"

lemma declare_dom: "declare_variable call \<rho> x t i h = Some (\<rho>', h') \<Longrightarrow> dom \<rho>' \<subseteq> insert x (dom \<rho>)"
  by (auto simp: declare_variable_def Let_def split: option.splits prod.splits if_splits)

lemma exec_dom: "exec call n \<rho> s h = Some (q, \<rho>', h') \<Longrightarrow> dom \<rho>' \<subseteq> dom \<rho> \<union> declared s"
proof (cases n)
  case (Suc m)
  assume "exec call n \<rho> s h = Some (q, \<rho>', h')"
  then show ?thesis
    by (cases s) (auto simp: Suc split: option.splits if_splits dest: declare_dom)
qed simp

lemma statement_ext: "builder_inv b \<Longrightarrow> irBuilderLowerStatement s b = (True, c) \<Longrightarrow> builder_ext b c"
  using every_statement_lowers [of s] by (simp add: lowers_well_def steps_def ready_def) (metis fst_conv snd_conv)

lemma items_run:
  assumes s: "statement_ok n" and i: "items_ok n"
  shows "items_ok (Suc n)"
  unfolding items_ok_def
proof (intro allI impI)
  fix A call \<rho> V ss b c r h q \<rho>' h'
  assume at: "at A call \<rho> b r" and V: "clean_items V ss" "dom \<rho> \<subseteq> V" and n: "\<not> closed b"
    and low: "lower_items ss b = (True, c)" and emb: "embedded (afun A) c"
    and ev: "exec_items call (Suc n) \<rho> ss h = Some (q, \<rho>', h')"
  show "arrives A call b r h c q \<rho>' h'"
  proof (cases ss)
    case Nil
    then show ?thesis using low ev arrives_here [OF at n] by simp
  next
    case (Cons s rest)
    obtain d where d: "irBuilderLowerStatement s b = (True, d)" "lower_items rest d = (True, c)"
      using low Cons by (auto split: prod.splits if_splits)
    obtain q1 \<rho>1 h1 where 1: "exec call n \<rho> s h = Some (q1, \<rho>1, h1)"
      and 2: "if q1 = Next then exec_items call n \<rho>1 rest h1 = Some (q, \<rho>', h') else q = q1 \<and> \<rho>' = \<rho>1 \<and> h' = h1"
      using ev Cons by (auto split: option.splits if_splits)
    note inv = at_inv [OF at]
    have ext: "builder_ext b d" by (rule statement_ext [OF inv d(1)])
    have fd: "follows d c" by (rule items_follow [OF follows_inv [OF statement_follows [OF inv d(1)]] d(2)])
    have "clean V s" using V(1) Cons by simp
    then have a: "arrives A call b r h d q1 \<rho>1 h1"
      using s at V(2) n d(1) embedded_follows [OF emb fd] 1 unfolding statement_ok_def by blast
    show ?thesis
    proof (cases "q1 = Next")
      case True
      have V': "clean_items (V \<union> declared s) rest" "dom \<rho>1 \<subseteq> V \<union> declared s" using V Cons exec_dom [OF 1] by (simp_all, blast)
      have ev': "exec_items call n \<rho>1 rest h1 = Some (q, \<rho>', h')" using 2 True by simp
      show ?thesis
        by (rule arrives_bind [OF a [unfolded True] ext]) (use i V' d(2) emb ev' in \<open>unfold items_ok_def, blast\<close>)
    next
      case False
      then show ?thesis using arrives_elsewhere [OF a] 2 by simp
    qed
  qed
qed

lemma block_as_items:
  "statements_of s = Some ss \<Longrightarrow> irBuilderLowerIfBranch s b = lower_items ss b \<and> (clean V s \<longleftrightarrow> clean_items V ss)"
  by (cases s) (auto simp: irBuilderLowerIfBranch.simps irBuilderLowerBlockNode.simps block_items_def)

lemma other_as_statement: "statements_of s = None \<Longrightarrow> irBuilderLowerIfBranch s b = irBuilderLowerStatement s b"
  by (cases s) (simp_all add: irBuilderLowerIfBranch.simps)

lemma body_run:
  assumes s: "statement_ok n" and i: "items_ok n"
  shows "body_ok (Suc n)"
  unfolding body_ok_def
proof (intro allI impI)
  fix A call \<rho> V s b c r h q h'
  assume at: "at A call \<rho> b r" and V: "clean V s" "dom \<rho> \<subseteq> V" and n: "\<not> closed b"
    and low: "irBuilderLowerIfBranch s b = (True, c)" and emb: "embedded (afun A) c"
    and ev: "exec_body call (Suc n) \<rho> s h = Some (q, h')"
  note inv = at_inv [OF at]
  have f: "follows b c" by (rule branch_follows [OF inv low])
  have k: "keeps V b c" using tidy_branch [OF every_statement_tidy inv V(1) low] by (simp add: orderly_def)
  show "arrives A call b r h c q \<rho> h'"
  proof (cases "statements_of s")
    case None
    then obtain \<rho>' where "exec call n \<rho> s h = Some (q, \<rho>', h')" using ev by auto
    moreover have "irBuilderLowerStatement s b = (True, c)" using low other_as_statement [OF None] by simp
    ultimately have "arrives A call b r h c q \<rho>' h'" using s at V n emb unfolding statement_ok_def by blast
    then show ?thesis by (rule arrives_back [OF _ at f k V(2)])
  next
    case (Some ss)
    note t = block_as_items [OF Some]
    obtain \<rho>' where "exec_items call n \<rho> ss h = Some (q, \<rho>', h')" using ev Some by auto
    moreover have "lower_items ss b = (True, c)" "clean_items V ss" using low t V(1) by simp_all
    ultimately have "arrives A call b r h c q \<rho>' h'" using i at V(2) n emb unfolding items_ok_def by blast
    then show ?thesis by (rule arrives_back [OF _ at f k V(2)])
  qed
qed

lemma not_header_eval:
  "is_loose_statement s \<Longrightarrow> \<not> is_header_statement s \<Longrightarrow> eval_effect call \<rho> s h = None"
  by (cases s) (simp_all add: is_loose_statement_def eval_effect_def eval.simps)

lemma header_run:
  assumes s: "statement_ok n"
  shows "header_ok (Suc n)"
  unfolding header_ok_def
proof (intro allI impI)
  fix A call \<rho> V s b c r h \<rho>' h'
  assume at: "at A call \<rho> b r" and V: "clean V s" "dom \<rho> \<subseteq> V" and n: "\<not> closed b"
    and low: "irBuilderLowerLooseNode s b = (True, c)" and emb: "embedded (afun A) c"
    and ev: "exec_header call (Suc n) \<rho> s h = Some (\<rho>', h')"
  consider "s = AST_NULL" | "is_header_statement s" | "s \<noteq> AST_NULL" "\<not> is_header_statement s" by blast
  then show "arrives A call b r h c Next \<rho>' h'"
  proof cases
    case 1
    then show ?thesis using low ev arrives_here [OF at n] by (simp add: irBuilderLowerLooseNode.simps)
  next
    case 2
    then have "s \<noteq> AST_NULL" "is_loose_statement s" by (cases s; simp add: is_loose_statement_def)+
    then have "irBuilderLowerStatement s b = (True, c)" using low by (simp add: irBuilderLowerLooseNode.simps [of s])
    moreover have "exec call n \<rho> s h = Some (Next, \<rho>', h')"
      using ev 2 \<open>s \<noteq> AST_NULL\<close> by (auto split: option.splits flow.splits)
    ultimately show ?thesis using s at V n emb unfolding statement_ok_def by blast
  next
    case 3
    then have e: "eval_effect call \<rho> s h = Some h'" "\<rho>' = \<rho>" using ev by auto
    then have l: "\<not> is_loose_statement s" using not_header_eval 3(2) by force
    then have c: "c = snd (irBuilderLowerRValue s b)" using low 3(1) by (simp add: irBuilderLowerLooseNode.simps [of s])
    have "repeatable s" using V(1) e(1) by (cases s) (simp_all add: eval_effect_def eval.simps)
    then show ?thesis unfolding e(2) c by (rule effect_arrives [OF at n _ e(1)]) (use emb c in simp)
  qed
qed

section \<open>If statements\<close>

lemma embedded_enter [simp]: "embedded f (enter_block k b) = embedded f b"
  by (simp add: embedded_def enter_block_def)

lemma at_keep: "at A call \<rho> b r \<Longrightarrow> follows b c \<Longrightarrow> current_scope c = current_scope b \<Longrightarrow> agree (slots b) r r' \<Longrightarrow> at A call \<rho> c r'"
  using at_move [of A call \<rho> b r c "dom \<rho>" r'] keeps_same by blast

text \<open>A block of its own that the code jumps to, and that goes on in block \<open>e\<close>.\<close>

lemma arm_arrives:
  assumes ok: "body_ok n" and at: "at A call \<rho> b r" and V: "clean V s" "dom \<rho> \<subseteq> V"
    and r1: "agree (slots b) r r1" "leads A (rest_of (afun A) b) r h (block_code (afun A) k) r1 h1"
    and m: "follows b m" "keeps V b m" "rest_of (afun A) m = block_code (afun A) k" "\<not> closed m"
      "irBuilderCurrentLoopTarget m = irBuilderCurrentLoopTarget b"
    and low: "irBuilderLowerIfBranch s m = (True, m2)"
    and emb: "embedded (afun A) (branch_unless_terminated (irBasicBlockCreate e) m2)"
    and f2: "follows m2 (branch_unless_terminated (irBasicBlockCreate e) m2)"
    and d: "follows b d" "keeps V b d" "rest_of (afun A) d = block_code (afun A) e" "\<not> closed d"
    and ev: "exec_body call n \<rho> s h1 = Some (q, h')"
  shows "arrives A call b r h d q \<rho> h'"
proof -
  have at1: "at A call \<rho> m r1" by (rule at_move [OF at m(1,2) V(2) r1(1)])
  have f: "follows m m2" by (rule branch_follows [OF follows_inv [OF m(1)] low])
  have "embedded (afun A) m2" by (rule embedded_follows [OF emb f2])
  then have "arrives A call m r1 h1 m2 q \<rho> h'"
    using ok at1 V m(4) low ev unfolding body_ok_def by blast
  then obtain r2 where r2: "agree (slots m) r1 r2" "q = Next \<longrightarrow> \<not> closed m2 \<and> at A call \<rho> m2 r2"
    "flows A (block_code (afun A) k) r1 h1 (irBuilderCurrentLoopTarget b) (rest_of (afun A) m2) q r2 h'"
    by (auto simp: arrives_def m(3,5))
  have a: "agree (slots b) r r2" by (rule agree_trans [OF r1(1) r2(1) follows_slots [OF m(1)]])
  have fl: "flows A (rest_of (afun A) b) r h (irBuilderCurrentLoopTarget b) (rest_of (afun A) m2) q r2 h'"
    by (rule flows_from [OF r1(2) r2(3)])
  have "flows A (rest_of (afun A) b) r h (irBuilderCurrentLoopTarget b) (rest_of (afun A) d) q r2 h'"
  proof (cases "q = Next")
    case True
    then have "leads A (rest_of (afun A) m2) r2 h' (block_code (afun A) e) r2 h'"
      using branch_unless_leads [OF follows_inv [OF f] emb] r2(2) by blast
    then show ?thesis using flows_on [OF fl] by (simp add: d(3))
  qed (rule flows_away [OF fl])
  then show ?thesis
    unfolding arrives_def using a d(4) at_move [OF at d(1,2) V(2) a] by blast
qed

lemma open_blocks_rest [simp]: "rest_of f (open_blocks m b) = rest_of f b"
  by (simp add: rest_of_def)

lemma moves_code: "moves b c \<Longrightarrow> known b k \<Longrightarrow> k \<noteq> current_block b \<Longrightarrow> block_code (current_fun c) k = block_code (current_fun b) k"
  by (simp add: moves_def)

lemma current_known: "builder_inv b \<Longrightarrow> known b (current_block b)"
  by (simp add: builder_inv_def)

lemma targets_same [simp]:
  "loop_targets (irBuilderAppendInstruction i b) = loop_targets b" "loop_targets (enter_block k b) = loop_targets b"
  "loop_targets (branch_unless_terminated e b) = loop_targets b" "loop_targets (irBuilderEmitCondBranch x j m b) = loop_targets b"
  by (simp_all add: irBuilderAppendInstruction_def enter_block_def branch_unless_terminated_def irBuilderEmitBranch_def
      irBuilderEmitCondBranch_def)

lemma scope_same [simp]:
  "current_scope (irBuilderAppendInstruction i b) = current_scope b" "current_scope (enter_block k b) = current_scope b"
  "current_scope (branch_unless_terminated e b) = current_scope b"
  "current_scope (irBuilderEmitCondBranch x j m b) = current_scope b"
  by (simp_all add: irBuilderAppendInstruction_def enter_block_def branch_unless_terminated_def irBuilderEmitBranch_def
      irBuilderEmitCondBranch_def)

lemma enter_same [simp]: "current_fun (enter_block k b) = current_fun b" "current_block (enter_block k b) = bid k"
  by (simp_all add: enter_block_def)

lemma target_ext: "items (loop_targets c) = items (loop_targets b) \<Longrightarrow> irBuilderCurrentLoopTarget c = irBuilderCurrentLoopTarget b"
  by (simp add: irBuilderCurrentLoopTarget_def)

lemma branch_targets:
  "builder_inv b \<Longrightarrow> irBuilderLowerIfBranch s b = (True, c) \<Longrightarrow> items (loop_targets c) = items (loop_targets b)"
  using if_branch_steps [OF every_statement_lowers, of b s] by (simp add: steps_def ready_def builder_ext_def)

lemma stays_targets: "stays b c \<Longrightarrow> items (loop_targets c) = items (loop_targets b)"
  by (simp add: stays_def builder_ext_def)

text \<open>A block that waits, empty, until the builder enters it.\<close>

definition blank :: "IRBuilder \<Rightarrow> nat \<Rightarrow> bool" where
  "blank b k \<longleftrightarrow> known b k \<and> k \<noteq> current_block b \<and> block_code (current_fun b) k = []"

lemma blank_moves: "blank b k \<Longrightarrow> moves b c \<Longrightarrow> follows b c \<Longrightarrow> blank c k"
  using follows_known [of b c k] unfolding blank_def moves_def by metis

lemma blank_stays: "blank b k \<Longrightarrow> stays b c \<Longrightarrow> builder_inv c \<Longrightarrow> blank c k"
  using blank_moves moves_stays follows_stays by blast

lemma blank_enter [simp]: "blank c k \<Longrightarrow> j \<noteq> k \<Longrightarrow> blank (enter_block (irBasicBlockCreate j) c) k"
  by (simp add: blank_def)

lemma blank_branch: "blank b k \<Longrightarrow> follows b (branch_unless_terminated j b) \<Longrightarrow> blank (branch_unless_terminated j b) k"
  by (rule blank_moves [OF _ moves_branch])

lemma blank_cond_branch: "blank b k \<Longrightarrow> follows b (irBuilderEmitCondBranch x j m b) \<Longrightarrow> blank (irBuilderEmitCondBranch x j m b) k"
  unfolding irBuilderEmitCondBranch_def by (rule blank_moves [OF _ moves_append])

lemma blank_entered: "blank c k \<Longrightarrow> rest_of f (enter_block (irBasicBlockCreate k) c) = block_code f k"
  "blank c k \<Longrightarrow> \<not> closed (enter_block (irBasicBlockCreate k) c)"
  by (simp_all add: blank_def rest_of_enter closed_enter)

lemma blank_open:
  assumes "builder_inv b" "\<not> known b (n + k)" "known (open_blocks m b) (n + k)" "block_code (current_fun (open_blocks m b)) (n + k) = []"
  shows "blank (open_blocks m b) (n + k)"
  using assms current_known [OF assms(1)] by (auto simp: blank_def)

lemma if_run:
  assumes ok: "body_ok n" and at: "at A call \<rho> b r" and V: "clean V (AST_IF l c t e)" "dom \<rho> \<subseteq> V"
    and low: "irBuilderLowerIfStatement c t e b = (True, d)" and emb: "embedded (afun A) d"
    and ev: "condition call \<rho> c h = Some (v, h1)" "exec_body call n \<rho> (if v then t else e) h1 = Some (q, h')"
  shows "arrives A call b r h d q \<rho> h'"
proof -
  note inv = at_inv [OF at]
  have cl: "repeatable c" "clean V t" "clean V e" using V(1) by simp_all
  have ord: "orderly V b d" by (rule if_tidy [OF every_statement_tidy cl(2) every_statement_tidy cl(3) inv low])
  show ?thesis using if_builders [OF inv low]
  proof cases
    case (1 k cond b1 x bt b2 be b3)
    let ?b0 = "open_blocks 3 b" and ?c = "irBuilderEmitCondBranch x k (Suc k) b1"
    let ?b2 = "branch_unless_terminated (irBasicBlockCreate (Suc (Suc k))) b2"
    let ?b3 = "branch_unless_terminated (irBasicBlockCreate (Suc (Suc k))) b3"
    have new: "blank ?b0 (k + j)" if "j < 3" for j by (rule blank_open [OF inv 1(1) 1(3) [OF that] 1(2)])
    have bc: "blank ?c (k + j)" if "j < 3" for j
      by (rule blank_cond_branch [OF blank_stays [OF new [OF that] 1(13,14)] 1(16)])
    have ft: "follows ?b0 bt" by (rule follows_trans [OF follows_stays [OF 1(14,13)] 1(17)])
    have ot: "orderly V bt b2" by (rule tidy_branch [OF every_statement_tidy follows_inv [OF 1(17)] cl(2) 1(7)])
    have "blank bt (k + j)" if "0 < j" "j < 3" for j unfolding 1(6) using bc [OF that(2)] that(1) by simp
    then have bt: "blank ?b2 (k + j)" if "0 < j" "j < 3" for j
      using blank_branch [OF blank_moves [OF _ _ 1(18)] 1(19)] ot that by (simp add: orderly_def)
    have oe: "orderly V be b3" by (rule tidy_branch [OF every_statement_tidy follows_inv [OF 1(20)] cl(3) 1(9)])
    have fe: "follows ?b0 be" by (rule follows_trans [OF follows_trans [OF ft 1(18)] 1(20)])
    have "blank be (k + 2)" unfolding 1(8) using bt [of 2] by simp
    then have be: "blank ?b3 (Suc (Suc k))"
      using blank_branch [OF blank_moves [OF _ _ 1(21)] 1(22)] oe by (simp add: orderly_def)
    have lt: "items (loop_targets bt) = items (loop_targets b)" by (simp add: 1(6) stays_targets [OF 1(13)])
    then have le: "items (loop_targets be) = items (loop_targets b)"
      by (simp add: 1(8) branch_targets [OF follows_inv [OF 1(17)] 1(7)])
    have fbt: "follows b bt" and fbe: "follows b be" and fbd: "follows b d"
      using follows_trans [OF 1(11)] ft fe follows_trans [OF fe follows_trans [OF 1(21,23)]] by blast+
    have kt: "keeps V b bt" using 1(13) by (simp add: keeps_def 1(6) stays_def)
    have ke: "keeps V b be" using ot kt by (simp add: orderly_def keeps_def 1(8))
    have rt: "rest_of (afun A) bt = block_code (afun A) k" "\<not> closed bt"
      using bc [of 0] unfolding 1(6) by (simp_all add: blank_entered)
    have re: "rest_of (afun A) be = block_code (afun A) (Suc k)" "\<not> closed be"
      using bt [of 1] unfolding 1(8) by (simp_all add: blank_entered)
    have rd: "rest_of (afun A) d = block_code (afun A) (Suc (Suc k))" "\<not> closed d"
      using be unfolding 1(10) by (simp_all add: blank_entered)
    have emb3: "embedded (afun A) ?b3" using emb by (simp add: 1(10))
    have embe: "embedded (afun A) be" by (rule embedded_follows [OF emb follows_trans [OF 1(21,23)]])
    then have emb2: "embedded (afun A) ?b2" by (simp add: 1(8))
    have "embedded (afun A) ?c"
      using embedded_follows [OF embedded_follows [OF embe 1(20)] 1(18)] by (simp add: 1(6))
    then obtain r1 where r1: "agree (slots ?b0) r r1"
      "leads A (rest_of (afun A) ?b0) r h (block_code (afun A) (if v then k else Suc k)) r1 h1"
      using condition_leads [OF at_keep [OF at 1(11) open_blocks_code(3) agree_refl] cl(1) ev(1) 1(4,5)] by blast
    note arm = arm_arrives [OF ok at _ V(2) _ _ _ _ _ _ target_ext _ _ _ fbd _ rd]
    show ?thesis
    proof (cases v)
      case True
      then show ?thesis
        using arm [OF cl(2) _ _ fbt kt rt lt 1(7) emb2 1(19), of r1 h h1 q h'] ord r1 ev(2) by (simp add: orderly_def)
    next
      case False
      then show ?thesis
        using arm [OF cl(3) _ _ fbe ke re le 1(9) emb3 1(22), of r1 h h1 q h'] ord r1 ev(2) by (simp add: orderly_def)
    qed
  qed
qed

end
