(* ===== verification/LoopMeaning.thy ===== *)
theory LoopMeaning
  imports StmtMeaning
begin

text \<open>
  Loops, and with them every statement: its code does what the statement does.
\<close>

section \<open>Rounds of a loop\<close>

lemma at_again: "at A call \<rho> b r \<Longrightarrow> agree (slots b) r r' \<Longrightarrow> at A call \<rho> b r'"
  using at_keep [OF _ follows_refl [OF at_inv]] by blast

text \<open>A loop with its head in block \<open>k\<close>, its body in \<open>kb\<close>, its update in \<open>ku\<close> and its end in \<open>ke\<close>.\<close>

lemma loop_runs:
  assumes head: "\<And>r h t h1. at A call \<rho> c0 r \<Longrightarrow>
      (if c = AST_NULL then Some (True, h) else condition call \<rho> c h) = Some (t, h1) \<Longrightarrow>
      \<exists>r'. agree (slots c0) r r' \<and> at A call \<rho> p r'
        \<and> leads A (block_code (afun A) k) r h (block_code (afun A) (if t then kb else ke)) r' h1"
    and body: "\<And>m r h q h1. m < N \<Longrightarrow> at A call \<rho> p r \<Longrightarrow> exec_body call m \<rho> s h = Some (q, h1) \<Longrightarrow>
      \<exists>r'. agree (slots p) r r' \<and> flows A (block_code (afun A) kb) r h (Some (ke, ku)) (block_code (afun A) ku) q r' h1"
    and update: "\<And>m r h \<rho>' h1. m < N \<Longrightarrow> at A call \<rho> p r \<Longrightarrow> exec_header call m \<rho> u h = Some (\<rho>', h1) \<Longrightarrow>
      \<exists>r'. agree (slots p) r r' \<and> leads A (block_code (afun A) ku) r h (block_code (afun A) k) r' h1"
    and p: "slots c0 \<le> slots p"
  shows "n \<le> N \<Longrightarrow> at A call \<rho> c0 r \<Longrightarrow> exec_for call n \<rho> c u s h = Some (q, h') \<Longrightarrow>
    q \<notin> {Broke, Continued} \<and> (\<exists>r'. agree (slots c0) r r' \<and>
      flows A (block_code (afun A) k) r h t (block_code (afun A) ke) q r' h')"
proof (induction n arbitrary: r h)
  case (Suc n)
  obtain v h1 where v: "(if c = AST_NULL then Some (True, h) else condition call \<rho> c h) = Some (v, h1)"
    using Suc.prems(3) by (auto split: option.splits)
  from head [OF Suc.prems(2) this] obtain r1 where r1: "agree (slots c0) r r1" "at A call \<rho> p r1"
    "leads A (block_code (afun A) k) r h (block_code (afun A) (if v then kb else ke)) r1 h1" by blast
  show ?case
  proof (cases v)
    case False
    then have "q = Next" "h' = h1" using Suc.prems(3) v by (auto split: option.splits)
    then show ?thesis using r1 False by auto
  next
    case True
    obtain q1 h2 where b: "exec_body call n \<rho> s h1 = Some (q1, h2)"
      using Suc.prems(3) v True by (auto split: option.splits if_splits)
    obtain r2 where r2: "agree (slots p) r1 r2"
      "flows A (block_code (afun A) kb) r1 h1 (Some (ke, ku)) (block_code (afun A) ku) q1 r2 h2"
      using body [OF _ r1(2) b] Suc.prems(1) by auto
    have a2: "agree (slots c0) r r2" by (rule agree_trans [OF r1(1) r2(1) p])
    have f2: "flows A (block_code (afun A) k) r h (Some (ke, ku)) (block_code (afun A) ku) q1 r2 h2"
      by (rule flows_from [OF _ r2(2)]) (use r1(3) True in simp)
    consider "q1 = Broke" | w where "q1 = Left w" | "q1 = Next \<or> q1 = Continued" by (cases q1) auto
    then show ?thesis
    proof cases
      case 1
      then have "q = Next" "h' = h2" using Suc.prems(3) v True b by (auto split: option.splits if_splits)
      then show ?thesis using a2 f2 1 by auto
    next
      case 2
      then have "q = Left w" "h' = h2" using Suc.prems(3) v True b by (auto split: option.splits if_splits)
      then show ?thesis using a2 f2 2 by auto
    next
      case 3
      then obtain \<rho>' h3 where u: "exec_header call n \<rho> u h2 = Some (\<rho>', h3)" "exec_for call n \<rho> c u s h3 = Some (q, h')"
        using Suc.prems(3) v True b by (auto split: option.splits if_splits)
      obtain r3 where r3: "agree (slots p) r2 r3" "leads A (block_code (afun A) ku) r2 h2 (block_code (afun A) k) r3 h3"
        using update [OF _ at_again [OF r1(2) r2(1)] u(1)] Suc.prems(1) by auto
      have a3: "agree (slots c0) r r3" by (rule agree_trans [OF a2 r3(1) p])
      have "leads A (block_code (afun A) k) r h (block_code (afun A) ku) r2 h2" using f2 3 by auto
      then have l: "leads A (block_code (afun A) k) r h (block_code (afun A) k) r3 h3" using r3(2) by (rule leads_trans)
      obtain r4 where r4: "q \<notin> {Broke, Continued}" "agree (slots c0) r3 r4"
        "flows A (block_code (afun A) k) r3 h3 t (block_code (afun A) ke) q r4 h'"
        using Suc.IH [OF _ at_again [OF Suc.prems(2) a3] u(2)] Suc.prems(1) by auto
      show ?thesis using r4(1) agree_trans [OF a3 r4(2) order_refl] flows_from [OF l r4(3)] by blast
    qed
  qed
qed simp

section \<open>The body of a loop\<close>

lemma flows_join: "flows A is r h t js q r' h' \<Longrightarrow> (q = Next \<Longrightarrow> leads A js r' h' ks r' h') \<Longrightarrow> flows A is r h t ks q r' h'"
  using flows_on flows_away by blast

lemma push_pop_same [simp]:
  "current_fun (irBuilderPushLoopTarget x y b) = current_fun b" "current_block (irBuilderPushLoopTarget x y b) = current_block b"
  "current_scope (irBuilderPushLoopTarget x y b) = current_scope b"
  "current_fun (irBuilderPopLoopTarget b) = current_fun b" "current_block (irBuilderPopLoopTarget b) = current_block b"
  "current_scope (irBuilderPopLoopTarget b) = current_scope b"
  "rest_of f (irBuilderPopLoopTarget b) = rest_of f b" "closed (irBuilderPopLoopTarget b) = closed b"
  "embedded f (irBuilderPopLoopTarget b) = embedded f b" "embedded f (irBuilderPushLoopTarget x y b) = embedded f b"
  "items (loop_targets (irBuilderPushLoopTarget x y b)) = items (loop_targets b) @ [(x, y)]"
  "items (loop_targets (irBuilderPopLoopTarget b)) = butlast (items (loop_targets b))"
  by (simp_all add: irBuilderPushLoopTarget_def irBuilderPopLoopTarget_def rest_of_def closed_def embedded_def)

lemma blank_push [simp]: "blank (irBuilderPushLoopTarget x y b) k = blank b k" "blank (irBuilderPopLoopTarget b) k = blank b k"
  by (simp_all add: blank_def)

lemma block_as_branch: "irBuilderLowerBlockNode s b = (True, c) \<Longrightarrow> irBuilderLowerIfBranch s b = (True, c)"
  by (cases s) (simp_all add: irBuilderLowerIfBranch.simps irBuilderLowerBlockNode.simps block_items_def)

lemma loop_body_flows:
  assumes ok: "body_ok m" and at: "at A call \<rho> p r" and V: "clean V s" "dom \<rho> \<subseteq> V"
    and p: "rest_of (afun A) p = block_code (afun A) kb" "\<not> closed p" "irBuilderCurrentLoopTarget p = Some (ke, ku)"
    and low: "irBuilderLowerBlockNode s p = (True, b2)" and f: "follows p b2" "follows b2 (irBuilderPopLoopTarget b2)"
    and emb: "embedded (afun A) (branch_unless_terminated (irBasicBlockCreate ku) (irBuilderPopLoopTarget b2))"
    and g: "follows (irBuilderPopLoopTarget b2) (branch_unless_terminated (irBasicBlockCreate ku) (irBuilderPopLoopTarget b2))"
    and ev: "exec_body call m \<rho> s h = Some (q, h1)"
  shows "\<exists>r'. agree (slots p) r r' \<and> flows A (block_code (afun A) kb) r h (Some (ke, ku)) (block_code (afun A) ku) q r' h1"
proof -
  have "embedded (afun A) b2" using embedded_follows [OF emb g] by simp
  then have "arrives A call p r h b2 q \<rho> h1"
    using ok at V p(2) block_as_branch [OF low] ev unfolding body_ok_def by blast
  then obtain r' where r': "agree (slots p) r r'" "q = Next \<longrightarrow> \<not> closed b2"
    "flows A (block_code (afun A) kb) r h (Some (ke, ku)) (rest_of (afun A) b2) q r' h1"
    by (auto simp: arrives_def p(1,3))
  have "leads A (rest_of (afun A) b2) r' h1 (block_code (afun A) ku) r' h1" if "q = Next"
    using branch_unless_leads [OF follows_inv [OF f(2)] emb, of r' h1] r'(2) that by simp
  then show ?thesis using r'(1) flows_join [OF r'(3)] by blast
qed

lemma while_run:
  assumes ok: "\<And>m. m < N \<Longrightarrow> body_ok m" and at: "at A call \<rho> b r" and V: "clean V (AST_WHILE l c s)" "dom \<rho> \<subseteq> V"
    and n: "\<not> closed b" and low: "irBuilderLowerWhileStatement c s b = (True, d)" and emb: "embedded (afun A) d"
    and ev: "exec_for call N \<rho> c AST_NULL s h = Some (q, h')"
  shows "arrives A call b r h d q \<rho> h'"
proof -
  note inv = at_inv [OF at]
  have cl: "repeatable c" "clean V s" using V(1) by simp_all
  have ord: "orderly V b d" by (rule while_tidy [OF every_statement_tidy cl(2) inv low])
  show ?thesis using while_builders [OF inv low]
  proof cases
    case (1 k c0 cond b1 x b1' p b2)
    let ?b0 = "open_blocks 3 b" and ?b0' = "branch_unless_terminated (irBasicBlockCreate k) (open_blocks 3 b)"
    let ?b3 = "branch_unless_terminated (irBasicBlockCreate k) (irBuilderPopLoopTarget b2)"
    have new: "blank ?b0 (k + j)" if "j < 3" for j by (rule blank_open [OF inv 1(1) 1(3) [OF that] 1(2)])
    have b0: "blank ?b0' (k + j)" if "j < 3" for j by (rule blank_branch [OF new [OF that] 1(13)])
    have fp: "follows b1 p" "follows c0 p" "follows ?b0 p"
      using follows_trans [OF 1(18,19)] follows_trans [OF follows_stays [OF 1(16,15)]] follows_trans [OF 1(14)] by blast+
    have "blank c0 (k + j)" if "0 < j" "j < 3" for j unfolding 1(4) using b0 [OF that(2)] that(1) by simp
    then have b1: "blank b1' (k + j)" if "0 < j" "j < 3" for j
      using blank_cond_branch [OF blank_stays [OF _ 1(15,16)] 1(18) [unfolded 1(7)]] that by (simp add: 1(7))
    have "orderly V p b2" by (rule tidy_block [OF every_statement_tidy follows_inv [OF 1(19)] cl(2) 1(9)])
    moreover have "blank p (k + 2)" unfolding 1(8) using b1 [of 2] by simp
    ultimately have "blank b2 (k + 2)" using blank_moves [OF _ _ 1(20)] by (simp add: orderly_def)
    then have b3: "blank ?b3 (Suc (Suc k))" using blank_branch [OF _ 1(22)] by simp
    have rc: "rest_of (afun A) c0 = block_code (afun A) k" using b0 [of 0] unfolding 1(4) by (simp add: blank_entered)
    have rp: "rest_of (afun A) p = block_code (afun A) (Suc k)" "\<not> closed p"
      using b1 [of 1] unfolding 1(8) by (simp_all add: blank_entered)
    have rd: "rest_of (afun A) d = block_code (afun A) (Suc (Suc k))" "\<not> closed d"
      using b3 unfolding 1(10) by (simp_all add: blank_entered)
    have emb3: "embedded (afun A) ?b3" using emb by (simp add: 1(10))
    have embp: "embedded (afun A) p"
      using embedded_follows [OF embedded_follows [OF emb3 1(22)] follows_trans [OF 1(20,21)]] .
    have emb1: "embedded (afun A) b1'" using embp by (simp add: 1(8))
    have emb0: "embedded (afun A) ?b0'" using embedded_follows [OF embp fp(2)] by (simp add: 1(4))
    have tp: "irBuilderCurrentLoopTarget p = Some (Suc (Suc k), k)" by (simp add: 1(8) irBuilderCurrentLoopTarget_def)
    have c: "c \<noteq> AST_NULL" using 1(5,6) by (auto simp: irBuilderLowerRValue.simps irValueEmpty_def)
    have at0: "at A call \<rho> ?b0 r" by (rule at_keep [OF at 1(11) open_blocks_code(3) agree_refl])
    have n0: "\<not> closed ?b0" using n by (simp add: closed_def)
    have start: "leads A (rest_of (afun A) b) r h (block_code (afun A) k) r h"
      using branch_unless_leads [OF at_inv [OF at0] emb0 n0, of r h] by simp
    have atc: "at A call \<rho> c0 r" by (rule at_keep [OF at0 1(14) _ agree_refl]) (simp add: 1(4))
    have "q \<notin> {Broke, Continued} \<and> (\<exists>r'. agree (slots c0) r r' \<and>
      flows A (block_code (afun A) k) r h (irBuilderCurrentLoopTarget b) (block_code (afun A) (Suc (Suc k))) q r' h')"
    proof (rule loop_runs [OF _ _ _ follows_slots [OF fp(2)] order_refl atc ev])
      fix r h t h1 assume a: "at A call \<rho> c0 r" "(if c = AST_NULL then Some (True, h) else condition call \<rho> c h) = Some (t, h1)"
      have "condition call \<rho> c h = Some (t, h1)" using a(2) c by simp
      from condition_leads [OF a(1) cl(1) this 1(5,6) emb1 [unfolded 1(7)]]
      obtain r' where r': "agree (slots c0) r r'" "at A call \<rho> b1 r'"
        "leads A (block_code (afun A) k) r h (block_code (afun A) (if t then Suc k else Suc (Suc k))) r' h1"
        unfolding rc by blast
      have "at A call \<rho> p r'" by (rule at_keep [OF r'(2) fp(1) _ agree_refl]) (simp add: 1(7,8))
      then show "\<exists>r'. agree (slots c0) r r' \<and> at A call \<rho> p r'
          \<and> leads A (block_code (afun A) k) r h (block_code (afun A) (if t then Suc k else Suc (Suc k))) r' h1"
        using r' by blast
    next
      fix m r h q h1 assume "m < N" "at A call \<rho> p r" "exec_body call m \<rho> s h = Some (q, h1)"
      then show "\<exists>r'. agree (slots p) r r' \<and> flows A (block_code (afun A) (Suc k)) r h (Some (Suc (Suc k), k)) (block_code (afun A) k) q r' h1"
        using loop_body_flows [OF ok _ cl(2) V(2) rp tp 1(9,20,21) emb3 1(22)] by blast
    next
      fix m r h \<rho>' h1 assume "exec_header call m \<rho> AST_NULL h = Some (\<rho>', h1)"
      then have "h1 = h" by (cases m) auto
      then show "\<exists>r'. agree (slots p) r r' \<and> leads A (block_code (afun A) k) r h (block_code (afun A) k) r' h1"
        using agree_refl leads_refl by blast
    qed
    then obtain r' where q: "q \<notin> {Broke, Continued}" and r': "agree (slots c0) r r'"
      "flows A (block_code (afun A) k) r h (irBuilderCurrentLoopTarget b) (rest_of (afun A) d) q r' h'" unfolding rd by blast
    have a: "agree (slots b) r r'" using agree_trans [OF agree_refl r'(1)] follows_slots [OF follows_trans [OF 1(11,14)]] by blast
    have "at A call \<rho> d r'"
      by (rule at_move [OF at _ _ V(2) a])
        (use ord follows_trans [OF follows_trans [OF follows_trans [OF 1(11,14)] follows_trans [OF fp(2) 1(20)]] follows_trans [OF 1(21,23)]]
          in \<open>simp_all add: orderly_def\<close>)
    then show ?thesis unfolding arrives_def using a rd(2) flows_from [OF start r'(2)] by blast
  qed
qed

section \<open>For loops\<close>

lemma loop_head_leads:
  assumes at: "at A call \<rho> b r" and c: "repeatable c" "(if c = AST_NULL then Some (True, h) else condition call \<rho> c h) = Some (t, h')"
    and low: "loop_head c k m b d" and emb: "embedded (afun A) d"
  shows "\<exists>r'. agree (slots b) r r' \<and> leads A (rest_of (afun A) b) r h (block_code (afun A) (if t then k else m)) r' h'"
proof (cases "c = AST_NULL")
  case True
  then show ?thesis
    using c(2) low emb branch_leads [OF at_inv [OF at], of A k r h] by (intro exI [of _ r]) (auto simp: loop_head_def)
next
  case False
  then obtain cond b1 x where l: "irBuilderLowerRValue c b = (cond, b1)" "vvalue cond = Some x" "d = irBuilderEmitCondBranch x k m b1"
    using low by (auto simp: loop_head_def)
  have "condition call \<rho> c h = Some (t, h')" using c(2) False by simp
  from condition_leads [OF at c(1) this l(1,2) emb [unfolded l(3)]] show ?thesis by blast
qed

lemma header_dom:
  assumes "exec_header call n \<rho> s h = Some (\<rho>', h')"
  shows "dom \<rho>' \<subseteq> dom \<rho> \<union> declared s"
proof -
  have "\<rho>' = \<rho> \<or> exec call (n - 1) \<rho> s h = Some (Next, \<rho>', h')"
    using assms by (cases n) (auto split: if_splits option.splits flow.splits)
  then show ?thesis using exec_dom [of call "n - 1" \<rho> s h Next \<rho>' h'] by blast
qed

lemma loop_head_same: "builder_inv b \<Longrightarrow> loop_head c k m b d \<Longrightarrow> current_scope d = current_scope b"
  using value_stays [of b c] by (auto simp: loop_head_def stays_def irBuilderEmitBranch_def split: if_splits)

lemma for_rounds:
  assumes ok: "\<And>m. m < N \<Longrightarrow> body_ok m" "\<And>m. m < N \<Longrightarrow> header_ok m"
    and V: "clean V u" "clean V s" "repeatable c" "dom \<rho> \<subseteq> V"
    and head: "loop_head c kb ke c0 b1" "embedded (afun A) b1" "rest_of (afun A) c0 = block_code (afun A) k"
      "follows b1 p" "follows c0 p" "current_scope p = current_scope b1"
    and p: "rest_of (afun A) p = block_code (afun A) kb" "\<not> closed p" "irBuilderCurrentLoopTarget p = Some (ke, ku)"
    and body: "irBuilderLowerBlockNode s p = (True, b2)" "follows p b2" "follows b2 (irBuilderPopLoopTarget b2)"
      "follows (irBuilderPopLoopTarget b2) (branch_unless_terminated (irBasicBlockCreate ku) (irBuilderPopLoopTarget b2))"
      "embedded (afun A) (branch_unless_terminated (irBasicBlockCreate ku) (irBuilderPopLoopTarget b2))"
    and e: "follows p e0" "keeps V p e0" "rest_of (afun A) e0 = block_code (afun A) ku" "\<not> closed e0"
    and update: "irBuilderLowerLooseNode u e0 = (True, b3)" "follows e0 b3"
      "follows b3 (branch_unless_terminated (irBasicBlockCreate k) b3)"
      "embedded (afun A) (branch_unless_terminated (irBasicBlockCreate k) b3)"
    and at: "at A call \<rho> c0 r" and ev: "exec_for call N \<rho> c u s h = Some (q, h')"
  shows "q \<notin> {Broke, Continued} \<and> (\<exists>r'. agree (slots c0) r r' \<and>
      flows A (block_code (afun A) k) r h t (block_code (afun A) ke) q r' h')"
proof (rule loop_runs [OF _ _ _ follows_slots [OF head(5)] order_refl at ev])
  fix r h t h1 assume a: "at A call \<rho> c0 r" "(if c = AST_NULL then Some (True, h) else condition call \<rho> c h) = Some (t, h1)"
  from loop_head_leads [OF a(1) V(3) a(2) head(1,2)]
  obtain r' where r': "agree (slots c0) r r'" "leads A (block_code (afun A) k) r h (block_code (afun A) (if t then kb else ke)) r' h1"
    unfolding head(3) by blast
  have "current_scope p = current_scope c0" using loop_head_same [OF at_inv [OF a(1)] head(1)] head(6) by simp
  then have "at A call \<rho> p r'" by (rule at_keep [OF a(1) head(5) _ r'(1)])
  then show "\<exists>r'. agree (slots c0) r r' \<and> at A call \<rho> p r'
      \<and> leads A (block_code (afun A) k) r h (block_code (afun A) (if t then kb else ke)) r' h1"
    using r' by blast
next
  fix m r h q h1 assume "m < N" "at A call \<rho> p r" "exec_body call m \<rho> s h = Some (q, h1)"
  then show "\<exists>r'. agree (slots p) r r' \<and> flows A (block_code (afun A) kb) r h (Some (ke, ku)) (block_code (afun A) ku) q r' h1"
    using loop_body_flows [OF ok(1) _ V(2,4) p body(1-3,5,4)] by blast
next
  fix m r h \<rho>' h1 assume a: "m < N" "at A call \<rho> p r" "exec_header call m \<rho> u h = Some (\<rho>', h1)"
  have "at A call \<rho> e0 r" by (rule at_move [OF a(2) e(1,2) V(4) agree_refl])
  moreover have "embedded (afun A) b3" by (rule embedded_follows [OF update(4,3)])
  ultimately have "arrives A call e0 r h b3 Next \<rho>' h1"
    using ok(2) [OF a(1)] V(1,4) e(4) update(1) a(3) unfolding header_ok_def by blast
  then obtain r' where r': "goes A e0 r h b3 r' h1" "\<not> closed b3" by (rule arrives_nextE)
  have l: "leads A (rest_of (afun A) b3) r' h1 (block_code (afun A) k) r' h1"
    by (rule branch_unless_leads [OF follows_inv [OF update(2)] update(4) r'(2)])
  have "agree (slots e0) r r'" "leads A (block_code (afun A) ku) r h (rest_of (afun A) b3) r' h1"
    using r'(1) e(3) by (simp_all add: goes_leads)
  then show "\<exists>r'. agree (slots p) r r' \<and> leads A (block_code (afun A) ku) r h (block_code (afun A) k) r' h1"
    using leads_trans [OF _ l] agree_trans [OF agree_refl _ follows_slots [OF e(1)]] by blast
qed

lemma lower_for_run:
  assumes ok: "\<And>m. m < N \<Longrightarrow> body_ok m" "\<And>m. m < N \<Longrightarrow> header_ok m" "header_ok M"
    and at: "at A call \<rho> b r" and V: "clean V (AST_FOR l i c u s)" "dom \<rho> \<subseteq> V"
    and n: "\<not> closed b" and low: "lower_for i c u s b = (True, d)" and emb: "embedded (afun A) d"
    and ev: "exec_header call M \<rho> i h = Some (\<rho>', h0)" "exec_for call N \<rho>' c u s h0 = Some (q, h')"
  shows "arrives A call b r h d q \<rho> h'"
proof -
  note inv = at_inv [OF at]
  let ?V = "V \<union> declared i"
  have cl: "clean V i" "repeatable c" "clean ?V s" "clean ?V u" using V(1) by simp_all
  have ord: "orderly V b d"
    by (rule for_tidy [OF every_statement_tidy cl(1) every_statement_tidy cl(4) every_statement_tidy cl(3) inv low])
  show ?thesis using for_builders [OF inv low]
  proof cases
    case (1 b0 k c0 b1 p b2 b2' e0 b3)
    let ?o = "open_blocks 4 b0" and ?o' = "branch_unless_terminated (irBasicBlockCreate k) (open_blocks 4 b0)"
    let ?e = "branch_unless_terminated (irBasicBlockCreate (Suc (Suc k))) b2'" and ?d = "branch_unless_terminated (irBasicBlockCreate k) b3"
    have fp: "follows c0 p" "follows p b2'" "follows p e0" "follows e0 d"
      using follows_trans [OF 1(18,19)] follows_trans [OF 1(20,21)] follows_trans [OF follows_trans [OF 1(20,21)] 1(23)]
        follows_trans [OF 1(24,26)] by blast+
    have new: "blank ?o (k + j)" if "j < 4" for j by (rule blank_open [OF follows_inv [OF 1(2)] 1(3) 1(5) [OF that] 1(4)])
    have bo: "blank ?o' (k + j)" if "j < 4" for j by (rule blank_branch [OF new [OF that] 1(16)])
    have k0: "known ?o (k + j)" if "j < 4" for j by (rule 1(5) [OF that])
    have kc: "known c0 (Suc k)" "known c0 (Suc (Suc (Suc k)))"
      using follows_known [OF 1(17) k0 [of 1]] follows_known [OF 1(17) k0 [of 3]] by (simp_all add: numeral_3_eq_3)
    have h: "moves c0 b1" by (rule loop_head_follows(2) [OF follows_inv [OF 1(17)] kc 1(7)])
    have "blank c0 (k + j)" if "0 < j" "j < 4" for j unfolding 1(6) using bo [OF that(2)] that(1) by simp
    then have b1: "blank b1 (k + j)" if "0 < j" "j < 4" for j by (rule blank_moves [OF _ h 1(18)]) (use that in simp_all)
    have op: "orderly ?V p b2" by (rule tidy_block [OF every_statement_tidy follows_inv [OF 1(19)] cl(3) 1(9)])
    have bp: "blank p (k + j)" if "1 < j" "j < 4" for j unfolding 1(8) using b1 [of j] that by simp
    then have "blank b2 (k + j)" if "1 < j" "j < 4" for j using blank_moves [OF _ _ 1(20)] op that by (simp add: orderly_def)
    then have be: "blank ?e (k + j)" if "1 < j" "j < 4" for j using blank_branch [OF _ 1(22)] that by (simp add: 1(10))
    have oe: "orderly ?V e0 b3" by (rule tidy_loose [OF every_statement_tidy follows_inv [OF 1(23)] cl(4) 1(12)])
    have "blank e0 (Suc (Suc (Suc k)))" unfolding 1(11) using be [of 3] by (simp add: numeral_3_eq_3)
    then have bd: "blank ?d (Suc (Suc (Suc k)))" using blank_branch [OF blank_moves [OF _ _ 1(24)] 1(25)] oe by (simp add: orderly_def)
    have rc: "rest_of (afun A) c0 = block_code (afun A) k" using bo [of 0] unfolding 1(6) by (simp add: blank_entered)
    have rp: "rest_of (afun A) p = block_code (afun A) (Suc k)" "\<not> closed p"
      using b1 [of 1] unfolding 1(8) by (simp_all add: blank_entered)
    have re: "rest_of (afun A) e0 = block_code (afun A) (Suc (Suc k))" "\<not> closed e0"
      using be [of 2] unfolding 1(11) by (simp_all add: blank_entered)
    have rd: "rest_of (afun A) d = block_code (afun A) (Suc (Suc (Suc k)))" "\<not> closed d"
      using bd unfolding 1(13) by (simp_all add: blank_entered)
    have embd: "embedded (afun A) ?d" using emb by (simp add: 1(13))
    have embe: "embedded (afun A) e0" by (rule embedded_follows [OF emb fp(4)])
    then have embe': "embedded (afun A) ?e" by (simp add: 1(11))
    have embp: "embedded (afun A) p" by (rule embedded_follows [OF embe fp(3)])
    then have embb: "embedded (afun A) b1" by (simp add: 1(8))
    have embo: "embedded (afun A) ?o'" using embedded_follows [OF embp fp(1)] by (simp add: 1(6))
    have "embedded (afun A) b0" by (rule embedded_follows [OF embedded_follows [OF embo 1(16)] 1(14)])
    then have "arrives A call b r h b0 Next \<rho>' h0"
      using ok(3) at cl(1) V(2) n 1(1) ev(1) unfolding header_ok_def by blast
    then obtain r0 where r0: "goes A b r h b0 r0 h0" "at A call \<rho>' b0 r0" "\<not> closed b0" by (rule arrives_nextE)
    have ato: "at A call \<rho>' ?o r0" by (rule at_keep [OF r0(2) 1(14) open_blocks_code(3) agree_refl])
    have no: "\<not> closed ?o" using r0(3) by (simp add: closed_def)
    have "leads A (rest_of (afun A) b0) r0 h0 (block_code (afun A) k) r0 h0"
      using branch_unless_leads [OF at_inv [OF ato] embo no, of r0 h0] by simp
    then have start: "leads A (rest_of (afun A) b) r h (block_code (afun A) k) r0 h0" "agree (slots b) r r0"
      using r0(1) leads_trans by (auto simp: goes_leads)
    have atc: "at A call \<rho>' c0 r0" by (rule at_keep [OF ato 1(17) _ agree_refl]) (simp add: 1(6))
    have dom: "dom \<rho>' \<subseteq> ?V" using header_dom [OF ev(1)] V(2) by blast
    have kpe: "keeps ?V p e0" using op by (simp add: orderly_def keeps_def 1(10,11))
    have tp: "irBuilderCurrentLoopTarget p = Some (Suc (Suc (Suc k)), Suc (Suc k))" by (simp add: 1(8) irBuilderCurrentLoopTarget_def)
    have sp: "current_scope p = current_scope b1" by (simp add: 1(8))
    obtain r' where q: "q \<notin> {Broke, Continued}" and r': "agree (slots c0) r0 r'"
      "flows A (block_code (afun A) k) r0 h0 (irBuilderCurrentLoopTarget b) (rest_of (afun A) d) q r' h'"
      using for_rounds [OF ok(1,2) cl(4,3,2) dom 1(7) embb rc 1(19) fp(1) sp rp tp 1(9,20) 1(21) [unfolded 1(10)]
          1(22) [unfolded 1(10)] embe' [unfolded 1(10)] fp(3) kpe re 1(12,24,25) embd atc ev(2)]
      unfolding rd(1) by blast
    have fbc: "follows b c0" by (rule follows_trans [OF 1(2) follows_trans [OF 1(14,17)]])
    have a: "agree (slots b) r r'" by (rule agree_trans [OF start(2) r'(1) follows_slots [OF fbc]])
    have "follows b d" by (rule follows_trans [OF fbc follows_trans [OF fp(1) follows_trans [OF fp(3,4)]]])
    then have "at A call \<rho> d r'" using at_move [OF at _ _ V(2) a] ord by (simp add: orderly_def)
    then show ?thesis unfolding arrives_def using a rd(2) flows_from [OF start(1) r'(2)] by blast
  qed
qed

lemma enter_scope_at:
  assumes at: "at A call \<rho> b r"
  shows "at A call \<rho> (enter_scope b) r"
  using at enter_scope_inv [OF at_inv [OF at]] by (simp add: at_def env_ok_def)

lemma for_run:
  assumes ok: "\<And>m. m < N \<Longrightarrow> body_ok m" "\<And>m. m < N \<Longrightarrow> header_ok m" "header_ok M"
    and at: "at A call \<rho> b r" and V: "clean V (AST_FOR l i c u s)" "dom \<rho> \<subseteq> V"
    and n: "\<not> closed b" and low: "irBuilderLowerForStatement i c u s b = (True, d)" and emb: "embedded (afun A) d"
    and f: "follows b d"
    and ev: "exec_header call M \<rho> i h = Some (\<rho>', h0)" "exec_for call N \<rho>' c u s h0 = Some (q, h')"
  shows "arrives A call b r h d q \<rho> h'"
proof -
  obtain e where e: "lower_for i c u s (enter_scope b) = (True, e)" "d = e\<lparr>current_scope := current_scope b\<rparr>"
    by (rule for_statement_parts [OF low])
  have "rest_of (afun A) (enter_scope b) = rest_of (afun A) b" "irBuilderCurrentLoopTarget (enter_scope b) = irBuilderCurrentLoopTarget b"
    "\<not> closed (enter_scope b)" "embedded (afun A) e" "rest_of (afun A) e = rest_of (afun A) d" "closed e = closed d"
    using n emb by (simp_all add: rest_of_def irBuilderCurrentLoopTarget_def closed_def embedded_def e(2))
  note s = this
  have "arrives A call (enter_scope b) r h e q \<rho> h'"
    by (rule lower_for_run [OF ok enter_scope_at [OF at] V s(3) e(1) s(4) ev])
  then obtain r' where r': "agree (slots b) r r'" "q = Next \<longrightarrow> \<not> closed d"
    "flows A (rest_of (afun A) b) r h (irBuilderCurrentLoopTarget b) (rest_of (afun A) d) q r' h'"
    by (auto simp: arrives_def s)
  then show ?thesis unfolding arrives_def using at_keep [OF at f _ r'(1)] by (simp add: e(2)) blast
qed

section \<open>Every statement\<close>

lemma while_statement_run:
  assumes ok: "\<And>m. m \<le> n \<Longrightarrow> body_ok m"
  assumes "at A call \<rho> b r" "clean V (AST_WHILE l c s)" "dom \<rho> \<subseteq> V" "\<not> closed b"
    "irBuilderLowerStatement (AST_WHILE l c s) b = (True, d)" "embedded (afun A) d"
    "exec call (Suc n) \<rho> (AST_WHILE l c s) h = Some (q, \<rho>', h')"
  shows "arrives A call b r h d q \<rho>' h'"
proof -
  have e: "exec_for call n \<rho> c AST_NULL s h = Some (q, h')" "\<rho>' = \<rho>" using assms(8) by (auto simp: map_option_case split: option.splits)
  have w: "irBuilderLowerWhileStatement c s b = (True, d)" using assms(6) by (simp add: irBuilderLowerStatement.simps [of "AST_WHILE _ _ _"])
  show ?thesis unfolding e(2) by (rule while_run [OF ok assms(2-5) w assms(7) e(1)]) simp
qed

lemma statement_run:
  assumes ok: "\<And>m. m \<le> n \<Longrightarrow> body_ok m" "\<And>m. m \<le> n \<Longrightarrow> header_ok m"
  shows "statement_ok (Suc n)"
  unfolding statement_ok_def
proof (intro allI impI)
  fix A call \<rho> V s b c r h q \<rho>' h'
  assume at: "at A call \<rho> b r" and V: "clean V s" "dom \<rho> \<subseteq> V" and n: "\<not> closed b"
    and low0: "irBuilderLowerStatement s b = (True, c)" and emb: "embedded (afun A) c"
    and ev: "exec call (Suc n) \<rho> s h = Some (q, \<rho>', h')"
  have f: "follows b c" by (rule statement_follows [OF at_inv [OF at] low0])
  note low = low0 [unfolded irBuilderLowerStatement.simps [of s]]
  show "arrives A call b r h c q \<rho>' h'"
  proof (cases s)
    case (AST_VAR_DECL l x t i)
    then have "declare_variable call \<rho> x t i h = Some (\<rho>', h')" "q = Next" using ev by auto
    then show ?thesis using declaration_arrives [OF at V(1) [unfolded AST_VAR_DECL] V(2) n _ emb] low AST_VAR_DECL by simp
  next
    case (AST_ASSIGN l op t e)
    then have a: "assign call \<rho> op t e h = Some h'" "q = Next" "\<rho>' = \<rho>" "irBuilderLowerAssign op t e b = (True, c)"
      using ev low by auto
    show ?thesis
      using arrives_gives [OF at n _ _ emb, of True] assign_reaches [of b op t e] assign_gives [OF at V(1) [unfolded AST_ASSIGN] a(1)]
      by (simp add: a(2-4))
  next
    case (AST_EXPR_STMT l e)
    then have "eval_effect call \<rho> e h = Some h'" "q = Next" "\<rho>' = \<rho>" "c = snd (irBuilderLowerRValue e b)" "repeatable e"
      using ev low V(1) by (auto simp: irBuilderLowerExprStatement_def)
    then show ?thesis using effect_arrives [OF at n] emb by simp
  next
    case (AST_RETURN l e)
    then obtain v where "q = Left v" "irBuilderLowerReturn e b = (True, c)" "repeatable e"
      "if e = AST_NULL then v = None \<and> h' = h else \<exists>u. v = Some u \<and> eval call \<rho> e h = Some (u, h')"
      using ev low V(1) by (auto split: if_splits)
    then show ?thesis using return_arrives [OF at _ _ emb] by simp
  next
    case (AST_BREAK l)
    then show ?thesis using jump_arrives(1) [OF at emb] ev low by simp
  next
    case (AST_CONTINUE l)
    then show ?thesis using jump_arrives(2) [OF at emb] ev low by simp
  next
    case (AST_IF l e t u)
    then obtain v h1 where "condition call \<rho> e h = Some (v, h1)" "exec_body call n \<rho> (if v then t else u) h1 = Some (q, h')" "\<rho>' = \<rho>"
      using ev by (auto split: option.splits)
    then show ?thesis using if_run [OF ok(1) [OF order_refl] at V(1) [unfolded AST_IF] V(2) _ emb] low AST_IF by simp
  next
    case (AST_WHILE l e u)
    show ?thesis
      by (rule while_statement_run [OF ok(1) at V(1) [unfolded AST_WHILE] V(2) n low0 [unfolded AST_WHILE] emb ev [unfolded AST_WHILE]])
  next
    case (AST_FOR l i e u body)
    then obtain \<rho>1 h0 where "exec_header call n \<rho> i h = Some (\<rho>1, h0)" "exec_for call n \<rho>1 e u body h0 = Some (q, h')" "\<rho>' = \<rho>"
      using ev by (auto split: option.splits)
    then show ?thesis
      using for_run [OF ok(1,2) ok(2) at V(1) [unfolded AST_FOR] V(2) n _ emb f, of n n] low AST_FOR by simp
  qed (use ev in simp_all)
qed

theorem every_statement_runs: "statement_ok n \<and> items_ok n \<and> body_ok n \<and> header_ok n"
proof (induction n rule: less_induct)
  case (less n)
  show ?case
  proof (cases n)
    case 0
    then show ?thesis by (simp add: statement_ok_def items_ok_def body_ok_def header_ok_def)
  next
    case (Suc m)
    then show ?thesis using statement_run [of m] items_run [of m] body_run [of m] header_run [of m] less by simp
  qed
qed

end
