(* ===== verification/FunctionMeaning.thy ===== *)
theory FunctionMeaning
  imports LoopMeaning IrModuleProps
begin

text \<open>
  Compiled functions: the parameters, the body and the return, and what the module knows of each
  declaration.
\<close>

section \<open>Parameters\<close>

definition typed_params :: "ast list \<Rightarrow> IRParameter list option" where
  "typed_params ps = those (map (\<lambda>p. map_option (\<lambda>t. \<lparr>pname = param_name p, ptype = t\<rparr>) (irBuilderTypeFromAst (param_type p))) ps)"

lemma typed_params_simps [simp]:
  "typed_params [] = Some []"
  "typed_params (AST_PARAM l x t # ps) = (case irBuilderTypeFromAst t of None \<Rightarrow> None
     | Some u \<Rightarrow> map_option (\<lambda>qs. \<lparr>pname = x, ptype = u\<rparr> # qs) (typed_params ps))"
  by (simp_all add: typed_params_def param_name_def param_type_def split: option.split)

lemma node_type_of: "node_ty t = Some c \<Longrightarrow> irBuilderTypeFromAst t = Some u \<Longrightarrow> ir_ty u = Some c"
  using node_type [of t c] by auto

lemma bind_params_ConsE:
  assumes "bind_params (p # ps) vs \<rho> h = Some (\<rho>', h')"
  obtains l x t v ws h1 where "p = AST_PARAM l x t" "vs = v # ws" "node_ty t = Some (type_of v)"
    "write_cell (length h) v (h @ [(type_of v, None)]) = Some h1"
    "bind_params ps ws (\<rho>(x := Some (length h, type_of v))) h1 = Some (\<rho>', h')"
proof -
  obtain v ws where vs: "vs = v # ws" using assms by (cases vs; cases p) simp_all
  obtain l x t where p: "p = AST_PARAM l x t" using assms vs by (cases p) simp_all
  show thesis
    using assms by (auto simp: p vs allocate_def split: if_splits option.splits intro!: that [OF p vs])
qed

lemma params_go:
  assumes "materialize_params qs i b = (True, d)" "typed_params ps = Some qs" "bind_params ps vs \<rho> h = Some (\<rho>', h')"
    and "at A call \<rho> b r" "\<not> closed b" "drop i (aargs A) = vs" "drop i (params (current_fun b)) = qs" "embedded (afun A) d"
  shows "\<exists>r'. goes A b r h d r' h' \<and> at A call \<rho>' d r' \<and> \<not> closed d"
  using assms
proof (induction ps arbitrary: qs i b vs \<rho> h r)
  case Nil
  then have "d = b" "\<rho>' = \<rho>" "h' = h" by (cases vs; simp)+
  then show ?case using Nil goes_refl by metis
next
  case (Cons p ps)
  obtain l x t v ws h1 where p: "p = AST_PARAM l x t" and vs: "vs = v # ws" and t: "node_ty t = Some (type_of v)"
    and h1: "write_cell (length h) v (h @ [(type_of v, None)]) = Some h1"
    and rest: "bind_params ps ws (\<rho>(x := Some (length h, type_of v))) h1 = Some (\<rho>', h')"
    by (rule bind_params_ConsE [OF Cons.prems(3)])
  obtain u qs' where u: "irBuilderTypeFromAst t = Some u" and qs: "qs = \<lparr>pname = x, ptype = u\<rparr> # qs'" "typed_params ps = Some qs'"
    using Cons.prems(2) by (auto simp: p split: option.splits)
  note ut = node_type_of [OF t u]
  obtain e where e: "irBuilderMaterializeParameter \<lparr>pname = x, ptype = u\<rparr> i b = (True, e)" "materialize_params qs' (i + 1) e = (True, d)"
    using Cons.prems(1) by (auto simp: qs split: prod.splits if_splits)
  obtain k c where slot: "stack_slot x u b = Some (k, c)"
    and ec: "e = irBuilderEmitStore (irOperandCreateLocal (IR_TYPE_POINTER u) k) (irOperandCreateParam u (i + 1)) c"
    using e(1) by (auto simp: materialize_slot irBuilderEmitStore_def irTypeCreatePointer_def split: option.splits)
  let ?y = "irOperandCreateLocal (IR_TYPE_POINTER u) k" and ?z = "irOperandCreateParam u (i + 1)"
  let ?r = "r(k := Some (VPointer (type_of v) (length h)))" and ?h = "h @ [(type_of v, None)]"
  note inv = at_inv [OF Cons.prems(4)]
  note s = stack_slot_ready [OF inv slot]
  have ps: "params (current_fun c) = params (current_fun b)" using s(1) by (simp add: ready_def builder_ext_def extends_def)
  note nth = drop_ConsD [OF Cons.prems(6) [unfolded vs]] and pth = drop_ConsD [OF Cons.prems(7) [unfolded qs(1)]]
  have y: "op_ok c ?y" "points_to ?y u" "operand_value A ?r ?y = Some (VPointer (type_of v) (length h))"
    using s(2) by (simp_all add: irTypeCreatePointer_def points_to_def operand_value_def irOperandCreateLocal_def)
  have z: "op_ok c ?z" "operand_value A ?r ?z = Some v"
    using pth nth by (simp_all add: operand_ok_def irOperandCreateParam_def ps operand_value_def)
  have f: "follows b c" "\<not> closed c" "k = slots b" using slot_parts [OF inv slot] by metis+
  note st = store_reaches [OF y(1,2) z(1), of True, folded ec]
  have ce: "stays c e" "builder_inv e" using st follows_inv [OF f(1)] by (simp_all add: reaches_def)
  have pe: "params (current_fun e) = params (current_fun b)"
    using ce(1) ps by (simp add: stays_def builder_ext_def extends_def)
  have "follows e d"
    using steps_follows [OF ce(2) materialize_steps e(2)] pth(3) pe by simp
  then have emb: "embedded (afun A) e" "embedded (afun A) c"
    using embedded_follows [OF Cons.prems(8)] embedded_follows [OF _ follows_stays [OF ce(2,1)]] by blast+
  have 1: "goes A b r h c ?r ?h" by (rule slot_goes [OF inv slot emb(2) ut])
  have at1: "at A call (\<rho>(x := Some (length h, type_of v))) c ?r"
    by (rule slot_at [OF Cons.prems(4) slot ut]) (simp_all add: f(3) agree_new)
  obtain r2 where 2: "goes A c ?r ?h e r2 h1"
    using store_gives [OF follows_inv [OF f(1)] y(3) z(2) h1] emb(1) by (auto simp: gives_def ec)
  have at2: "at A call (\<rho>(x := Some (length h, type_of v))) e r2" by (rule at_stays [OF at1 ce 2])
  have "\<not> closed e" using ce(1) f(2) by (simp add: stays_def)
  from Cons.IH [OF e(2) qs(2) rest at2 this _ _ Cons.prems(8)] nth(3) pth(3) pe
  obtain r' where r': "goes A e r2 h1 d r' h'" "at A call \<rho>' d r'" "\<not> closed d" by auto
  have "builder_ext b c" "builder_ext b e" using s(1) ce(1) builder_ext_trans [of b c e] by (simp_all add: ready_def stays_def)
  then have "goes A b r h d r' h'" using goes_trans [OF goes_trans [OF 1 2] r'(1)] by simp
  then show ?case using r'(2,3) by blast
qed

section \<open>A function\<close>

lemma entry_block: "block_ids f = k # ks \<Longrightarrow> entry_code f = block_code f k"
  by (cases "items (blocks f)") (simp_all add: block_ids_def entry_code_def block_code_def block_of_def)

lemma entered_facts:
  assumes "module_inv n b" "n < function_count b"
  shows "current_scope (entered n b) = [irSymbolTableCreate 64, mscope (module b)]"
    "current_block (entered n b) = 1" "block_ids (current_fun (entered n b)) = [1]"
    "block_code (current_fun (entered n b)) k = []"
    "params (current_fun (entered n b)) = params (items (mfunctions (module b)) ! n)"
    "return_type (current_fun (entered n b)) = return_type (items (mfunctions (module b)) ! n)"
    "fname (current_fun (entered n b)) = fname (items (mfunctions (module b)) ! n)"
proof -
  have "items (mfunctions (module b)) ! n \<in> set (drop n (items (mfunctions (module b))))"
    using assms(2) by (simp add: Cons_nth_drop_Suc [symmetric])
  then have "fresh_function (items (mfunctions (module b)) ! n)" using assms(1) by (simp add: module_inv_def Let_def)
  then obtain nm r ps where nth: "items (mfunctions (module b)) ! n = (irFunctionCreate nm r)\<lparr>params := ps\<rparr>"
    by (auto simp: fresh_function_def)
  show "current_scope (entered n b) = [irSymbolTableCreate 64, mscope (module b)]"
    "current_block (entered n b) = 1" "block_ids (current_fun (entered n b)) = [1]"
    "block_code (current_fun (entered n b)) k = []"
    "params (current_fun (entered n b)) = params (items (mfunctions (module b)) ! n)"
    "return_type (current_fun (entered n b)) = return_type (items (mfunctions (module b)) ! n)"
    "fname (current_fun (entered n b)) = fname (items (mfunctions (module b)) ! n)"
    by (simp_all add: entered_def Let_def nth create_block_def irFunctionCreateBlock_def irFunctionReserveBlockId_def
        irFunctionCreate_def enter_block_def append_block_def irFunctionAppendBlock_def block_ids_def block_code_def
        block_of_def irBasicBlockCreate_def)
qed

lemma entered_lookup:
  assumes "module_inv n b" "n < function_count b"
  shows "irScopeLookup (current_scope (entered n b)) x = irScopeLookup [mscope (module b)] x"
  using ir_table.lookup_empty by (simp add: entered_facts(1) [OF assms] irScopeLookupCurrent_def)

lemma default_return_runs:
  assumes "builder_inv b" "embedded (afun A) (irBuilderEmitDefaultReturn b)" "return_type (current_fun b) = IR_TYPE_VOID"
    "return_type (afun A) = IR_TYPE_VOID"
  shows "runs A (rest_of (afun A) b) r h None h"
proof -
  let ?i = "instr None (IR_INSTR_RET None)"
  have "irBuilderEmitDefaultReturn b = irBuilderAppendInstruction ?i b" using assms(3) by (simp add: irBuilderEmitDefaultReturn_def)
  moreover have "runs A (?i # is) r h None h" for "is"
    by (rule run_return [of ?i None]) (simp_all add: instr_def returned_value_def assms(4))
  ultimately show ?thesis using rest_of_append [OF assms(1), of "afun A" ?i] assms(2) by simp
qed

lemma embedded_default: "embedded f (irBuilderEmitDefaultReturn b) \<Longrightarrow> embedded f b"
  unfolding irBuilderEmitDefaultReturn_def Let_def by (rule embedded_append)

lemma function_runs:
  assumes inv: "module_inv n b" and n: "n < function_count b" and low: "irBuilderLowerFunctionBody body n b = (True, c)"
    and F: "afun A = items (mfunctions (module c)) ! n"
    and ps: "typed_params ps = Some (params (items (mfunctions (module b)) ! n))"
    and at: "at A call \<rho> (entered n b) Map.empty" and bind: "bind_params ps (aargs A) \<rho> h = Some (\<rho>', h1)"
    and V: "clean V body" "dom \<rho>' \<subseteq> V" and ev: "exec_body call m \<rho>' body h1 = Some (q, h')"
    and ret: "return_type (afun A) = return_type (items (mfunctions (module b)) ! n)"
  shows "q = Next \<and> return_type (afun A) = IR_TYPE_VOID \<and> v = None \<or> q = Left v \<and> fits (afun A) v \<Longrightarrow>
    runs A (entry_code (afun A)) Map.empty h v h'"
proof -
  let ?e = "entered n b"
  obtain l ss d d2 e where b: "body = AST_BLOCK l ss"
    "materialize_params (params (items (mfunctions (module b)) ! n)) 0 ?e = (True, d)"
    "lower_items ss d = (True, d2)" "e = (if irBuilderCurrentBlockHasTerminator d2 then d2 else irBuilderEmitDefaultReturn d2)"
    "c = put_function n e" "ready ?e {} d" "ready ?e {} d2" "left ?e {} e"
    by (rule function_body_parts [OF inv n low])
  note ent = entered_facts [OF inv n]
  have "mfunctions (module e) = mfunctions (module b)" using b(8) by (simp add: left_def builder_ext_def entered_same)
  then have Fe: "afun A = (current_fun e)\<lparr>fscope := hd (current_scope e)\<rparr>" using n by (simp add: F b(5) put_function_def Let_def)
  have "block_code (afun A) = block_code (current_fun e)" by (simp add: Fe)
  then have emb: "embedded (afun A) e" by (simp add: embedded_def)
  then have emb2: "embedded (afun A) d2"
    using embedded_default [of "afun A" d2] b(4) by (cases "irBuilderCurrentBlockHasTerminator d2") simp_all
  have inv': "builder_inv d" "builder_inv d2" using b(6,7) by (simp_all add: ready_def)
  have embd: "embedded (afun A) d" by (rule embedded_follows [OF emb2 items_follow [OF inv'(1) b(3)]])
  have "prefix [1] (block_ids (current_fun e))" using b(8) ent(3) by (simp add: left_def builder_ext_def extends_def)
  then obtain ks where "block_ids (afun A) = 1 # ks" by (auto simp: Fe block_ids_def prefix_def)
  then have entry: "entry_code (afun A) = rest_of (afun A) ?e" using ent(2,4) entry_block by (simp add: rest_of_def)
  have "\<not> closed ?e" by (simp add: closed_def ent(4))
  then obtain r1 where r1: "goes A ?e Map.empty h d r1 h1" "at A call \<rho>' d r1" "\<not> closed d"
    using params_go [OF b(2) ps bind at _ _ _ embd] ent(5) by auto
  obtain k \<rho>'' where k: "exec_items call k \<rho>' ss h1 = Some (q, \<rho>'', h')"
    using ev b(1) by (cases m) auto
  have "arrives A call d r1 h1 d2 q \<rho>'' h'"
    using every_statement_runs [of k] r1(2,3) V b(1,3) emb2 k unfolding items_ok_def by simp
  then obtain r2 where r2: "q = Next \<longrightarrow> \<not> closed d2"
    "flows A (rest_of (afun A) d) r1 h1 (irBuilderCurrentLoopTarget d) (rest_of (afun A) d2) q r2 h'"
    by (auto simp: arrives_def)
  have start: "leads A (entry_code (afun A)) Map.empty h (rest_of (afun A) d) r1 h1" using r1(1) by (simp add: goes_leads entry)
  assume "q = Next \<and> return_type (afun A) = IR_TYPE_VOID \<and> v = None \<or> q = Left v \<and> fits (afun A) v"
  then have "runs A (rest_of (afun A) d) r1 h1 v h'"
  proof (elim disjE conjE)
    assume q: "q = Next" "return_type (afun A) = IR_TYPE_VOID" "v = None"
    have "return_type (current_fun d2) = IR_TYPE_VOID"
      using b(7) ent(6) q(2) ret by (simp add: ready_def builder_ext_def extends_def)
    moreover have "e = irBuilderEmitDefaultReturn d2" using b(4) r2(1) q(1) by (simp add: has_terminator_closed)
    ultimately have "runs A (rest_of (afun A) d2) r2 h' None h'"
      using default_return_runs [OF inv'(2)] emb q(2) by simp
    then show ?thesis using r2(2) q(1,3) leads_runs by simp
  next
    assume "q = Left v" "fits (afun A) v"
    then show ?thesis using r2(2) by simp
  qed
  then show "runs A (entry_code (afun A)) Map.empty h v h'" by (rule leads_runs [OF start])
qed

section \<open>What the module knows of a declaration\<close>

abbreviation global_symbol :: "IRModule \<Rightarrow> string \<Rightarrow> IRSymbol option" where
  "global_symbol m x \<equiv> irScopeLookup [mscope m] x"

definition enlarges :: "IRModule \<Rightarrow> IRModule \<Rightarrow> bool" where
  "enlarges m m' \<longleftrightarrow> (\<forall>x s. global_symbol m x = Some s \<longrightarrow> global_symbol m' x = Some s)
     \<and> prefix (items (globals m)) (items (globals m'))"

lemma enlarges_refl [simp]: "enlarges m m"
  by (simp add: enlarges_def)

lemma enlarges_trans: "enlarges m m' \<Longrightarrow> enlarges m' m'' \<Longrightarrow> enlarges m m''"
  unfolding enlarges_def using prefix_order.trans by blast

definition global_known :: "IRModule \<Rightarrow> string \<Rightarrow> IRType \<Rightarrow> bool" where
  "global_known m x u \<longleftrightarrow> (\<exists>k g. global_symbol m x = Some (irSymbolCreateGlobal x u k)
     \<and> find (\<lambda>g. gid g = k) (items (globals m)) = Some g \<and> gname g = x \<and> gtype g = u)"

definition function_known :: "IRModule \<Rightarrow> string \<Rightarrow> ast list \<Rightarrow> ast \<Rightarrow> bool" where
  "function_known m x ps r \<longleftrightarrow> (\<exists>t ts. irBuilderTypeFromAst r = Some t
     \<and> irBuilderCreateFunctionParamTypes ps = Some ts \<and> global_symbol m x = Some (irSymbolCreateFunction x t ts))"

text \<open>A global with a string for its value shares its number with the storage of the string.\<close>

fun known_in :: "IRModule \<Rightarrow> ast \<Rightarrow> bool" where
  "known_in m (AST_VAR_DECL l x t i) =
     (is_string_literal i \<or> (\<exists>u. irBuilderTypeFromAst t = Some u \<and> global_known m x u))"
| "known_in m (AST_FUNC_DECL l x ps body r ext) = function_known m x ps r"
| "known_in m _ = True"

lemma find_prefix: "find P xs = Some g \<Longrightarrow> prefix xs ys \<Longrightarrow> find P ys = Some g"
proof -
  have "find P xs = Some g \<Longrightarrow> find P (xs @ zs) = Some g" for zs by (induction xs) (auto split: if_splits)
  then show "find P xs = Some g \<Longrightarrow> prefix xs ys \<Longrightarrow> find P ys = Some g" by (auto simp: prefix_def)
qed

lemma global_known_mono:
  assumes "global_known m x u" "enlarges m m'"
  shows "global_known m' x u"
proof -
  obtain k g where g: "global_symbol m x = Some (irSymbolCreateGlobal x u k)"
    "find (\<lambda>g. gid g = k) (items (globals m)) = Some g" "gname g = x" "gtype g = u"
    using assms(1) by (auto simp only: global_known_def)
  have "find (\<lambda>g. gid g = k) (items (globals m')) = Some g"
    by (rule find_prefix [OF g(2)]) (use assms(2) in \<open>simp add: enlarges_def\<close>)
  moreover have "global_symbol m' x = Some (irSymbolCreateGlobal x u k)" using g(1) assms(2) by (simp only: enlarges_def)
  ultimately show ?thesis unfolding global_known_def using g(3,4) by blast
qed

lemma function_known_mono: "function_known m x ps r \<Longrightarrow> enlarges m m' \<Longrightarrow> function_known m' x ps r"
  unfolding function_known_def enlarges_def by metis

lemma known_in_mono:
  assumes "known_in m d" "enlarges m m'"
  shows "known_in m' d"
proof (cases d)
  case (AST_VAR_DECL l x t i)
  then show ?thesis using assms(1) global_known_mono [OF _ assms(2)] by (simp only: known_in.simps) blast
next
  case (AST_FUNC_DECL l x ps body r ext)
  then show ?thesis using assms(1) function_known_mono [OF _ assms(2)] by (simp only: known_in.simps)
qed simp_all

lemma declare_global_lookup:
  assumes "module_inv n b" "declare_global s b = (True, c)"
  shows "global_symbol (module b) (irname s) = None"
    "global_symbol (module c) x = (if x = irname s then Some s else global_symbol (module b) x)"
    "globals (module c) = globals (module b)" "mfunctions (module c) = mfunctions (module b)"
    "enlarges (module b) (module c)"
proof -
  obtain t where t: "bucketDeclare irname (mscope (module b)) s = (True, t)"
      and c: "c = b\<lparr>module := (module b)\<lparr>mscope := t\<rparr>\<rparr>"
    using assms(2) by (auto simp: declare_global_def split: prod.splits)
  have ok: "buckets_ok irname (mscope (module b))" using assms(1) by (simp add: module_inv_def Let_def global_table_ok_def)
  show n: "global_symbol (module b) (irname s) = None"
    using ir_table.declare_ok [OF ok, of s] t by (simp add: irScopeLookupCurrent_def)
  have l: "global_symbol (module c) x = (if x = irname s then Some s else global_symbol (module b) x)" for x
    using ir_table.declare_lookup [OF ok, of s x] t by (simp add: irScopeLookupCurrent_def c)
  then show "global_symbol (module c) x = (if x = irname s then Some s else global_symbol (module b) x)" .
  show g: "globals (module c) = globals (module b)" "mfunctions (module c) = mfunctions (module b)" by (simp_all add: c)
  show "enlarges (module b) (module c)" unfolding enlarges_def l g using n by auto
qed

section \<open>Declaring\<close>

fun decl_name :: "ast \<Rightarrow> string option" where
  "decl_name (AST_VAR_DECL l x t i) = Some x"
| "decl_name (AST_FUNC_DECL l x ps body r ext) = Some x"
| "decl_name d = None"

fun declares :: "ast \<Rightarrow> IRFunction \<Rightarrow> bool" where
  "declares (AST_FUNC_DECL l x ps body r ext) f \<longleftrightarrow>
     fname f = x \<and> irBuilderTypeFromAst r = Some (return_type f) \<and> typed_params ps = Some (params f)"
| "declares d f = False"

definition declared_by :: "IRBuilder \<Rightarrow> ast \<Rightarrow> IRBuilder \<Rightarrow> bool" where
  "declared_by b d c \<longleftrightarrow> enlarges (module b) (module c) \<and> known_in (module c) d
     \<and> (\<forall>x. decl_name d = Some x \<longrightarrow> global_symbol (module b) x = None \<and> global_symbol (module c) x \<noteq> None)"

lemma enlarges_append: "enlarges (module b) (module (append_global g b))"
  by (simp add: enlarges_def append_global_def irModuleAppendGlobal_def)

lemma global_declared:
  assumes inv: "module_inv 0 b" and ok: "irBuilderPredeclareGlobal x t i b = (True, c)"
  shows "declared_by b (AST_VAR_DECL l x t i) c"
proof -
  obtain u where u: "irBuilderTypeFromAst t = Some u"
    using ok by (auto simp: irBuilderPredeclareGlobal_def split: option.splits)
  let ?k = "Suc (gcount b)" and ?g = "irGlobalCreate x (Suc (gcount b)) u (irBuilderLiteralFromAst i)"
  obtain g d where g: "(if is_string_literal i then
        (let (k, b) = irBuilderAddStringStorage (string_value i) b in (?g\<lparr>storage_global_id := Some k\<rparr>, b))
      else (?g, b)) = (g, d)" by fastforce
  have d: "declare_global (irSymbolCreateGlobal x u ?k) (append_global g d) = (True, c)"
    using ok g by (simp add: irBuilderPredeclareGlobal_def u irBuilderNextGlobalId_def gcount_def [symmetric]
        irBuilderAppendGlobalSymbol_def Let_def)
  have 1: "enlarges (module b) (module d) \<and> module_inv 0 d \<and> well_formed_global (Suc (gcount d)) g
      \<and> numbered_after (items (globals (module d))) g"
  proof (cases "is_string_literal i")
    case True
    then obtain k where k: "irBuilderAddStringStorage (string_value i) b = (k, d)" "g = ?g\<lparr>storage_global_id := Some k\<rparr>"
      using g by (auto split: prod.splits)
    have "enlarges (module b) (module d)" using storage_scope [where v = "string_value i" and b = b] by (simp add: enlarges_def k)
    then show ?thesis using storage_ok [OF inv k(1)]
      by (auto simp: well_formed_global_def irGlobalCreate_def k(2) numbered_after_def gcount_def)
  next
    case False
    then show ?thesis using g inv by (auto simp: well_formed_global_def irGlobalCreate_def numbered_after_def gcount_def)
  qed
  have a: "module_inv 0 (append_global g d)" using append_global_ok(1) 1 by blast
  note dl = declare_global_lookup [OF a d]
  have e: "enlarges (module b) (module c)"
    by (rule enlarges_trans [OF conjunct1 [OF 1] enlarges_trans [OF enlarges_append dl(5)]])
  have s: "global_symbol (module c) x = Some (irSymbolCreateGlobal x u ?k)"
    using dl(2) [of x] by (simp add: irSymbolCreateGlobal_def)
  have "global_symbol (module b) x = None"
    using enlarges_trans [OF conjunct1 [OF 1] enlarges_append [of d g]] dl(1)
    unfolding enlarges_def by (cases "global_symbol (module b) x") (simp_all add: irSymbolCreateGlobal_def)
  moreover have "known_in (module c) (AST_VAR_DECL l x t i)"
  proof (cases "is_string_literal i")
    case False
    have g': "g = ?g" "d = b" using g [unfolded if_not_P [OF False]] by blast+
    have "gid h \<noteq> ?k" if "h \<in> set (items (globals (module b)))" for h
      using inv that by (auto simp: module_inv_def Let_def well_formed_globals_def well_formed_global_def gcount_def)
    then have "find (\<lambda>h. gid h = ?k) (items (globals (module b))) = None" by (simp add: find_None_iff)
    moreover have "find P (xs @ [y]) = (case find P xs of None \<Rightarrow> (if P y then Some y else None) | r \<Rightarrow> r)" for P :: "IRGlobal \<Rightarrow> bool" and xs y
      by (induction xs) auto
    ultimately have "find (\<lambda>h. gid h = ?k) (items (globals (module c))) = Some ?g"
      by (simp add: dl(3) g' append_global_def irModuleAppendGlobal_def irGlobalCreate_def)
    then have "global_known (module c) x u" unfolding global_known_def using s
      by (intro exI [of _ ?k] exI [of _ ?g]) (simp add: irGlobalCreate_def)
    then show ?thesis using u by simp
  qed simp
  ultimately show ?thesis unfolding declared_by_def using e s by (simp del: known_in.simps)
qed

lemma declare_functions_same: "declare_global s b = (ok, c) \<Longrightarrow> mfunctions (module c) = mfunctions (module b)"
  by (auto simp: declare_global_def split: prod.splits)

lemma function_declared:
  assumes inv: "module_inv 0 b" and ok: "irBuilderPredeclareFunction x ps r b = (True, c)"
  shows "declared_by b (AST_FUNC_DECL l x ps body r ext) c"
    "\<exists>f. items (mfunctions (module c)) = items (mfunctions (module b)) @ [f] \<and> declares (AST_FUNC_DECL l x ps body r ext) f"
proof -
  obtain t f ts d where t: "irBuilderTypeFromAst r = Some t" "irBuilderCreateFunctionParamTypes ps = Some ts"
      and f: "irBuilderPopulateFunctionParams ps (irFunctionCreate x t) = Some f"
      and d: "declare_global (irSymbolCreateFunction x t ts) b = (True, d)"
      and c: "c = d\<lparr>module := irModuleAppendFunction (module d) f\<rparr>"
    using ok by (auto simp: irBuilderPredeclareFunction_def split: option.splits prod.splits if_splits)
  note dl = declare_global_lookup [OF inv d]
  have "enlarges (module b) (module c)" using dl(5) by (simp add: c irModuleAppendFunction_def enlarges_def)
  moreover have "global_symbol (module c) x = Some (irSymbolCreateFunction x t ts)"
    using dl(2) [of x] by (simp add: c irModuleAppendFunction_def irSymbolCreateFunction_def)
  moreover have "global_symbol (module b) x = None" using dl(1) by (simp add: irSymbolCreateFunction_def)
  ultimately show "declared_by b (AST_FUNC_DECL l x ps body r ext) c"
    using t by (simp add: declared_by_def function_known_def del: irScopeLookup.simps)
  have "typed_params ps = Some (params f) \<and> fname f = x \<and> return_type f = t"
    using f by (auto simp: irBuilderPopulateFunctionParams_def typed_params_def irFunctionCreate_def)
  then show "\<exists>f. items (mfunctions (module c)) = items (mfunctions (module b)) @ [f] \<and> declares (AST_FUNC_DECL l x ps body r ext) f"
    using t by (simp add: c irModuleAppendFunction_def dl(4))
qed

lemma extern_declared:
  assumes inv: "module_inv 0 b" and ok: "irBuilderPredeclareExternFunction x ps r b = (True, c)"
  shows "declared_by b (AST_FUNC_DECL l x ps body r ext) c" "mfunctions (module c) = mfunctions (module b)"
proof -
  obtain t ts where t: "irBuilderTypeFromAst r = Some t" "irBuilderCreateFunctionParamTypes ps = Some ts"
      and d: "declare_global (irSymbolCreateFunction x t ts) b = (True, c)"
    using ok by (auto simp: irBuilderPredeclareExternFunction_def split: option.splits)
  note dl = declare_global_lookup [OF inv d]
  have "global_symbol (module c) x = Some (irSymbolCreateFunction x t ts)"
    using dl(2) [of x] by (simp add: irSymbolCreateFunction_def)
  moreover have "global_symbol (module b) x = None" using dl(1) by (simp add: irSymbolCreateFunction_def)
  ultimately show "declared_by b (AST_FUNC_DECL l x ps body r ext) c"
    using t dl(5) by (simp add: declared_by_def function_known_def del: irScopeLookup.simps)
  show "mfunctions (module c) = mfunctions (module b)" by (rule dl(4))
qed

lemma predeclare_step:
  assumes "module_inv 0 b" "predeclare d b = (True, c)"
  shows "declared_by b d c"
    "\<exists>fs. items (mfunctions (module c)) = items (mfunctions (module b)) @ fs
       \<and> list_all2 declares (filter (\<lambda>d. defined_body d \<noteq> None) [d]) fs"
proof -
  consider l x t i where "d = AST_VAR_DECL l x t i" | l x ps body r where "d = AST_FUNC_DECL l x ps body r True"
    | l x ps body r where "d = AST_FUNC_DECL l x ps body r False"
    | "d = AST_NULL" | "predeclare d b = (True, b)" "defined_body d = None" "decl_name d = None" "known_in (module c) d"
    by (cases d) (auto simp: predeclare_def defined_body_def)
  then have "declared_by b d c \<and> (\<exists>fs. items (mfunctions (module c)) = items (mfunctions (module b)) @ fs
       \<and> list_all2 declares (filter (\<lambda>d. defined_body d \<noteq> None) [d]) fs)"
  proof cases
    case (1 l x t i)
    then have "irBuilderPredeclareGlobal x t i b = (True, c)" using assms(2) by (simp add: predeclare_def)
    with global_declared [OF assms(1) this] predeclare_global_ok(2) [OF assms(1) this] show ?thesis
      by (simp add: 1 defined_body_def)
  next
    case (2 l x ps body r)
    then have "irBuilderPredeclareExternFunction x ps r b = (True, c)" using assms(2) by (simp add: predeclare_def)
    with extern_declared [OF assms(1) this] show ?thesis by (simp add: 2 defined_body_def)
  next
    case (3 l x ps body r)
    then have "irBuilderPredeclareFunction x ps r b = (True, c)" using assms(2) by (simp add: predeclare_def)
    with function_declared [OF assms(1) this, where l = l and body = body and ext = False] show ?thesis
      by (auto simp: 3 defined_body_def simp del: declares.simps)
  next
    case 4
    then show ?thesis using assms(2) by (simp add: predeclare_def)
  next
    case 5
    then show ?thesis using assms(2) by (simp add: declared_by_def)
  qed
  then show "declared_by b d c" "\<exists>fs. items (mfunctions (module c)) = items (mfunctions (module b)) @ fs
       \<and> list_all2 declares (filter (\<lambda>d. defined_body d \<noteq> None) [d]) fs" by blast+
qed

lemma predeclare_all_step:
  "module_inv 0 b \<Longrightarrow> predeclare_all ds b = (True, c) \<Longrightarrow>
   enlarges (module b) (module c) \<and> (\<forall>d \<in> set ds. known_in (module c) d)
   \<and> (\<forall>d \<in> set ds. \<forall>x. decl_name d = Some x \<longrightarrow> global_symbol (module b) x = None)
   \<and> (\<forall>d \<in> set ds. \<forall>d' \<in> set ds. decl_name d \<noteq> None \<longrightarrow> decl_name d = decl_name d' \<longrightarrow> d = d')
   \<and> (\<exists>fs. items (mfunctions (module c)) = items (mfunctions (module b)) @ fs
       \<and> list_all2 declares (filter (\<lambda>d. defined_body d \<noteq> None) ds) fs)"
proof (induction ds arbitrary: b)
  case (Cons d ds)
  obtain e where e: "predeclare d b = (True, e)" "predeclare_all ds e = (True, c)"
    using Cons.prems(2) by (auto split: prod.splits if_splits)
  note s = predeclare_step [OF Cons.prems(1) e(1)]
  have d: "enlarges (module b) (module e)" "known_in (module e) d"
    "\<And>x. decl_name d = Some x \<Longrightarrow> global_symbol (module b) x = None \<and> global_symbol (module e) x \<noteq> None"
    using s(1) unfolding declared_by_def by blast+
  obtain fs where fs: "items (mfunctions (module e)) = items (mfunctions (module b)) @ fs"
    "list_all2 declares (filter (\<lambda>d. defined_body d \<noteq> None) [d]) fs" using s(2) by blast
  note ih = Cons.IH [OF predeclare_ok(1) [OF Cons.prems(1) e(1)] e(2)]
  obtain gs where gs: "items (mfunctions (module c)) = items (mfunctions (module e)) @ gs"
    "list_all2 declares (filter (\<lambda>d. defined_body d \<noteq> None) ds) gs" using ih by blast
  have e1: "enlarges (module b) (module c)" by (rule enlarges_trans [OF d(1) conjunct1 [OF ih]])
  have k1: "known_in (module c) d" by (rule known_in_mono [OF d(2) conjunct1 [OF ih]])
  have n1: "global_symbol (module b) x = None" if dx: "d' \<in> set ds" "decl_name d' = Some x" for d' x
  proof -
    have "global_symbol (module e) x = None" using ih dx by blast
    then show ?thesis using d(1) unfolding enlarges_def by (cases "global_symbol (module b) x") (simp, metis option.distinct(1))
  qed
  have u1: "decl_name d' \<noteq> decl_name d" if dx: "d' \<in> set ds" "decl_name d' \<noteq> None" for d'
  proof -
    obtain x where x: "decl_name d' = Some x" using dx(2) by blast
    then have "global_symbol (module e) x = None" using ih dx(1) by blast
    then show ?thesis using d(3) [of x] x by auto
  qed
  show ?case
  proof (intro conjI)
    show "enlarges (module b) (module c)" by (rule e1)
    show "\<forall>d' \<in> set (d # ds). known_in (module c) d'" using k1 ih by simp
    show "\<forall>d' \<in> set (d # ds). \<forall>x. decl_name d' = Some x \<longrightarrow> global_symbol (module b) x = None"
      using n1 d(3) by (auto simp del: irScopeLookup.simps)
    have "\<forall>d1 \<in> set ds. \<forall>d2 \<in> set ds. decl_name d1 \<noteq> None \<longrightarrow> decl_name d1 = decl_name d2 \<longrightarrow> d1 = d2" using ih by blast
    then show "\<forall>d1 \<in> set (d # ds). \<forall>d2 \<in> set (d # ds). decl_name d1 \<noteq> None \<longrightarrow> decl_name d1 = decl_name d2 \<longrightarrow> d1 = d2"
      using u1 by (metis set_ConsD)
    have "list_all2 declares (filter (\<lambda>d. defined_body d \<noteq> None) (d # ds)) (fs @ gs)"
      using list_all2_appendI [OF fs(2) gs(2)] by (cases "defined_body d") simp_all
    then show "\<exists>fs. items (mfunctions (module c)) = items (mfunctions (module b)) @ fs
       \<and> list_all2 declares (filter (\<lambda>d. defined_body d \<noteq> None) (d # ds)) fs"
      using fs(1) gs(1) by (intro exI [of _ "fs @ gs"] conjI) simp_all
  qed
qed simp

section \<open>Compiling\<close>

definition compiled :: "IRSymbolTable \<Rightarrow> ast \<Rightarrow> IRFunction \<Rightarrow> bool" where
  "compiled t d g \<longleftrightarrow> (\<exists>n b c body. defined_body d = Some body \<and> module_inv n b \<and> n < function_count b
     \<and> irBuilderLowerFunctionBody body n b = (True, c) \<and> items (mfunctions (module c)) ! n = g
     \<and> declares d (items (mfunctions (module b)) ! n) \<and> mscope (module b) = t)"

lemma lower_bodies_compiled:
  "module_inv n b \<Longrightarrow> n + body_count ds = function_count b \<Longrightarrow> lower_bodies ds n b = (True, c) \<Longrightarrow>
   list_all2 declares (filter (\<lambda>d. defined_body d \<noteq> None) ds) (drop n (items (mfunctions (module b)))) \<Longrightarrow>
   mscope (module c) = mscope (module b) \<and> prefix (items (globals (module b))) (items (globals (module c)))
   \<and> take n (items (mfunctions (module c))) = take n (items (mfunctions (module b)))
   \<and> list_all2 (compiled (mscope (module b))) (filter (\<lambda>d. defined_body d \<noteq> None) ds) (drop n (items (mfunctions (module c))))"
proof (induction ds arbitrary: n b)
  case (Cons d ds)
  show ?case
  proof (cases "defined_body d")
    case None
    then show ?thesis using Cons by simp
  next
    case (Some body)
    then obtain e where e: "irBuilderLowerFunctionBody body n b = (True, e)" "lower_bodies ds (Suc n) e = (True, c)"
      using Cons.prems(3) by (auto split: prod.splits if_splits)
    have n: "n < function_count b" using Cons.prems(2) Some by simp
    note f = function_body_ok [OF Cons.prems(1) n e(1)]
    let ?b = "items (mfunctions (module b))" and ?e = "items (mfunctions (module e))" and ?c = "items (mfunctions (module c))"
    obtain g where g: "?e = ?b[n := g]" using f(5) by blast
    have dn: "declares d (?b ! n)" "list_all2 declares (filter (\<lambda>d. defined_body d \<noteq> None) ds) (drop (Suc n) ?b)"
      using Cons.prems(4) Some by (simp_all add: Cons_nth_drop_Suc [OF n, symmetric])
    have ih: "mscope (module c) = mscope (module e)" "prefix (items (globals (module e))) (items (globals (module c)))"
      "take (Suc n) ?c = take (Suc n) ?e"
      "list_all2 (compiled (mscope (module e))) (filter (\<lambda>d. defined_body d \<noteq> None) ds) (drop (Suc n) ?c)"
      using Cons.IH [OF f(1) _ e(2)] Cons.prems(2) f(2) dn(2) Some by (simp_all add: g)
    have ln: "n < length ?c" using arg_cong [OF ih(3), of length] f(2) n by simp
    have cn: "?c ! n = ?e ! n" using arg_cong [OF ih(3), of "\<lambda>xs. xs ! n"] by simp
    have "take n (take (Suc n) ?c) = take n (take (Suc n) ?e)" by (simp only: ih(3))
    then have "take n ?c = take n ?b" by (simp add: g)
    moreover have "compiled (mscope (module b)) d (?c ! n)"
      unfolding compiled_def using Some Cons.prems(1) n e(1) cn dn(1) by (intro exI [of _ n] exI [of _ b] exI [of _ e] exI [of _ body]) simp
    ultimately show ?thesis
      using ih f(3,4) Some prefix_order.trans [OF f(4) ih(2)] by (simp add: Cons_nth_drop_Suc [OF ln, symmetric])
  qed
qed simp

end
