(* ===== verification/ProgramMeaning.thy ===== *)
theory ProgramMeaning
  imports FunctionMeaning
begin

text \<open>
  Programs: a call of a function of the module returns what the call of the source function
  returns.
\<close>

section \<open>The built module\<close>

lemma built_parts:
  assumes "build ds = (True, b)"
  shows "d \<in> set ds \<Longrightarrow> known_in (module b) d"
    "d \<in> set ds \<Longrightarrow> d' \<in> set ds \<Longrightarrow> decl_name d \<noteq> None \<Longrightarrow> decl_name d = decl_name d' \<Longrightarrow> d = d'"
    "list_all2 (compiled (mscope (module b))) (filter (\<lambda>d. defined_body d \<noteq> None) ds) (items (mfunctions (module b)))"
proof -
  obtain c where c: "predeclare_all ds irBuilderCreate = (True, c)" "lower_bodies ds 0 (collect_all ds c) = (True, b)"
    using assms by (auto simp: build_def split: prod.splits if_splits)
  note p = predeclare_all_step [OF initial_module(1) c(1)]
  note q = predeclare_all_ok [OF initial_module(1) c(1)]
  have co: "module_inv 0 (collect_all ds c)" "mfunctions (module (collect_all ds c)) = mfunctions (module c)"
    "mscope (module (collect_all ds c)) = mscope (module c)"
    "prefix (items (globals (module c))) (items (globals (module (collect_all ds c))))"
    using collect_all_ok [of c ds] q by (simp_all add: collects_def)
  have "items (mfunctions (module irBuilderCreate)) = []" using initial_module(2) by simp
  then have l: "list_all2 declares (filter (\<lambda>d. defined_body d \<noteq> None) ds) (drop 0 (items (mfunctions (module (collect_all ds c)))))"
    using p co(2) by auto
  have "0 + body_count ds = function_count (collect_all ds c)" using q co(2) initial_module(2) by simp
  note b = lower_bodies_compiled [OF co(1) this c(2) l]
  have "prefix (items (globals (module c))) (items (globals (module b)))" using b co(4) prefix_order.trans by blast
  then have e: "enlarges (module c) (module b)" using b co(3) by (simp add: enlarges_def)
  show "d \<in> set ds \<Longrightarrow> known_in (module b) d" using p known_in_mono [OF _ e] by blast
  show "d \<in> set ds \<Longrightarrow> d' \<in> set ds \<Longrightarrow> decl_name d \<noteq> None \<Longrightarrow> decl_name d = decl_name d' \<Longrightarrow> d = d'"
    using p by blast
  show "list_all2 (compiled (mscope (module b))) (filter (\<lambda>d. defined_body d \<noteq> None) ds) (items (mfunctions (module b)))"
    using b co(3) by simp
qed

lemma compiled_same:
  assumes "compiled t d g"
  obtains n b c body where "defined_body d = Some body" "module_inv n b" "n < function_count b"
    "irBuilderLowerFunctionBody body n b = (True, c)" "items (mfunctions (module c)) ! n = g"
    "declares d (items (mfunctions (module b)) ! n)" "mscope (module b) = t"
    "params g = params (items (mfunctions (module b)) ! n)" "fname g = fname (items (mfunctions (module b)) ! n)"
    "return_type g = return_type (items (mfunctions (module b)) ! n)"
proof -
  obtain n b c body where k: "defined_body d = Some body" "module_inv n b" "n < function_count b"
    "irBuilderLowerFunctionBody body n b = (True, c)" "items (mfunctions (module c)) ! n = g"
    "declares d (items (mfunctions (module b)) ! n)" "mscope (module b) = t"
    using assms by (auto simp only: compiled_def)
  obtain e where e: "c = put_function n e" "left (entered n b) {} e" by (rule function_body_parts [OF k(2-4)])
  have x: "builder_ext (entered n b) e" using e(2) by (simp add: left_def)
  then have "mfunctions (module e) = mfunctions (module b)" by (simp add: builder_ext_def entered_same)
  then have "g = (current_fun e)\<lparr>fscope := hd (current_scope e)\<rparr>" using k(3,5) by (simp add: e(1) put_function_def Let_def)
  then have "params g = params (current_fun (entered n b))" "fname g = fname (current_fun (entered n b))"
    "return_type g = return_type (current_fun (entered n b))"
    using x by (simp_all add: builder_ext_def extends_def)
  then show thesis using that [OF k] entered_facts(5-7) [OF k(2,3)] by simp
qed

lemma compiled_named: "compiled t d g \<Longrightarrow> decl_name d = Some (fname g)"
  by (erule compiled_same) (cases d; simp)

lemma function_node_in: "function_node f ds = Some (ps, body, r, ext) \<Longrightarrow> \<exists>l. AST_FUNC_DECL l f ps body r ext \<in> set ds"
  by (induction ds) (auto split: ast.splits if_splits)

lemma list_all2_left: "list_all2 P xs ys \<Longrightarrow> x \<in> set xs \<Longrightarrow> \<exists>y \<in> set ys. P x y"
  and list_all2_right: "list_all2 P xs ys \<Longrightarrow> y \<in> set ys \<Longrightarrow> \<exists>x \<in> set xs. P x y"
  by (induction rule: list_all2_induct) auto

lemma function_found:
  assumes b: "build ds = (True, b)" and d: "d \<in> set ds" "d = AST_FUNC_DECL l f ps body r ext"
  shows "if ext then function_named (module b) f = None
    else \<exists>g. function_named (module b) f = Some g \<and> compiled (mscope (module b)) d g"
proof -
  note p = built_parts [OF b]
  have same: "d' = d \<and> \<not> ext" if "g \<in> set (items (mfunctions (module b)))" "fname g = f" "d' \<in> set ds" "defined_body d' \<noteq> None"
      "compiled (mscope (module b)) d' g" for d' g
  proof -
    have "d' = d" using p(2) [OF that(3) d(1)] compiled_named [OF that(5)] that(2) by (simp add: d(2))
    then show ?thesis using that(4) d(2) by (auto simp: defined_body_def)
  qed
  have some: "\<exists>d' \<in> set ds. defined_body d' \<noteq> None \<and> compiled (mscope (module b)) d' g"
    if "g \<in> set (items (mfunctions (module b)))" for g
    using list_all2_right [OF p(3) that] by auto
  show ?thesis
  proof (cases ext)
    case True
    then have "fname g \<noteq> f" if "g \<in> set (items (mfunctions (module b)))" for g
      using some [OF that] same [OF that] by blast
    then show ?thesis using True by (simp add: function_named_def find_None_iff)
  next
    case False
    then have "d \<in> set (filter (\<lambda>d. defined_body d \<noteq> None) ds)" using d by (simp add: defined_body_def)
    then obtain g where g: "g \<in> set (items (mfunctions (module b)))" "compiled (mscope (module b)) d g"
      using list_all2_left [OF p(3)] by blast
    then have "fname g = f" using compiled_named [OF g(2)] d(2) by simp
    then have "function_named (module b) f \<noteq> None" using g(1) by (auto simp: function_named_def find_None_iff)
    then obtain g' where g': "function_named (module b) f = Some g'" by blast
    then have i: "g' \<in> set (items (mfunctions (module b)))" "fname g' = f"
      by (auto simp: function_named_def find_Some_iff)
    obtain d' where "d' \<in> set ds" "defined_body d' \<noteq> None" "compiled (mscope (module b)) d' g'" using some [OF i(1)] by blast
    then have "compiled (mscope (module b)) d g'" using same [OF i] by blast
    then show ?thesis using g' False by simp
  qed
qed

section \<open>Calls\<close>

text \<open>The programs the result is about: bodies that the statements' result covers, no global
  pointer that starts as a string.\<close>

definition file_names :: "ast list \<Rightarrow> string set" where
  "file_names ds = set (concat (map (\<lambda>d. case d of AST_VAR_DECL l x t i \<Rightarrow> [x] | _ \<Rightarrow> []) ds))"

fun clean_declaration :: "string set \<Rightarrow> ast \<Rightarrow> bool" where
  "clean_declaration V (AST_FUNC_DECL l x ps body r ext) = (ext \<or> clean (V \<union> set (map param_name ps)) body)"
| "clean_declaration V (AST_VAR_DECL l x t i) = (node_ty t = None \<or> \<not> is_string_literal i)"
| "clean_declaration V d = True"

definition clean_program :: "ast list \<Rightarrow> bool" where
  "clean_program ds \<longleftrightarrow> list_all (clean_declaration (file_names ds)) ds"

lemma those_Some: "those xs = Some ys \<longleftrightarrow> xs = map Some ys"
  by (induction xs arbitrary: ys) (auto split: option.splits)

lemma bind_params_length: "bind_params ps vs \<rho> h = Some p \<Longrightarrow> length vs = length ps"
proof (induction ps arbitrary: vs \<rho> h)
  case (Cons q ps)
  obtain \<rho>' h' where p: "p = (\<rho>', h')" by fastforce
  from Cons show ?case unfolding p by (elim bind_params_ConsE) simp
next
  case Nil
  then show ?case by (cases vs) simp_all
qed

lemma bind_params_dom: "bind_params ps vs \<rho> h = Some (\<rho>', h') \<Longrightarrow> dom \<rho>' \<subseteq> dom \<rho> \<union> set (map param_name ps)"
proof (induction ps arbitrary: vs \<rho> h)
  case (Cons q ps)
  obtain l x t v ws h1 where "q = AST_PARAM l x t" "bind_params ps ws (\<rho>(x := Some (length h, type_of v))) h1 = Some (\<rho>', h')"
    by (rule bind_params_ConsE [OF Cons.prems])
  with Cons.IH [OF this(2)] show ?case by (auto simp: param_name_def)
next
  case Nil
  then show ?case by (cases vs) simp_all
qed

lemma bind_params_types:
  "bind_params ps vs \<rho> h = Some (\<rho>', h') \<Longrightarrow> typed_params ps = Some qs \<Longrightarrow>
   map (\<lambda>p. ir_ty (ptype p)) qs = map (\<lambda>v. Some (type_of v)) vs"
proof (induction ps arbitrary: vs \<rho> h qs)
  case (Cons q ps)
  obtain l x t v ws h1 where q: "q = AST_PARAM l x t" "vs = v # ws" "node_ty t = Some (type_of v)"
    "bind_params ps ws (\<rho>(x := Some (length h, type_of v))) h1 = Some (\<rho>', h')"
    by (rule bind_params_ConsE [OF Cons.prems(1)])
  then obtain u rs where "irBuilderTypeFromAst t = Some u" "typed_params ps = Some rs" "qs = \<lparr>pname = x, ptype = u\<rparr> # rs"
    using Cons.prems(2) by (auto split: option.splits)
  then show ?case using Cons.IH [OF q(4)] node_type_of [OF q(3)] q(2) by simp
next
  case Nil
  then show ?case by (cases vs) simp_all
qed

lemma result_type:
  assumes "result_fits r q" "irBuilderTypeFromAst r = Some t"
  shows "case q of None \<Rightarrow> t = IR_TYPE_VOID | Some v \<Rightarrow> ir_ty t = Some (type_of v)"
  using assms node_type_of [of r _ t]
  by (cases q) (auto simp: result_fits_def is_void_def irBuilderTypeFromAst.simps split: ast.splits)

lemma file_scope_var:
  "file_scope w ds x = Some (a, c) \<Longrightarrow> \<exists>l t i. AST_VAR_DECL l x t i \<in> set ds \<and> node_ty t = Some c \<and> cells w x = Some a"
  by (induction ds) (auto split: ast.splits if_splits option.splits)

lemma file_scope_dom: "dom (file_scope w ds) \<subseteq> file_names ds"
proof
  fix x assume "x \<in> dom (file_scope w ds)"
  then obtain a c where "file_scope w ds x = Some (a, c)" by auto
  then obtain l t i where "AST_VAR_DECL l x t i \<in> set ds" using file_scope_var by blast
  then show "x \<in> file_names ds"
    unfolding file_names_def set_concat set_map image_image by (rule UN_I) simp
qed

lemma file_scope_ok:
  assumes b: "build ds = (True, b)" and c: "clean_program ds" and A: "amodule A = module b" "aworld A = w"
    and l: "\<And>x. irScopeLookup sc x = global_symbol (module b) x"
  shows "env_ok A n sc r (file_scope w ds)"
  unfolding env_ok_def
proof (intro allI impI)
  fix x a t assume "file_scope w ds x = Some (a, t)"
  then obtain l' t' i where d: "AST_VAR_DECL l' x t' i \<in> set ds" "node_ty t' = Some t" "cells w x = Some a"
    using file_scope_var by blast
  have "\<not> is_string_literal i" using c d(1,2) by (auto simp: clean_program_def list_all_iff)
  then obtain u where u: "irBuilderTypeFromAst t' = Some u" and k: "global_known (module b) x u"
    using built_parts(1) [OF b d(1)] unfolding known_in.simps by blast
  obtain k g where g: "global_symbol (module b) x = Some (irSymbolCreateGlobal x u k)"
    "find (\<lambda>g. gid g = k) (items (globals (module b))) = Some g" "gname g = x" "gtype g = u"
    using k by (auto simp only: global_known_def)
  have t: "ir_ty u = Some t" by (rule node_type_of [OF d(2) u])
  then have "global_pointer (amodule A) (aworld A) k = Some (VPointer t a)"
    using g(2-4) d(3) by (simp add: global_pointer_def A)
  then have "symbol_ok A n r (irSymbolCreateGlobal x u k) a t"
    using t by (simp add: symbol_ok_def irSymbolCreateGlobal_def)
  then show "\<exists>s. irScopeLookup sc x = Some s \<and> symbol_ok A n r s a t" using g(1) by (simp add: l)
qed

section \<open>Every call\<close>

text \<open>One call, given the calls it makes.\<close>

lemma defined_call:
  assumes b: "build ds = (True, b)" and c: "clean_program ds"
    and calls: "\<And>A. amodule A = module b \<Longrightarrow> aworld A = w \<Longrightarrow> calls_ok A (mscope (module b)) call"
    and d: "AST_FUNC_DECL l f ps body r False \<in> set ds"
    and bind: "bind_params ps vs (file_scope w ds) h = Some (\<rho>, h1)"
    and ev: "exec_body call m \<rho> body h1 = Some (p, h')"
    and q: "p = Next \<and> is_void r \<and> q = None \<or> p = Left q \<and> result_fits r q"
  shows "returns (module b) w f vs h q h'"
proof -
  obtain g where g: "function_named (module b) f = Some g" "compiled (mscope (module b)) (AST_FUNC_DECL l f ps body r False) g"
    using function_found [OF b d refl] by auto
  let ?d = "AST_FUNC_DECL l f ps body r False"
  obtain n b' c' body' where k0: "defined_body ?d = Some body'" "module_inv n b'" "n < function_count b'"
    "irBuilderLowerFunctionBody body' n b' = (True, c')" "items (mfunctions (module c')) ! n = g"
    "declares ?d (items (mfunctions (module b')) ! n)" "mscope (module b') = mscope (module b)"
    "params g = params (items (mfunctions (module b')) ! n)" "fname g = fname (items (mfunctions (module b')) ! n)"
    "return_type g = return_type (items (mfunctions (module b')) ! n)"
    by (rule compiled_same [OF g(2)])
  have body: "body' = body" using k0(1) by (simp add: defined_body_def)
  have types: "irBuilderTypeFromAst r = Some (return_type g)" "typed_params ps = Some (params g)"
    using k0(6) by (simp_all add: k0(8,10))
  note k = k0(2,3) k0(4) [unfolded body] k0(5,7,8,10) types
  define A where "A = \<lparr>amodule = module b, aworld = w, afun = g, aargs = vs\<rparr>"
  have A: "amodule A = module b" "aworld A = w" "afun A = g" "aargs A = vs" by (simp_all add: A_def)
  let ?e = "entered n b'"
  have "irScopeLookup (current_scope ?e) x = global_symbol (module b) x" for x
    using entered_lookup [OF k(1,2)] by (simp add: k(5) del: irScopeLookup.simps)
  then have "env_ok A (slots ?e) (current_scope ?e) Map.empty (file_scope w ds)" by (rule file_scope_ok [OF b c A(1,2)])
  moreover have "calls_ok A (mscope (module ?e)) call" using calls [OF A(1,2)] by (simp add: entered_same k(5))
  ultimately have at: "at A call (file_scope w ds) ?e Map.empty" using entered_inv(1) [OF k(1,2)] by (simp add: at_def)
  let ?V = "file_names ds \<union> set (map param_name ps)"
  have V: "clean ?V body" "dom \<rho> \<subseteq> ?V"
    using c d bind_params_dom [OF bind] file_scope_dom [of w ds] by (auto simp: clean_program_def list_all_iff)
  have "p = Next \<and> return_type (afun A) = IR_TYPE_VOID \<and> q = None \<or> p = Left q \<and> fits (afun A) q"
    using q result_type [OF _ k(8), of q] result_type [of r None, OF _ k(8)] by (auto simp: A(3) fits_def result_fits_def)
  from function_runs [OF k(1-3) _ _ at _ V ev _ this]
  have "runs A (entry_code (afun A)) Map.empty h q h'" using k bind by (simp add: A)
  then show ?thesis
    using call_defined [OF g(1) bind_params_types [OF bind k(9)]] by (simp add: A_def)
qed

lemma program_calls:
  assumes b: "build ds = (True, b)" and c: "clean_program ds"
  shows "amodule A = module b \<Longrightarrow> aworld A = w \<Longrightarrow> invoke ds w n f vs h = Some (q, h') \<Longrightarrow>
    call_ok A (mscope (module b)) f vs h q h'"
proof (induction n arbitrary: A f vs h q h')
  case (Suc n)
  obtain ps body r ext where node: "function_node f ds = Some (ps, body, r, ext)" using Suc.prems(3) by (auto split: option.splits)
  obtain l where d: "AST_FUNC_DECL l f ps body r ext \<in> set ds" using function_node_in [OF node] by blast
  have fits: "result_fits r q" and length: "length vs = length ps" and call: "returns (module b) w f vs h q h'"
  proof -
    have "result_fits r q \<and> length vs = length ps \<and> returns (module b) w f vs h q h'"
    proof (cases ext)
      case True
      then have "extern w f vs h = Some (q, h')" "result_fits r q" "bind_params ps vs Map.empty [] \<noteq> None"
        using Suc.prems(3) node by (auto simp: param_types_fit_def split: option.splits if_splits)
      moreover have "function_named (module b) f = None" using function_found [OF b d refl] True by simp
      ultimately show ?thesis using call_extern bind_params_length by blast
    next
      case False
      then have d': "AST_FUNC_DECL l f ps body r False \<in> set ds" using d by simp
      obtain \<rho> h1 p where bind: "bind_params ps vs (file_scope w ds) h = Some (\<rho>, h1)"
        and ev: "exec_body (invoke ds w n) n \<rho> body h1 = Some (p, h')"
        and p: "p = Next \<and> is_void r \<and> q = None \<or> p = Left q \<and> result_fits r q"
        using Suc.prems(3) node False by (auto split: option.splits flow.splits if_splits)
      have "calls_ok A (mscope (module b)) (invoke ds w n)" if "amodule A = module b" "aworld A = w" for A
        using Suc.IH [OF that] by (simp add: calls_ok_def)
      then have "returns (module b) w f vs h q h'"
        by (rule defined_call [OF b c _ d' bind ev p])
      then show ?thesis using p bind_params_length [OF bind] by (auto simp: result_fits_def)
    qed
    then show "result_fits r q" "length vs = length ps" "returns (module b) w f vs h q h'" by simp_all
  qed
  obtain t ts where t: "irBuilderTypeFromAst r = Some t" "irBuilderCreateFunctionParamTypes ps = Some ts"
    "global_symbol (module b) f = Some (irSymbolCreateFunction f t ts)"
    using built_parts(1) [OF b d] by (auto simp only: known_in.simps function_known_def)
  have "length ts = length ps" using arg_cong [OF t(2) [unfolded irBuilderCreateFunctionParamTypes_def those_Some], of length] by simp
  then show ?case
    unfolding call_ok_def using t(3) length call result_type [OF fits t(1)] Suc.prems(1,2)
    by (intro exI [of _ "irSymbolCreateFunction f t ts"]) (simp add: symbol_params_def irSymbolCreateFunction_def
        del: irScopeLookup.simps split: option.splits)
qed simp

lemma call_compiled:
  assumes "irBuildModule (AST_PROGRAM l ds) es = Some m" "clean_program ds" "invoke ds w n f vs h = Some (q, h')"
  shows "returns m w f vs h q h'"
proof -
  obtain b where b: "build ds = (True, b)" "m = module b"
    using assms(1) by (auto simp: irBuildModule_def split: if_splits prod.splits)
  have "call_ok \<lparr>amodule = m, aworld = w, afun = undefined, aargs = []\<rparr> (mscope (module b)) f vs h q h'"
    by (rule program_calls [OF b(1) assms(2) _ _ assms(3)]) (simp_all add: b(2))
  then show ?thesis by (auto simp: call_ok_def b(2) simp del: irScopeLookup.simps)
qed

end
