(* ===== verification/IrEval.thy ===== *)
theory IrEval
  imports IrModules
begin

text \<open>
  Equations that evaluate the lowering functions by the constructor of the node, so that modules
  are built by rewriting.
\<close>

lemmas collect_code [code] =
  irBuilderCollectStringLiterals.simps [of "AST_NULL", unfolded ast.case]
  irBuilderCollectStringLiterals.simps [of "AST_PROGRAM _ _", unfolded ast.case]
  irBuilderCollectStringLiterals.simps [of "AST_BLOCK _ _", unfolded ast.case]
  irBuilderCollectStringLiterals.simps [of "AST_VAR_DECL _ _ _ _", unfolded ast.case]
  irBuilderCollectStringLiterals.simps [of "AST_FUNC_DECL _ _ _ _ _ _", unfolded ast.case]
  irBuilderCollectStringLiterals.simps [of "AST_PARAM _ _ _", unfolded ast.case]
  irBuilderCollectStringLiterals.simps [of "AST_IF _ _ _ _", unfolded ast.case]
  irBuilderCollectStringLiterals.simps [of "AST_WHILE _ _ _", unfolded ast.case]
  irBuilderCollectStringLiterals.simps [of "AST_FOR _ _ _ _ _", unfolded ast.case]
  irBuilderCollectStringLiterals.simps [of "AST_RETURN _ _", unfolded ast.case]
  irBuilderCollectStringLiterals.simps [of "AST_BREAK _", unfolded ast.case]
  irBuilderCollectStringLiterals.simps [of "AST_CONTINUE _", unfolded ast.case]
  irBuilderCollectStringLiterals.simps [of "AST_EXPR_STMT _ _", unfolded ast.case]
  irBuilderCollectStringLiterals.simps [of "AST_ASSIGN _ _ _ _", unfolded ast.case]
  irBuilderCollectStringLiterals.simps [of "AST_BINARY _ _ _ _", unfolded ast.case]
  irBuilderCollectStringLiterals.simps [of "AST_UNARY _ _ _", unfolded ast.case]
  irBuilderCollectStringLiterals.simps [of "AST_CALL _ _ _", unfolded ast.case]
  irBuilderCollectStringLiterals.simps [of "AST_ARRAY_ACCESS _ _ _", unfolded ast.case]
  irBuilderCollectStringLiterals.simps [of "AST_ARRAY_LITERAL _ _", unfolded ast.case]
  irBuilderCollectStringLiterals.simps [of "AST_IDENTIFIER _ _", unfolded ast.case]
  irBuilderCollectStringLiterals.simps [of "AST_INT_LITERAL _ _", unfolded ast.case]
  irBuilderCollectStringLiterals.simps [of "AST_FLOAT_LITERAL _ _", unfolded ast.case]
  irBuilderCollectStringLiterals.simps [of "AST_CHAR_LITERAL _ _", unfolded ast.case]
  irBuilderCollectStringLiterals.simps [of "AST_STRING_LITERAL _ _", unfolded ast.case]
  irBuilderCollectStringLiterals.simps [of "AST_BOOL_LITERAL _ _", unfolded ast.case]
  irBuilderCollectStringLiterals.simps [of "AST_TYPE_NAME _ _ _", unfolded ast.case]
  irBuilderCollectStringLiterals.simps [of "AST_TYPE_ARRAY _ _ _", unfolded ast.case]
  irBuilderCollectStringLiterals.simps [of "AST_TYPE_POINTER _ _", unfolded ast.case]

lemmas lvalue_code [code] =
  irBuilderLowerLValue.simps [of "AST_NULL", unfolded ast.case]
  irBuilderLowerLValue.simps [of "AST_PROGRAM _ _", unfolded ast.case]
  irBuilderLowerLValue.simps [of "AST_BLOCK _ _", unfolded ast.case]
  irBuilderLowerLValue.simps [of "AST_VAR_DECL _ _ _ _", unfolded ast.case]
  irBuilderLowerLValue.simps [of "AST_FUNC_DECL _ _ _ _ _ _", unfolded ast.case]
  irBuilderLowerLValue.simps [of "AST_PARAM _ _ _", unfolded ast.case]
  irBuilderLowerLValue.simps [of "AST_IF _ _ _ _", unfolded ast.case]
  irBuilderLowerLValue.simps [of "AST_WHILE _ _ _", unfolded ast.case]
  irBuilderLowerLValue.simps [of "AST_FOR _ _ _ _ _", unfolded ast.case]
  irBuilderLowerLValue.simps [of "AST_RETURN _ _", unfolded ast.case]
  irBuilderLowerLValue.simps [of "AST_BREAK _", unfolded ast.case]
  irBuilderLowerLValue.simps [of "AST_CONTINUE _", unfolded ast.case]
  irBuilderLowerLValue.simps [of "AST_EXPR_STMT _ _", unfolded ast.case]
  irBuilderLowerLValue.simps [of "AST_ASSIGN _ _ _ _", unfolded ast.case]
  irBuilderLowerLValue.simps [of "AST_BINARY _ _ _ _", unfolded ast.case]
  irBuilderLowerLValue.simps [of "AST_UNARY _ _ _", unfolded ast.case]
  irBuilderLowerLValue.simps [of "AST_CALL _ _ _", unfolded ast.case]
  irBuilderLowerLValue.simps [of "AST_ARRAY_ACCESS _ _ _", unfolded ast.case]
  irBuilderLowerLValue.simps [of "AST_ARRAY_LITERAL _ _", unfolded ast.case]
  irBuilderLowerLValue.simps [of "AST_IDENTIFIER _ _", unfolded ast.case]
  irBuilderLowerLValue.simps [of "AST_INT_LITERAL _ _", unfolded ast.case]
  irBuilderLowerLValue.simps [of "AST_FLOAT_LITERAL _ _", unfolded ast.case]
  irBuilderLowerLValue.simps [of "AST_CHAR_LITERAL _ _", unfolded ast.case]
  irBuilderLowerLValue.simps [of "AST_STRING_LITERAL _ _", unfolded ast.case]
  irBuilderLowerLValue.simps [of "AST_BOOL_LITERAL _ _", unfolded ast.case]
  irBuilderLowerLValue.simps [of "AST_TYPE_NAME _ _ _", unfolded ast.case]
  irBuilderLowerLValue.simps [of "AST_TYPE_ARRAY _ _ _", unfolded ast.case]
  irBuilderLowerLValue.simps [of "AST_TYPE_POINTER _ _", unfolded ast.case]

lemmas rvalue_code [code] =
  irBuilderLowerRValue.simps [of "AST_NULL", unfolded ast.case]
  irBuilderLowerRValue.simps [of "AST_PROGRAM _ _", unfolded ast.case]
  irBuilderLowerRValue.simps [of "AST_BLOCK _ _", unfolded ast.case]
  irBuilderLowerRValue.simps [of "AST_VAR_DECL _ _ _ _", unfolded ast.case]
  irBuilderLowerRValue.simps [of "AST_FUNC_DECL _ _ _ _ _ _", unfolded ast.case]
  irBuilderLowerRValue.simps [of "AST_PARAM _ _ _", unfolded ast.case]
  irBuilderLowerRValue.simps [of "AST_IF _ _ _ _", unfolded ast.case]
  irBuilderLowerRValue.simps [of "AST_WHILE _ _ _", unfolded ast.case]
  irBuilderLowerRValue.simps [of "AST_FOR _ _ _ _ _", unfolded ast.case]
  irBuilderLowerRValue.simps [of "AST_RETURN _ _", unfolded ast.case]
  irBuilderLowerRValue.simps [of "AST_BREAK _", unfolded ast.case]
  irBuilderLowerRValue.simps [of "AST_CONTINUE _", unfolded ast.case]
  irBuilderLowerRValue.simps [of "AST_EXPR_STMT _ _", unfolded ast.case]
  irBuilderLowerRValue.simps [of "AST_ASSIGN _ _ _ _", unfolded ast.case]
  irBuilderLowerRValue.simps [of "AST_BINARY _ _ _ _", unfolded ast.case]
  irBuilderLowerRValue.simps [of "AST_UNARY _ _ _", unfolded ast.case]
  irBuilderLowerRValue.simps [of "AST_CALL _ _ _", unfolded ast.case]
  irBuilderLowerRValue.simps [of "AST_ARRAY_ACCESS _ _ _", unfolded ast.case]
  irBuilderLowerRValue.simps [of "AST_ARRAY_LITERAL _ _", unfolded ast.case]
  irBuilderLowerRValue.simps [of "AST_IDENTIFIER _ _", unfolded ast.case]
  irBuilderLowerRValue.simps [of "AST_INT_LITERAL _ _", unfolded ast.case]
  irBuilderLowerRValue.simps [of "AST_FLOAT_LITERAL _ _", unfolded ast.case]
  irBuilderLowerRValue.simps [of "AST_CHAR_LITERAL _ _", unfolded ast.case]
  irBuilderLowerRValue.simps [of "AST_STRING_LITERAL _ _", unfolded ast.case]
  irBuilderLowerRValue.simps [of "AST_BOOL_LITERAL _ _", unfolded ast.case]
  irBuilderLowerRValue.simps [of "AST_TYPE_NAME _ _ _", unfolded ast.case]
  irBuilderLowerRValue.simps [of "AST_TYPE_ARRAY _ _ _", unfolded ast.case]
  irBuilderLowerRValue.simps [of "AST_TYPE_POINTER _ _", unfolded ast.case]

lemmas statement_code [code] =
  irBuilderLowerStatement.simps [of "AST_NULL", unfolded ast.case]
  irBuilderLowerStatement.simps [of "AST_PROGRAM _ _", unfolded ast.case]
  irBuilderLowerStatement.simps [of "AST_BLOCK _ _", unfolded ast.case]
  irBuilderLowerStatement.simps [of "AST_VAR_DECL _ _ _ _", unfolded ast.case]
  irBuilderLowerStatement.simps [of "AST_FUNC_DECL _ _ _ _ _ _", unfolded ast.case]
  irBuilderLowerStatement.simps [of "AST_PARAM _ _ _", unfolded ast.case]
  irBuilderLowerStatement.simps [of "AST_IF _ _ _ _", unfolded ast.case]
  irBuilderLowerStatement.simps [of "AST_WHILE _ _ _", unfolded ast.case]
  irBuilderLowerStatement.simps [of "AST_FOR _ _ _ _ _", unfolded ast.case]
  irBuilderLowerStatement.simps [of "AST_RETURN _ _", unfolded ast.case]
  irBuilderLowerStatement.simps [of "AST_BREAK _", unfolded ast.case]
  irBuilderLowerStatement.simps [of "AST_CONTINUE _", unfolded ast.case]
  irBuilderLowerStatement.simps [of "AST_EXPR_STMT _ _", unfolded ast.case]
  irBuilderLowerStatement.simps [of "AST_ASSIGN _ _ _ _", unfolded ast.case]
  irBuilderLowerStatement.simps [of "AST_BINARY _ _ _ _", unfolded ast.case]
  irBuilderLowerStatement.simps [of "AST_UNARY _ _ _", unfolded ast.case]
  irBuilderLowerStatement.simps [of "AST_CALL _ _ _", unfolded ast.case]
  irBuilderLowerStatement.simps [of "AST_ARRAY_ACCESS _ _ _", unfolded ast.case]
  irBuilderLowerStatement.simps [of "AST_ARRAY_LITERAL _ _", unfolded ast.case]
  irBuilderLowerStatement.simps [of "AST_IDENTIFIER _ _", unfolded ast.case]
  irBuilderLowerStatement.simps [of "AST_INT_LITERAL _ _", unfolded ast.case]
  irBuilderLowerStatement.simps [of "AST_FLOAT_LITERAL _ _", unfolded ast.case]
  irBuilderLowerStatement.simps [of "AST_CHAR_LITERAL _ _", unfolded ast.case]
  irBuilderLowerStatement.simps [of "AST_STRING_LITERAL _ _", unfolded ast.case]
  irBuilderLowerStatement.simps [of "AST_BOOL_LITERAL _ _", unfolded ast.case]
  irBuilderLowerStatement.simps [of "AST_TYPE_NAME _ _ _", unfolded ast.case]
  irBuilderLowerStatement.simps [of "AST_TYPE_ARRAY _ _ _", unfolded ast.case]
  irBuilderLowerStatement.simps [of "AST_TYPE_POINTER _ _", unfolded ast.case]

end
