(* ===== verification/Samples.thy ===== *)
theory Samples
  imports IrEval Driver
begin

text \<open>
  Two programs the kernel compiles by evaluation: a recursive function from its tree to a module,
  and a source text through every phase to the assembly written.
\<close>

text \<open>\<^verbatim>\<open>func f(n::int) -> int { if (n > 0) { ret n + f(n - 1); } ret n; }\<close>\<close>

abbreviation int_node :: ast where
  "int_node \<equiv> AST_TYPE_NAME (1, 1) AST_TYPE_INT_KIND ''int''"

abbreviation n_node :: ast where
  "n_node \<equiv> AST_IDENTIFIER (1, 1) ''n''"

definition descent :: "ast list" where
  "descent =
     [AST_FUNC_DECL (1, 1) ''f'' [AST_PARAM (1, 1) ''n'' int_node]
        (AST_BLOCK (1, 1)
          [AST_IF (1, 1) (AST_BINARY (1, 1) AST_BINARY_GT n_node (AST_INT_LITERAL (1, 1) 0))
             (AST_BLOCK (1, 1)
               [AST_RETURN (1, 1) (AST_BINARY (1, 1) AST_BINARY_ADD n_node
                  (AST_CALL (1, 1) (AST_IDENTIFIER (1, 1) ''f'')
                    [AST_BINARY (1, 1) AST_BINARY_SUB n_node (AST_INT_LITERAL (1, 1) 1)]))])
             AST_NULL,
           AST_RETURN (1, 1) n_node])
        int_node False]"

lemma descent_builds: "irBuildModule (AST_PROGRAM (1, 1) descent) \<lparr>items = [], capacity = 0\<rparr> \<noteq> None"
  by code_simp

section \<open>From a text to assembly\<close>

definition identity_text :: string where
  "identity_text = ''func f(n::int)->int{ret n;}''"

definition identity_nodes :: "ast list" where
  "identity_nodes =
     [AST_FUNC_DECL (1, 1) ''f'' [AST_PARAM (1, 8) ''n'' (AST_TYPE_NAME (1, 11) AST_TYPE_INT_KIND ''int'')]
        (AST_BLOCK (1, 20) [AST_RETURN (1, 21) (AST_IDENTIFIER (1, 25) ''n'')])
        (AST_TYPE_NAME (1, 17) AST_TYPE_INT_KIND ''int'') False]"

definition identity_assembly :: string where
  "identity_assembly =
     ''define i32 @f(i32 %p1) {'' @ newline # ''bb1:'' @ newline # ''  %t1 = alloca i32'' @ newline
     # ''  store i32 %p1, i32* %t1'' @ newline # ''  %t2 = load i32, i32* %t1'' @ newline
     # ''  ret i32 %t2'' @ newline # ''}'' @ [newline]"

lemma identity_parses:
  "(case tokenizeString identity_text of
      Inl e \<Rightarrow> None
    | Inr ts \<Rightarrow> map_option fst (parserParseProgram (parserInit ts))) = Some (AST_PROGRAM (1, 1) identity_nodes)"
  by code_simp

lemma identity_run:
  "compileSourceStringToLlvmIr (\<lambda>path. True) identity_text ''f.ll''
   = Completed \<lparr>stdout = [], stderr = [], output_file = Written identity_assembly, succeeded = True\<rparr>"
  by code_simp

end
