(* ===== verification/CompilerCorrect.thy ===== *)
theory CompilerCorrect
  imports ProgramMeaning DriverProps Samples
begin

text \<open>
  The compiler against the meaning of its input: a call of a compiled function does what the
  source says, and nothing else; and so it is with the module whose text the driver writes.
\<close>

lemma built_root:
  assumes "irBuildModule root es = Some m"
  obtains l ds where "root = AST_PROGRAM l ds"
  using assms by (auto simp: irBuildModule_def split: ast.splits)

lemma parsed_identity: "accepted identity_text root \<Longrightarrow> root = AST_PROGRAM (1, 1) identity_nodes"
  using identity_parses by (auto simp: accepted_def)

text \<open>A world without functions or variables of its own.\<close>

abbreviation still :: world where
  "still \<equiv> \<lparr>cells = Map.empty, extern = (\<lambda>f vs h. None)\<rparr>"

lemma descent_clean: "clean_program descent"
  by (simp add: descent_def clean_program_def file_names_def param_name_def)

lemma descent_means:
  "invoke descent still 20 ''f'' [VInt 2] []
   = Some (Some (VInt 3), [(T_INT, Some (VInt 2)), (T_INT, Some (VInt 1)), (T_INT, Some (VInt 0))])"
  by code_simp

lemma identity_clean: "clean_program identity_nodes"
  by (simp add: identity_nodes_def clean_program_def file_names_def param_name_def)

lemma identity_means:
  "invoke identity_nodes still 20 ''f'' [VInt 7] [] = Some (Some (VInt 7), [(T_INT, Some (VInt 7))])"
  by code_simp

section \<open>Properties\<close>

text \<open>C1: in a module built from a program of the fragment, a call that the source gives a result
  returns, with that result and that heap, and with no other.\<close>

theorem compiled_call_agrees:
  assumes "irBuildModule (AST_PROGRAM l ds) es = Some m" "clean_program ds"
    and "invoke ds w n f vs h = Some (q, g)"
  shows "returns m w f vs h q' g' \<longleftrightarrow> q' = q \<and> g' = g"
proof -
  have "returns m w f vs h q g" by (rule call_compiled [OF assms])
  then show ?thesis using runs_deterministic(2) by auto
qed

theorem compiled_call_agrees_witness:
  "\<exists>m. irBuildModule (AST_PROGRAM (1, 1) descent) \<lparr>items = [], capacity = 0\<rparr> = Some m
     \<and> (\<forall>q g. returns m still ''f'' [VInt 2] [] q g \<longleftrightarrow>
          q = Some (VInt 3) \<and> g = [(T_INT, Some (VInt 2)), (T_INT, Some (VInt 1)), (T_INT, Some (VInt 0))])"
proof -
  obtain m where m: "irBuildModule (AST_PROGRAM (1, 1) descent) \<lparr>items = [], capacity = 0\<rparr> = Some m"
    using descent_builds by auto
  show ?thesis using m compiled_call_agrees [OF m descent_clean descent_means] by blast
qed

text \<open>C2: if a compilation writes a text, the text is that of the module built from the one tree
  the input parses to; and if that program is in the fragment, every call of it that the source
  gives a result ends in the module, with that result.\<close>

theorem written_calls_return:
  assumes "compileSourceStringToLlvmIr writable input path = Completed r" "output_file r = Written t"
  shows "\<exists>l ds m. accepted input (AST_PROGRAM l ds)
     \<and> irBuildModule (AST_PROGRAM l ds) growable_init = Some m \<and> irPrintModuleToString m = Some t
     \<and> (clean_program ds \<longrightarrow>
          (\<forall>w n f vs h q g. invoke ds w n f vs h = Some (q, g) \<longrightarrow> returns m w f vs h q g))"
proof -
  obtain root m where m: "accepted input root" "irBuildModule root growable_init = Some m" "irPrintModuleToString m = Some t"
    using run_cases [OF assms(1)] assms(2) by (auto simp: llvm_of_def)
  moreover obtain l ds where "root = AST_PROGRAM l ds" using built_root [OF m(2)] .
  ultimately show ?thesis using call_compiled by blast
qed

theorem written_calls_return_witness:
  "\<exists>m. irBuildModule (AST_PROGRAM (1, 1) identity_nodes) growable_init = Some m
     \<and> irPrintModuleToString m = Some identity_assembly
     \<and> returns m still ''f'' [VInt 7] [] (Some (VInt 7)) [(T_INT, Some (VInt 7))]"
  using written_calls_return [OF identity_run] parsed_identity identity_clean identity_means by fastforce

end
