(* ===== verification/Spec2Isabelle.thy ===== *)
theory Spec2Isabelle
  imports Lexer ParserStmtProps AstPrint IrLimits ParserGrammar CompilerCorrect
begin

text \<open>
  The PocScript compiler.  \<^verbatim>\<open>src/main.c\<close> reads a source file and
  \<^verbatim>\<open>src/compiler_driver.c\<close> runs the phases: the lexer makes tokens, the recursive
  descent parser a syntax tree with error recovery, the semantic analysis collects the
  declarations and validates the tree, the IR builder lowers the tree to a module of basic blocks,
  and the printer writes the module as LLVM assembly.

  Each theory models the C files named with it; definitions keep the C names.

  \<^item> \<open>Prelude\<close>, \<open>Numbers\<close>: growable arrays with their capacity, the string hash on 64-bit
    words, \<^verbatim>\<open>snprintf\<close> truncation, reading and printing of numbers.  A
    \<^verbatim>\<open>double\<close> is a mantissa and a binary exponent, rounded to nearest.
  \<^item> \<open>Regex\<close>, \<open>Token\<close>, \<open>Lexer\<close> (\<^verbatim>\<open>lexer/lexer.c\<close>): the patterns of the table by
    derivatives, tokens with their positions, the scanning loop.  The loop consumes a character
    at least per round, so it is total.  The lemmas show that it follows the table: first entry,
    longest match, positions, the shape of the list, and where it fails.
  \<^item> \<open>Ast\<close>, \<open>AstPrint\<close> (\<^verbatim>\<open>include/ast.h\<close>, \<^verbatim>\<open>parser/ast.c\<close>): the tree, the
    well-formed trees, and the textual tree with its array of 128 flags.
  \<^item> \<open>Parser\<close>, \<open>ParserStmt\<close> (\<^verbatim>\<open>parser/parser.c\<close>): every parsing and recovery
    function on a state of tokens, position, errors and panic flag.  Functions that call each
    other take fuel bounded by the tokens left; \<open>ParserContract\<close>, \<open>ParserProps\<close> and
    \<open>ParserStmtProps\<close> prove that the fuel is always enough, that a tree parsed without an error is
    well formed, and that the parser reads to the end marker.
  \<^item> \<open>Grammar\<close> states \<^verbatim>\<open>GRAMMAR.md\<close>, with four additions, as relations between token lists
    and trees;
    \<open>GrammarSound\<close> and \<open>GrammarStmtSound\<close> prove that what is parsed without an error is read so by
    the grammar, \<open>GrammarComplete\<close> and \<open>GrammarStmtComplete\<close> the converse, by the tokens each
    tree may start with and be followed by; \<open>ParserGrammar\<close> concludes that the parser decides the
    grammar, and that the driver goes on to generate code exactly for the texts whose lexemes are a
    program of it with a valid tree.  The additions are what the parser accepts and the document
    leaves out: function declarations as statements, character literals, targets of assignments in
    parentheses, \<^verbatim>\<open>void\<close> wherever a type may stand.
  \<^item> \<open>SemTypes\<close>, \<open>Scope\<close>, \<open>Semantic\<close>, \<open>Validate\<close> (\<^verbatim>\<open>semantic/*.c\<close>): types and their
    compatibility, hashed scopes as a locale \<open>symbol_table\<close> that the semantic and the IR tables
    interpret, the errors, the collection of declarations, the checker and the validation.
    \<open>TypingProps\<close>, \<open>ValidateProps\<close>, \<open>AnalyzerProps\<close>, \<open>CollectProps\<close> and \<open>FlowProps\<close> give typing
    rules and rules for statements, and prove that the checks decide them and that an accepted
    function returns on every path.  The rules are those of the code.  Where \<^verbatim>\<open>semantic/README.md\<close> is
    stricter they differ from it: integers pass for characters, also through a pointer (it asks for
    the exact pointee), in arguments and in the elements of arrays (it asks for equal elements);
    undeclared targets and other expressions of the error type pass; a jump in a nested function
    counts on the loops around it, so the theorem on returns is about functions of file scope.
    \<open>AnalyzerLimits\<close> evaluates a program for each of these.
  \<^item> \<open>IrCore\<close>, \<open>IrBuild\<close>, \<open>IrExpr\<close>, \<open>IrStmt\<close>, \<open>IrModules\<close> (\<^verbatim>\<open>ir/ir_core.c\<close>,
    \<^verbatim>\<open>ir_instr.c\<close>, \<^verbatim>\<open>ir_module.c\<close>, \<^verbatim>\<open>ir_scope.c\<close>,
    \<^verbatim>\<open>ir_builder_*.c\<close>): the data of the IR and every lowering function as a function on
    the builder's state.  A read through a null pointer sets the flag \<open>ub\<close>.  \<open>IrInv\<close>,
    \<open>IrExprProps\<close>, \<open>IrStmtProps\<close> and \<open>IrModuleProps\<close> prove that every module built is well formed:
    operands name results, parameters and globals that exist, with their types.  A global that a
    string initializes has the number of its string, so an operand with that number names both.
  \<^item> \<open>IrPrint\<close>, \<open>IrPrintProps\<close> (\<^verbatim>\<open>ir/ir_printer.c\<close>): the LLVM text and the dump; when the
    text is undefined, and that string constants read back.
  \<^item> \<open>Driver\<close>, \<open>DriverProps\<close> (\<^verbatim>\<open>compiler_driver.c\<close>, \<^verbatim>\<open>main.c\<close>): a run as a value
    (the streams, what became of the output file, the result), with the file system as two
    parameters, and what a run does in terms of the phases.
  \<^item> \<open>IrLimits\<close>: programs that are accepted but not translated, or not as written.

  The correctness of the translation has a specification of its own, written from the README and
  not from the C files:
  \<^item> \<open>Values\<close>: values, typed memory cells, and the operators, with 32-bit wrap-around and
    undefined quotients.
  \<^item> \<open>Meaning\<close>: an evaluator of source programs, for \<^verbatim>\<open>int\<close>,
    \<^verbatim>\<open>char\<close>, \<^verbatim>\<open>bool\<close> and pointers to variables.  Its fuel bounds the
    nesting of statements and calls and the rounds of loops; a program has a result if it has one
    for some fuel, so every terminating call is covered.
  \<^item> \<open>Machine\<close>: what the instructions of a module do, as an inductive relation on
    instruction lists and calls; it is deterministic.
  \<^item> \<open>ExprMeaning\<close>, \<open>StmtTidy\<close>, \<open>StmtMeaning\<close>, \<open>LoopMeaning\<close>, \<open>FunctionMeaning\<close>,
    \<open>ProgramMeaning\<close>: lowered expressions compute the value of their tree; a lowered statement
    leaves well-shaped blocks, jumps where its flow goes and leaves the variables in their slots;
    loops by induction on their rounds; functions with their parameters; and all functions of a
    program together, by induction on the fuel.
  \<^item> \<open>IrEval\<close>, \<open>Samples\<close>: equations to run the builder in the kernel, and two programs run
    through it, one of them from its text to its assembly.
  \<^item> \<open>CompilerCorrect\<close>: a call in the built module has exactly the result of the source
    call, for the module whose text the driver writes.

  That result is about programs for which \<open>clean_program\<close> holds: a local variable has a
  type of the evaluator and not the name of a variable, parameter or function visible where it is
  declared (blocks open no scope in the IR); there is no call in a dereferenced operand, which the
  builder may lower twice, nor on the right of a compound assignment; and no global pointer starts
  as a string.  Arrays, floats, strings and pointer arithmetic are built and proved well formed,
  but have no meaning in \<open>Meaning\<close>.

  Not modelled: the release of memory and the branches taken when memory is exhausted, the
  debug printers \<^verbatim>\<open>print\<close> and \<^verbatim>\<open>printInv\<close> of the lexer, and the wrap-around of
  the 32-bit id counters of the IR and of the lines and columns of tokens, natural numbers here.  The runtime under \<^verbatim>\<open>runtime/\<close>, the scripts and the
  tests are outside the compiler.
\<close>

end
